(* ===== verification/Prelude.thy ===== *)
theory Prelude
  imports Main "HOL-Library.Word" "HOL-Library.Finite_Map" "HOL-Library.Char_ord"
    "HOL-Library.List_Lexorder"
begin

text \<open>
  Shared vocabulary of the development: the machine integers of the Rust sources, byte strings,
  the pieces of the Rust standard library the sources call (\<open>i64::from_str\<close>,
  \<open>i64::to_string\<close>, \<open>String::from_utf8_lossy\<close>, the saturating and checked operations on
  \<open>i64\<close>), and generic lemmas on finite maps.

  Representation. A byte is a \<open>char\<close>, so \<open>Vec<u8>\<close>, \<open>&[u8]\<close>, \<open>String\<close> and \<open>&str\<close> are all
  \<open>string\<close>; a Rust \<open>String\<close> is one whose bytes are valid UTF-8. \<open>u64\<close> is \<open>64 word\<close>
  (arithmetic wraps, as in a release build), \<open>usize\<close> is \<open>nat\<close>, \<open>i64\<close> and \<open>isize\<close> are \<open>int\<close>
  with the range written out where an operation can leave it. A hash map is an \<open>fmap\<close>, a hash
  set an \<open>fset\<close>; the iteration order of a hash map is never a function of the map and is
  passed as an argument where a result depends on it.
\<close>

section \<open>Types and collections of facts\<close>

type_synonym bytes = string
type_synonym u64 = "64 word"
type_synonym i64 = int
type_synonym isize = int
type_synonym usize = nat

named_theorems op_defs "definitions of the executor's operations, unfolded together"
named_theorems data_defs "definitions of the data-structure operations, unfolded together"

text \<open>\<open>std::cmp::Ordering\<close>.\<close>

datatype ordering = Less | Equal | Greater

section \<open>Signed 64-bit arithmetic\<close>

abbreviation I64_MAX :: int where "I64_MAX \<equiv> 9223372036854775807"
abbreviation I64_MIN :: int where "I64_MIN \<equiv> - 9223372036854775808"

definition in_i64 :: "int \<Rightarrow> bool" where
  "in_i64 n \<longleftrightarrow> I64_MIN \<le> n \<and> n \<le> I64_MAX"

definition sat_i64 :: "int \<Rightarrow> int" where
  "sat_i64 n = (if n < I64_MIN then I64_MIN else if n > I64_MAX then I64_MAX else n)"

definition checked_add :: "int \<Rightarrow> int \<Rightarrow> int option" where
  "checked_add a b = (if in_i64 (a + b) then Some (a + b) else None)"

definition checked_neg :: "int \<Rightarrow> int option" where
  "checked_neg a = (if in_i64 (- a) then Some (- a) else None)"

text \<open>Wrap-around of a release build, and Rust's division, which truncates towards zero.\<close>

definition wrap_i64 :: "int \<Rightarrow> int" where
  "wrap_i64 n = (n + 2 ^ 63) mod 2 ^ 64 - 2 ^ 63"

definition quot_i64 :: "int \<Rightarrow> int \<Rightarrow> int" where
  "quot_i64 a b = sgn a * sgn b * (\<bar>a\<bar> div \<bar>b\<bar>)"

lemma in_i64_sat [simp]: "in_i64 (sat_i64 n)"
  by (simp add: in_i64_def sat_i64_def)

lemma sat_i64_id [simp]: "in_i64 n \<Longrightarrow> sat_i64 n = n"
  by (simp add: in_i64_def sat_i64_def)

lemma checked_add_Some: "checked_add a b = Some c \<longleftrightarrow> c = a + b \<and> in_i64 c"
  by (auto simp: checked_add_def)

lemma in_i64_wrap: "in_i64 (wrap_i64 n)"
proof -
  have "(n + 2 ^ 63) mod 2 ^ 64 < (2 ^ 64 :: int)" and "0 \<le> (n + 2 ^ 63) mod (2 ^ 64 :: int)"
    by simp_all
  then show ?thesis by (simp add: in_i64_def wrap_i64_def)
qed

lemma wrap_i64_id: "in_i64 n \<Longrightarrow> wrap_i64 n = n"
  by (simp add: in_i64_def wrap_i64_def)

lemma wrap_i64_sint: "wrap_i64 n = sint (word_of_int n :: u64)"
  by (simp add: wrap_i64_def sint_sbintrunc' signed_take_bit_eq_take_bit_shift take_bit_eq_mod)

section \<open>Unsigned 64-bit counters\<close>

lemma unat_u64_suc: "t \<noteq> - 1 \<Longrightarrow> unat (t + 1 :: u64) = Suc (unat t)"
  by (metis add.commute max_word_wrap unatSuc)

lemma u64_less_suc: "t \<noteq> - 1 \<Longrightarrow> (t :: u64) < t + 1"
  by (simp add: unat_u64_suc word_less_nat_alt)

lemma u64_less_sucI: "t \<noteq> - 1 \<Longrightarrow> (a :: u64) \<le> t \<Longrightarrow> a < t + 1"
  using u64_less_suc [of t] by simp

section \<open>Decimal numbers: \<open>to_string\<close> and \<open>parse::<i64>\<close>\<close>

definition digit_char :: "nat \<Rightarrow> char" where
  "digit_char d = char_of (48 + d)"

definition digit_val :: "char \<Rightarrow> nat option" where
  "digit_val c = (let v = (of_char c :: nat) in if 48 \<le> v \<and> v \<le> 57 then Some (v - 48) else None)"

fun show_nat :: "nat \<Rightarrow> string" where
  "show_nat n = (if n < 10 then [digit_char n] else show_nat (n div 10) @ [digit_char (n mod 10)])"

declare show_nat.simps [simp del]

definition show_int :: "int \<Rightarrow> string" where
  "show_int n = (if n < 0 then CHR ''-'' # show_nat (nat (- n)) else show_nat (nat n))"

fun parse_digits :: "nat \<Rightarrow> string \<Rightarrow> nat option" where
  "parse_digits acc [] = Some acc"
| "parse_digits acc (c # cs) =
     (case digit_val c of None \<Rightarrow> None | Some d \<Rightarrow> parse_digits (10 * acc + d) cs)"

text \<open>
  \<open>str::parse::<i64>\<close>: the empty string and a lone sign are errors, one leading sign is accepted,
  everything after it is a decimal digit, and a value out of range is an error.
\<close>

definition parse_i64 :: "string \<Rightarrow> int option" where
  "parse_i64 s =
     (case s of
        [] \<Rightarrow> None
      | c # cs \<Rightarrow>
          let neg = (c = CHR ''-'');
              ds = (if c = CHR ''-'' \<or> c = CHR ''+'' then cs else s)
          in if ds = [] then None
             else case parse_digits 0 ds of
                    None \<Rightarrow> None
                  | Some m \<Rightarrow> (let n = (if neg then - int m else int m)
                               in if in_i64 n then Some n else None))"

lemma digit_char_val: "d < 10 \<Longrightarrow> digit_val (digit_char d) = Some d"
  by (simp add: digit_val_def digit_char_def)

lemma digit_char_code: "d < 10 \<Longrightarrow> (of_char (digit_char d) :: nat) = 48 + d"
  by (simp add: digit_char_def)

lemma digit_char_not_sign:
  assumes "d < 10" shows "digit_char d \<noteq> CHR ''-''" "digit_char d \<noteq> CHR ''+''"
proof -
  have "(of_char CHR ''-'' :: nat) = 45" and "(of_char CHR ''+'' :: nat) = 43" by simp_all
  with digit_char_code [OF assms] show "digit_char d \<noteq> CHR ''-''" "digit_char d \<noteq> CHR ''+''"
    by auto
qed

lemma digit_chars [simp]:
  "digit_char 0 = CHR ''0''" "digit_char 1 = CHR ''1''" "digit_char (Suc 0) = CHR ''1''"
  "digit_char 2 = CHR ''2''" "digit_char 3 = CHR ''3''" "digit_char 4 = CHR ''4''"
  "digit_char 5 = CHR ''5''" "digit_char 6 = CHR ''6''" "digit_char 7 = CHR ''7''"
  "digit_char 8 = CHR ''8''" "digit_char 9 = CHR ''9''"
  by (simp_all add: digit_char_def char_of_def bit_0)

lemma parse_digits_append:
  "parse_digits acc (xs @ ys) = Option.bind (parse_digits acc xs) (\<lambda>a. parse_digits a ys)"
  by (induction xs arbitrary: acc) (auto split: option.splits)

lemma show_nat_ne [simp]: "show_nat n \<noteq> []"
  by (subst show_nat.simps) simp

lemma parse_show_nat: "parse_digits 0 (show_nat n) = Some n"
proof (induction n rule: show_nat.induct)
  case (1 n)
  show ?case
  proof (cases "n < 10")
    case True
    then show ?thesis by (subst show_nat.simps) (simp add: digit_char_val)
  next
    case False
    have "parse_digits 0 (show_nat n)
        = Option.bind (parse_digits 0 (show_nat (n div 10))) (\<lambda>a. parse_digits a [digit_char (n mod 10)])"
      by (subst show_nat.simps) (simp add: False parse_digits_append)
    with "1" False show ?thesis by (simp add: digit_char_val)
  qed
qed

lemma show_nat_hd: "\<exists>d cs. d < 10 \<and> show_nat n = digit_char d # cs"
proof (induction n rule: show_nat.induct)
  case (1 n)
  then show ?case
    by (cases "n < 10") (force simp: show_nat.simps [of n])+
qed

lemma show_nat_digits: "c \<in> set (show_nat n) \<Longrightarrow> \<exists>d<10. c = digit_char d"
proof (induction n rule: show_nat.induct)
  case (1 n)
  then show ?case
    by (cases "n < 10") (auto simp: show_nat.simps [of n] intro: exI [of _ "n mod 10"])
qed

lemma parse_show_int: "in_i64 n \<Longrightarrow> parse_i64 (show_int n) = Some n"
proof (cases "n < 0")
  case True
  assume "in_i64 n"
  with True show ?thesis
    by (simp add: parse_i64_def show_int_def parse_show_nat)
next
  case False
  assume r: "in_i64 n"
  obtain d cs where d: "d < 10" "show_nat (nat n) = digit_char d # cs"
    using show_nat_hd by blast
  have "parse_digits 0 (digit_char d # cs) = Some (nat n)"
    using parse_show_nat [of "nat n"] d(2) by simp
  with False r d digit_char_not_sign [OF d(1)] show ?thesis
    by (simp add: parse_i64_def show_int_def)
qed

section \<open>\<open>String::from_utf8_lossy\<close>\<close>

text \<open>
  The scanner behind \<open>from_utf8_lossy\<close> looks at the next sequence of a non-empty input: the pair
  says whether it is a well-formed UTF-8 scalar and how many bytes it takes. A byte that does
  not exist reads as 0. An ill-formed sequence stops before its first unacceptable byte.
\<close>

definition byte_at :: "bytes \<Rightarrow> nat \<Rightarrow> nat" where
  "byte_at s i = (if i < length s then of_char (s ! i) else 0)"

definition is_cont :: "nat \<Rightarrow> bool" where
  "is_cont b \<longleftrightarrow> 128 \<le> b \<and> b \<le> 191"

definition second_ok :: "nat \<Rightarrow> nat \<Rightarrow> bool" where
  "second_ok a b \<longleftrightarrow>
     (if a = 224 then 160 \<le> b \<and> b \<le> 191
      else if a = 237 then 128 \<le> b \<and> b \<le> 159
      else if a = 240 then 144 \<le> b \<and> b \<le> 191
      else if a = 244 then 128 \<le> b \<and> b \<le> 143
      else is_cont b)"

definition utf8_step :: "bytes \<Rightarrow> bool \<times> nat" where
  "utf8_step s =
     (let a = byte_at s 0; b = byte_at s 1; c = byte_at s 2; d = byte_at s 3 in
      if a < 128 then (True, 1)
      else if 194 \<le> a \<and> a \<le> 223 then (if is_cont b then (True, 2) else (False, 1))
      else if 224 \<le> a \<and> a \<le> 239 then
        (if \<not> second_ok a b then (False, 1) else if is_cont c then (True, 3) else (False, 2))
      else if 240 \<le> a \<and> a \<le> 244 then
        (if \<not> second_ok a b then (False, 1)
         else if \<not> is_cont c then (False, 2)
         else if is_cont d then (True, 4) else (False, 3))
      else (False, 1))"

definition replacement :: bytes where
  "replacement = [CHR 0xEF, CHR 0xBF, CHR 0xBD]"

lemma utf8_step_pos: "0 < snd (utf8_step s)"
  by (simp add: utf8_step_def Let_def)

function utf8_lossy :: "bytes \<Rightarrow> bytes" where
  "utf8_lossy s =
     (if s = [] then []
      else (if fst (utf8_step s) then take (snd (utf8_step s)) s else replacement)
           @ utf8_lossy (drop (snd (utf8_step s)) s))"
  by pat_completeness auto
termination
  by (relation "measure length") (auto simp: utf8_step_pos)

function utf8_valid :: "bytes \<Rightarrow> bool" where
  "utf8_valid s =
     (if s = [] then True
      else if fst (utf8_step s) then utf8_valid (drop (snd (utf8_step s)) s) else False)"
  by pat_completeness auto
termination
  by (relation "measure length") (auto simp: utf8_step_pos)

declare utf8_lossy.simps [simp del] utf8_valid.simps [simp del]

lemma utf8_lossy_Nil [simp]: "utf8_lossy [] = []"
  by (subst utf8_lossy.simps) simp

lemma utf8_valid_Nil [simp]: "utf8_valid []"
  by (subst utf8_valid.simps) simp

lemma utf8_lossy_valid: "utf8_valid s \<Longrightarrow> utf8_lossy s = s"
proof (induction s rule: utf8_valid.induct)
  case (1 s)
  then show ?case
    by (subst utf8_lossy.simps) (auto simp: utf8_valid.simps [of s])
qed

definition ascii :: "bytes \<Rightarrow> bool" where
  "ascii s \<longleftrightarrow> list_all (\<lambda>c. (of_char c :: nat) < 128) s"

lemma utf8_step_ascii: "(of_char c :: nat) < 128 \<Longrightarrow> utf8_step (c # s) = (True, 1)"
  by (simp add: utf8_step_def Let_def byte_at_def)

lemma utf8_valid_ascii: "ascii s \<Longrightarrow> utf8_valid s"
  by (induction s) (auto simp: ascii_def utf8_step_ascii utf8_valid.simps [of "_ # _"])

lemma utf8_lossy_ascii [simp]: "ascii s \<Longrightarrow> utf8_lossy s = s"
  by (simp add: utf8_lossy_valid utf8_valid_ascii)

lemma digit_char_ascii: "d < 10 \<Longrightarrow> (of_char (digit_char d) :: nat) < 128"
  by (simp add: digit_char_code)

lemma ascii_show_nat: "ascii (show_nat n)"
  by (auto simp: ascii_def list_all_iff dest!: show_nat_digits intro: digit_char_ascii)

lemma ascii_show_int [simp]: "ascii (show_int n)"
  using ascii_show_nat by (simp add: show_int_def ascii_def)

section \<open>Finite maps\<close>

lemma fmupd_same [simp]: "fmlookup m k = Some v \<Longrightarrow> fmupd k v m = m"
  by (rule fmap_ext) auto

lemma fmdrop_absent [simp]: "fmlookup m k = None \<Longrightarrow> fmdrop k m = m"
  by (rule fmap_ext) simp

lemma fmap_eq_iff: "m = n \<longleftrightarrow> (\<forall>k. fmlookup m k = fmlookup n k)"
  by (auto intro: fmap_ext)

text \<open>Merging two maps entry by entry, the shape of every CRDT merge over a hash map.\<close>

definition fmmerge :: "('v \<Rightarrow> 'v \<Rightarrow> 'v) \<Rightarrow> ('k, 'v) fmap \<Rightarrow> ('k, 'v) fmap \<Rightarrow> ('k, 'v) fmap" where
  "fmmerge f m n =
     m ++\<^sub>f fmmap_keys (\<lambda>k b. case fmlookup m k of Some a \<Rightarrow> f a b | None \<Rightarrow> b) n"

lemma fmlookup_fmmerge [simp]:
  "fmlookup (fmmerge f m n) k =
     (case (fmlookup m k, fmlookup n k) of
        (Some a, Some b) \<Rightarrow> Some (f a b) | (Some a, None) \<Rightarrow> Some a | (None, y) \<Rightarrow> y)"
  by (auto simp: fmmerge_def fmlookup_dom_iff split: option.splits)

lemma fmmerge_comm:
  assumes "\<And>k a b. fmlookup m k = Some a \<Longrightarrow> fmlookup n k = Some b \<Longrightarrow> f a b = f b a"
  shows "fmmerge f m n = fmmerge f n m"
  by (rule fmap_ext) (auto split: option.splits intro: assms)

lemma fmmerge_assoc:
  assumes "\<And>k a b c. fmlookup m k = Some a \<Longrightarrow> fmlookup n k = Some b \<Longrightarrow> fmlookup p k = Some c
      \<Longrightarrow> f (f a b) c = f a (f b c)"
  shows "fmmerge f (fmmerge f m n) p = fmmerge f m (fmmerge f n p)"
  by (rule fmap_ext) (auto split: option.splits intro: assms)

lemma fmmerge_idem:
  assumes "\<And>k a. fmlookup m k = Some a \<Longrightarrow> f a a = a"
  shows "fmmerge f m m = m"
  by (rule fmap_ext) (auto split: option.splits intro: assms)

lemma foldl_max: "foldl max a xs = Max (insert a (set xs))"
  for a :: "'a :: linorder"
proof (induction xs arbitrary: a)
  case (Cons x xs)
  then show ?case by (cases "xs = []") (simp_all add: max.assoc)
qed simp

end
