(* ===== verification/Crdt_Lattice.thy ===== *)
theory Crdt_Lattice
  imports Prelude
begin

text \<open>
  The conflict-free replicated data types of \<open>src/replication/lattice.rs\<close>: Lamport clocks, LWW
  registers, vector clocks, grow-only and positive-negative counters, grow-only sets and
  observed-remove sets. Each type has the operations of the source in the source's order,
  followed by the facts about them. The locale \<open>state_crdt\<close> is the contract the replication layer
  relies on (a merge that is commutative, associative and idempotent on a carrier); its one
  theorem says that replicas which have received the same states, in any order and any number
  of times, agree. Every type is an interpretation of it.
\<close>

section \<open>The contract of a state-based CRDT\<close>

locale state_crdt =
  fixes merge :: "'s \<Rightarrow> 's \<Rightarrow> 's" and carrier :: "'s set"
  assumes merge_closed: "a \<in> carrier \<Longrightarrow> b \<in> carrier \<Longrightarrow> merge a b \<in> carrier"
    and merge_comm: "a \<in> carrier \<Longrightarrow> b \<in> carrier \<Longrightarrow> merge a b = merge b a"
    and merge_assoc: "a \<in> carrier \<Longrightarrow> b \<in> carrier \<Longrightarrow> c \<in> carrier
      \<Longrightarrow> merge (merge a b) c = merge a (merge b c)"
    and merge_idem: "a \<in> carrier \<Longrightarrow> merge a a = a"
begin

lemma merge_left_comm: "a \<in> carrier \<Longrightarrow> b \<in> carrier \<Longrightarrow> c \<in> carrier
    \<Longrightarrow> merge a (merge b c) = merge b (merge a c)"
  using merge_assoc merge_comm by metis

lemmas merge_ac = merge_idem merge_assoc merge_comm merge_left_comm

definition below :: "'s \<Rightarrow> 's \<Rightarrow> bool" where
  "below a b \<longleftrightarrow> merge a b = b"

lemma below_refl: "a \<in> carrier \<Longrightarrow> below a a"
  by (simp add: below_def merge_idem)

lemma below_antisym: "a \<in> carrier \<Longrightarrow> b \<in> carrier \<Longrightarrow> below a b \<Longrightarrow> below b a \<Longrightarrow> a = b"
  using merge_comm by (metis below_def)

lemma below_trans:
  assumes "a \<in> carrier" "b \<in> carrier" "c \<in> carrier" "below a b" "below b c"
  shows "below a c"
  using assms merge_assoc by (metis below_def)

lemma below_merge: "a \<in> carrier \<Longrightarrow> b \<in> carrier \<Longrightarrow> below a (merge a b)"
  by (metis below_def merge_assoc merge_idem)

lemma merge_least:
  assumes "a \<in> carrier" "b \<in> carrier" "u \<in> carrier" "below a u" "below b u"
  shows "below (merge a b) u"
  using assms merge_assoc by (metis below_def)

lemma deliver_closed: "s \<in> carrier \<Longrightarrow> set xs \<subseteq> carrier \<Longrightarrow> foldl merge s xs \<in> carrier"
  by (induction xs arbitrary: s) (auto simp: merge_closed)

lemma deliver_upper:
  "s \<in> carrier \<Longrightarrow> set xs \<subseteq> carrier \<Longrightarrow> x \<in> insert s (set xs) \<Longrightarrow> below x (foldl merge s xs)"
proof (induction xs arbitrary: s x)
  case Nil
  then show ?case by (simp add: below_refl)
next
  case (Cons y ys)
  have c: "merge s y \<in> carrier" "y \<in> carrier" "s \<in> carrier"
    using Cons.prems by (auto simp: merge_closed)
  have up: "below (merge s y) (foldl merge (merge s y) ys)"
    using Cons c by auto
  have cl: "foldl merge (merge s y) ys \<in> carrier"
    using Cons.prems c by (auto intro: deliver_closed)
  consider "x = s" | "x = y" | "x \<in> set ys" using Cons.prems by auto
  then show ?case
  proof cases
    case 1
    then show ?thesis using below_trans [OF c(3,1) cl below_merge [OF c(3,2)] up] by simp
  next
    case 2
    have "below y (merge s y)" using below_merge [OF c(2,3)] merge_comm [OF c(2,3)] by simp
    then show ?thesis using below_trans [OF c(2,1) cl _ up] 2 by simp
  next
    case 3
    then show ?thesis using Cons.IH [OF c(1)] Cons.prems by auto
  qed
qed

lemma deliver_least:
  "s \<in> carrier \<Longrightarrow> set xs \<subseteq> carrier \<Longrightarrow> u \<in> carrier \<Longrightarrow> \<forall>x \<in> insert s (set xs). below x u
    \<Longrightarrow> below (foldl merge s xs) u"
  by (induction xs arbitrary: s) (auto simp: merge_closed merge_least)

text \<open>Strong eventual consistency: only the set of delivered states matters.\<close>

lemma deliver_converges:
  assumes "s \<in> carrier" "set xs \<subseteq> carrier" "set xs = set ys"
  shows "foldl merge s xs = foldl merge s ys"
proof (rule below_antisym)
  show cx: "foldl merge s xs \<in> carrier" and cy: "foldl merge s ys \<in> carrier"
    using assms by (auto intro: deliver_closed)
  show "below (foldl merge s xs) (foldl merge s ys)"
    using assms deliver_upper [of s ys] by (intro deliver_least [OF _ _ cy]) auto
  show "below (foldl merge s ys) (foldl merge s xs)"
    using assms deliver_upper [of s xs] by (intro deliver_least [OF _ _ cx]) auto
qed

lemma redelivery_absorbed:
  assumes "s \<in> carrier" "set xs \<subseteq> carrier" "x \<in> set xs"
  shows "merge (foldl merge s xs) x = foldl merge s xs"
  using deliver_upper [OF assms(1,2), of x] assms deliver_closed [OF assms(1,2)] merge_comm
  by (metis below_def insertCI subsetD)

end

section \<open>Lamport clocks\<close>

type_synonym replica_id = u64

datatype lamport_clock = LamportClock (time: u64) (replica_id: u64)

definition u64_cmp :: "u64 \<Rightarrow> u64 \<Rightarrow> ordering" where
  "u64_cmp a b = (if a < b then Less else if a = b then Equal else Greater)"

definition lc_new :: "replica_id \<Rightarrow> lamport_clock" where
  "lc_new r = LamportClock 0 r"

definition lc_tick :: "lamport_clock \<Rightarrow> lamport_clock" where
  "lc_tick c = LamportClock (time c + 1) (replica_id c)"

definition lc_update :: "lamport_clock \<Rightarrow> lamport_clock \<Rightarrow> lamport_clock" where
  "lc_update c other = LamportClock (max (time c) (time other) + 1) (replica_id c)"

definition lc_merge :: "lamport_clock \<Rightarrow> lamport_clock \<Rightarrow> lamport_clock" where
  "lc_merge c other = LamportClock (max (time c) (time other)) (replica_id c)"

definition lc_cmp :: "lamport_clock \<Rightarrow> lamport_clock \<Rightarrow> ordering" where
  "lc_cmp a b =
     (case u64_cmp (time a) (time b) of
        Equal \<Rightarrow> u64_cmp (replica_id a) (replica_id b) | o' \<Rightarrow> o')"

text \<open>\<open>Ord for LamportClock\<close>, as the order of the library.\<close>

instantiation lamport_clock :: linorder
begin

definition less_eq_lamport_clock :: "lamport_clock \<Rightarrow> lamport_clock \<Rightarrow> bool" where
  "less_eq_lamport_clock a b \<longleftrightarrow> lc_cmp a b \<noteq> Greater"

definition less_lamport_clock :: "lamport_clock \<Rightarrow> lamport_clock \<Rightarrow> bool" where
  "less_lamport_clock a b \<longleftrightarrow> lc_cmp a b = Less"

instance
  by standard
    (auto simp: less_eq_lamport_clock_def less_lamport_clock_def lc_cmp_def u64_cmp_def
      intro: lamport_clock.expand split: if_splits ordering.splits)

end

lemma lc_less_iff:
  "a < b \<longleftrightarrow> time a < time b \<or> time a = time b \<and> replica_id a < replica_id b"
  by (auto simp: less_lamport_clock_def lc_cmp_def u64_cmp_def)

lemma lc_tick_sel [simp]: "time (lc_tick c) = time c + 1" "replica_id (lc_tick c) = replica_id c"
  by (simp_all add: lc_tick_def)

text \<open>A tick and an update move strictly forward unless the counter is at its maximum.\<close>

lemma lc_tick_less: "time c \<noteq> - 1 \<Longrightarrow> c < lc_tick c"
  by (simp add: lc_less_iff u64_less_suc)

lemma lc_update_above:
  assumes "max (time c) (time d) \<noteq> - 1"
  shows "c < lc_update c d" "d < lc_update c d"
  using u64_less_suc [OF assms] by (auto simp: lc_less_iff lc_update_def max_def split: if_splits)

section \<open>Last-writer-wins registers\<close>

record 'a lww_register =
  lww_value :: "'a option"
  lww_timestamp :: lamport_clock
  lww_tombstone :: bool

definition lww_new :: "replica_id \<Rightarrow> 'a lww_register" where
  "lww_new r = \<lparr>lww_value = None, lww_timestamp = lc_new r, lww_tombstone = False\<rparr>"

definition lww_with_value :: "'a \<Rightarrow> lamport_clock \<Rightarrow> 'a lww_register" where
  "lww_with_value v ts = \<lparr>lww_value = Some v, lww_timestamp = ts, lww_tombstone = False\<rparr>"

definition lww_set :: "'a lww_register \<Rightarrow> 'a \<Rightarrow> lamport_clock \<Rightarrow> 'a lww_register \<times> lamport_clock" where
  "lww_set r v clock =
     (let ts = lc_tick clock
      in (r\<lparr>lww_value := Some v, lww_timestamp := ts, lww_tombstone := False\<rparr>, ts))"

definition lww_delete :: "'a lww_register \<Rightarrow> lamport_clock \<Rightarrow> 'a lww_register \<times> lamport_clock" where
  "lww_delete r clock =
     (let ts = lc_tick clock
      in (r\<lparr>lww_value := None, lww_timestamp := ts, lww_tombstone := True\<rparr>, ts))"

definition lww_merge :: "'a lww_register \<Rightarrow> 'a lww_register \<Rightarrow> 'a lww_register" where
  "lww_merge a b = (if lww_timestamp b > lww_timestamp a then b else a)"

definition lww_get :: "'a lww_register \<Rightarrow> 'a option" where
  "lww_get r = (if lww_tombstone r then None else lww_value r)"

definition lww_verify_invariants :: "'a lww_register \<Rightarrow> bool" where
  "lww_verify_invariants r \<longleftrightarrow>
     (lww_tombstone r \<longrightarrow> lww_get r = None) \<and>
     (\<not> lww_tombstone r \<and> lww_value r \<noteq> None \<longrightarrow> lww_get r \<noteq> None)"

lemma lww_invariants: "lww_verify_invariants r"
  by (simp add: lww_verify_invariants_def lww_get_def)

text \<open>
  Two registers with one timestamp come from one write: a replica ticks its own clock at every
  write, and the clock carries the replica's id. A history is therefore a function from
  timestamps to the register written there, and its registers are the carrier.
\<close>

definition lww_history :: "(lamport_clock \<Rightarrow> 'a lww_register) \<Rightarrow> 'a lww_register set" where
  "lww_history h = {r. r = h (lww_timestamp r)}"

lemma lww_history_unique:
  "a \<in> lww_history h \<Longrightarrow> b \<in> lww_history h \<Longrightarrow> lww_timestamp a = lww_timestamp b \<Longrightarrow> a = b"
  by (simp add: lww_history_def)

lemma lww_merge_timestamp: "lww_timestamp (lww_merge a b) = max (lww_timestamp a) (lww_timestamp b)"
  by (auto simp: lww_merge_def max_def)

interpretation lww: state_crdt lww_merge "lww_history h" for h :: "lamport_clock \<Rightarrow> 'a lww_register"
proof
  fix a b c :: "'a lww_register"
  assume a: "a \<in> lww_history h"
  then show "lww_merge a a = a" by (simp add: lww_merge_def)
  assume b: "b \<in> lww_history h"
  then show "lww_merge a b \<in> lww_history h" using a by (simp add: lww_merge_def)
  show "lww_merge a b = lww_merge b a"
    using lww_history_unique [OF a b] by (auto simp: lww_merge_def)
  assume "c \<in> lww_history h"
  show "lww_merge (lww_merge a b) c = lww_merge a (lww_merge b c)"
    by (auto simp: lww_merge_def)
qed

section \<open>Vector clocks\<close>

text \<open>
  \<open>entry(k).or_insert(0)\<close> followed by \<open>max\<close>, for every entry of the other map: the loop that
  \<open>VectorClock::merge\<close>, \<open>GCounter::merge\<close> and \<open>ORSet::merge\<close> share.
\<close>

type_synonym counts = "(replica_id, u64) fmap"

definition count_get :: "counts \<Rightarrow> replica_id \<Rightarrow> u64" where
  "count_get m r = (case fmlookup m r of Some c \<Rightarrow> c | None \<Rightarrow> 0)"

definition count_add :: "counts \<Rightarrow> replica_id \<Rightarrow> u64 \<Rightarrow> counts" where
  "count_add m r n = fmupd r (count_get m r + n) m"

definition max_entries :: "counts \<Rightarrow> counts \<Rightarrow> counts" where
  "max_entries m n = m ++\<^sub>f fmmap_keys (\<lambda>r c. max (count_get m r) c) n"

lemma max_entries_fmmerge: "max_entries m n = fmmerge max m n"
  by (rule fmap_ext)
    (auto simp: max_entries_def count_get_def fmlookup_dom_iff split: option.splits)

lemma max_entries_empty [simp]: "max_entries fmempty m = m"
  by (rule fmap_ext) (auto simp: max_entries_fmmerge split: option.splits)

lemma count_get_max_entries [simp]:
  "count_get (max_entries m n) r = max (count_get m r) (count_get n r)"
  by (auto simp: count_get_def max_entries_fmmerge split: option.splits)

lemma count_get_empty [simp]: "count_get fmempty r = 0"
  by (simp add: count_get_def)

lemma count_get_add [simp]:
  "count_get (count_add m r n) q = (if q = r then count_get m r + n else count_get m q)"
  by (simp add: count_get_def count_add_def)

interpretation cnt: state_crdt max_entries UNIV
proof
  fix a b c :: counts
  show "max_entries a a = a" by (simp add: max_entries_fmmerge fmmerge_idem)
  show "max_entries a b = max_entries b a"
    by (simp add: max_entries_fmmerge) (rule fmmerge_comm, simp add: max.commute)
  show "max_entries (max_entries a b) c = max_entries a (max_entries b c)"
    by (simp add: max_entries_fmmerge) (rule fmmerge_assoc, simp add: max.assoc)
qed simp

datatype vector_clock = VectorClock (clocks: counts)

definition vc_new :: vector_clock where
  "vc_new = VectorClock fmempty"

definition vc_increment :: "vector_clock \<Rightarrow> replica_id \<Rightarrow> vector_clock" where
  "vc_increment v r = VectorClock (count_add (clocks v) r 1)"

definition vc_get :: "vector_clock \<Rightarrow> replica_id \<Rightarrow> u64" where
  "vc_get v r = count_get (clocks v) r"

definition vc_merge :: "vector_clock \<Rightarrow> vector_clock \<Rightarrow> vector_clock" where
  "vc_merge a b = VectorClock (max_entries (clocks a) (clocks b))"

definition vc_happens_before :: "vector_clock \<Rightarrow> vector_clock \<Rightarrow> bool" where
  "vc_happens_before a b \<longleftrightarrow>
     \<not> (\<exists>r \<in> fmdom' (clocks a). vc_get a r > vc_get b r) \<and>
     ((\<exists>r \<in> fmdom' (clocks a). vc_get a r < vc_get b r) \<or>
      (\<exists>r \<in> fmdom' (clocks b). r \<notin> fmdom' (clocks a) \<and> vc_get b r > 0))"

definition vc_eq :: "vector_clock \<Rightarrow> vector_clock \<Rightarrow> bool" where
  "vc_eq a b \<longleftrightarrow>
     (\<forall>r \<in> fmdom' (clocks a). vc_get b r = vc_get a r) \<and>
     (\<forall>r \<in> fmdom' (clocks b). vc_get a r = vc_get b r)"

definition vc_concurrent_with :: "vector_clock \<Rightarrow> vector_clock \<Rightarrow> bool" where
  "vc_concurrent_with a b \<longleftrightarrow>
     \<not> vc_happens_before a b \<and> \<not> vc_happens_before b a \<and> \<not> vc_eq a b"

definition vc_verify_invariants :: "vector_clock \<Rightarrow> bool" where
  "vc_verify_invariants v \<longleftrightarrow>
     fmpred (\<lambda>r c. c > 0) (clocks v) \<and> fmpred (\<lambda>r c. vc_get v r = c) (clocks v)"

text \<open>
  A missing entry reads as 0, so the comparison of the source, which walks the stored entries,
  is the pointwise order of \<open>get\<close>.
\<close>

lemma vc_get_absent: "r \<notin> fmdom' (clocks v) \<Longrightarrow> vc_get v r = 0"
  by (auto simp: vc_get_def count_get_def split: option.splits intro: fmdom'I)

lemma vc_happens_before_iff:
  "vc_happens_before a b \<longleftrightarrow> (\<forall>r. vc_get a r \<le> vc_get b r) \<and> (\<exists>r. vc_get a r < vc_get b r)"
proof
  assume "vc_happens_before a b"
  then show "(\<forall>r. vc_get a r \<le> vc_get b r) \<and> (\<exists>r. vc_get a r < vc_get b r)"
    unfolding vc_happens_before_def using vc_get_absent [of _ a]
    by (metis linorder_not_less word_gt_0 word_zero_le)
next
  assume le: "(\<forall>r. vc_get a r \<le> vc_get b r) \<and> (\<exists>r. vc_get a r < vc_get b r)"
  then obtain r where r: "vc_get a r < vc_get b r" by blast
  then have "r \<in> fmdom' (clocks b)" using vc_get_absent [of r b] by fastforce
  with le r show "vc_happens_before a b"
    unfolding vc_happens_before_def using vc_get_absent [of r a]
    by (metis linorder_not_less)
qed

lemma vc_eq_iff: "vc_eq a b \<longleftrightarrow> (\<forall>r. vc_get a r = vc_get b r)"
  unfolding vc_eq_def using vc_get_absent [of _ a] vc_get_absent [of _ b] by metis

lemma vc_get_merge [simp]: "vc_get (vc_merge a b) r = max (vc_get a r) (vc_get b r)"
  by (simp add: vc_get_def vc_merge_def)

lemma vc_get_new [simp]: "vc_get vc_new r = 0"
  by (simp add: vc_get_def vc_new_def)

lemma vc_get_increment [simp]:
  "vc_get (vc_increment v r) q = (if q = r then vc_get v r + 1 else vc_get v q)"
  by (simp add: vc_get_def vc_increment_def)

lemma vc_increment_after: "vc_get v r \<noteq> - 1 \<Longrightarrow> vc_happens_before v (vc_increment v r)"
  by (auto simp: vc_happens_before_iff intro: order.strict_implies_order u64_less_suc)

lemma vc_invariants_new: "vc_verify_invariants vc_new"
  by (simp add: vc_verify_invariants_def vc_new_def)

lemma vc_invariants_increment:
  "vc_verify_invariants v \<Longrightarrow> vc_get v r \<noteq> - 1 \<Longrightarrow> vc_verify_invariants (vc_increment v r)"
  by (auto simp: vc_verify_invariants_def vc_increment_def vc_get_def fmpred_iff count_add_def
      count_get_def split: if_splits option.splits) (metis max_word_wrap word_gt_0)+

lemma vc_invariants_merge:
  "vc_verify_invariants a \<Longrightarrow> vc_verify_invariants b \<Longrightarrow> vc_verify_invariants (vc_merge a b)"
  by (auto simp: vc_verify_invariants_def vc_merge_def vc_get_def fmpred_iff count_get_def
      max_entries_fmmerge max_def split: if_splits option.splits)

interpretation vc: state_crdt vc_merge UNIV
  by unfold_locales
    (simp_all add: vc_merge_def cnt.merge_ac)

section \<open>Grow-only counters\<close>

datatype gcounter = GCounter (counts: counts)

definition gc_new :: gcounter where
  "gc_new = GCounter fmempty"

definition gc_increment :: "gcounter \<Rightarrow> replica_id \<Rightarrow> gcounter" where
  "gc_increment g r = GCounter (count_add (counts g) r 1)"

definition gc_increment_by :: "gcounter \<Rightarrow> replica_id \<Rightarrow> u64 \<Rightarrow> gcounter" where
  "gc_increment_by g r n = GCounter (count_add (counts g) r n)"

definition gc_value :: "gcounter \<Rightarrow> u64" where
  "gc_value g = (\<Sum>r \<in> fmdom' (counts g). count_get (counts g) r)"

definition gc_get_replica_count :: "gcounter \<Rightarrow> replica_id \<Rightarrow> u64" where
  "gc_get_replica_count g r = count_get (counts g) r"

definition gc_merge :: "gcounter \<Rightarrow> gcounter \<Rightarrow> gcounter" where
  "gc_merge a b = GCounter (max_entries (counts a) (counts b))"

definition gc_is_empty :: "gcounter \<Rightarrow> bool" where
  "gc_is_empty g \<longleftrightarrow> counts g = fmempty \<or> gc_value g = 0"

definition gc_eq :: "gcounter \<Rightarrow> gcounter \<Rightarrow> bool" where
  "gc_eq a b \<longleftrightarrow>
     (\<forall>r \<in> fmdom' (counts a) \<union> fmdom' (counts b).
        gc_get_replica_count a r = gc_get_replica_count b r)"

interpretation gc: state_crdt gc_merge UNIV
  by unfold_locales
    (simp_all add: gc_merge_def cnt.merge_ac)

lemma gc_value_superset:
  assumes "finite R" "fmdom' (counts g) \<subseteq> R"
  shows "gc_value g = (\<Sum>r \<in> R. gc_get_replica_count g r)"
  unfolding gc_value_def gc_get_replica_count_def
  by (rule sum.mono_neutral_left)
    (use assms in \<open>auto simp: count_get_def split: option.splits intro: fmdom'I\<close>)

lemma gc_value_increment_by: "gc_value (gc_increment_by g r n) = gc_value g + n"
proof -
  let ?R = "insert r (fmdom' (counts g))"
  have "gc_value (gc_increment_by g r n)
      = (\<Sum>q \<in> ?R. gc_get_replica_count (gc_increment_by g r n) q)"
    by (rule gc_value_superset) (auto simp: gc_increment_by_def count_add_def)
  also have "\<dots> = (\<Sum>q \<in> ?R. gc_get_replica_count g q + (if q = r then n else 0))"
    by (rule sum.cong) (auto simp: gc_get_replica_count_def gc_increment_by_def)
  also have "\<dots> = gc_value g + n"
    by (simp add: sum.distrib gc_value_superset [of ?R g] subset_insertI)
  finally show ?thesis .
qed

section \<open>Positive-negative counters\<close>

datatype pncounter = PNCounter (positive: gcounter) (negative: gcounter)

definition pn_new :: pncounter where
  "pn_new = PNCounter gc_new gc_new"

definition pn_increment :: "pncounter \<Rightarrow> replica_id \<Rightarrow> pncounter" where
  "pn_increment p r = PNCounter (gc_increment (positive p) r) (negative p)"

definition pn_decrement :: "pncounter \<Rightarrow> replica_id \<Rightarrow> pncounter" where
  "pn_decrement p r = PNCounter (positive p) (gc_increment (negative p) r)"

definition pn_increment_by :: "pncounter \<Rightarrow> replica_id \<Rightarrow> u64 \<Rightarrow> pncounter" where
  "pn_increment_by p r n = PNCounter (gc_increment_by (positive p) r n) (negative p)"

definition pn_decrement_by :: "pncounter \<Rightarrow> replica_id \<Rightarrow> u64 \<Rightarrow> pncounter" where
  "pn_decrement_by p r n = PNCounter (positive p) (gc_increment_by (negative p) r n)"

definition pn_value :: "pncounter \<Rightarrow> i64" where
  "pn_value p = wrap_i64 (sint (gc_value (positive p)) - sint (gc_value (negative p)))"

definition pn_merge :: "pncounter \<Rightarrow> pncounter \<Rightarrow> pncounter" where
  "pn_merge a b = PNCounter (gc_merge (positive a) (positive b)) (gc_merge (negative a) (negative b))"

definition pn_is_empty :: "pncounter \<Rightarrow> bool" where
  "pn_is_empty p \<longleftrightarrow> gc_is_empty (positive p) \<and> gc_is_empty (negative p)"

definition pn_eq :: "pncounter \<Rightarrow> pncounter \<Rightarrow> bool" where
  "pn_eq a b \<longleftrightarrow> gc_eq (positive a) (positive b) \<and> gc_eq (negative a) (negative b)"

interpretation pn: state_crdt pn_merge UNIV
  by unfold_locales
    (simp_all add: pn_merge_def gc.merge_ac)

section \<open>Grow-only sets\<close>

datatype 'a gset = GSet (gs_elements: "'a fset")

definition gs_new :: "'a gset" where
  "gs_new = GSet {||}"

definition gs_add :: "'a gset \<Rightarrow> 'a \<Rightarrow> 'a gset \<times> bool" where
  "gs_add s x = (GSet (finsert x (gs_elements s)), x |\<notin>| gs_elements s)"

definition gs_contains :: "'a gset \<Rightarrow> 'a \<Rightarrow> bool" where
  "gs_contains s x \<longleftrightarrow> x |\<in>| gs_elements s"

definition gs_len :: "'a gset \<Rightarrow> usize" where
  "gs_len s = fcard (gs_elements s)"

definition gs_is_empty :: "'a gset \<Rightarrow> bool" where
  "gs_is_empty s \<longleftrightarrow> gs_elements s = {||}"

definition gs_merge :: "'a gset \<Rightarrow> 'a gset \<Rightarrow> 'a gset" where
  "gs_merge a b = GSet (gs_elements a |\<union>| gs_elements b)"

definition gs_eq :: "'a gset \<Rightarrow> 'a gset \<Rightarrow> bool" where
  "gs_eq a b \<longleftrightarrow> gs_elements a = gs_elements b"

interpretation gs: state_crdt gs_merge UNIV
  by unfold_locales (auto simp: gs_merge_def)

section \<open>Observed-remove sets\<close>

datatype unique_tag = UniqueTag (tag_replica: replica_id) (sequence: u64)

record 'a orset =
  or_elements :: "('a, unique_tag fset) fmap"
  or_next_sequence :: counts

definition or_new :: "'a orset" where
  "or_new = \<lparr>or_elements = fmempty, or_next_sequence = fmempty\<rparr>"

definition or_tags :: "'a orset \<Rightarrow> 'a \<Rightarrow> unique_tag fset" where
  "or_tags s x = (case fmlookup (or_elements s) x of Some tags \<Rightarrow> tags | None \<Rightarrow> {||})"

definition or_add :: "'a orset \<Rightarrow> 'a \<Rightarrow> replica_id \<Rightarrow> 'a orset \<times> unique_tag" where
  "or_add s x r =
     (let tag = UniqueTag r (count_get (or_next_sequence s) r)
      in (\<lparr>or_elements = fmupd x (finsert tag (or_tags s x)) (or_elements s),
           or_next_sequence = count_add (or_next_sequence s) r 1\<rparr>, tag))"

definition or_remove :: "'a orset \<Rightarrow> 'a \<Rightarrow> 'a orset \<times> unique_tag fset" where
  "or_remove s x = (s\<lparr>or_elements := fmdrop x (or_elements s)\<rparr>, or_tags s x)"

definition or_contains :: "'a orset \<Rightarrow> 'a \<Rightarrow> bool" where
  "or_contains s x \<longleftrightarrow>
     (case fmlookup (or_elements s) x of Some tags \<Rightarrow> tags \<noteq> {||} | None \<Rightarrow> False)"

definition or_elems :: "'a orset \<Rightarrow> 'a fset" where
  "or_elems s = ffilter (or_contains s) (fmdom (or_elements s))"

definition or_len :: "'a orset \<Rightarrow> usize" where
  "or_len s = fcard (or_elems s)"

definition or_is_empty :: "'a orset \<Rightarrow> bool" where
  "or_is_empty s \<longleftrightarrow> or_len s = 0"

definition or_get_tags :: "'a orset \<Rightarrow> 'a \<Rightarrow> unique_tag fset option" where
  "or_get_tags s x = fmlookup (or_elements s) x"

text \<open>
  \<open>ORSet::merge\<close>: the sequence counters take the maximum per replica, starting from an empty map;
  each element of either side gets the union of its tags and is kept when that is not empty.
\<close>

definition or_merge :: "'a orset \<Rightarrow> 'a orset \<Rightarrow> 'a orset" where
  "or_merge a b =
     \<lparr>or_elements =
        (let all = fmdom (or_elements a) |\<union>| fmdom (or_elements b);
             union = fmmerge (|\<union>|) (or_elements a) (or_elements b)
         in fmfilter (\<lambda>x. x |\<in>| all \<and> or_tags a x |\<union>| or_tags b x \<noteq> {||}) union),
      or_next_sequence =
        max_entries (max_entries fmempty (or_next_sequence a)) (or_next_sequence b)\<rparr>"

definition or_apply_remove :: "'a orset \<Rightarrow> 'a \<Rightarrow> unique_tag fset \<Rightarrow> 'a orset" where
  "or_apply_remove s x removed =
     (case fmlookup (or_elements s) x of
        None \<Rightarrow> s
      | Some tags \<Rightarrow>
          let rest = tags |-| removed
          in s\<lparr>or_elements :=
               (if rest = {||} then fmdrop x (or_elements s) else fmupd x rest (or_elements s))\<rparr>)"

definition or_eq :: "'a orset \<Rightarrow> 'a orset \<Rightarrow> bool" where
  "or_eq a b \<longleftrightarrow> or_elements a = or_elements b"

definition or_verify_invariants :: "'a orset \<Rightarrow> bool" where
  "or_verify_invariants s \<longleftrightarrow>
     fmpred (\<lambda>x tags. tags \<noteq> {||}) (or_elements s) \<and>
     fmpred (\<lambda>x tags. \<forall>t |\<in>| tags. sequence t < count_get (or_next_sequence s) (tag_replica t))
       (or_elements s) \<and>
     or_len s = fcard (ffilter (or_contains s) (fmdom (or_elements s))) \<and>
     (or_is_empty s \<longleftrightarrow> or_len s = 0)"

lemma or_verify_iff:
  "or_verify_invariants s \<longleftrightarrow>
     fmpred (\<lambda>x tags. tags \<noteq> {||}) (or_elements s) \<and>
     fmpred (\<lambda>x tags. \<forall>t |\<in>| tags. sequence t < count_get (or_next_sequence s) (tag_replica t))
       (or_elements s)"
  by (simp add: or_verify_invariants_def or_len_def or_elems_def or_is_empty_def)

lemma or_contains_tags: "or_contains s x \<longleftrightarrow> or_tags s x \<noteq> {||}"
  by (simp add: or_contains_def or_tags_def split: option.splits)

lemma or_tags_merge [simp]: "or_tags (or_merge a b) x = or_tags a x |\<union>| or_tags b x"
  by (auto simp: or_tags_def or_merge_def Let_def fmlookup_dom_iff split: option.splits)

lemma or_next_sequence_merge [simp]:
  "or_next_sequence (or_merge a b) = max_entries (or_next_sequence a) (or_next_sequence b)"
  by (simp add: or_merge_def)

lemma or_tags_add [simp]:
  "or_tags (fst (or_add s x r)) y =
     (if y = x then finsert (snd (or_add s x r)) (or_tags s x) else or_tags s y)"
  by (simp add: or_tags_def or_add_def Let_def)

lemma or_tags_remove [simp]:
  "or_tags (fst (or_remove s x)) y = (if y = x then {||} else or_tags s y)"
  "snd (or_remove s x) = or_tags s x"
  by (simp_all add: or_tags_def or_remove_def)

lemma or_tags_apply_remove [simp]:
  "or_tags (or_apply_remove s x removed) y =
     (if y = x then or_tags s x |-| removed else or_tags s y)"
  by (auto simp: or_tags_def or_apply_remove_def Let_def split: option.splits)

lemma or_invD_tags:
  "or_verify_invariants s \<Longrightarrow> t |\<in>| or_tags s x
     \<Longrightarrow> sequence t < count_get (or_next_sequence s) (tag_replica t)"
  by (auto simp: or_verify_iff or_tags_def fmpred_iff split: option.splits)

text \<open>A set that satisfies the invariants is determined by its tags and counters.\<close>

lemma or_elements_tags:
  "or_verify_invariants s \<Longrightarrow>
     fmlookup (or_elements s) x = (if or_tags s x = {||} then None else Some (or_tags s x))"
  by (auto simp: or_verify_iff or_tags_def fmpred_iff split: option.splits)

lemma or_set_eqI:
  assumes "or_verify_invariants a" "or_verify_invariants b"
    and "\<And>x. or_tags a x = or_tags b x" "or_next_sequence a = or_next_sequence b"
  shows "(a :: 'a orset) = b"
proof -
  have "or_elements a = or_elements b"
    by (rule fmap_ext) (simp add: or_elements_tags assms)
  with assms(4) show ?thesis by simp
qed

lemma or_invI:
  assumes "\<And>x tags. fmlookup (or_elements s) x = Some tags \<Longrightarrow> tags \<noteq> {||}"
    and "\<And>x t. t |\<in>| or_tags s x \<Longrightarrow> sequence t < count_get (or_next_sequence s) (tag_replica t)"
  shows "or_verify_invariants s"
proof -
  have "sequence t < count_get (or_next_sequence s) (tag_replica t)"
    if "fmlookup (or_elements s) x = Some tags" "t |\<in>| tags" for x tags t
    using that assms(2) [of t x] by (simp add: or_tags_def)
  then show ?thesis
    using assms(1) by (auto simp: or_verify_iff fmpred_iff)
qed

lemma or_inv_new: "or_verify_invariants or_new"
  by (simp add: or_verify_iff or_new_def)

lemma or_inv_merge:
  assumes a: "or_verify_invariants a" and b: "or_verify_invariants b"
  shows "or_verify_invariants (or_merge a b)"
proof (rule or_invI)
  fix x tags assume "fmlookup (or_elements (or_merge a b)) x = Some tags"
  then show "tags \<noteq> {||}"
    by (auto simp: or_merge_def Let_def or_tags_def split: if_splits option.splits)
next
  fix x t assume "t |\<in>| or_tags (or_merge a b) x"
  then show "sequence t < count_get (or_next_sequence (or_merge a b)) (tag_replica t)"
    using or_invD_tags [OF a, of t x] or_invD_tags [OF b, of t x]
    by (auto simp: less_max_iff_disj)
qed

lemma or_inv_add:
  assumes s: "or_verify_invariants s" and r: "count_get (or_next_sequence s) r \<noteq> - 1"
  shows "or_verify_invariants (fst (or_add s x r))"
proof (rule or_invI)
  fix y tags assume "fmlookup (or_elements (fst (or_add s x r))) y = Some tags"
  then show "tags \<noteq> {||}"
    using s by (auto simp: or_add_def Let_def or_verify_iff fmpred_iff split: if_splits)
next
  fix y t assume "t |\<in>| or_tags (fst (or_add s x r)) y"
  then have "t = snd (or_add s x r) \<or> t |\<in>| or_tags s y" by (auto split: if_splits)
  then show "sequence t < count_get (or_next_sequence (fst (or_add s x r))) (tag_replica t)"
    using or_invD_tags [OF s, of t y] u64_less_sucI [OF r] u64_less_suc [OF r]
    by (auto simp: or_add_def Let_def)
qed

lemma or_inv_apply_remove:
  "or_verify_invariants s \<Longrightarrow> or_verify_invariants (or_apply_remove s x removed)"
  by (rule or_invI)
    (auto simp: or_apply_remove_def Let_def or_tags_def or_verify_iff fmpred_iff
      split: if_splits option.splits)

lemma or_inv_remove: "or_verify_invariants s \<Longrightarrow> or_verify_invariants (fst (or_remove s x))"
  by (auto simp: or_remove_def or_verify_iff)

interpretation orset: state_crdt or_merge "Collect or_verify_invariants"
proof
  fix a b c :: "'a orset"
  assume "a \<in> Collect or_verify_invariants"
  then have a: "or_verify_invariants a" by simp
  show "or_merge a a = a"
    by (rule or_set_eqI) (simp_all add: a or_inv_merge cnt.merge_ac)
  assume "b \<in> Collect or_verify_invariants"
  then have b: "or_verify_invariants b" by simp
  then show "or_merge a b \<in> Collect or_verify_invariants" by (simp add: a or_inv_merge)
  show "or_merge a b = or_merge b a"
    by (rule or_set_eqI) (auto simp: a b or_inv_merge cnt.merge_ac)
  assume "c \<in> Collect or_verify_invariants"
  then show "or_merge (or_merge a b) c = or_merge a (or_merge b c)"
    by (intro or_set_eqI) (auto simp: a b or_inv_merge cnt.merge_ac)
qed

end
