(* ===== verification/Crdt_Cluster.thy ===== *)
theory Crdt_Cluster
  imports Crdt_Lattice
begin

text \<open>
  The types of \<open>Crdt_Lattice\<close> in use: replicas that update their own copy and exchange states.
  The theorems are the guarantees of \<open>src/replication/lattice.rs\<close> that span operations: exact
  counters, convergence of registers and sets, causality of vector clocks, add-wins removal.
\<close>

section \<open>Counters across a cluster\<close>

text \<open>
  The replicas of a cluster each hold a counter, update it locally, send their state and merge
  states they receive, in any order, with messages delayed, duplicated and lost. \<open>exact_counts\<close>
  is the invariant of one counter map: the entry of a replica is at its own copy the total the
  replica has added, and no copy and no message is ahead of it.
\<close>

definition exact_counts :: "(replica_id \<Rightarrow> counts) \<Rightarrow> counts set \<Rightarrow> (replica_id \<Rightarrow> nat) \<Rightarrow> bool" where
  "exact_counts cs msgs tot \<longleftrightarrow>
     (\<forall>r. unat (count_get (cs r) r) = tot r) \<and>
     (\<forall>m \<in> range cs \<union> msgs. \<forall>r. count_get m r \<le> count_get (cs r) r)"

lemma exact_countsD:
  "exact_counts cs msgs tot \<Longrightarrow> m \<in> range cs \<union> msgs \<Longrightarrow> count_get m r \<le> count_get (cs r) r"
  unfolding exact_counts_def by blast

lemma exact_counts_init: "exact_counts (\<lambda>_. fmempty) {} (\<lambda>_. 0)"
  by (simp add: exact_counts_def)

lemma exact_counts_local:
  assumes "exact_counts cs msgs tot" "tot r + unat n < 2 ^ 64" and c: "c = count_add (cs r) r n"
  shows "exact_counts (cs(r := c)) msgs (tot(r := tot r + unat n))"
proof -
  have r: "unat (count_get (cs r) r + n) = tot r + unat n"
    using assms by (simp add: exact_counts_def unat_word_ariths)
  have le: "count_get (cs r) r \<le> count_get (cs r) r + n"
    using assms r by (simp add: exact_counts_def word_le_nat_alt)
  have "count_get m r \<le> count_get (cs r) r + n" if "m \<in> range cs \<union> msgs" for m
    using exact_countsD [OF assms(1) that, of r] le by (rule order.trans)
  then have "count_get (cs q) r \<le> count_get (cs r) r + n"
    and "m \<in> msgs \<Longrightarrow> count_get m r \<le> count_get (cs r) r + n" for q m
    by auto
  then show ?thesis
    using assms(1) r unfolding c exact_counts_def by auto
qed

lemma exact_counts_send:
  "exact_counts cs msgs tot \<Longrightarrow> exact_counts cs (insert (cs r) msgs) tot"
  by (auto simp: exact_counts_def)

lemma exact_counts_receive:
  assumes "exact_counts cs msgs tot" "m \<in> msgs" and c: "c = max_entries (cs r) m"
  shows "exact_counts (cs(r := c)) msgs tot"
proof -
  have own: "max (count_get (cs r) r) (count_get m r) = count_get (cs r) r"
    using exact_countsD [OF assms(1), of m r] assms(2) by (simp add: max.absorb1)
  have "count_get (if q = r then max_entries (cs r) m else cs q) q = count_get (cs q) q" for q
    using own by simp
  then show ?thesis
    using assms(1,2) unfolding c exact_counts_def by auto
qed

lemma count_get_deliver_le:
  "count_get m r \<le> b \<Longrightarrow> (\<And>x. x \<in> set ms \<Longrightarrow> count_get x r \<le> b)
     \<Longrightarrow> count_get (foldl max_entries m ms) r \<le> b"
  by (induction ms arbitrary: m) auto

lemma count_get_deliver_ge:
  "x \<in> insert m (set ms) \<Longrightarrow> count_get x r \<le> count_get (foldl max_entries m ms) r"
proof (induction ms arbitrary: m x)
  case (Cons y ms)
  have "count_get (max_entries m y) r \<le> count_get (foldl max_entries m (y # ms)) r"
    using Cons.IH [of "max_entries m y" "max_entries m y"] by simp
  then show ?case
    using Cons by (auto intro: order.trans)
qed simp

lemma exact_counts_deliver:
  assumes "exact_counts cs msgs tot" "r \<in> set rs"
  shows "unat (count_get (foldl max_entries fmempty (map cs rs)) r) = tot r"
proof -
  have "count_get (foldl max_entries fmempty (map cs rs)) r = count_get (cs r) r"
  proof (rule order.antisym)
    show "count_get (foldl max_entries fmempty (map cs rs)) r \<le> count_get (cs r) r"
      by (rule count_get_deliver_le) (auto intro: exact_countsD [OF assms(1)])
    show "count_get (cs r) r \<le> count_get (foldl max_entries fmempty (map cs rs)) r"
      by (rule count_get_deliver_ge) (use assms(2) in simp)
  qed
  with assms(1) show ?thesis by (simp add: exact_counts_def)
qed

lemma counts_gc_deliver: "counts (foldl gc_merge g gs) = foldl max_entries (counts g) (map counts gs)"
  by (induction gs arbitrary: g) (simp_all add: gc_merge_def)

text \<open>The counter obtained by merging every replica's copy has the total of all the additions.\<close>

lemma exact_counts_value:
  assumes exact: "exact_counts cs msgs tot" and rs: "distinct rs" "\<And>r. tot r \<noteq> 0 \<Longrightarrow> r \<in> set rs"
  shows "gc_value (GCounter (foldl max_entries fmempty (map cs rs))) = of_nat (\<Sum>r \<leftarrow> rs. tot r)"
proof -
  let ?m = "foldl max_entries fmempty (map cs rs)"
  have zero: "count_get ?m r = 0" if "r \<notin> set rs" for r
  proof -
    have "count_get x r = 0" if "x \<in> set (map cs rs)" for x
    proof -
      have "count_get x r \<le> count_get (cs r) r" "unat (count_get (cs r) r) = 0"
        using exact_countsD [OF exact, of x r] that rs(2) [of r] \<open>r \<notin> set rs\<close> exact
        by (auto simp: exact_counts_def)
      then show ?thesis by (simp add: word_le_nat_alt unat_eq_zero)
    qed
    then show ?thesis using count_get_deliver_le [of fmempty r 0 "map cs rs"] by simp
  qed
  have "gc_value (GCounter ?m) = (\<Sum>r \<in> fmdom' ?m \<union> set rs. count_get ?m r)"
    using gc_value_superset [of "fmdom' ?m \<union> set rs" "GCounter ?m"]
    by (simp add: gc_get_replica_count_def)
  also have "\<dots> = (\<Sum>r \<in> set rs. count_get ?m r)"
    by (rule sum.mono_neutral_right) (auto simp: zero)
  also have "\<dots> = (\<Sum>r \<in> set rs. of_nat (tot r))"
  proof (rule sum.cong)
    fix r assume "r \<in> set rs"
    then have "of_nat (unat (count_get ?m r)) = (of_nat (tot r) :: u64)"
      using exact_counts_deliver [OF exact] by simp
    then show "count_get ?m r = of_nat (tot r)" by simp
  qed simp
  finally show ?thesis
    using rs(1) by (simp add: sum_list_distinct_conv_sum_set)
qed

section \<open>A cluster of positive-negative counters\<close>

inductive pn_cluster ::
  "(replica_id \<Rightarrow> pncounter) \<Rightarrow> pncounter set \<Rightarrow> (replica_id \<Rightarrow> nat) \<Rightarrow> (replica_id \<Rightarrow> nat) \<Rightarrow> bool"
where
  start: "pn_cluster (\<lambda>_. pn_new) {} (\<lambda>_. 0) (\<lambda>_. 0)"
| increment: "pn_cluster cs msgs inc dec \<Longrightarrow> inc r + unat n < 2 ^ 64 \<Longrightarrow>
    pn_cluster (cs(r := pn_increment_by (cs r) r n)) msgs (inc(r := inc r + unat n)) dec"
| decrement: "pn_cluster cs msgs inc dec \<Longrightarrow> dec r + unat n < 2 ^ 64 \<Longrightarrow>
    pn_cluster (cs(r := pn_decrement_by (cs r) r n)) msgs inc (dec(r := dec r + unat n))"
| send: "pn_cluster cs msgs inc dec \<Longrightarrow> pn_cluster cs (insert (cs r) msgs) inc dec"
| receive: "pn_cluster cs msgs inc dec \<Longrightarrow> m \<in> msgs \<Longrightarrow>
    pn_cluster (cs(r := pn_merge (cs r) m)) msgs inc dec"

abbreviation pos_counts :: "pncounter \<Rightarrow> counts" where
  "pos_counts p \<equiv> counts (positive p)"

abbreviation neg_counts :: "pncounter \<Rightarrow> counts" where
  "neg_counts p \<equiv> counts (negative p)"

lemma pn_counts [simp]:
  "pos_counts (pn_increment_by p r n) = count_add (pos_counts p) r n"
  "neg_counts (pn_increment_by p r n) = neg_counts p"
  "pos_counts (pn_decrement_by p r n) = pos_counts p"
  "neg_counts (pn_decrement_by p r n) = count_add (neg_counts p) r n"
  "pos_counts (pn_merge p q) = max_entries (pos_counts p) (pos_counts q)"
  "neg_counts (pn_merge p q) = max_entries (neg_counts p) (neg_counts q)"
  by (simp_all add: pn_increment_by_def pn_decrement_by_def pn_merge_def gc_increment_by_def
      gc_merge_def)

lemma comp_fun_upd: "f \<circ> cs(r := x) = (f \<circ> cs)(r := f x)"
  by auto

lemma comp_fun_upd_same: "f x = f (cs r) \<Longrightarrow> f \<circ> cs(r := x) = f \<circ> cs"
  by auto

lemma pn_cluster_exact:
  assumes "pn_cluster cs msgs inc dec"
  shows "exact_counts (pos_counts \<circ> cs) (pos_counts ` msgs) inc"
    and "exact_counts (neg_counts \<circ> cs) (neg_counts ` msgs) dec"
  using assms
proof induction
  case start
  show "exact_counts (pos_counts \<circ> (\<lambda>_. pn_new)) (pos_counts ` {}) (\<lambda>_. 0)"
    and "exact_counts (neg_counts \<circ> (\<lambda>_. pn_new)) (neg_counts ` {}) (\<lambda>_. 0)"
    using exact_counts_init by (simp_all add: pn_new_def gc_new_def comp_def)
next
  case (increment cs msgs inc dec r n)
  {
    case 1
    show ?case
      unfolding comp_fun_upd by (rule exact_counts_local [OF increment.IH(1) increment.hyps(2)]) simp
  next
    case 2
    show ?case using increment.IH(2) by (simp only: comp_fun_upd_same pn_counts)
  }
next
  case (decrement cs msgs inc dec r n)
  {
    case 1
    show ?case using decrement.IH(1) by (simp only: comp_fun_upd_same pn_counts)
  next
    case 2
    show ?case
      unfolding comp_fun_upd by (rule exact_counts_local [OF decrement.IH(2) decrement.hyps(2)]) simp
  }
next
  case (send cs msgs inc dec r)
  {
    case 1
    show ?case using exact_counts_send [OF send.IH(1), of r] by simp
  next
    case 2
    show ?case using exact_counts_send [OF send.IH(2), of r] by simp
  }
next
  case (receive cs msgs inc dec m r)
  {
    case 1
    show ?case
      unfolding comp_fun_upd
      by (rule exact_counts_receive [OF receive.IH(1) imageI [OF receive.hyps(2)]]) simp
  next
    case 2
    show ?case
      unfolding comp_fun_upd
      by (rule exact_counts_receive [OF receive.IH(2) imageI [OF receive.hyps(2)]]) simp
  }
qed

lemma pn_deliver:
  "foldl pn_merge p ps =
     PNCounter (foldl gc_merge (positive p) (map positive ps)) (foldl gc_merge (negative p) (map negative ps))"
  by (induction ps arbitrary: p) (simp_all add: pn_merge_def)

lemma gc_deliver: "foldl gc_merge (GCounter m) gs = GCounter (foldl max_entries m (map counts gs))"
  by (induction gs arbitrary: m) (simp_all add: gc_merge_def)

lemma sint_of_nat_wrap: "wrap_i64 (sint (of_nat p :: u64) - sint (of_nat n :: u64)) = wrap_i64 (int p - int n)"
  by (simp add: wrap_i64_sint flip: wi_hom_syms)

text \<open>
  C3. However replicas interleave increments, decrements, sends and (delayed, repeated) receipts,
  merging the copies of the replicas that took part gives the sum of all increments minus the
  sum of all decrements, in the arithmetic of \<open>i64\<close>.
\<close>

theorem pn_cluster_value:
  assumes "pn_cluster cs msgs inc dec" "distinct rs"
    and "\<And>r. inc r \<noteq> 0 \<or> dec r \<noteq> 0 \<Longrightarrow> r \<in> set rs"
  shows "pn_value (foldl pn_merge pn_new (map cs rs))
    = wrap_i64 (int (\<Sum>r \<leftarrow> rs. inc r) - int (\<Sum>r \<leftarrow> rs. dec r))"
proof -
  have "gc_value (foldl gc_merge gc_new (map positive (map cs rs))) = of_nat (\<Sum>r \<leftarrow> rs. inc r)"
    using exact_counts_value [OF pn_cluster_exact(1) [OF assms(1)] assms(2)] assms(3)
    by (simp add: gc_new_def gc_deliver comp_def)
  moreover have "gc_value (foldl gc_merge gc_new (map negative (map cs rs))) = of_nat (\<Sum>r \<leftarrow> rs. dec r)"
    using exact_counts_value [OF pn_cluster_exact(2) [OF assms(1)] assms(2)] assms(3)
    by (simp add: gc_new_def gc_deliver comp_def)
  ultimately show ?thesis
    by (simp only: pn_value_def pn_deliver pn_new_def pncounter.sel sint_of_nat_wrap)
qed

theorem pn_cluster_value_witness:
  "pn_value (foldl pn_merge pn_new
     (map ((\<lambda>_. pn_new)(7 := pn_increment_by pn_new 7 5, 9 := pn_decrement_by pn_new 9 3)) [7 :: replica_id, 9])) = 2"
proof -
  let ?cs = "(\<lambda>_ :: replica_id. pn_new)(7 := pn_increment_by pn_new 7 5, 9 := pn_decrement_by pn_new 9 3)"
  have "pn_cluster ((\<lambda>_. pn_new)(7 := pn_increment_by pn_new 7 5)) {} ((\<lambda>_. 0)(7 := 5)) (\<lambda>_. 0)"
    using pn_cluster.increment [OF pn_cluster.start, where r = 7 and n = 5] by simp
  from pn_cluster.decrement [OF this, where r = 9 and n = 3]
  have "pn_cluster ?cs {} ((\<lambda>_. 0)(7 := 5)) ((\<lambda>_. 0)(9 := 3))"
    by simp
  then have "pn_value (foldl pn_merge pn_new (map ?cs [7, 9])) = wrap_i64 (int 5 - int 3)"
    by (subst pn_cluster_value [of _ _ "(\<lambda>_. 0)(7 := 5)" "(\<lambda>_. 0)(9 := 3)"]) (auto split: if_splits)
  then show ?thesis by (simp add: wrap_i64_def)
qed

section \<open>Convergence\<close>

text \<open>
  C4. Replicas of an LWW register that have received the same writes, in any order and with
  repetitions, hold the same register, and it is the write with the greatest timestamp. (The
  writes of one history have distinct timestamps, \<open>lww_history\<close>.)
\<close>

theorem lww_converges:
  assumes "s \<in> lww_history h" "set xs \<subseteq> lww_history h" "set xs = set ys"
  shows "foldl lww_merge s xs = foldl lww_merge s ys \<and>
    lww_timestamp (foldl lww_merge s xs) = Max (lww_timestamp ` insert s (set ys))"
proof
  show eq: "foldl lww_merge s xs = foldl lww_merge s ys"
    by (rule lww.deliver_converges [OF assms])
  have "lww_timestamp (foldl lww_merge s ys) = foldl max (lww_timestamp s) (map lww_timestamp ys)" for s ys
    by (induction ys arbitrary: s) (simp_all add: lww_merge_timestamp)
  then show "lww_timestamp (foldl lww_merge s xs) = Max (lww_timestamp ` insert s (set ys))"
    by (simp add: eq foldl_max)
qed

theorem lww_converges_witness:
  "let w = (\<lambda>t r. lww_with_value t (LamportClock t r)) in
     foldl lww_merge (w 1 2) [w 3 1, w 3 2] = foldl lww_merge (w 1 2) [w 3 2, w 3 1, w 3 2] \<and>
     lww_timestamp (foldl lww_merge (w 1 2) [w 3 1, w 3 2]) = LamportClock 3 2"
proof -
  let ?w = "\<lambda>t r. lww_with_value t (LamportClock t r)"
  have sets: "set [?w 3 1, ?w 3 2] = set [?w 3 2, ?w 3 1, ?w 3 2]" by auto
  have "LamportClock 1 2 \<le> LamportClock 3 2" "LamportClock 3 1 \<le> LamportClock 3 2"
    by (simp_all add: lc_less_iff order.strict_implies_order)
  then have "Max (lww_timestamp ` insert (?w 1 2) (set [?w 3 2, ?w 3 1, ?w 3 2])) = LamportClock 3 2"
    by (simp add: lww_with_value_def max_def)
  moreover have "?w t r \<in> lww_history (\<lambda>ts. lww_with_value (time ts) ts)" for t r
    by (simp add: lww_history_def lww_with_value_def)
  ultimately show ?thesis
    using lww_converges [OF _ _ sets, of "?w 1 2" "\<lambda>ts. lww_with_value (time ts) ts"]
    unfolding Let_def by auto
qed

text \<open>
  C2. Replicas of an observed-remove set, a grow-only set, a vector clock or a counter that have
  received the same states, in any order and with repetitions, agree.
\<close>

theorem state_based_converge:
  assumes "or_verify_invariants s" "\<forall>x \<in> set xs. or_verify_invariants x" "set xs = set ys"
    and "set vs = set ws" "set ps = set qs" "set gs = set hs"
  shows "foldl or_merge s xs = foldl or_merge s ys \<and>
    foldl vc_merge v vs = foldl vc_merge v ws \<and>
    foldl pn_merge p ps = foldl pn_merge p qs \<and>
    foldl gs_merge g gs = foldl gs_merge g hs"
  using assms by (auto intro!: orset.deliver_converges vc.deliver_converges pn.deliver_converges
      gs.deliver_converges)

theorem state_based_converge_witness:
  "let s = fst (or_add or_new ''x'' 1); t = fst (or_add or_new ''x'' 2) in
     foldl or_merge s [s, t] = foldl or_merge s [t, s, t]"
  using state_based_converge [of "fst (or_add or_new ''x'' 1)"
      "[fst (or_add or_new ''x'' 1), fst (or_add or_new ''x'' 2)]"
      "[fst (or_add or_new ''x'' 2), fst (or_add or_new ''x'' 1), fst (or_add or_new ''x'' 2)]"
      "[]" "[]" "[]" "[]" "[]" "[]"]
  by (auto simp: Let_def or_inv_add or_inv_new or_new_def [THEN arg_cong, of or_next_sequence])

section \<open>Observed-remove sets\<close>

text \<open>
  Add wins: a replica that adds an element concurrently with its removal elsewhere keeps the
  element when the removal (the tags the remover observed) is applied; without a concurrent
  add the removal takes effect.
\<close>

theorem or_add_wins:
  assumes "or_verify_invariants s"
  shows "or_contains (or_apply_remove (fst (or_add s x r)) x (snd (or_remove s x))) x \<and>
    \<not> or_contains (or_apply_remove s x (snd (or_remove s x))) x"
proof -
  have "snd (or_add s x r) |\<notin>| or_tags s x"
    using or_invD_tags [OF assms, of "snd (or_add s x r)" x] by (auto simp: or_add_def Let_def)
  then show ?thesis by (auto simp: or_contains_tags)
qed

theorem or_add_wins_witness:
  "let s = fst (or_add or_new ''x'' 1) in
     or_contains (or_apply_remove (fst (or_add s ''x'' 2)) ''x'' (snd (or_remove s ''x''))) ''x''"
  using or_add_wins [of "fst (or_add or_new ''x'' 1)" "''x''" 2] or_inv_add [OF or_inv_new, of 1 "''x''"]
  by (simp add: Let_def or_new_def)

text \<open>
  The state merge of \<open>ORSet\<close> keeps no trace of a removal: merging the state a replica has
  after removing an element with a state that still has it brings the element back.
\<close>

theorem or_merge_resurrects:
  "or_contains s x \<Longrightarrow>
     \<not> or_contains (fst (or_remove s x)) x \<and> or_contains (or_merge (fst (or_remove s x)) s) x"
  by (simp add: or_contains_tags)

theorem or_merge_resurrects_witness:
  "let s = fst (or_add or_new ''x'' 1)
   in or_contains (or_merge (fst (or_remove s ''x'')) s) ''x''"
  using or_merge_resurrects [of "fst (or_add or_new ''x'' 1)" "''x''"]
  by (simp add: Let_def or_contains_tags)

section \<open>Causality\<close>

text \<open>
  The comparison of vector clocks is causality: \<open>happens_before\<close> is a strict partial order,
  any two clocks are in exactly one of the relations before, after, equal, concurrent, and the
  merge is the least clock at or after both.
\<close>

theorem vc_causality:
  "\<not> vc_happens_before a a \<and>
   (vc_happens_before a b \<and> vc_happens_before b c \<longrightarrow> vc_happens_before a c) \<and>
   length (filter id [vc_happens_before a b, vc_happens_before b a, vc_eq a b, vc_concurrent_with a b]) = 1 \<and>
   (vc_eq a (vc_merge a b) \<or> vc_happens_before a (vc_merge a b)) \<and>
   ((vc_eq a c \<or> vc_happens_before a c) \<and> (vc_eq b c \<or> vc_happens_before b c)
     \<longrightarrow> vc_eq (vc_merge a b) c \<or> vc_happens_before (vc_merge a b) c)"
proof -
  have le: "vc_eq a b \<or> vc_happens_before a b \<longleftrightarrow> (\<forall>r. vc_get a r \<le> vc_get b r)" for a b
    by (auto simp: vc_eq_iff vc_happens_before_iff) (metis order.not_eq_order_implies_strict)
  have irrefl: "\<not> vc_happens_before a a" by (simp add: vc_happens_before_iff)
  have trans: "vc_happens_before a b \<Longrightarrow> vc_happens_before b c \<Longrightarrow> vc_happens_before a c"
    by (simp add: vc_happens_before_iff) (meson order.strict_trans2 order.trans)
  have excl: "vc_happens_before a b \<Longrightarrow> \<not> vc_happens_before b a"
    "vc_happens_before a b \<Longrightarrow> \<not> vc_eq a b" "vc_happens_before b a \<Longrightarrow> \<not> vc_eq a b"
    by (auto simp: vc_happens_before_iff vc_eq_iff) (metis leD)+
  show ?thesis
    unfolding le using irrefl trans excl by (auto simp: vc_concurrent_with_def)
qed

theorem vc_causality_witness:
  "\<not> vc_happens_before (vc_increment vc_new 1) (vc_increment vc_new 1) \<and>
   vc_happens_before (vc_increment vc_new 1) (vc_increment (vc_increment (vc_increment vc_new 1) 2) 3)"
proof -
  have "vc_happens_before (vc_increment vc_new 1) (vc_increment (vc_increment vc_new 1) 2)"
    "vc_happens_before (vc_increment (vc_increment vc_new 1) 2)
       (vc_increment (vc_increment (vc_increment vc_new 1) 2) 3)"
    by (rule vc_increment_after; simp)+
  then show ?thesis
    using vc_causality [of "vc_increment vc_new 1" "vc_increment (vc_increment vc_new 1) 2"
        "vc_increment (vc_increment (vc_increment vc_new 1) 2) 3"] by blast
qed

end
