(* ===== verification/Replication_State.thy ===== *)
theory Replication_State
  imports Crdt_Lattice
begin

text \<open>
  Replicated keys and the replication state of a shard (\<open>src/replication/state/\<close>): the union of
  CRDT types, the value with its metadata, the delta sent to peers, and the operations that
  record local writes and apply remote deltas. Values are byte strings (\<open>Sds\<close>).
\<close>

section \<open>The union of CRDT types\<close>

datatype crdt_value =
    VLww "bytes lww_register"
  | VGCounter gcounter
  | VPNCounter pncounter
  | VGSet "string gset"
  | VORSet "string orset"
  | VHash "(string, bytes lww_register) fmap"

record crdt_type_mismatch_error =
  self_type :: string
  other_type :: string

definition new_lww :: "replica_id \<Rightarrow> crdt_value" where
  "new_lww r = VLww (lww_new r)"

definition new_gcounter :: crdt_value where
  "new_gcounter = VGCounter gc_new"

definition new_pncounter :: crdt_value where
  "new_pncounter = VPNCounter pn_new"

definition new_gset :: crdt_value where
  "new_gset = VGSet gs_new"

definition new_orset :: crdt_value where
  "new_orset = VORSet or_new"

definition new_hash :: crdt_value where
  "new_hash = VHash fmempty"

fun type_name :: "crdt_value \<Rightarrow> string" where
  "type_name (VLww _) = ''lww''"
| "type_name (VGCounter _) = ''gcounter''"
| "type_name (VPNCounter _) = ''pncounter''"
| "type_name (VGSet _) = ''gset''"
| "type_name (VORSet _) = ''orset''"
| "type_name (VHash _) = ''hash''"

definition try_merge :: "crdt_value \<Rightarrow> crdt_value \<Rightarrow> crdt_type_mismatch_error + crdt_value" where
  "try_merge a b =
     (case (a, b) of
        (VLww x, VLww y) \<Rightarrow> Inr (VLww (lww_merge x y))
      | (VGCounter x, VGCounter y) \<Rightarrow> Inr (VGCounter (gc_merge x y))
      | (VPNCounter x, VPNCounter y) \<Rightarrow> Inr (VPNCounter (pn_merge x y))
      | (VGSet x, VGSet y) \<Rightarrow> Inr (VGSet (gs_merge x y))
      | (VORSet x, VORSet y) \<Rightarrow> Inr (VORSet (or_merge x y))
      | (VHash x, VHash y) \<Rightarrow> Inr (VHash (fmmerge lww_merge x y))
      | _ \<Rightarrow> Inl \<lparr>self_type = type_name a, other_type = type_name b\<rparr>)"

definition merge_with_timestamps ::
  "crdt_value \<Rightarrow> crdt_value \<Rightarrow> lamport_clock \<Rightarrow> lamport_clock \<Rightarrow> crdt_value" where
  "merge_with_timestamps a b a_ts b_ts =
     (case try_merge a b of Inr m \<Rightarrow> m | Inl err \<Rightarrow> if b_ts > a_ts then b else a)"

definition crdt_merge :: "crdt_value \<Rightarrow> crdt_value \<Rightarrow> crdt_value" where
  "crdt_merge a b = (case try_merge a b of Inr m \<Rightarrow> m | Inl err \<Rightarrow> a)"

fun is_lww :: "crdt_value \<Rightarrow> bool" where
  "is_lww (VLww _) = True"
| "is_lww _ = False"

fun as_lww :: "crdt_value \<Rightarrow> bytes lww_register option" where
  "as_lww (VLww x) = Some x"
| "as_lww _ = None"

fun as_gcounter :: "crdt_value \<Rightarrow> gcounter option" where
  "as_gcounter (VGCounter x) = Some x"
| "as_gcounter _ = None"

fun as_pncounter :: "crdt_value \<Rightarrow> pncounter option" where
  "as_pncounter (VPNCounter x) = Some x"
| "as_pncounter _ = None"

fun as_gset :: "crdt_value \<Rightarrow> string gset option" where
  "as_gset (VGSet x) = Some x"
| "as_gset _ = None"

fun as_orset :: "crdt_value \<Rightarrow> string orset option" where
  "as_orset (VORSet x) = Some x"
| "as_orset _ = None"

fun as_hash :: "crdt_value \<Rightarrow> (string, bytes lww_register) fmap option" where
  "as_hash (VHash x) = Some x"
| "as_hash _ = None"

section \<open>A value with its metadata\<close>

record replicated_value =
  crdt :: crdt_value
  vector_clock :: "vector_clock option"
  expiry_ms :: "u64 option"
  timestamp :: lamport_clock
  replication_factor :: "8 word option"

definition rv_with_crdt :: "crdt_value \<Rightarrow> replica_id \<Rightarrow> replicated_value" where
  "rv_with_crdt c r =
     \<lparr>crdt = c, vector_clock = None, expiry_ms = None, timestamp = lc_new r, replication_factor = None\<rparr>"

definition rv_new :: "replica_id \<Rightarrow> replicated_value" where
  "rv_new r =
     \<lparr>crdt = new_lww r, vector_clock = None, expiry_ms = None, timestamp = lc_new r,
      replication_factor = None\<rparr>"

definition rv_with_replication_factor :: "replicated_value \<Rightarrow> 8 word \<Rightarrow> replicated_value" where
  "rv_with_replication_factor v rf = v\<lparr>replication_factor := Some rf\<rparr>"

definition rv_get_replication_factor :: "replicated_value \<Rightarrow> 8 word \<Rightarrow> 8 word" where
  "rv_get_replication_factor v default_rf =
     (case replication_factor v of Some rf \<Rightarrow> rf | None \<Rightarrow> default_rf)"

definition rv_with_value :: "bytes \<Rightarrow> lamport_clock \<Rightarrow> replicated_value" where
  "rv_with_value x ts =
     \<lparr>crdt = VLww (lww_with_value x ts), vector_clock = None, expiry_ms = None, timestamp = ts,
      replication_factor = None\<rparr>"

text \<open>\<open>&mut\<close> arguments are returned: the value, the caller's Lamport clock, the vector clock.\<close>

definition rv_set :: "replicated_value \<Rightarrow> bytes \<Rightarrow> lamport_clock \<Rightarrow> vector_clock option
    \<Rightarrow> replicated_value \<times> lamport_clock \<times> vector_clock option" where
  "rv_set v x clock vc =
     (let (lww, clock') =
            (case crdt v of
               VLww lww \<Rightarrow> lww_set lww x clock
             | _ \<Rightarrow> lww_set (lww_new (replica_id clock)) x clock);
          v' = v\<lparr>crdt := VLww lww, timestamp := clock'\<rparr>
      in case vc of
           None \<Rightarrow> (v', clock', None)
         | Some c \<Rightarrow>
             let c' = vc_increment c (replica_id clock')
             in (v'\<lparr>vector_clock := Some c'\<rparr>, clock', Some c'))"

definition rv_delete :: "replicated_value \<Rightarrow> lamport_clock \<Rightarrow> replicated_value \<times> lamport_clock" where
  "rv_delete v clock =
     (case crdt v of
        VLww lww \<Rightarrow>
          (let (lww', clock') = lww_delete lww clock
           in (v\<lparr>crdt := VLww lww', timestamp := clock'\<rparr>, clock'))
      | _ \<Rightarrow> (v, clock))"

definition opt_join :: "('a \<Rightarrow> 'a \<Rightarrow> 'a) \<Rightarrow> 'a option \<Rightarrow> 'a option \<Rightarrow> 'a option" where
  "opt_join f a b =
     (case (a, b) of
        (Some x, Some y) \<Rightarrow> Some (f x y) | (Some x, None) \<Rightarrow> Some x
      | (None, Some y) \<Rightarrow> Some y | (None, None) \<Rightarrow> None)"

definition rv_merge :: "replicated_value \<Rightarrow> replicated_value \<Rightarrow> replicated_value" where
  "rv_merge a b =
     \<lparr>crdt = merge_with_timestamps (crdt a) (crdt b) (timestamp a) (timestamp b),
      vector_clock = opt_join vc_merge (vector_clock a) (vector_clock b),
      expiry_ms = opt_join max (expiry_ms a) (expiry_ms b),
      timestamp = lc_merge (timestamp a) (timestamp b),
      replication_factor = opt_join max (replication_factor a) (replication_factor b)\<rparr>"

definition rv_get :: "replicated_value \<Rightarrow> bytes option" where
  "rv_get v = (case crdt v of VLww lww \<Rightarrow> lww_get lww | _ \<Rightarrow> None)"

definition rv_is_tombstone :: "replicated_value \<Rightarrow> bool" where
  "rv_is_tombstone v \<longleftrightarrow> (case crdt v of VLww lww \<Rightarrow> lww_tombstone lww | _ \<Rightarrow> False)"

definition rv_crdt_type :: "replicated_value \<Rightarrow> string" where
  "rv_crdt_type v = type_name (crdt v)"

definition rv_is_hash :: "replicated_value \<Rightarrow> bool" where
  "rv_is_hash v \<longleftrightarrow> (case crdt v of VHash _ \<Rightarrow> True | _ \<Rightarrow> False)"

definition rv_get_hash :: "replicated_value \<Rightarrow> (string, bytes lww_register) fmap option" where
  "rv_get_hash v = as_hash (crdt v)"

definition rv_hash_set ::
  "replicated_value \<Rightarrow> string \<Rightarrow> bytes \<Rightarrow> lamport_clock \<Rightarrow> replicated_value \<times> lamport_clock" where
  "rv_hash_set v field x clock =
     (let v1 = (if rv_is_hash v then v else v\<lparr>crdt := new_hash\<rparr>)
      in case crdt v1 of
           VHash h \<Rightarrow>
             (let lww = (case fmlookup h field of Some l \<Rightarrow> l | None \<Rightarrow> lww_new (replica_id clock));
                  (lww', clock') = lww_set lww x clock
              in (v1\<lparr>crdt := VHash (fmupd field lww' h), timestamp := clock'\<rparr>, clock'))
         | _ \<Rightarrow> (v1\<lparr>timestamp := clock\<rparr>, clock))"

definition rv_hash_delete ::
  "replicated_value \<Rightarrow> string \<Rightarrow> lamport_clock \<Rightarrow> replicated_value \<times> lamport_clock" where
  "rv_hash_delete v field clock =
     (case crdt v of
        VHash h \<Rightarrow>
          (case fmlookup h field of
             Some lww \<Rightarrow>
               (let (lww', clock') = lww_delete lww clock
                in (v\<lparr>crdt := VHash (fmupd field lww' h), timestamp := clock'\<rparr>, clock'))
           | None \<Rightarrow> (v\<lparr>timestamp := clock\<rparr>, clock))
      | _ \<Rightarrow> (v\<lparr>timestamp := clock\<rparr>, clock))"

definition rv_hash_get :: "replicated_value \<Rightarrow> string \<Rightarrow> bytes option" where
  "rv_hash_get v field =
     (case crdt v of VHash h \<Rightarrow> Option.bind (fmlookup h field) lww_get | _ \<Rightarrow> None)"

definition rv_verify_hash_invariants :: "replicated_value \<Rightarrow> bool" where
  "rv_verify_hash_invariants v \<longleftrightarrow>
     (case crdt v of
        VHash h \<Rightarrow> fmpred (\<lambda>field lww. \<not> lww_tombstone lww \<longrightarrow> lww_get lww \<noteq> None) h
      | _ \<Rightarrow> True)"

section \<open>Deltas and the state of a shard\<close>

record replication_delta =
  delta_key :: string
  delta_value :: replicated_value
  source_replica :: replica_id

datatype consistency_level = Eventual | Causal

abbreviation MAX_PENDING_DELTAS :: usize where
  "MAX_PENDING_DELTAS \<equiv> 100"

record shard_replica_state =
  rs_replica_id :: replica_id
  lamport_clock :: lamport_clock
  rs_vector_clock :: vector_clock
  consistency_level :: consistency_level
  pending_deltas :: "replication_delta list"
  replicated_keys :: "(string, replicated_value) fmap"

definition rs_new :: "replica_id \<Rightarrow> consistency_level \<Rightarrow> shard_replica_state" where
  "rs_new r lvl =
     \<lparr>rs_replica_id = r, lamport_clock = lc_new r, rs_vector_clock = vc_new,
      consistency_level = lvl, pending_deltas = [], replicated_keys = fmempty\<rparr>"

definition enforce_pending_capacity :: "shard_replica_state \<Rightarrow> shard_replica_state" where
  "enforce_pending_capacity s =
     (if length (pending_deltas s) > MAX_PENDING_DELTAS
      then s\<lparr>pending_deltas := drop (length (pending_deltas s) - MAX_PENDING_DELTAS) (pending_deltas s)\<rparr>
      else s)"

definition push_delta :: "shard_replica_state \<Rightarrow> replication_delta \<Rightarrow> shard_replica_state" where
  "push_delta s d = enforce_pending_capacity
     (s\<lparr>replicated_keys := fmupd (delta_key d) (delta_value d) (replicated_keys s),
        pending_deltas := pending_deltas s @ [d]\<rparr>)"

definition rs_record_write :: "shard_replica_state \<Rightarrow> string \<Rightarrow> bytes \<Rightarrow> u64 option
    \<Rightarrow> shard_replica_state \<times> replication_delta" where
  "rs_record_write s key x expiry =
     (let v = (case fmlookup (replicated_keys s) key of
                 Some v \<Rightarrow> v | None \<Rightarrow> rv_new (rs_replica_id s));
          vc = (if consistency_level s = Causal then Some (rs_vector_clock s) else None);
          (v', clock', vc') = rv_set v x (lamport_clock s) vc;
          v'' = v'\<lparr>expiry_ms := expiry\<rparr>;
          d = \<lparr>delta_key = key, delta_value = v'', source_replica = rs_replica_id s\<rparr>;
          s' = s\<lparr>lamport_clock := clock',
                 rs_vector_clock := (case vc' of Some c \<Rightarrow> c | None \<Rightarrow> rs_vector_clock s)\<rparr>
      in (push_delta s' d, d))"

definition rs_record_delete ::
  "shard_replica_state \<Rightarrow> string \<Rightarrow> shard_replica_state \<times> replication_delta option" where
  "rs_record_delete s key =
     (case fmlookup (replicated_keys s) key of
        None \<Rightarrow> (s, None)
      | Some v \<Rightarrow>
          (let (v', clock') = rv_delete v (lamport_clock s);
               d = \<lparr>delta_key = key, delta_value = v', source_replica = rs_replica_id s\<rparr>
           in (push_delta (s\<lparr>lamport_clock := clock'\<rparr>) d, Some d)))"

fun rv_hash_set_all :: "replicated_value \<Rightarrow> (string \<times> bytes) list \<Rightarrow> lamport_clock
    \<Rightarrow> replicated_value \<times> lamport_clock" where
  "rv_hash_set_all v [] clock = (v, clock)"
| "rv_hash_set_all v ((field, x) # fs) clock =
     (let (v', clock') = rv_hash_set v field x clock in rv_hash_set_all v' fs clock')"

fun rv_hash_delete_all ::
  "replicated_value \<Rightarrow> string list \<Rightarrow> lamport_clock \<Rightarrow> replicated_value \<times> lamport_clock" where
  "rv_hash_delete_all v [] clock = (v, clock)"
| "rv_hash_delete_all v (field # fs) clock =
     (let (v', clock') = rv_hash_delete v field clock in rv_hash_delete_all v' fs clock')"

definition rs_record_hash_write :: "shard_replica_state \<Rightarrow> string \<Rightarrow> (string \<times> bytes) list
    \<Rightarrow> shard_replica_state \<times> replication_delta" where
  "rs_record_hash_write s key fs =
     (let v = (case fmlookup (replicated_keys s) key of
                 Some v \<Rightarrow> v | None \<Rightarrow> (rv_new (rs_replica_id s))\<lparr>crdt := new_hash\<rparr>);
          v1 = (if rv_is_hash v then v else v\<lparr>crdt := new_hash\<rparr>);
          (v', clock') = rv_hash_set_all v1 fs (lamport_clock s);
          d = \<lparr>delta_key = key, delta_value = v', source_replica = rs_replica_id s\<rparr>
      in (push_delta (s\<lparr>lamport_clock := clock'\<rparr>) d, d))"

definition rs_record_hash_delete :: "shard_replica_state \<Rightarrow> string \<Rightarrow> string list
    \<Rightarrow> shard_replica_state \<times> replication_delta option" where
  "rs_record_hash_delete s key fs =
     (case fmlookup (replicated_keys s) key of
        None \<Rightarrow> (s, None)
      | Some v \<Rightarrow>
          if rv_is_hash v then
            (let (v', clock') = rv_hash_delete_all v fs (lamport_clock s);
                 d = \<lparr>delta_key = key, delta_value = v', source_replica = rs_replica_id s\<rparr>
             in (push_delta (s\<lparr>lamport_clock := clock'\<rparr>) d, Some d))
          else (s\<lparr>replicated_keys := fmupd key v (replicated_keys s)\<rparr>, None))"

definition rs_apply_remote_delta ::
  "shard_replica_state \<Rightarrow> replication_delta \<Rightarrow> shard_replica_state" where
  "rs_apply_remote_delta s d =
     (let merged = (case fmlookup (replicated_keys s) (delta_key d) of
                      Some local \<Rightarrow> rv_merge local (delta_value d) | None \<Rightarrow> delta_value d)
      in s\<lparr>lamport_clock := lc_update (lamport_clock s) (timestamp (delta_value d)),
           replicated_keys := fmupd (delta_key d) merged (replicated_keys s)\<rparr>)"

definition rs_drain_pending_deltas ::
  "shard_replica_state \<Rightarrow> shard_replica_state \<times> replication_delta list" where
  "rs_drain_pending_deltas s = (s\<lparr>pending_deltas := []\<rparr>, pending_deltas s)"

definition rs_get_replicated :: "shard_replica_state \<Rightarrow> string \<Rightarrow> replicated_value option" where
  "rs_get_replicated s key = fmlookup (replicated_keys s) key"

section \<open>Local operations as steps on registers\<close>

text \<open>
  What replication relies on is visible in the registers of a value: an LWW value has one, a hash
  one per field. A recorded operation leaves each register of its key alone or replaces it by
  one stamped with the local clock, strictly after everything the clock had reached before.
\<close>

fun reg_of :: "crdt_value \<Rightarrow> string option \<Rightarrow> bytes lww_register option" where
  "reg_of (VLww x) None = Some x"
| "reg_of (VHash h) (Some field) = fmlookup h field"
| "reg_of _ _ = None"

definition rs_reg :: "shard_replica_state \<Rightarrow> string \<Rightarrow> string option \<Rightarrow> bytes lww_register option" where
  "rs_reg s key f = Option.bind (fmlookup (replicated_keys s) key) (\<lambda>v. reg_of (crdt v) f)"

definition kind_ok :: "bool \<Rightarrow> replicated_value \<Rightarrow> bool" where
  "kind_ok hash v \<longleftrightarrow> (if hash then rv_is_hash v else is_lww (crdt v))"

definition advance :: "lamport_clock \<Rightarrow> lamport_clock \<Rightarrow> bool" where
  "advance c c' \<longleftrightarrow> replica_id c' = replica_id c \<and> time c \<le> time c'"

definition reg_step :: "lamport_clock \<Rightarrow> lamport_clock
    \<Rightarrow> bytes lww_register option \<Rightarrow> bytes lww_register option \<Rightarrow> bool" where
  "reg_step c c' x y \<longleftrightarrow> y = x \<or>
     (\<exists>w. y = Some w \<and> replica_id (lww_timestamp w) = replica_id c \<and>
          time c < time (lww_timestamp w) \<and> time (lww_timestamp w) \<le> time c')"

definition local_step ::
  "bool \<Rightarrow> shard_replica_state \<Rightarrow> shard_replica_state \<Rightarrow> replication_delta \<Rightarrow> bool" where
  "local_step hash s s' d \<longleftrightarrow>
     rs_replica_id s' = rs_replica_id s \<and> advance (lamport_clock s) (lamport_clock s') \<and>
     replicated_keys s' = fmupd (delta_key d) (delta_value d) (replicated_keys s) \<and>
     timestamp (delta_value d) = lamport_clock s' \<and> kind_ok hash (delta_value d) \<and>
     (\<forall>f. reg_step (lamport_clock s) (lamport_clock s')
            (rs_reg s (delta_key d) f) (reg_of (crdt (delta_value d)) f))"

lemma advance_refl [simp]: "advance c c"
  by (simp add: advance_def)

lemma advance_trans: "advance c d \<Longrightarrow> advance d e \<Longrightarrow> advance c e"
  by (auto simp: advance_def)

lemma advance_tick: "time c \<noteq> - 1 \<Longrightarrow> advance c (lc_tick c)"
  by (simp add: advance_def u64_less_suc less_imp_le)

lemma reg_step_refl [simp]: "reg_step c c' x x"
  by (simp add: reg_step_def)

lemma reg_step_tick:
  "time c \<noteq> - 1 \<Longrightarrow> lww_timestamp w = lc_tick c \<Longrightarrow> reg_step c (lc_tick c) x (Some w)"
  by (simp add: reg_step_def u64_less_suc)

lemma reg_step_trans:
  assumes "reg_step c d x y" "reg_step d e y z" "advance c d" "advance d e"
  shows "reg_step c e x z"
  using assms by (auto simp: reg_step_def advance_def intro: order.trans order.strict_trans2 le_less_trans)

lemma push_delta_sel [simp]:
  "rs_replica_id (push_delta s d) = rs_replica_id s"
  "lamport_clock (push_delta s d) = lamport_clock s"
  "replicated_keys (push_delta s d) = fmupd (delta_key d) (delta_value d) (replicated_keys s)"
  by (simp_all add: push_delta_def enforce_pending_capacity_def)

lemma lww_set_fst:
  "lww_set w x c = (w', c') \<longleftrightarrow>
     w' = w\<lparr>lww_value := Some x, lww_timestamp := lc_tick c, lww_tombstone := False\<rparr> \<and> c' = lc_tick c"
  by (auto simp: lww_set_def Let_def)

lemma lww_delete_fst:
  "lww_delete w c = (w', c') \<longleftrightarrow>
     w' = w\<lparr>lww_value := None, lww_timestamp := lc_tick c, lww_tombstone := True\<rparr> \<and> c' = lc_tick c"
  by (auto simp: lww_delete_def Let_def)

lemma rv_hash_set_step:
  assumes "rv_is_hash v" "rv_hash_set v field x c = (v', c')" "time c \<noteq> - 1"
  shows "rv_is_hash v' \<and> c' = lc_tick c \<and> timestamp v' = c' \<and>
    (\<forall>f. reg_step c c' (reg_of (crdt v) f) (reg_of (crdt v') f))"
proof -
  obtain h where h: "crdt v = VHash h"
    using assms(1) by (auto simp: rv_is_hash_def split: crdt_value.splits)
  obtain w c1 where w: "lww_set (case fmlookup h field of Some l \<Rightarrow> l
      | None \<Rightarrow> lww_new (replica_id c)) x c = (w, c1)" by force
  have eqs: "v' = v\<lparr>crdt := VHash (fmupd field w h), timestamp := lc_tick c\<rparr>" "c' = lc_tick c"
    using assms(1,2) w by (auto simp: rv_hash_set_def h Let_def lww_set_fst)
  have "reg_step c c' (reg_of (VHash h) f) (reg_of (VHash (fmupd field w h)) f)" for f
    using assms(3) w by (cases f) (simp_all add: eqs reg_step_tick lww_set_fst)
  then show ?thesis by (simp add: eqs h rv_is_hash_def)
qed

lemma rv_hash_delete_step:
  assumes "rv_is_hash v" "rv_hash_delete v field c = (v', c')" "time c \<noteq> - 1"
  shows "rv_is_hash v' \<and> (c' = c \<or> c' = lc_tick c) \<and> timestamp v' = c' \<and>
    (\<forall>f. reg_step c c' (reg_of (crdt v) f) (reg_of (crdt v') f))"
proof -
  obtain h where h: "crdt v = VHash h"
    using assms(1) by (auto simp: rv_is_hash_def split: crdt_value.splits)
  show ?thesis
  proof (cases "fmlookup h field")
    case None
    then show ?thesis using assms(1,2) by (auto simp: rv_hash_delete_def h rv_is_hash_def)
  next
    case (Some w)
    obtain w' c1 where w: "lww_delete w c = (w', c1)" by force
    have eqs: "v' = v\<lparr>crdt := VHash (fmupd field w' h), timestamp := lc_tick c\<rparr>" "c' = lc_tick c"
      using assms(1,2) Some w by (auto simp: rv_hash_delete_def h Let_def lww_delete_fst)
    have "reg_step c c' (reg_of (VHash h) f) (reg_of (VHash (fmupd field w' h)) f)" for f
      using assms(3) w by (cases f) (simp_all add: eqs reg_step_tick lww_delete_fst)
    then show ?thesis by (simp add: eqs h rv_is_hash_def)
  qed
qed

lemma u64_room: "unat (t :: u64) + Suc n < 2 ^ 64 \<Longrightarrow> t \<noteq> - 1 \<and> unat (t + 1) + n < 2 ^ 64"
  using unat_u64_suc [of t] by (cases "t = - 1") (auto simp: unsigned_minus_1_eq_mask mask_eq_exp_minus_1)

lemma rv_hash_set_all_step:
  assumes "rv_is_hash v" "rv_hash_set_all v fs c = (v', c')" "unat (time c) + length fs < 2 ^ 64"
  shows "rv_is_hash v' \<and> advance c c' \<and> (fs \<noteq> [] \<longrightarrow> timestamp v' = c') \<and>
    (\<forall>f. reg_step c c' (reg_of (crdt v) f) (reg_of (crdt v') f))"
  using assms
proof (induction fs arbitrary: v c)
  case (Cons p fs)
  obtain field x where p: "p = (field, x)" by force
  obtain v1 c1 where v1: "rv_hash_set v field x c = (v1, c1)" by force
  have t: "time c \<noteq> - 1" "unat (time c + 1) + length fs < 2 ^ 64"
    using Cons.prems(3) u64_room [of "time c" "length fs"] by simp_all
  note step = rv_hash_set_step [OF Cons.prems(1) v1 t(1)]
  have "rv_hash_set_all v1 fs c1 = (v', c')" using Cons.prems(2) by (simp add: p v1)
  with Cons.IH [of v1 c1] step t(2)
  have "rv_is_hash v'" "advance c1 c'" "fs \<noteq> [] \<longrightarrow> timestamp v' = c'"
    "fs = [] \<longrightarrow> v' = v1 \<and> c' = c1"
    "\<forall>f. reg_step c1 c' (reg_of (crdt v1) f) (reg_of (crdt v') f)" by auto
  with step advance_tick [OF t(1)] show ?case
    by (auto intro: advance_trans reg_step_trans)
qed simp

lemma rv_hash_delete_all_step:
  assumes "rv_is_hash v" "rv_hash_delete_all v fs c = (v', c')" "unat (time c) + length fs < 2 ^ 64"
  shows "rv_is_hash v' \<and> advance c c' \<and> (fs \<noteq> [] \<longrightarrow> timestamp v' = c') \<and>
    (\<forall>f. reg_step c c' (reg_of (crdt v) f) (reg_of (crdt v') f))"
  using assms
proof (induction fs arbitrary: v c)
  case (Cons field fs)
  obtain v1 c1 where v1: "rv_hash_delete v field c = (v1, c1)" by force
  have t: "time c \<noteq> - 1" "unat (time c + 1) + length fs < 2 ^ 64"
    "unat (time c) + length fs < 2 ^ 64"
    using Cons.prems(3) u64_room [of "time c" "length fs"] by simp_all
  note step = rv_hash_delete_step [OF Cons.prems(1) v1 t(1)]
  have "rv_hash_delete_all v1 fs c1 = (v', c')" using Cons.prems(2) by (simp add: v1)
  with Cons.IH [of v1 c1] step t(2,3)
  have "rv_is_hash v'" "advance c1 c'" "fs \<noteq> [] \<longrightarrow> timestamp v' = c'"
    "fs = [] \<longrightarrow> v' = v1 \<and> c' = c1"
    "\<forall>f. reg_step c1 c' (reg_of (crdt v1) f) (reg_of (crdt v') f)" by auto
  with step advance_tick [OF t(1)] show ?case
    by (auto intro: advance_trans reg_step_trans)
qed simp

text \<open>The four recording operations are such steps.\<close>

lemma rs_record_write_step:
  assumes "rs_record_write s key x e = (s', d)" "time (lamport_clock s) \<noteq> - 1"
    and "\<And>v. fmlookup (replicated_keys s) key = Some v \<Longrightarrow> kind_ok False v"
  shows "local_step False s s' d \<and> delta_key d = key"
proof -
  define v where "v = (case fmlookup (replicated_keys s) key of Some v \<Rightarrow> v | None \<Rightarrow> rv_new (rs_replica_id s))"
  have "is_lww (crdt v)"
    using assms(3) by (auto simp: v_def rv_new_def new_lww_def kind_ok_def split: option.splits)
  then obtain w where w: "crdt v = VLww w" by (cases "crdt v") auto
  have reg: "rs_reg s key (Some f) = None" for f
    using assms(3) by (cases "fmlookup (replicated_keys s) key")
      (auto simp: rs_reg_def kind_ok_def elim: is_lww.elims)
  have "reg_step c (lc_tick c) y (Some (w\<lparr>lww_value := Some x, lww_timestamp := lc_tick c, lww_tombstone := False\<rparr>))"
    if "c = lamport_clock s" for y c
    using assms(2) that by (simp add: reg_step_tick)
  then have "reg_step (lamport_clock s) (lc_tick (lamport_clock s)) (rs_reg s key f)
      (reg_of (VLww (w\<lparr>lww_value := Some x, lww_timestamp := lc_tick (lamport_clock s), lww_tombstone := False\<rparr>)) f)" for f
    by (cases f) (simp_all add: reg)
  then show ?thesis
    using assms(1,2) unfolding rs_record_write_def v_def [symmetric]
    by (auto simp: rv_set_def w lww_set_def Let_def local_step_def advance_tick kind_ok_def split: if_splits)
qed

lemma rs_record_delete_step:
  assumes "rs_record_delete s key = (s', Some d)" "time (lamport_clock s) \<noteq> - 1"
    and "\<And>v. fmlookup (replicated_keys s) key = Some v \<Longrightarrow> kind_ok False v"
  shows "local_step False s s' d \<and> delta_key d = key"
proof -
  obtain v where v: "fmlookup (replicated_keys s) key = Some v"
    using assms(1) by (auto simp: rs_record_delete_def split: option.splits)
  then obtain w where w: "crdt v = VLww w"
    using assms(3) by (cases "crdt v") (auto simp: kind_ok_def)
  have "reg_step (lamport_clock s) (lc_tick (lamport_clock s)) (reg_of (VLww w) f)
      (reg_of (VLww (w\<lparr>lww_value := None, lww_timestamp := lc_tick (lamport_clock s), lww_tombstone := True\<rparr>)) f)" for f
    using assms(2) by (cases f) (simp_all add: reg_step_tick)
  then show ?thesis
    using assms(1,2) v
    by (auto simp: rs_record_delete_def rv_delete_def w lww_delete_def Let_def local_step_def
        advance_tick kind_ok_def rs_reg_def)
qed

lemma rs_record_hash_write_step:
  assumes "rs_record_hash_write s key fs = (s', d)" "fs \<noteq> []"
    and "unat (time (lamport_clock s)) + length fs < 2 ^ 64"
    and "\<And>v. fmlookup (replicated_keys s) key = Some v \<Longrightarrow> kind_ok True v"
  shows "local_step True s s' d \<and> delta_key d = key"
proof -
  define v where "v = (case fmlookup (replicated_keys s) key of Some v \<Rightarrow> v
      | None \<Rightarrow> (rv_new (rs_replica_id s))\<lparr>crdt := new_hash\<rparr>)"
  have hash: "rv_is_hash v"
    using assms(4) by (auto simp: v_def rv_is_hash_def new_hash_def kind_ok_def split: option.splits)
  have reg: "reg_of (crdt v) f = rs_reg s key f" for f
    by (cases f) (auto simp: v_def rs_reg_def new_hash_def split: option.splits)
  obtain v' c' where v': "rv_hash_set_all v fs (lamport_clock s) = (v', c')" by force
  show ?thesis
    using assms(1,2) rv_hash_set_all_step [OF hash v' assms(3)]
    unfolding rs_record_hash_write_def v_def [symmetric]
    by (auto simp: hash v' Let_def local_step_def kind_ok_def reg)
qed

lemma rs_record_hash_delete_step:
  assumes "rs_record_hash_delete s key fs = (s', Some d)" "fs \<noteq> []"
    and "unat (time (lamport_clock s)) + length fs < 2 ^ 64"
  shows "local_step True s s' d \<and> delta_key d = key"
proof -
  obtain v where v: "fmlookup (replicated_keys s) key = Some v" "rv_is_hash v"
    using assms(1) by (auto simp: rs_record_hash_delete_def split: option.splits if_splits)
  obtain v' c' where v': "rv_hash_delete_all v fs (lamport_clock s) = (v', c')" by force
  show ?thesis
    using assms(1,2) rv_hash_delete_all_step [OF v(2) v' assms(3)]
    by (auto simp: rs_record_hash_delete_def v v' Let_def local_step_def kind_ok_def rs_reg_def)
qed

lemma rs_reg_apply_remote:
  assumes "kind_ok hash (delta_value d)"
    and "\<And>v. fmlookup (replicated_keys s) (delta_key d) = Some v \<Longrightarrow> kind_ok hash v"
  shows "rs_reg (rs_apply_remote_delta s d) k f =
    (if k = delta_key d then opt_join lww_merge (rs_reg s k f) (reg_of (crdt (delta_value d)) f)
     else rs_reg s k f)"
proof -
  have "reg_of (merge_with_timestamps a b t u) f = opt_join lww_merge (reg_of a f) (reg_of b f)"
    if "is_lww a \<and> is_lww b \<or> as_hash a \<noteq> None \<and> as_hash b \<noteq> None" for a b t u
    using that by (cases a; cases b; cases f)
      (auto simp: merge_with_timestamps_def try_merge_def opt_join_def split: option.splits)
  moreover have "rv_is_hash v \<longleftrightarrow> as_hash (crdt v) \<noteq> None" for v
    by (cases "crdt v") (auto simp: rv_is_hash_def)
  ultimately show ?thesis
    using assms by (cases "fmlookup (replicated_keys s) (delta_key d)")
      (auto simp: rs_reg_def rs_apply_remote_delta_def Let_def rv_merge_def kind_ok_def opt_join_def
        split: option.splits if_splits)
qed

lemma kind_ok_merge: "kind_ok hash a \<Longrightarrow> kind_ok hash b \<Longrightarrow> kind_ok hash (rv_merge a b)"
  by (cases hash; cases "crdt a"; cases "crdt b")
    (auto simp: kind_ok_def rv_merge_def rv_is_hash_def merge_with_timestamps_def try_merge_def)

section \<open>What a shard answers after recording\<close>

definition rs_read :: "shard_replica_state \<Rightarrow> string \<Rightarrow> bytes option" where
  "rs_read s key = Option.bind (rs_get_replicated s key) rv_get"

definition rs_hash_read :: "shard_replica_state \<Rightarrow> string \<Rightarrow> string \<Rightarrow> bytes option" where
  "rs_hash_read s key field = Option.bind (rs_get_replicated s key) (\<lambda>v. rv_hash_get v field)"

lemma rv_hash_set_get:
  "rv_hash_get (fst (rv_hash_set v field x c)) g =
     (if g = field then Some x else if rv_is_hash v then rv_hash_get v g else None)"
  by (auto simp: rv_hash_set_def rv_hash_get_def rv_is_hash_def lww_set_def lww_get_def new_hash_def
      Let_def case_prod_beta split: crdt_value.splits)

lemma rv_hash_set_hash: "rv_is_hash (fst (rv_hash_set v field x c))"
  by (auto simp: rv_hash_set_def rv_is_hash_def new_hash_def Let_def case_prod_beta
      split: crdt_value.splits)

lemma rv_hash_set_all_get:
  "rv_is_hash v \<Longrightarrow> rv_hash_get (fst (rv_hash_set_all v fs c)) g =
     (case map_of (rev fs) g of Some x \<Rightarrow> Some x | None \<Rightarrow> rv_hash_get v g)"
proof (induction fs arbitrary: v c)
  case (Cons p fs)
  then show ?case
    using rv_hash_set_hash [of v "fst p" "snd p" c]
    by (cases p) (auto simp: case_prod_beta rv_hash_set_get Let_def map_add_def split: option.splits)
qed simp

lemma rv_hash_delete_all_get:
  "rv_is_hash v \<Longrightarrow> rv_is_hash (fst (rv_hash_delete_all v fs c)) \<and>
     rv_hash_get (fst (rv_hash_delete_all v fs c)) g = (if g \<in> set fs then None else rv_hash_get v g)"
proof (induction fs arbitrary: v c)
  case (Cons f fs)
  have "rv_is_hash (fst (rv_hash_delete v f c)) \<and>
      rv_hash_get (fst (rv_hash_delete v f c)) g = (if g = f then None else rv_hash_get v g)"
    using Cons.prems
    by (auto simp: rv_hash_delete_def rv_hash_get_def rv_is_hash_def lww_delete_def lww_get_def Let_def
        split: crdt_value.splits option.splits)
  with Cons.IH show ?case by (auto simp: case_prod_beta Let_def)
qed simp

lemma rs_get_push [simp]:
  "rs_get_replicated (push_delta s d) key =
     (if key = delta_key d then Some (delta_value d) else rs_get_replicated s key)"
  by (simp add: rs_get_replicated_def)

text \<open>
  A shard answers what was recorded last. A recorded write makes its value the answer; a
  delete makes a string key answer nothing; a hash write makes every field answer the last
  value given for it and leaves the other fields; a hash delete makes its fields answer
  nothing. Other keys are not touched.
\<close>

theorem rs_answers_last_recorded:
  shows "rs_read (fst (rs_record_write s key x e)) k = (if k = key then Some x else rs_read s k) \<and>
    rs_read (fst (rs_record_delete s key)) k = (if k = key then None else rs_read s k) \<and>
    rs_hash_read (fst (rs_record_hash_write s key fs)) k f =
      (if k = key then case map_of (rev fs) f of Some y \<Rightarrow> Some y | None \<Rightarrow> rs_hash_read s key f
       else rs_hash_read s k f) \<and>
    rs_hash_read (fst (rs_record_hash_delete s key gs)) k f =
      (if k = key \<and> f \<in> set gs then None else rs_hash_read s k f)"
proof (intro conjI)
  show "rs_read (fst (rs_record_write s key x e)) k = (if k = key then Some x else rs_read s k)"
    by (auto simp: rs_record_write_def rs_read_def rv_set_def lww_set_def rv_get_def lww_get_def
        rs_get_replicated_def Let_def case_prod_beta split: crdt_value.splits option.splits)
  show "rs_read (fst (rs_record_delete s key)) k = (if k = key then None else rs_read s k)"
    by (auto simp: rs_record_delete_def rs_read_def rv_delete_def lww_delete_def rv_get_def lww_get_def
        rs_get_replicated_def Let_def case_prod_beta split: crdt_value.splits option.splits)
  show "rs_hash_read (fst (rs_record_hash_write s key fs)) k f =
      (if k = key then case map_of (rev fs) f of Some y \<Rightarrow> Some y | None \<Rightarrow> rs_hash_read s key f
       else rs_hash_read s k f)"
  proof -
    define v where "v = (case fmlookup (replicated_keys s) key of Some v \<Rightarrow> v
      | None \<Rightarrow> (rv_new (rs_replica_id s))\<lparr>crdt := new_hash\<rparr>)"
    let ?v = "if rv_is_hash v then v else v\<lparr>crdt := new_hash\<rparr>"
    have "rv_is_hash ?v" by (simp add: rv_is_hash_def new_hash_def)
    moreover have "rv_hash_get ?v f = rs_hash_read s key f"
      by (auto simp: v_def rv_hash_get_def rv_is_hash_def new_hash_def rs_hash_read_def
          rs_get_replicated_def split: option.splits crdt_value.splits)
    ultimately show ?thesis
      using rv_hash_set_all_get [of ?v fs "lamport_clock s" f]
      by (auto simp: rs_record_hash_write_def v_def [symmetric] rs_hash_read_def rs_get_replicated_def
          Let_def case_prod_beta split: option.splits)
  qed
  show "rs_hash_read (fst (rs_record_hash_delete s key gs)) k f =
      (if k = key \<and> f \<in> set gs then None else rs_hash_read s k f)"
    using rv_hash_delete_all_get [of _ gs "lamport_clock s" f]
    by (auto simp: rs_record_hash_delete_def rs_hash_read_def rs_get_replicated_def Let_def
        case_prod_beta rv_is_hash_def rv_hash_get_def split: option.splits crdt_value.splits)
qed

section \<open>Bounded memory\<close>

lemma push_delta_bounded: "length (pending_deltas (push_delta s d)) \<le> MAX_PENDING_DELTAS"
  by (simp add: push_delta_def enforce_pending_capacity_def)

lemma push_delta_last: "last (pending_deltas (push_delta s d)) = d"
  by (simp add: push_delta_def enforce_pending_capacity_def)

text \<open>
  The queue of deltas that wait for gossip never exceeds its capacity, whatever is recorded,
  applied or drained, and what is dropped is the oldest: the delta just recorded is last.
\<close>

theorem pending_deltas_bounded:
  assumes "length (pending_deltas s) \<le> MAX_PENDING_DELTAS"
  shows "length (pending_deltas (fst (rs_record_write s key x e))) \<le> MAX_PENDING_DELTAS \<and>
    last (pending_deltas (fst (rs_record_write s key x e))) = snd (rs_record_write s key x e) \<and>
    length (pending_deltas (fst (rs_record_delete s key))) \<le> MAX_PENDING_DELTAS \<and>
    length (pending_deltas (fst (rs_record_hash_write s key fs))) \<le> MAX_PENDING_DELTAS \<and>
    length (pending_deltas (fst (rs_record_hash_delete s key gs))) \<le> MAX_PENDING_DELTAS \<and>
    length (pending_deltas (rs_apply_remote_delta s d)) \<le> MAX_PENDING_DELTAS \<and>
    fst (rs_drain_pending_deltas s) = s\<lparr>pending_deltas := []\<rparr>"
  using assms
  by (simp add: rs_record_write_def rs_record_delete_def rs_record_hash_write_def
      rs_record_hash_delete_def rs_apply_remote_delta_def rs_drain_pending_deltas_def Let_def
      case_prod_beta push_delta_bounded push_delta_last split: option.split)

theorem pending_deltas_bounded_witness:
  "length (pending_deltas (fst (rs_record_write (rs_new 1 Causal) ''k'' ''v'' None))) \<le> MAX_PENDING_DELTAS"
  using pending_deltas_bounded [of "rs_new 1 Causal"] by (simp add: rs_new_def)

end
