(* ===== verification/Replication_Cluster.thy ===== *)
theory Replication_Cluster
  imports Replication_State
begin

text \<open>
  A cluster of shards (\<open>src/replication/state/shard_state.rs\<close>) that record writes and apply each
  other's deltas in any order, any number of times, with delays and losses. Keys hold strings
  or hashes (\<open>hash_key\<close> says which) and keep their type. The invariant of the reachable states
  gives convergence: shards that have applied the same deltas answer reads alike.
\<close>

section \<open>Runs of a cluster\<close>

text \<open>
  \<open>\<sigma>\<close> is the state of every shard, \<open>net\<close> the deltas recorded so far and \<open>seen r\<close> those shard \<open>r\<close>
  has recorded or applied. Steps do not let a Lamport clock run past its 64 bits.
\<close>

inductive cluster ::
  "(string \<Rightarrow> bool) \<Rightarrow> (replica_id \<Rightarrow> consistency_level) \<Rightarrow> (replica_id \<Rightarrow> shard_replica_state)
    \<Rightarrow> replication_delta set \<Rightarrow> (replica_id \<Rightarrow> replication_delta set) \<Rightarrow> bool"
  for hash_key lvl
where
  start: "cluster hash_key lvl (\<lambda>r. rs_new r (lvl r)) {} (\<lambda>_. {})"
| rec_write: "cluster hash_key lvl \<sigma> net seen \<Longrightarrow> \<not> hash_key key \<Longrightarrow>
    time (lamport_clock (\<sigma> r)) \<noteq> - 1 \<Longrightarrow> rs_record_write (\<sigma> r) key x e = (s', d) \<Longrightarrow>
    cluster hash_key lvl (\<sigma>(r := s')) (insert d net) (seen(r := insert d (seen r)))"
| rec_delete: "cluster hash_key lvl \<sigma> net seen \<Longrightarrow> \<not> hash_key key \<Longrightarrow>
    time (lamport_clock (\<sigma> r)) \<noteq> - 1 \<Longrightarrow> rs_record_delete (\<sigma> r) key = (s', Some d) \<Longrightarrow>
    cluster hash_key lvl (\<sigma>(r := s')) (insert d net) (seen(r := insert d (seen r)))"
| rec_hash_write: "cluster hash_key lvl \<sigma> net seen \<Longrightarrow> hash_key key \<Longrightarrow> fs \<noteq> [] \<Longrightarrow>
    unat (time (lamport_clock (\<sigma> r))) + length fs < 2 ^ 64 \<Longrightarrow>
    rs_record_hash_write (\<sigma> r) key fs = (s', d) \<Longrightarrow>
    cluster hash_key lvl (\<sigma>(r := s')) (insert d net) (seen(r := insert d (seen r)))"
| rec_hash_delete: "cluster hash_key lvl \<sigma> net seen \<Longrightarrow> hash_key key \<Longrightarrow> fs \<noteq> [] \<Longrightarrow>
    unat (time (lamport_clock (\<sigma> r))) + length fs < 2 ^ 64 \<Longrightarrow>
    rs_record_hash_delete (\<sigma> r) key fs = (s', Some d) \<Longrightarrow>
    cluster hash_key lvl (\<sigma>(r := s')) (insert d net) (seen(r := insert d (seen r)))"
| apply_delta: "cluster hash_key lvl \<sigma> net seen \<Longrightarrow> d \<in> net \<Longrightarrow>
    max (time (lamport_clock (\<sigma> r))) (time (timestamp (delta_value d))) \<noteq> - 1 \<Longrightarrow>
    cluster hash_key lvl (\<sigma>(r := rs_apply_remote_delta (\<sigma> r) d)) net (seen(r := insert d (seen r)))"
| drain: "cluster hash_key lvl \<sigma> net seen \<Longrightarrow>
    cluster hash_key lvl (\<sigma>(r := fst (rs_drain_pending_deltas (\<sigma> r)))) net seen"

section \<open>The invariant\<close>

definition net_reg :: "replication_delta set \<Rightarrow> string \<Rightarrow> string option \<Rightarrow> bytes lww_register \<Rightarrow> bool" where
  "net_reg net k f x \<longleftrightarrow> (\<exists>d \<in> net. delta_key d = k \<and> reg_of (crdt (delta_value d)) f = Some x)"

definition kinds_ok :: "(string \<Rightarrow> bool) \<Rightarrow> (replica_id \<Rightarrow> shard_replica_state) \<Rightarrow> replication_delta set \<Rightarrow> bool" where
  "kinds_ok hash_key \<sigma> net \<longleftrightarrow>
     (\<forall>r k v. fmlookup (replicated_keys (\<sigma> r)) k = Some v \<longrightarrow> kind_ok (hash_key k) v) \<and>
     (\<forall>d \<in> net. kind_ok (hash_key (delta_key d)) (delta_value d))"

definition own_ids :: "(replica_id \<Rightarrow> shard_replica_state) \<Rightarrow> bool" where
  "own_ids \<sigma> \<longleftrightarrow> (\<forall>r. replica_id (lamport_clock (\<sigma> r)) = r)"

definition state_from_net :: "(replica_id \<Rightarrow> shard_replica_state) \<Rightarrow> replication_delta set \<Rightarrow> bool" where
  "state_from_net \<sigma> net \<longleftrightarrow> (\<forall>r k f x. rs_reg (\<sigma> r) k f = Some x \<longrightarrow> net_reg net k f x)"

definition above_seen ::
  "(replica_id \<Rightarrow> shard_replica_state) \<Rightarrow> (replica_id \<Rightarrow> replication_delta set) \<Rightarrow> bool" where
  "above_seen \<sigma> seen \<longleftrightarrow>
     (\<forall>r k f x. net_reg (seen r) k f x \<longrightarrow>
        (\<exists>y. rs_reg (\<sigma> r) k f = Some y \<and> lww_timestamp x \<le> lww_timestamp y))"

definition stamps_unique :: "replication_delta set \<Rightarrow> bool" where
  "stamps_unique net \<longleftrightarrow>
     (\<forall>k f x y. net_reg net k f x \<longrightarrow> net_reg net k f y \<longrightarrow> lww_timestamp x = lww_timestamp y \<longrightarrow> x = y)"

definition clocks_ahead :: "(replica_id \<Rightarrow> shard_replica_state) \<Rightarrow> replication_delta set \<Rightarrow> bool" where
  "clocks_ahead \<sigma> net \<longleftrightarrow>
     (\<forall>k f x. net_reg net k f x \<longrightarrow>
        time (lww_timestamp x) \<le> time (lamport_clock (\<sigma> (replica_id (lww_timestamp x))))) \<and>
     (\<forall>r k f x. rs_reg (\<sigma> r) k f = Some x \<longrightarrow> time (lww_timestamp x) \<le> time (lamport_clock (\<sigma> r))) \<and>
     (\<forall>d \<in> net. \<forall>f x. reg_of (crdt (delta_value d)) f = Some x \<longrightarrow>
        time (lww_timestamp x) \<le> time (timestamp (delta_value d)))"

definition cluster_inv where
  "cluster_inv hash_key \<sigma> net seen \<longleftrightarrow>
     kinds_ok hash_key \<sigma> net \<and> own_ids \<sigma> \<and> state_from_net \<sigma> net \<and> above_seen \<sigma> seen \<and>
     stamps_unique net \<and> clocks_ahead \<sigma> net"

lemmas cluster_inv_defs = cluster_inv_def kinds_ok_def own_ids_def state_from_net_def above_seen_def
  stamps_unique_def clocks_ahead_def

lemma net_reg_insert:
  "net_reg (insert d net) k f x \<longleftrightarrow>
     delta_key d = k \<and> reg_of (crdt (delta_value d)) f = Some x \<or> net_reg net k f x"
  by (auto simp: net_reg_def)

lemma cluster_inv_start: "cluster_inv hash_key (\<lambda>r. rs_new r (lvl r)) {} (\<lambda>_. {})"
  by (simp add: cluster_inv_defs rs_new_def rs_reg_def net_reg_def lc_new_def)

lemma local_step_reg:
  assumes "local_step hash s s' d"
  shows "rs_reg s' k f = (if k = delta_key d then reg_of (crdt (delta_value d)) f else rs_reg s k f)"
  using assms by (auto simp: local_step_def rs_reg_def)

lemma lc_le_time: "time a < time b \<Longrightarrow> a \<le> b"
  by (rule less_imp_le) (simp add: lc_less_iff)

text \<open>
  A recorded operation: the registers of its delta are the old ones or freshly stamped, and none
  is behind the old one.
\<close>

lemma local_step_new:
  assumes "cluster_inv hash_key \<sigma> net seen" "local_step hash (\<sigma> r) s' d"
    and "reg_of (crdt (delta_value d)) f = Some x"
  shows "rs_reg (\<sigma> r) (delta_key d) f = Some x \<or>
    replica_id (lww_timestamp x) = r \<and> time (lamport_clock (\<sigma> r)) < time (lww_timestamp x) \<and>
    time (lww_timestamp x) \<le> time (lamport_clock s')"
  using assms
  by (auto simp: cluster_inv_def own_ids_def local_step_def reg_step_def dest: spec [of _ f])

lemma local_step_kept:
  assumes "cluster_inv hash_key \<sigma> net seen" "local_step hash (\<sigma> r) s' d"
    and "rs_reg (\<sigma> r) (delta_key d) f = Some x"
  shows "\<exists>y. reg_of (crdt (delta_value d)) f = Some y \<and> lww_timestamp x \<le> lww_timestamp y"
proof -
  have "time (lww_timestamp x) \<le> time (lamport_clock (\<sigma> r))"
    using assms(1,3) by (auto simp: cluster_inv_def clocks_ahead_def)
  then show ?thesis
    using assms(2,3) by (auto simp: local_step_def reg_step_def dest!: spec [of _ f])
      (metis le_less_trans lc_le_time)
qed

lemma inv_net_time:
  "cluster_inv hash_key \<sigma> net seen \<Longrightarrow> net_reg net k f x \<Longrightarrow>
     time (lww_timestamp x) \<le> time (lamport_clock (\<sigma> (replica_id (lww_timestamp x))))"
  by (auto simp: cluster_inv_def clocks_ahead_def)

lemma inv_state:
  "cluster_inv hash_key \<sigma> net seen \<Longrightarrow> rs_reg (\<sigma> r) k f = Some x \<Longrightarrow>
     net_reg net k f x \<and> time (lww_timestamp x) \<le> time (lamport_clock (\<sigma> r))"
  by (auto simp: cluster_inv_def clocks_ahead_def state_from_net_def)

lemma inv_delta_time:
  "cluster_inv hash_key \<sigma> net seen \<Longrightarrow> d \<in> net \<Longrightarrow> reg_of (crdt (delta_value d)) f = Some x \<Longrightarrow>
     time (lww_timestamp x) \<le> time (timestamp (delta_value d))"
  by (auto simp: cluster_inv_def clocks_ahead_def)

lemma inv_kind:
  "cluster_inv hash_key \<sigma> net seen \<Longrightarrow> fmlookup (replicated_keys (\<sigma> r)) k = Some v \<Longrightarrow>
     hash_key k = hash \<Longrightarrow> kind_ok hash v"
  by (auto simp: cluster_inv_def kinds_ok_def)

lemma local_stamps_unique:
  assumes inv: "cluster_inv hash_key \<sigma> net seen" and step: "local_step hash (\<sigma> r) s' d"
  shows "stamps_unique (insert d net)"
proof -
  have net: "stamps_unique net" using inv by (simp add: cluster_inv_def)
  have fresh: "x = y"
    if "reg_of (crdt (delta_value d)) f = Some x" "net_reg net (delta_key d) f y"
      "lww_timestamp x = lww_timestamp y" for f x y
    using local_step_new [OF inv step that(1)]
  proof
    assume "rs_reg (\<sigma> r) (delta_key d) f = Some x"
    then show ?thesis
      using inv_state [OF inv, of r "delta_key d" f x] that net unfolding stamps_unique_def by blast
  next
    assume "replica_id (lww_timestamp x) = r \<and> time (lamport_clock (\<sigma> r)) < time (lww_timestamp x) \<and>
      time (lww_timestamp x) \<le> time (lamport_clock s')"
    then show ?thesis using inv_net_time [OF inv that(2)] that(3) by auto
  qed
  with net show ?thesis
    unfolding stamps_unique_def net_reg_insert by (metis option.inject)
qed

lemma local_clocks_ahead:
  assumes inv: "cluster_inv hash_key \<sigma> net seen" and step: "local_step hash (\<sigma> r) s' d"
  shows "clocks_ahead (\<sigma>(r := s')) (insert d net)"
proof -
  let ?new = "reg_of (crdt (delta_value d))"
  have adv: "time (lamport_clock (\<sigma> r)) \<le> time (lamport_clock s')"
    and ts: "timestamp (delta_value d) = lamport_clock s'"
    using step by (auto simp: local_step_def advance_def)
  have n: "time (lww_timestamp x) \<le> time (lamport_clock s')" if "?new f = Some x" for f x
    using local_step_new [OF inv step that] inv_state [OF inv, of r "delta_key d" f x] adv by auto
  have old: "time (lww_timestamp x) \<le> time (lamport_clock ((\<sigma>(r := s')) (replica_id (lww_timestamp x))))"
    if "net_reg net k f x" for k f x
    using inv_net_time [OF inv that] adv by (auto intro: order.trans)
  have "time (lww_timestamp x) \<le> time (lamport_clock ((\<sigma>(r := s')) (replica_id (lww_timestamp x))))"
    if "?new f = Some x" for f x
    using local_step_new [OF inv step that] old [of "delta_key d" f x]
      inv_state [OF inv, of r "delta_key d" f x] by auto
  moreover have "time (lww_timestamp x) \<le> time (lamport_clock s')" if "rs_reg s' k f = Some x" for k f x
    using that n [of f x] inv_state [OF inv, of r k f x] adv
    by (auto simp: local_step_reg [OF step] split: if_splits)
  ultimately show ?thesis
    using inv n old ts unfolding clocks_ahead_def net_reg_insert cluster_inv_def by auto
qed

lemma cluster_inv_local:
  assumes inv: "cluster_inv hash_key \<sigma> net seen"
    and step: "local_step (hash_key (delta_key d)) (\<sigma> r) s' d"
  shows "cluster_inv hash_key (\<sigma>(r := s')) (insert d net) (seen(r := insert d (seen r)))"
proof -
  note reg = local_step_reg [OF step]
  have "kinds_ok hash_key (\<sigma>(r := s')) (insert d net)" "own_ids (\<sigma>(r := s'))"
    using inv step by (auto simp: cluster_inv_def kinds_ok_def own_ids_def local_step_def advance_def)
  moreover have "state_from_net (\<sigma>(r := s')) (insert d net)"
    using inv by (auto simp: cluster_inv_def state_from_net_def reg net_reg_insert)
  moreover have "above_seen (\<sigma>(r := s')) (seen(r := insert d (seen r)))"
    using inv local_step_kept [OF inv step]
    by (auto simp: cluster_inv_def above_seen_def reg net_reg_insert) (meson order.trans)+
  ultimately show ?thesis
    using local_stamps_unique [OF inv step] local_clocks_ahead [OF inv step]
    by (simp add: cluster_inv_def)
qed

text \<open>Delivery of a delta: the register with the greater stamp stays.\<close>

lemma opt_join_lww:
  "opt_join lww_merge a b = Some x \<Longrightarrow> a = Some x \<or> b = Some x"
  by (auto simp: opt_join_def lww_merge_def split: option.splits if_splits)

lemma opt_join_lww_above:
  "a = Some x \<or> b = Some x \<Longrightarrow>
     \<exists>y. opt_join lww_merge a b = Some y \<and> lww_timestamp x \<le> lww_timestamp y"
  by (auto simp: opt_join_def lww_merge_timestamp split: option.splits)

lemma cluster_inv_deliver:
  assumes inv: "cluster_inv hash_key \<sigma> net seen" and d: "d \<in> net"
    and room: "max (time (lamport_clock (\<sigma> r))) (time (timestamp (delta_value d))) \<noteq> - 1"
  shows "cluster_inv hash_key (\<sigma>(r := rs_apply_remote_delta (\<sigma> r) d)) net (seen(r := insert d (seen r)))"
proof -
  let ?s = "rs_apply_remote_delta (\<sigma> r) d" and ?new = "reg_of (crdt (delta_value d))"
  have reg: "rs_reg ?s k f =
      (if k = delta_key d then opt_join lww_merge (rs_reg (\<sigma> r) k f) (?new f) else rs_reg (\<sigma> r) k f)" for k f
    by (rule rs_reg_apply_remote [of "hash_key (delta_key d)"])
      (use inv d in \<open>auto simp: cluster_inv_def kinds_ok_def\<close>)
  have net: "net_reg net (delta_key d) f x" if "?new f = Some x" for f x
    using d that by (auto simp: net_reg_def)
  have clock: "replica_id (lamport_clock ?s) = r" "time (lamport_clock (\<sigma> r)) \<le> time (lamport_clock ?s)"
    "time (timestamp (delta_value d)) \<le> time (lamport_clock ?s)"
    using inv lc_update_above [OF room] u64_less_suc [OF room]
    by (auto simp: cluster_inv_def own_ids_def rs_apply_remote_delta_def Let_def lc_update_def)
  have newtime: "time (lww_timestamp x) \<le> time (lamport_clock ?s)" if "?new f = Some x" for f x
    using inv_delta_time [OF inv d that] clock(3) by (rule order.trans)
  have "kinds_ok hash_key (\<sigma>(r := ?s)) net"
    using inv d by (auto simp: cluster_inv_def kinds_ok_def rs_apply_remote_delta_def Let_def
        kind_ok_merge split: option.splits)
  moreover have "own_ids (\<sigma>(r := ?s))" using inv clock by (auto simp: cluster_inv_def own_ids_def)
  moreover have "state_from_net (\<sigma>(r := ?s)) net"
    using inv net by (auto simp: cluster_inv_def state_from_net_def reg dest!: opt_join_lww)
  moreover have "above_seen (\<sigma>(r := ?s)) (seen(r := insert d (seen r)))"
    using inv opt_join_lww_above
    by (auto simp: cluster_inv_def above_seen_def reg net_reg_insert) (meson order.trans)
  moreover have "clocks_ahead (\<sigma>(r := ?s)) net"
  proof -
    have "time (lww_timestamp x) \<le> time (lamport_clock ((\<sigma>(r := ?s)) (replica_id (lww_timestamp x))))"
      if "net_reg net k f x" for k f x
      using inv_net_time [OF inv that] clock(2) by (auto intro: order.trans)
    moreover have "time (lww_timestamp x) \<le> time (lamport_clock ?s)" if "rs_reg ?s k f = Some x" for k f x
      using that inv_state [OF inv, of r k f x] newtime [of f x] clock(2)
      by (auto simp: reg split: if_splits dest!: opt_join_lww)
    ultimately show ?thesis using inv by (auto simp: cluster_inv_def clocks_ahead_def)
  qed
  ultimately show ?thesis using inv by (simp add: cluster_inv_def)
qed

lemma cluster_inv_drain:
  assumes "cluster_inv hash_key \<sigma> net seen"
  shows "cluster_inv hash_key (\<sigma>(r := fst (rs_drain_pending_deltas (\<sigma> r)))) net seen"
proof -
  let ?s = "fst (rs_drain_pending_deltas (\<sigma> r))"
  have "replicated_keys ?s = replicated_keys (\<sigma> r)" "lamport_clock ?s = lamport_clock (\<sigma> r)"
    by (simp_all add: rs_drain_pending_deltas_def)
  moreover from this have "rs_reg ?s = rs_reg (\<sigma> r)" by (simp add: rs_reg_def fun_eq_iff)
  ultimately show ?thesis using assms by (auto simp: cluster_inv_defs)
qed

lemma cluster_invariant: "cluster hash_key lvl \<sigma> net seen \<Longrightarrow> cluster_inv hash_key \<sigma> net seen"
proof (induction rule: cluster.induct)
  case start
  show ?case by (rule cluster_inv_start)
next
  case (rec_write \<sigma> net seen key r x e s' d)
  then have "local_step False (\<sigma> r) s' d \<and> delta_key d = key"
    by (intro rs_record_write_step) (auto intro: inv_kind)
  with rec_write show ?case by (intro cluster_inv_local) auto
next
  case (rec_delete \<sigma> net seen key r s' d)
  then have "local_step False (\<sigma> r) s' d \<and> delta_key d = key"
    by (intro rs_record_delete_step) (auto intro: inv_kind)
  with rec_delete show ?case by (intro cluster_inv_local) auto
next
  case (rec_hash_write \<sigma> net seen key fs r s' d)
  then have "local_step True (\<sigma> r) s' d \<and> delta_key d = key"
    by (intro rs_record_hash_write_step [of _ _ fs]) (auto intro: inv_kind)
  with rec_hash_write show ?case by (intro cluster_inv_local) auto
next
  case (rec_hash_delete \<sigma> net seen key fs r s' d)
  then have "local_step True (\<sigma> r) s' d \<and> delta_key d = key"
    by (intro rs_record_hash_delete_step [of _ _ fs])
  with rec_hash_delete show ?case by (intro cluster_inv_local) auto
next
  case (apply_delta \<sigma> net seen d r)
  then show ?case by (intro cluster_inv_deliver)
next
  case (drain \<sigma> net seen r)
  then show ?case by (intro cluster_inv_drain)
qed

section \<open>Convergence of the cluster\<close>

lemma cluster_registers_agree:
  assumes inv: "cluster_inv hash_key \<sigma> net seen" and all: "net \<subseteq> seen r" "net \<subseteq> seen q"
  shows "rs_reg (\<sigma> r) k f = rs_reg (\<sigma> q) k f"
proof -
  have le: "\<exists>y. rs_reg (\<sigma> b) k f = Some y \<and> lww_timestamp x \<le> lww_timestamp y"
    if "rs_reg (\<sigma> a) k f = Some x" "net \<subseteq> seen b" for a b x
  proof -
    from inv_state [OF inv that(1)] that(2) have "net_reg (seen b) k f x" by (auto simp: net_reg_def)
    then show ?thesis using inv by (auto simp: cluster_inv_def above_seen_def)
  qed
  show ?thesis
  proof (cases "rs_reg (\<sigma> r) k f")
    case None
    then show ?thesis using le [of q _ r] all by (cases "rs_reg (\<sigma> q) k f") auto
  next
    case (Some x)
    from le [OF Some all(2)] obtain y where
      y: "rs_reg (\<sigma> q) k f = Some y" "lww_timestamp x \<le> lww_timestamp y" by blast
    moreover from le [OF y(1) all(1)] Some have "lww_timestamp y \<le> lww_timestamp x" by auto
    ultimately have "x = y"
      using inv inv_state [OF inv Some] inv_state [OF inv y(1)]
      by (auto simp: cluster_inv_def stamps_unique_def)
    with Some y show ?thesis by simp
  qed
qed

lemma cluster_example:
  fixes sd defines "sd \<equiv> rs_record_write (rs_new 1 Eventual) ''k'' ''v'' None"
  shows "cluster (\<lambda>_. False) (\<lambda>_. Eventual)
    ((\<lambda>r. rs_new r Eventual)(1 := fst sd, 2 := rs_apply_remote_delta (rs_new 2 Eventual) (snd sd)))
    {snd sd} ((\<lambda>_. {})(1 := {snd sd}, 2 := {snd sd}))"
proof -
  have sd: "rs_record_write (rs_new 1 Eventual) ''k'' ''v'' None = (fst sd, snd sd)"
    by (simp add: sd_def)
  have ts: "timestamp (delta_value (snd sd)) = LamportClock 1 1"
    by (simp add: sd_def rs_record_write_def rs_new_def rv_new_def rv_set_def new_lww_def
        lww_set_def Let_def lc_new_def lc_tick_def)
  have "cluster (\<lambda>_. False) (\<lambda>_. Eventual) ((\<lambda>r. rs_new r Eventual)(1 := fst sd))
      {snd sd} ((\<lambda>_. {})(1 := {snd sd}))"
    using cluster.rec_write [OF cluster.start, where r = 1 and lvl = "\<lambda>_. Eventual"
        and hash_key = "\<lambda>_. False", OF _ _ sd] by (simp add: rs_new_def lc_new_def)
  from cluster.apply_delta [OF this, where d = "snd sd" and r = 2]
  show ?thesis by (simp add: ts rs_new_def lc_new_def)
qed



text \<open>
  A timestamp identifies a write: in every run, two registers for the same key (and field)
  with one timestamp are the same register, a shard's Lamport clock is never behind a write it
  made, holds or has recorded.
\<close>

theorem cluster_stamps:
  assumes "cluster hash_key lvl \<sigma> net seen" "d \<in> net" "d' \<in> net" "delta_key d = delta_key d'"
    and "reg_of (crdt (delta_value d)) f = Some x" "reg_of (crdt (delta_value d')) f = Some y"
  shows "(lww_timestamp x = lww_timestamp y \<longrightarrow> x = y) \<and>
    time (lww_timestamp x) \<le> time (lamport_clock (\<sigma> (replica_id (lww_timestamp x))))"
proof -
  note inv = cluster_invariant [OF assms(1)]
  have "net_reg net (delta_key d) f x" "net_reg net (delta_key d) f y"
    using assms(2-6) by (auto simp: net_reg_def)
  then show ?thesis
    using inv inv_net_time [OF inv] by (auto simp: cluster_inv_def stamps_unique_def)
qed

theorem cluster_stamps_witness:
  "let (s, d) = rs_record_write (rs_new 1 Eventual) ''k'' ''v'' None;
       x = lww_with_value ''v'' (LamportClock 1 1)
   in reg_of (crdt (delta_value d)) None = Some x \<and> time (lww_timestamp x) \<le> time (lamport_clock s)"
proof -
  let ?sd = "rs_record_write (rs_new 1 Eventual) ''k'' ''v'' None"
  let ?x = "lww_with_value ''v'' (LamportClock 1 1)"
  have reg: "reg_of (crdt (delta_value (snd ?sd))) None = Some ?x"
    by (simp add: rs_record_write_def rs_new_def rv_new_def rv_set_def new_lww_def
        lww_set_def Let_def lc_new_def lc_tick_def lww_with_value_def lww_new_def)
  from cluster_stamps [OF cluster_example _ _ _ reg reg] show ?thesis
    using reg by (simp add: case_prod_beta Let_def lww_with_value_def)
qed

section \<open>Where replicas differ\<close>

text \<open>
  Type conflicts are resolved by comparing timestamps, but \<open>ReplicatedValue::merge\<close> stamps its
  result with the local replica id, so the outcome depends on the order of arrival: two shards
  that apply the same three deltas for a key, stamped with one time by three replicas, end up
  with values of different types.
\<close>

theorem type_conflict_diverges:
  fixes key :: string and t :: u64
  assumes "ra < rc" "rc < rb"
  defines "a \<equiv> \<lparr>delta_key = key, delta_value = rv_with_value ''s'' (LamportClock t ra), source_replica = ra\<rparr>"
    and "b \<equiv> \<lparr>delta_key = key,
      delta_value = (rv_with_crdt new_hash rb)\<lparr>timestamp := LamportClock t rb\<rparr>, source_replica = rb\<rparr>"
    and "c \<equiv> \<lparr>delta_key = key,
      delta_value = (rv_with_crdt new_gset rc)\<lparr>timestamp := LamportClock t rc\<rparr>, source_replica = rc\<rparr>"
  shows "map_option rv_crdt_type (rs_get_replicated (foldl rs_apply_remote_delta (rs_new q lvl) [a, b, c]) key)
      = Some ''gset'' \<and>
    map_option rv_crdt_type (rs_get_replicated (foldl rs_apply_remote_delta (rs_new q lvl) [b, a, c]) key)
      = Some ''hash''"
  using assms(1,2) order.strict_trans [OF assms(1,2)]
  by (auto simp: a_def b_def c_def rs_apply_remote_delta_def rs_get_replicated_def rs_new_def Let_def
      rv_with_value_def rv_with_crdt_def rv_merge_def merge_with_timestamps_def try_merge_def
      new_hash_def new_gset_def lc_merge_def lc_less_iff rv_crdt_type_def)

theorem type_conflict_diverges_witness:
  "let a = \<lparr>delta_key = ''k'', delta_value = rv_with_value ''s'' (LamportClock 5 1), source_replica = 1\<rparr>;
       b = \<lparr>delta_key = ''k'',
         delta_value = (rv_with_crdt new_hash 3)\<lparr>timestamp := LamportClock 5 3\<rparr>, source_replica = 3\<rparr>;
       c = \<lparr>delta_key = ''k'',
         delta_value = (rv_with_crdt new_gset 2)\<lparr>timestamp := LamportClock 5 2\<rparr>, source_replica = 2\<rparr>
   in map_option rv_crdt_type (rs_get_replicated (foldl rs_apply_remote_delta (rs_new 9 Eventual) [a, b, c]) ''k'')
        \<noteq> map_option rv_crdt_type (rs_get_replicated (foldl rs_apply_remote_delta (rs_new 9 Eventual) [b, a, c]) ''k'')"
  using type_conflict_diverges [where ra = 1 and rb = 3 and rc = 2 and key = "''k''" and t = 5
      and q = 9 and lvl = Eventual] by (auto simp: Let_def)

text \<open>
  Clearing an expiry does not replicate: after a write with an expiry and then one without,
  the writer's value has no expiry and a peer that applied both deltas keeps the old one.
\<close>

theorem cleared_expiry_kept_by_peer:
  assumes "rs_record_write s key x (Some e) = (s1, d1)" "rs_record_write s1 key y None = (s2, d2)"
    and "fmlookup (replicated_keys p) key = None"
  shows "map_option expiry_ms (rs_get_replicated s2 key) = Some None \<and>
    map_option expiry_ms (rs_get_replicated (foldl rs_apply_remote_delta p [d1, d2]) key)
      = Some (Some e)"
proof -
  have d: "delta_key d1 = key" "delta_key d2 = key" "expiry_ms (delta_value d1) = Some e"
    "expiry_ms (delta_value d2) = None"
    using assms(1,2) by (auto simp: rs_record_write_def Let_def case_prod_beta)
  have "rs_get_replicated s2 key = Some (delta_value d2)"
    using assms(2) by (auto simp: rs_record_write_def Let_def case_prod_beta rs_get_replicated_def)
  then show ?thesis
    using d assms(3)
    by (simp add: rs_apply_remote_delta_def rs_get_replicated_def Let_def rv_merge_def opt_join_def)
qed

theorem cleared_expiry_kept_by_peer_witness:
  "let (s1, d1) = rs_record_write (rs_new 1 Eventual) ''k'' ''x'' (Some 1000);
       (s2, d2) = rs_record_write s1 ''k'' ''y'' None
   in map_option expiry_ms (rs_get_replicated s2 ''k'')
        \<noteq> map_option expiry_ms (rs_get_replicated (foldl rs_apply_remote_delta (rs_new 2 Eventual) [d1, d2]) ''k'')"
proof -
  obtain s1 d1 where 1: "rs_record_write (rs_new 1 Eventual) ''k'' ''x'' (Some 1000) = (s1, d1)" by force
  obtain s2 d2 where 2: "rs_record_write s1 ''k'' ''y'' None = (s2, d2)" by force
  show ?thesis
    using cleared_expiry_kept_by_peer [OF 1 2, of "rs_new 2 Eventual"]
    by (simp only: 1 2 Let_def prod.case) (auto simp: rs_new_def)
qed

text \<open>
  Deleting a hash key records nothing for the peers: the delta carries the hash unchanged, and
  a peer that has the hash, or gets it from this delta, still answers every field.
\<close>

theorem hash_key_delete_not_recorded:
  assumes "rs_get_replicated s key = Some v" "rv_is_hash v" "rs_record_delete s key = (s', out)"
  shows "out = Some \<lparr>delta_key = key, delta_value = v, source_replica = rs_replica_id s\<rparr> \<and>
    rs_get_replicated s' key = Some v"
  using assms
  by (auto simp: rs_record_delete_def rs_get_replicated_def rv_delete_def rv_is_hash_def Let_def
      split: crdt_value.splits)

theorem hash_key_delete_not_recorded_witness:
  "let s = fst (rs_record_hash_write (rs_new 1 Eventual) ''h'' [(''f'', ''x'')])
   in Option.bind (rs_get_replicated (fst (rs_record_delete s ''h'')) ''h'') (\<lambda>v. rv_hash_get v ''f'')
     = Some ''x''"
proof -
  let ?s = "fst (rs_record_hash_write (rs_new 1 Eventual) ''h'' [(''f'', ''x'')])"
  obtain v where v: "rs_get_replicated ?s ''h'' = Some v" "rv_is_hash v" "rv_hash_get v ''f'' = Some ''x''"
    by (simp add: rs_record_hash_write_def rs_new_def rv_new_def rv_hash_set_def new_hash_def
        rv_is_hash_def rs_get_replicated_def rv_hash_get_def lww_set_def lww_get_def Let_def)
  from hash_key_delete_not_recorded [OF v(1,2)] v(3) show ?thesis
    unfolding Let_def by (metis bind.bind_lunit prod.collapse)
qed

end
