(* ===== verification/Sds.thy ===== *)
theory Sds
  imports Prelude
begin

text \<open>
  Simple dynamic strings (\<open>src/redis/data/sds.rs\<close>): strings of at most 23 bytes live inline in a
  fixed array, longer ones on the heap. The operations of the source are given on this
  representation, and shown to implement plain byte strings: every representation the
  operations build is canonical, so \<open>as_bytes\<close> is injective on them and \<open>==\<close>, which compares the
  bytes, is equality. The executor's theories therefore use the byte strings themselves.
\<close>

section \<open>The contract of a byte string\<close>

locale byte_string =
  fixes wf :: "'s \<Rightarrow> bool" and bytes_of :: "'s \<Rightarrow> bytes" and make :: "bytes \<Rightarrow> 's"
    and app :: "'s \<Rightarrow> 's \<Rightarrow> 's" and grow :: "'s \<Rightarrow> usize \<Rightarrow> 's" and size_of :: "'s \<Rightarrow> usize"
  assumes wf_make: "wf (make b)"
    and wf_app: "wf s \<Longrightarrow> wf t \<Longrightarrow> wf (app s t)"
    and wf_grow: "wf s \<Longrightarrow> wf (grow s n)"
    and bytes_make: "bytes_of (make b) = b"
    and bytes_app: "wf s \<Longrightarrow> wf t \<Longrightarrow> bytes_of (app s t) = bytes_of s @ bytes_of t"
    and bytes_grow: "wf s \<Longrightarrow>
      bytes_of (grow s n) = bytes_of s @ replicate (n - length (bytes_of s)) (CHR 0x00)"
    and size_bytes: "wf s \<Longrightarrow> size_of s = length (bytes_of s)"
    and bytes_inject: "wf s \<Longrightarrow> wf t \<Longrightarrow> bytes_of s = bytes_of t \<Longrightarrow> s = t"
begin

lemma make_bytes: "wf s \<Longrightarrow> make (bytes_of s) = s"
  by (rule bytes_inject) (simp_all add: wf_make bytes_make)

lemma app_assoc:
  assumes "wf s" "wf t" "wf u"
  shows "app (app s t) u = app s (app t u)"
  by (rule bytes_inject) (simp_all add: assms wf_app bytes_app)

lemma app_all:
  "wf s \<Longrightarrow> \<forall>x \<in> set xs. wf x \<Longrightarrow>
     wf (foldl app s xs) \<and> foldl app s xs = make (bytes_of s @ concat (map bytes_of xs))"
  by (induction xs arbitrary: s) (auto simp: wf_app bytes_app make_bytes wf_make)

end

section \<open>Representation and operations\<close>

abbreviation SSO_MAX_LEN :: usize where
  "SSO_MAX_LEN \<equiv> 23"

abbreviation NUL :: char where
  "NUL \<equiv> CHR 0x00"

datatype sds = Inline (inline_len: nat) (inline_data: bytes) | Heap (heap_data: bytes)

text \<open>\<open>usize as u8\<close> and \<open>slice.copy_from_slice\<close> into an array from an offset.\<close>

definition as_u8 :: "nat \<Rightarrow> nat" where
  "as_u8 n = n mod 256"

definition copy_into :: "bytes \<Rightarrow> nat \<Rightarrow> bytes \<Rightarrow> bytes" where
  "copy_into a i src = take i a @ src @ drop (i + length src) a"

definition sds_new :: "bytes \<Rightarrow> sds" where
  "sds_new d =
     (if length d \<le> SSO_MAX_LEN
      then Inline (as_u8 (length d)) (copy_into (replicate SSO_MAX_LEN NUL) 0 d)
      else Heap d)"

definition sds_from_str :: "bytes \<Rightarrow> sds" where
  "sds_from_str s =
     (if length s \<le> SSO_MAX_LEN
      then Inline (as_u8 (length s)) (copy_into (replicate SSO_MAX_LEN NUL) 0 s)
      else Heap s)"

fun sds_len :: "sds \<Rightarrow> usize" where
  "sds_len (Inline l d) = l"
| "sds_len (Heap d) = length d"

definition sds_is_empty :: "sds \<Rightarrow> bool" where
  "sds_is_empty s \<longleftrightarrow> sds_len s = 0"

fun as_bytes :: "sds \<Rightarrow> bytes" where
  "as_bytes (Inline l d) = take l d"
| "as_bytes (Heap d) = d"

text \<open>A write through the slice of \<open>as_bytes_mut\<close>: \<open>f\<close> is the change made to the slice.\<close>

fun as_bytes_mut :: "sds \<Rightarrow> (bytes \<Rightarrow> bytes) \<Rightarrow> sds" where
  "as_bytes_mut (Inline l d) f = Inline l (f (take l d) @ drop l d)"
| "as_bytes_mut (Heap d) f = Heap (f d)"

text \<open>\<open>Vec::resize\<close> to a greater length.\<close>

definition vec_resize :: "bytes \<Rightarrow> usize \<Rightarrow> bytes" where
  "vec_resize d n = take n d @ replicate (n - length d) NUL"

definition sds_resize :: "sds \<Rightarrow> usize \<Rightarrow> sds" where
  "sds_resize s new_len =
     (if sds_len s \<ge> new_len then s
      else if new_len \<le> SSO_MAX_LEN then
        (case s of
           Inline l d \<Rightarrow>
             Inline (as_u8 new_len) (copy_into d (sds_len s) (replicate (new_len - sds_len s) NUL))
         | Heap d \<Rightarrow> Heap (vec_resize d new_len))
      else
        (case s of
           Inline l d \<Rightarrow> Heap (vec_resize (take l d) new_len)
         | Heap d \<Rightarrow> Heap (vec_resize d new_len)))"

definition sds_to_string :: "sds \<Rightarrow> string" where
  "sds_to_string s = utf8_lossy (as_bytes s)"

definition sds_append :: "sds \<Rightarrow> sds \<Rightarrow> sds" where
  "sds_append s other =
     (let new_len = sds_len s + sds_len other
      in if new_len \<le> SSO_MAX_LEN then
           (case s of
              Inline l d \<Rightarrow> Inline (as_u8 new_len) (copy_into d l (as_bytes other))
            | Heap d \<Rightarrow> Heap (d @ as_bytes other))
         else Heap (as_bytes s @ as_bytes other))"

definition sds_eq :: "sds \<Rightarrow> sds \<Rightarrow> bool" where
  "sds_eq s t \<longleftrightarrow> as_bytes s = as_bytes t"

fun sds_verify_invariants :: "sds \<Rightarrow> bool" where
  "sds_verify_invariants (Inline l d) \<longleftrightarrow>
     l \<le> SSO_MAX_LEN \<and> sds_len (Inline l d) = l \<and>
     (sds_is_empty (Inline l d) \<longleftrightarrow> sds_len (Inline l d) = 0) \<and>
     length (as_bytes (Inline l d)) = sds_len (Inline l d)"
| "sds_verify_invariants (Heap d) \<longleftrightarrow>
     (sds_is_empty (Heap d) \<longleftrightarrow> sds_len (Heap d) = 0) \<and> length (as_bytes (Heap d)) = sds_len (Heap d)"

section \<open>Canonical representations\<close>

text \<open>
  What every operation keeps: an inline string has its 23 bytes, the unused ones zero, and the
  heap holds only strings that do not fit inline (the comment in \<open>verify_invariants\<close> calls this
  a soft invariant; \<open>append\<close> and \<open>resize\<close> do keep it).
\<close>

fun sds_wf :: "sds \<Rightarrow> bool" where
  "sds_wf (Inline l d) \<longleftrightarrow>
     l \<le> SSO_MAX_LEN \<and> length d = SSO_MAX_LEN \<and> drop l d = replicate (SSO_MAX_LEN - l) NUL"
| "sds_wf (Heap d) \<longleftrightarrow> SSO_MAX_LEN < length d"

lemma sds_wf_verify: "sds_wf s \<Longrightarrow> sds_verify_invariants s"
  by (cases s) (auto simp: sds_is_empty_def)

lemma sds_from_str_new: "sds_from_str s = sds_new s"
  by (simp add: sds_from_str_def sds_new_def)

lemma sds_new_canonical:
  "sds_new x = (if length x \<le> SSO_MAX_LEN
     then Inline (length x) (x @ replicate (SSO_MAX_LEN - length x) NUL) else Heap x)"
  by (simp add: sds_new_def as_u8_def copy_into_def)

text \<open>Every operation on canonical representations is the byte operation followed by \<open>new\<close>.\<close>

lemma sds_cases_new:
  assumes "sds_wf s" obtains x where "s = sds_new x"
proof
  show "s = sds_new (as_bytes s)"
    using assms append_take_drop_id [of "inline_len s" "inline_data s"]
    by (cases s) (auto simp: sds_new_canonical)
qed

lemma sds_wf_new: "sds_wf (sds_new x)"
  by (simp add: sds_new_canonical)

lemma as_bytes_new: "as_bytes (sds_new x) = x"
  by (simp add: sds_new_canonical)

lemma sds_len_new: "sds_len (sds_new x) = length x"
  by (simp add: sds_new_canonical)

lemma sds_append_new: "sds_append (sds_new x) (sds_new y) = sds_new (x @ y)"
  by (auto simp: sds_append_def Let_def sds_len_new as_bytes_new)
    (auto simp: sds_new_canonical copy_into_def as_u8_def replicate_add [symmetric])

lemma sds_resize_new: "sds_resize (sds_new x) n = sds_new (x @ replicate (n - length x) NUL)"
  by (auto simp: sds_resize_def sds_len_new)
    (auto simp: sds_new_canonical copy_into_def as_u8_def vec_resize_def replicate_add [symmetric])

lemma as_bytes_mut_new: "length (f x) = length x \<Longrightarrow> as_bytes_mut (sds_new x) f = sds_new (f x)"
  by (simp add: sds_new_canonical)

interpretation sds: byte_string sds_wf as_bytes sds_new sds_append sds_resize sds_len
proof
  show "sds_wf (sds_append s t)" if "sds_wf s" "sds_wf t" for s t
    using that by (auto elim!: sds_cases_new simp: sds_append_new sds_wf_new)
  show "sds_wf (sds_resize s n)" if "sds_wf s" for s n
    using that by (auto elim!: sds_cases_new simp: sds_resize_new sds_wf_new)
  show "as_bytes (sds_append s t) = as_bytes s @ as_bytes t" if "sds_wf s" "sds_wf t" for s t
    using that by (auto elim!: sds_cases_new simp: sds_append_new as_bytes_new)
  show "as_bytes (sds_resize s n) = as_bytes s @ replicate (n - length (as_bytes s)) NUL"
    if "sds_wf s" for s n
    using that by (auto elim!: sds_cases_new simp: sds_resize_new as_bytes_new)
  show "s = t" if "sds_wf s" "sds_wf t" "as_bytes s = as_bytes t" for s t
    using that by (auto elim!: sds_cases_new simp: as_bytes_new)
  show "sds_len s = length (as_bytes s)" if "sds_wf s" for s
    using that by (auto elim!: sds_cases_new simp: sds_len_new as_bytes_new)
qed (simp_all add: sds_wf_new as_bytes_new)

section \<open>The strings of the server are byte strings\<close>

text \<open>
  Small-string optimisation is transparent. On the representations the code builds, \<open>new\<close> and
  \<open>as_bytes\<close> are inverse to each other, \<open>append\<close> concatenates, \<open>resize\<close> pads with zero bytes,
  a write through \<open>as_bytes_mut\<close> changes the bytes, \<open>==\<close> is equality, and the invariants hold.
\<close>

theorem sds_refines_bytes:
  assumes "sds_wf s" "sds_wf t"
  shows "sds_new (as_bytes s) = s \<and> as_bytes (sds_new b) = b \<and>
    sds_append s t = sds_new (as_bytes s @ as_bytes t) \<and>
    sds_resize s n = sds_new (as_bytes s @ replicate (n - length (as_bytes s)) NUL) \<and>
    as_bytes_mut s (\<lambda>x. x[i := c]) = sds_new ((as_bytes s)[i := c]) \<and>
    (sds_eq s t \<longleftrightarrow> s = t) \<and> sds_len s = length (as_bytes s) \<and> sds_verify_invariants s"
  using assms
  by (auto elim!: sds_cases_new simp: as_bytes_new sds_append_new sds_resize_new sds_len_new
      as_bytes_mut_new sds_eq_def intro: sds_wf_verify sds_wf_new)

theorem sds_refines_bytes_witness:
  "sds_append (sds_new ''abc'') (sds_new ''0123456789012345678901'')
     = Heap ''abc0123456789012345678901''"
  using sds_refines_bytes [of "sds_new ''abc''" "sds_new ''0123456789012345678901''"]
  by (simp add: sds_wf_new as_bytes_new) (simp add: sds_new_def)

end
