(* ===== verification/Resp.thy ===== *)
theory Resp
  imports Prelude
begin

text \<open>
  The wire protocol: \<open>RespParser\<close> of \<open>src/redis/resp.rs\<close> and the zero-copy \<open>RespCodec\<close> of
  \<open>src/redis/resp_optimized.rs\<close>, with their encoders. Both value types carry byte strings and
  are one datatype here. Lengths are \<open>usize\<close> with the wrap-around of 64 bits written out, and a
  slice out of bounds or an impossible allocation is the value \<open>Panic\<close>. A sub-slice
  \<open>&input[offset..]\<close> is the list with its first bytes dropped.
\<close>

section \<open>Values and errors\<close>

datatype resp_value =
    SimpleString bytes
  | Error bytes
  | Integer i64
  | BulkString "bytes option"
  | Array "resp_value list option"

datatype resp_error = Err string | ParseIntError | Utf8Error | Panic

definition ok :: resp_value where
  "ok = SimpleString ''OK''"

definition pong :: resp_value where
  "pong = SimpleString ''PONG''"

definition queued :: resp_value where
  "queued = SimpleString ''QUEUED''"

definition nil :: resp_value where
  "nil = BulkString None"

definition err :: "string \<Rightarrow> resp_value" where
  "err s = Error s"

definition empty_array :: resp_value where
  "empty_array = Array (Some [])"

abbreviation CR :: char where
  "CR \<equiv> CHR 0x0D"

abbreviation LF :: char where
  "LF \<equiv> CHR 0x0A"

abbreviation CRLF :: bytes where
  "CRLF \<equiv> [CR, LF]"

text \<open>\<open>usize\<close> addition and the cast \<open>i64 as usize\<close>.\<close>

definition wadd :: "usize \<Rightarrow> usize \<Rightarrow> usize" where
  "wadd a b = (a + b) mod 2 ^ 64"

definition as_usize :: "i64 \<Rightarrow> usize" where
  "as_usize n = nat (n mod 2 ^ 64)"

definition slice :: "bytes \<Rightarrow> usize \<Rightarrow> usize \<Rightarrow> bytes" where
  "slice s i j = take (j - i) (drop i s)"

text \<open>\<open>format!("{}", b as char)\<close>: a byte shown as the character with that code, in UTF-8.\<close>

definition show_u8_char :: "char \<Rightarrow> string" where
  "show_u8_char c =
     (let b = (of_char c :: nat)
      in if b < 128 then [c] else [char_of (192 + b div 64), char_of (128 + b mod 64)])"

section \<open>Encoding\<close>

fun encode :: "resp_value \<Rightarrow> bytes" where
  "encode (SimpleString s) = ''+'' @ s @ CRLF"
| "encode (Error s) = ''-'' @ s @ CRLF"
| "encode (Integer n) = '':'' @ show_int n @ CRLF"
| "encode (BulkString None) = ''$-1'' @ CRLF"
| "encode (BulkString (Some d)) = ''$'' @ show_nat (length d) @ CRLF @ d @ CRLF"
| "encode (Array None) = ''*-1'' @ CRLF"
| "encode (Array (Some xs)) = ''*'' @ show_nat (length xs) @ CRLF @ concat (map encode xs)"

text \<open>\<open>RespCodec::encode_into\<close> appends to a buffer.\<close>

fun encode_into :: "resp_value \<Rightarrow> bytes \<Rightarrow> bytes" where
  "encode_into (SimpleString s) buf = buf @ ''+'' @ s @ CRLF"
| "encode_into (Error s) buf = buf @ ''-'' @ s @ CRLF"
| "encode_into (Integer n) buf = buf @ '':'' @ show_int n @ CRLF"
| "encode_into (BulkString None) buf = buf @ ''$-1'' @ CRLF"
| "encode_into (BulkString (Some d)) buf = buf @ ''$'' @ show_nat (length d) @ CRLF @ d @ CRLF"
| "encode_into (Array None) buf = buf @ ''*-1'' @ CRLF"
| "encode_into (Array (Some xs)) buf =
     fold encode_into xs (buf @ ''*'' @ show_nat (length xs) @ CRLF)"

definition codec_encode :: "resp_value \<Rightarrow> bytes" where
  "codec_encode v = encode_into v []"

lemma encode_into_append: "encode_into v buf = buf @ encode v"
proof (induction v arbitrary: buf rule: encode.induct)
  case (7 xs)
  have "fold encode_into ys buf = buf @ concat (map encode ys)" if "set ys \<subseteq> set xs" for ys buf
    using that 7 by (induction ys arbitrary: buf) auto
  then show ?case by simp
qed auto

lemma codec_encode_eq: "codec_encode v = encode v"
  by (simp add: codec_encode_def encode_into_append)

section \<open>The end of a line\<close>

fun find_crlf :: "bytes \<Rightarrow> usize option" where
  "find_crlf (a # b # xs) = (if a = CR \<and> b = LF then Some 0 else map_option Suc (find_crlf (b # xs)))"
| "find_crlf _ = None"

fun memchr :: "char \<Rightarrow> bytes \<Rightarrow> usize option" where
  "memchr c [] = None"
| "memchr c (x # xs) = (if x = c then Some 0 else map_option Suc (memchr c xs))"

definition codec_find_crlf :: "bytes \<Rightarrow> usize option" where
  "codec_find_crlf input =
     (case memchr CR input of
        None \<Rightarrow> None
      | Some pos \<Rightarrow> if pos + 1 < length input \<and> input ! (pos + 1) = LF then Some pos else None)"

lemma memchr_Some: "memchr c s = Some i \<Longrightarrow> i < length s \<and> s ! i = c"
  by (induction s arbitrary: i) (auto split: if_splits)

lemma memchr_append: "memchr c s = Some i \<Longrightarrow> memchr c (s @ t) = Some i"
  by (induction s arbitrary: i) (auto split: if_splits)

lemma memchr_header: "c \<notin> set h \<Longrightarrow> memchr c (h @ c # t) = Some (length h)"
  by (induction h) auto

lemma find_crlf_bound: "find_crlf s = Some i \<Longrightarrow> i + 2 \<le> length s"
  by (induction s arbitrary: i rule: find_crlf.induct) (auto split: if_splits)

lemma find_crlf_append: "find_crlf s = Some i \<Longrightarrow> find_crlf (s @ t) = Some i"
  by (induction s arbitrary: i rule: find_crlf.induct) (auto split: if_splits)

lemma find_crlf_header: "CR \<notin> set h \<Longrightarrow> find_crlf (h @ CR # LF # t) = Some (length h)"
  by (induction h rule: find_crlf.induct) auto

lemma codec_find_crlf_bound: "codec_find_crlf s = Some i \<Longrightarrow> i + 2 \<le> length s"
  by (auto simp: codec_find_crlf_def split: option.splits if_splits)

lemma codec_find_crlf_append: "codec_find_crlf s = Some i \<Longrightarrow> codec_find_crlf (s @ t) = Some i"
  by (auto simp: codec_find_crlf_def memchr_append nth_append split: option.splits if_splits)

lemma codec_find_crlf_header: "CR \<notin> set h \<Longrightarrow> codec_find_crlf (h @ CR # LF # t) = Some (length h)"
  by (simp add: codec_find_crlf_def memchr_header nth_append)

section \<open>Lines and bulk strings\<close>

text \<open>
  The body of \<open>parse_bulk_string\<close> after its length \<open>len\<close> is known; \<open>e\<close> is the error for input
  that stops short. A length below -1 becomes a huge \<open>usize\<close>, and \<open>start + len\<close> wraps.
\<close>

definition bulk_body :: "resp_error \<Rightarrow> bytes \<Rightarrow> usize \<Rightarrow> i64 \<Rightarrow> resp_error + resp_value \<times> usize" where
  "bulk_body e input pos len =
     (if len = - 1 then Inr (BulkString None, pos + 2)
      else
        let start = pos + 2; stop = wadd start (as_usize len)
        in if wadd stop 2 > length input then Inl e
           else if start \<le> stop \<and> stop \<le> length input
             then Inr (BulkString (Some (slice input start stop)), wadd stop 2)
             else Inl Panic)"

section \<open>\<open>RespParser\<close>\<close>

abbreviation no_crlf :: resp_error where
  "no_crlf \<equiv> Err ''No CRLF found''"

definition parse_simple_string :: "bytes \<Rightarrow> resp_error + resp_value \<times> usize" where
  "parse_simple_string input =
     (case find_crlf input of
        Some pos \<Rightarrow> Inr (SimpleString (utf8_lossy (slice input 1 pos)), pos + 2)
      | None \<Rightarrow> Inl no_crlf)"

definition parse_error :: "bytes \<Rightarrow> resp_error + resp_value \<times> usize" where
  "parse_error input =
     (case find_crlf input of
        Some pos \<Rightarrow> Inr (Error (utf8_lossy (slice input 1 pos)), pos + 2)
      | None \<Rightarrow> Inl no_crlf)"

definition parse_integer :: "bytes \<Rightarrow> resp_error + resp_value \<times> usize" where
  "parse_integer input =
     (case find_crlf input of
        Some pos \<Rightarrow>
          (case parse_i64 (utf8_lossy (slice input 1 pos)) of
             Some n \<Rightarrow> Inr (Integer n, pos + 2) | None \<Rightarrow> Inl ParseIntError)
      | None \<Rightarrow> Inl no_crlf)"

definition parse_bulk_string :: "bytes \<Rightarrow> resp_error + resp_value \<times> usize" where
  "parse_bulk_string input =
     (case find_crlf input of
        Some pos \<Rightarrow>
          (case parse_i64 (utf8_lossy (slice input 1 pos)) of
             Some len \<Rightarrow> bulk_body (Err ''Incomplete bulk string'') input pos len
           | None \<Rightarrow> Inl ParseIntError)
      | None \<Rightarrow> Inl no_crlf)"

text \<open>
  \<open>parse_array\<close> is in line in \<open>parse\<close>, with its loop \<open>for _ in 0..len\<close> (no iteration for a negative
  \<open>len\<close>) as the second function: it parses \<open>n\<close> values from its input and returns how much of the
  input they take.
\<close>

function (sequential) parse :: "bytes \<Rightarrow> resp_error + resp_value \<times> usize"
  and parse_elements :: "bytes \<Rightarrow> nat \<Rightarrow> resp_error + resp_value list \<times> usize"
where
  "parse [] = Inl (Err ''Empty input'')"
| "parse (c # cs) =
     (if c = CHR ''+'' then parse_simple_string (c # cs)
      else if c = CHR ''-'' then parse_error (c # cs)
      else if c = CHR '':'' then parse_integer (c # cs)
      else if c = CHR ''$'' then parse_bulk_string (c # cs)
      else if c = CHR ''*'' then
        (case find_crlf (c # cs) of
           None \<Rightarrow> Inl no_crlf
         | Some pos \<Rightarrow>
             (case parse_i64 (utf8_lossy (slice (c # cs) 1 pos)) of
                None \<Rightarrow> Inl ParseIntError
              | Some len \<Rightarrow>
                  if len = - 1 then Inr (Array None, pos + 2)
                  else (case parse_elements (drop (pos + 2) (c # cs)) (nat len) of
                          Inl e \<Rightarrow> Inl e
                        | Inr (vs, used) \<Rightarrow> Inr (Array (Some vs), pos + 2 + used))))
      else Inl (Err (''Unknown RESP type: '' @ show_u8_char c)))"
| "parse_elements input n =
     (if n = 0 then Inr ([], 0)
      else (case parse input of
              Inl e \<Rightarrow> Inl e
            | Inr (v, used) \<Rightarrow>
                (case parse_elements (drop used input) (n - 1) of
                   Inl e \<Rightarrow> Inl e
                 | Inr (vs, used') \<Rightarrow> Inr (v # vs, used + used'))))"
  by pat_completeness auto
termination
  by (relation "measures [\<lambda>x. case x of Inl s \<Rightarrow> length s | Inr (s, n) \<Rightarrow> length s,
      \<lambda>x. case x of Inl s \<Rightarrow> 0 | Inr (s, n) \<Rightarrow> Suc n]") auto

declare parse.simps(2) [simp del] parse_elements.simps [simp del]

section \<open>\<open>RespCodec\<close>\<close>

abbreviation incomplete :: resp_error where
  "incomplete \<equiv> Err ''Incomplete''"

definition codec_simple_string :: "bytes \<Rightarrow> resp_error + resp_value \<times> usize" where
  "codec_simple_string input =
     (case codec_find_crlf input of
        Some pos \<Rightarrow> Inr (SimpleString (slice input 1 pos), pos + 2)
      | None \<Rightarrow> Inl incomplete)"

definition codec_error :: "bytes \<Rightarrow> resp_error + resp_value \<times> usize" where
  "codec_error input =
     (case codec_find_crlf input of
        Some pos \<Rightarrow> Inr (Error (slice input 1 pos), pos + 2)
      | None \<Rightarrow> Inl incomplete)"

text \<open>\<open>std::str::from_utf8(..)?\<close> followed by \<open>parse::<i64>()?\<close>.\<close>

definition codec_number :: "bytes \<Rightarrow> resp_error + i64" where
  "codec_number s =
     (if utf8_valid s then (case parse_i64 s of Some n \<Rightarrow> Inr n | None \<Rightarrow> Inl ParseIntError)
      else Inl Utf8Error)"

definition codec_integer :: "bytes \<Rightarrow> resp_error + resp_value \<times> usize" where
  "codec_integer input =
     (case codec_find_crlf input of
        Some pos \<Rightarrow>
          (case codec_number (slice input 1 pos) of
             Inr n \<Rightarrow> Inr (Integer n, pos + 2) | Inl e \<Rightarrow> Inl e)
      | None \<Rightarrow> Inl incomplete)"

definition codec_bulk_string :: "bytes \<Rightarrow> resp_error + resp_value \<times> usize" where
  "codec_bulk_string input =
     (case codec_find_crlf input of
        Some pos \<Rightarrow>
          (case codec_number (slice input 1 pos) of
             Inr len \<Rightarrow> bulk_body incomplete input pos len | Inl e \<Rightarrow> Inl e)
      | None \<Rightarrow> Inl incomplete)"

text \<open>
  \<open>Vec::with_capacity(len as usize)\<close> panics when the bytes for \<open>len\<close> elements exceed
  \<open>isize::MAX\<close>; \<open>elem_size\<close> is \<open>size_of::<RespValueZeroCopy>()\<close>, which the compiler chooses.
\<close>

definition capacity_overflow :: "usize \<Rightarrow> i64 \<Rightarrow> bool" where
  "capacity_overflow elem_size len \<longleftrightarrow> as_usize len * elem_size \<ge> 2 ^ 63"

function (sequential) try_parse :: "usize \<Rightarrow> bytes \<Rightarrow> resp_error + resp_value \<times> usize"
  and try_elements :: "usize \<Rightarrow> bytes \<Rightarrow> nat \<Rightarrow> resp_error + resp_value list \<times> usize"
where
  "try_parse elem_size [] = Inl incomplete"
| "try_parse elem_size (c # cs) =
     (if c = CHR ''+'' then codec_simple_string (c # cs)
      else if c = CHR ''-'' then codec_error (c # cs)
      else if c = CHR '':'' then codec_integer (c # cs)
      else if c = CHR ''$'' then codec_bulk_string (c # cs)
      else if c = CHR ''*'' then
        (case codec_find_crlf (c # cs) of
           None \<Rightarrow> Inl incomplete
         | Some pos \<Rightarrow>
             (case codec_number (slice (c # cs) 1 pos) of
                Inl e \<Rightarrow> Inl e
              | Inr len \<Rightarrow>
                  if len = - 1 then Inr (Array None, pos + 2)
                  else if capacity_overflow elem_size len then Inl Panic
                  else (case try_elements elem_size (drop (pos + 2) (c # cs)) (nat len) of
                          Inl e \<Rightarrow> Inl e
                        | Inr (vs, used) \<Rightarrow> Inr (Array (Some vs), pos + 2 + used))))
      else Inl (Err (''Unknown RESP type: '' @ show_u8_char c)))"
| "try_elements elem_size input n =
     (if n = 0 then Inr ([], 0)
      else if input = [] then Inl incomplete
      else (case try_parse elem_size input of
              Inl e \<Rightarrow> Inl e
            | Inr (v, used) \<Rightarrow>
                (case try_elements elem_size (drop used input) (n - 1) of
                   Inl e \<Rightarrow> Inl e
                 | Inr (vs, used') \<Rightarrow> Inr (v # vs, used + used'))))"
  by pat_completeness auto
termination
  by (relation "measures [\<lambda>x. case x of Inl (_, s) \<Rightarrow> length s | Inr (_, s, n) \<Rightarrow> length s,
      \<lambda>x. case x of Inl (_, s) \<Rightarrow> 0 | Inr (_, s, n) \<Rightarrow> Suc n]") auto

declare try_parse.simps(2) [simp del] try_elements.simps [simp del]

text \<open>\<open>RespCodec::parse\<close>: the buffer is advanced past a complete value and kept otherwise.\<close>

definition codec_parse :: "usize \<Rightarrow> bytes \<Rightarrow> resp_error + resp_value option \<times> bytes" where
  "codec_parse elem_size input =
     (if input = [] then Inr (None, input)
      else case try_parse elem_size input of
             Inr (v, used) \<Rightarrow> Inr (Some v, drop used input)
           | Inl e \<Rightarrow> if e = incomplete then Inr (None, input) else Inl e)"

section \<open>The contract of a framed parser\<close>

text \<open>
  What the connection loop relies on: a value is recovered from its encoding whatever follows;
  a parse consumes at least one byte and no more than there are; and an answer other than
  \<open>need more input\<close> does not change when more input arrives. Buffers are shorter than
  \<open>isize::MAX\<close>, as every Rust slice is.
\<close>

definition fits :: "bytes \<Rightarrow> bool" where
  "fits s \<longleftrightarrow> length s < 2 ^ 63"

lemma fits_append: "fits (s @ t) \<Longrightarrow> fits s" "fits (s @ t) \<Longrightarrow> fits t"
  by (simp_all add: fits_def)

lemma fits_drop: "fits s \<Longrightarrow> fits (drop n s)"
  by (simp add: fits_def)

lemma fits_tail: "fits (x # xs) \<Longrightarrow> fits xs"
  by (simp add: fits_def)

primrec parse_many :: "(bytes \<Rightarrow> 'e + 'v \<times> usize) \<Rightarrow> nat \<Rightarrow> bytes \<Rightarrow> ('v list \<times> bytes) option" where
  "parse_many p 0 input = Some ([], input)"
| "parse_many p (Suc n) input =
     (case p input of
        Inl e \<Rightarrow> None
      | Inr (v, used) \<Rightarrow> map_option (\<lambda>(vs, rest). (v # vs, rest)) (parse_many p n (drop used input)))"

locale framed_parser =
  fixes p :: "bytes \<Rightarrow> resp_error + resp_value \<times> usize" and wf :: "resp_value \<Rightarrow> bool"
    and more :: "resp_error \<Rightarrow> bool"
  assumes recovers: "wf v \<Longrightarrow> fits (encode v @ rest) \<Longrightarrow> p (encode v @ rest) = Inr (v, length (encode v))"
    and consumed: "fits s \<Longrightarrow> p s = Inr (v, n) \<Longrightarrow> 0 < n \<and> n \<le> length s"
    and stable: "fits (s @ t) \<Longrightarrow> (\<And>e. p s = Inl e \<Longrightarrow> \<not> more e) \<Longrightarrow> p (s @ t) = p s"
begin

text \<open>A proper prefix of an encoding asks for more input: it is neither a value nor an error.\<close>

lemma prefix_incomplete:
  assumes v: "wf v" "fits (encode v)" and s: "encode v = s @ t" "t \<noteq> []"
  shows "\<exists>e. p s = Inl e \<and> more e"
proof (rule ccontr)
  assume "\<not> ?thesis"
  then have "p (s @ t) = p s" using v s(1) by (intro stable) auto
  moreover have "p (s @ t) = Inr (v, length (encode v))"
    using recovers [of v "[]"] v s(1) by simp
  ultimately have "p s = Inr (v, length (encode v))" by simp
  with consumed [of s v] v s show False by (auto dest: fits_append)
qed

lemma encode_inject: "wf v \<Longrightarrow> wf w \<Longrightarrow> fits (encode v) \<Longrightarrow> encode v = encode w \<Longrightarrow> v = w"
  using recovers [of v "[]"] recovers [of w "[]"] by simp

text \<open>Pipelining: a concatenation of encodings is taken apart into its values.\<close>

lemma recovers_all:
  "\<forall>v \<in> set vs. wf v \<Longrightarrow> fits (concat (map encode vs) @ rest) \<Longrightarrow>
     parse_many p (length vs) (concat (map encode vs) @ rest) = Some (vs, rest)"
proof (induction vs)
  case (Cons v vs)
  then have "p (encode v @ concat (map encode vs) @ rest) = Inr (v, length (encode v))"
    by (intro recovers) auto
  with Cons show ?case by (simp add: fits_append(2) [of "encode v"])
qed simp

end

section \<open>Shared facts about lines and bulk strings\<close>

lemma slice_append: "j \<le> length s \<Longrightarrow> slice (s @ t) i j = slice s i j"
  by (simp add: slice_def)

lemma slice_header [simp]: "slice (c # h @ t) (Suc 0) (Suc (length h)) = h"
  by (simp add: slice_def)

lemma wadd_small: "a + b < 2 ^ 64 \<Longrightarrow> wadd a b = a + b"
  by (simp add: wadd_def)

lemma as_usize_small: "0 \<le> n \<Longrightarrow> n < 2 ^ 64 \<Longrightarrow> as_usize n = nat n"
  by (simp add: as_usize_def)

lemma as_usize_neg:
  assumes "n < 0" "- (2 ^ 64) \<le> n"
  shows "as_usize n = nat (n + 2 ^ 64)"
proof -
  have "n mod 2 ^ 64 = (n + 2 ^ 64) mod 2 ^ 64" by simp
  also have "\<dots> = n + 2 ^ 64" by (rule mod_pos_pos_trivial) (use assms in auto)
  finally show ?thesis by (simp add: as_usize_def)
qed

lemma bulk_body_consumed:
  "bulk_body e s pos len = Inr (v, n) \<Longrightarrow> pos + 2 \<le> length s \<Longrightarrow> fits s \<Longrightarrow> 0 < n \<and> n \<le> length s"
  using wadd_small [of "wadd (pos + 2) (as_usize len)" 2]
  by (auto simp: bulk_body_def fits_def Let_def split: if_splits)

lemma bulk_body_stable:
  assumes "bulk_body e s pos len \<noteq> Inl e" "fits (s @ t)"
  shows "bulk_body e (s @ t) pos len = bulk_body e s pos len"
proof (cases "len = - 1")
  case False
  define stop where "stop = wadd (pos + 2) (as_usize len)"
  have "wadd stop 2 \<le> length s"
    using assms(1) False by (auto simp: bulk_body_def stop_def Let_def split: if_splits)
  moreover have "stop < 2 ^ 64" by (simp add: stop_def wadd_def)
  moreover have "stop \<le> length (s @ t) \<Longrightarrow> wadd stop 2 = stop + 2"
    using assms(2) by (intro wadd_small) (simp add: fits_def)
  ultimately have "stop \<le> length (s @ t) \<longleftrightarrow> stop \<le> length s" by auto
  then show ?thesis
    using \<open>wadd stop 2 \<le> length s\<close> False
    unfolding bulk_body_def Let_def stop_def [symmetric] by (auto simp: slice_append)
qed (simp add: bulk_body_def)

lemma bulk_body_recovers:
  assumes "fits (h @ CR # LF # d @ CR # LF # rest)"
  shows "bulk_body e (h @ CR # LF # d @ CR # LF # rest) (length h) (int (length d))
    = Inr (BulkString (Some d), length h + length d + 4)"
proof -
  have "as_usize (int (length d)) = length d"
    using assms by (simp add: as_usize_small fits_def)
  moreover have "wadd (length h + 2) (length d) = length h + 2 + length d"
    "wadd (length h + 2 + length d) 2 = length h + length d + 4"
    using assms by (simp_all add: wadd_small fits_def)
  ultimately show ?thesis
    by (simp add: bulk_body_def Let_def slice_def)
qed

lemma CR_notin_show_nat: "CR \<notin> set (show_nat n)"
proof
  assume "CR \<in> set (show_nat n)"
  from show_nat_digits [OF this] obtain d where "d < 10" "CR = digit_char d" by blast
  moreover have "(of_char CR :: nat) = 13" by simp
  ultimately show False using digit_char_code [of d] by auto
qed

lemma CR_notin_show_int: "CR \<notin> set (show_int n)"
  using CR_notin_show_nat by (simp add: show_int_def)

lemma parse_i64_show_nat: "int n < 2 ^ 63 \<Longrightarrow> parse_i64 (show_nat n) = Some (int n)"
  using parse_show_int [of "int n"] by (simp add: show_int_def in_i64_def)

lemma utf8_valid_show [simp]: "utf8_valid (show_nat n)" "utf8_valid (show_int m)"
  by (simp_all add: utf8_valid_ascii ascii_show_nat)

lemma utf8_lossy_show [simp]: "utf8_lossy (show_nat n) = show_nat n"
  by (simp add: utf8_lossy_valid)

lemma codec_number_show [simp]:
  "in_i64 n \<Longrightarrow> codec_number (show_int n) = Inr n"
  "int k < 2 ^ 63 \<Longrightarrow> codec_number (show_nat k) = Inr (int k)"
  by (simp_all add: codec_number_def parse_show_int parse_i64_show_nat)

lemma encode_ne [simp]: "encode v \<noteq> []"
  by (cases v rule: encode.cases) auto

lemma length_encodes: "length xs \<le> length (concat (map encode xs))"
proof (induction xs)
  case (Cons x xs)
  then show ?case using encode_ne [of x] by (cases "encode x") auto
qed simp

section \<open>\<open>RespCodec\<close> is a framed parser\<close>

fun codec_wf :: "usize \<Rightarrow> resp_value \<Rightarrow> bool" where
  "codec_wf elem_size (SimpleString s) \<longleftrightarrow> CR \<notin> set s"
| "codec_wf elem_size (Error s) \<longleftrightarrow> CR \<notin> set s"
| "codec_wf elem_size (Integer n) \<longleftrightarrow> in_i64 n"
| "codec_wf elem_size (BulkString _) \<longleftrightarrow> True"
| "codec_wf elem_size (Array None) \<longleftrightarrow> True"
| "codec_wf elem_size (Array (Some xs)) \<longleftrightarrow>
     length xs * elem_size < 2 ^ 63 \<and> list_all (codec_wf elem_size) xs"

lemma codec_line_consumed:
  "codec_simple_string s = Inr (v, n) \<Longrightarrow> 0 < n \<and> n \<le> length s"
  "codec_error s = Inr (v, n) \<Longrightarrow> 0 < n \<and> n \<le> length s"
  "codec_integer s = Inr (v, n) \<Longrightarrow> 0 < n \<and> n \<le> length s"
  "fits s \<Longrightarrow> codec_bulk_string s = Inr (v, n) \<Longrightarrow> 0 < n \<and> n \<le> length s"
  by (auto simp: codec_simple_string_def codec_error_def codec_integer_def codec_bulk_string_def
      dest: codec_find_crlf_bound bulk_body_consumed split: option.splits sum.splits)

lemma try_parse_consumed:
  "fits s \<Longrightarrow> try_parse elem_size s = Inr (v, n) \<Longrightarrow> 0 < n \<and> n \<le> length s"
  "fits s \<Longrightarrow> try_elements elem_size s k = Inr (vs, n) \<Longrightarrow> n \<le> length s"
proof (induction elem_size s and elem_size s k arbitrary: v n and vs n
    rule: try_parse_try_elements.induct)
  case (2 elem_size c cs)
  then show ?case
    apply (auto simp: try_parse.simps(2) dest: codec_line_consumed codec_find_crlf_bound
        split: if_splits option.splits sum.splits)
    subgoal for pos len vs used
      using codec_find_crlf_bound [of "CHR ''*'' # cs" pos] fits_drop [OF fits_tail, of "CHR ''*''" cs "Suc pos"]
      by fastforce
    done
next
  case (3 elem_size s k)
  then show ?case
    apply (auto simp: try_elements.simps [of _ s k] split: if_splits sum.splits)
    subgoal for v used vs' used'
      using fits_drop [of s used] by fastforce
    done
qed simp

lemma codec_line_stable:
  "codec_simple_string s \<noteq> Inl incomplete \<Longrightarrow> codec_simple_string (s @ t) = codec_simple_string s"
  "codec_error s \<noteq> Inl incomplete \<Longrightarrow> codec_error (s @ t) = codec_error s"
  "codec_integer s \<noteq> Inl incomplete \<Longrightarrow> codec_integer (s @ t) = codec_integer s"
  "fits (s @ t) \<Longrightarrow> codec_bulk_string s \<noteq> Inl incomplete
     \<Longrightarrow> codec_bulk_string (s @ t) = codec_bulk_string s"
  by (auto simp: codec_simple_string_def codec_error_def codec_integer_def codec_bulk_string_def
      codec_find_crlf_append slice_append bulk_body_stable dest: codec_find_crlf_bound
      split: option.splits sum.splits)

lemma try_parse_stable:
  "fits (s @ t) \<Longrightarrow> try_parse elem_size s \<noteq> Inl incomplete
     \<Longrightarrow> try_parse elem_size (s @ t) = try_parse elem_size s"
  "fits (s @ t) \<Longrightarrow> try_elements elem_size s k \<noteq> Inl incomplete
     \<Longrightarrow> try_elements elem_size (s @ t) k = try_elements elem_size s k"
proof (induction elem_size s and elem_size s k rule: try_parse_try_elements.induct)
  case (2 elem_size c cs)
  show ?case
  proof (cases "c = CHR ''*'' \<and> codec_find_crlf (c # cs) \<noteq> None")
    case True
    then obtain pos where pos: "codec_find_crlf (c # cs) = Some pos" and c: "c = CHR ''*''" by auto
    note bound = codec_find_crlf_bound [OF pos]
    have pos': "codec_find_crlf (c # cs @ t) = Some pos"
      using codec_find_crlf_append [OF pos, of t] by simp
    have sl: "slice (c # cs @ t) (Suc 0) pos = slice (c # cs) (Suc 0) pos"
      using slice_append [of pos "c # cs" t "Suc 0"] bound by simp
    have dr: "drop (Suc pos) (cs @ t) = drop (Suc pos) cs @ t" using bound by simp
    have "fits (drop (Suc pos) cs @ t)"
      using "2.prems"(1) by (simp add: fits_def)
    then show ?thesis
      using 2 pos [unfolded c] pos' [unfolded c] sl [unfolded c] dr
      by (auto simp: try_parse.simps(2) c split: sum.splits if_splits)
  next
    case False
    then show ?thesis
      using "2.prems" codec_line_stable [of "c # cs" t]
      by (auto simp: try_parse.simps(2) split: if_splits)
  qed
next
  case (3 elem_size s k)
  show ?case
  proof (cases "k = 0 \<or> s = []")
    case True
    then show ?thesis using 3 by (auto simp: try_elements.simps)
  next
    case False
    then have ne: "try_parse elem_size s \<noteq> Inl incomplete"
      using "3.prems"(2) by (subst (asm) try_elements.simps) auto
    have p: "try_parse elem_size (s @ t) = try_parse elem_size s"
      using 3 False ne by auto
    show ?thesis
    proof (cases "try_parse elem_size s")
      case (Inl e)
      then show ?thesis using False p by (simp add: try_elements.simps [of _ _ k])
    next
      case (Inr r)
      obtain v used where r: "r = (v, used)" by force
      have used: "used \<le> length s"
        using try_parse_consumed(1) Inr r "3.prems"(1) by (auto dest: fits_append)
      have "fits (drop used s @ t)"
        using "3.prems"(1) fits_drop [of "s @ t" used] used by simp
      moreover have "try_elements elem_size (drop used s) (k - 1) \<noteq> Inl incomplete"
        using "3.prems"(2) False Inr r by (subst (asm) try_elements.simps) auto
      ultimately have "try_elements elem_size (drop used s @ t) (k - 1) = try_elements elem_size (drop used s) (k - 1)"
        using 3 False Inr r by auto
      then show ?thesis
        using False p Inr r used by (simp add: try_elements.simps [of _ _ k])
    qed
  qed
qed simp

lemma try_elements_recovers:
  assumes "\<And>x rest. x \<in> set xs \<Longrightarrow> fits (encode x @ rest)
      \<Longrightarrow> try_parse elem_size (encode x @ rest) = Inr (x, length (encode x))"
    and "fits (concat (map encode xs) @ rest)"
  shows "try_elements elem_size (concat (map encode xs) @ rest) (length xs)
    = Inr (xs, length (concat (map encode xs)))"
  using assms
proof (induction xs)
  case (Cons x xs)
  have "fits (encode x @ concat (map encode xs) @ rest)" using Cons.prems(2) by simp
  then have "try_parse elem_size (encode x @ concat (map encode xs) @ rest) = Inr (x, length (encode x))"
    "fits (concat (map encode xs) @ rest)"
    using Cons.prems(1) fits_append(2) by auto
  with Cons show ?case
    by (subst try_elements.simps) auto
qed (simp add: try_elements.simps)

lemma try_parse_recovers:
  "codec_wf elem_size v \<Longrightarrow> fits (encode v @ rest) \<Longrightarrow>
     try_parse elem_size (encode v @ rest) = Inr (v, length (encode v))"
proof (induction v arbitrary: rest rule: encode.induct)
  case (1 s)
  then show ?case
    using codec_find_crlf_header [of "CHR ''+'' # s" rest]
    by (simp add: try_parse.simps codec_simple_string_def)
next
  case (2 s)
  then show ?case
    using codec_find_crlf_header [of "CHR ''-'' # s" rest]
    by (simp add: try_parse.simps codec_error_def)
next
  case (3 n)
  then show ?case
    using codec_find_crlf_header [of "CHR '':'' # show_int n" rest] CR_notin_show_int
    by (simp add: try_parse.simps codec_integer_def)
next
  case 4
  show ?case
    using codec_find_crlf_header [of "''$-1''" rest]
    by (simp add: try_parse.simps codec_bulk_string_def codec_number_def slice_def utf8_valid_ascii
        ascii_def parse_i64_def digit_val_def in_i64_def bulk_body_def)
next
  case (5 d)
  have "int (length d) < 2 ^ 63" using "5.prems"(2) by (simp add: fits_def)
  then show ?case
    using codec_find_crlf_header [of "CHR ''$'' # show_nat (length d)" "d @ CRLF @ rest"]
      bulk_body_recovers [of "CHR ''$'' # show_nat (length d)" d rest incomplete] "5.prems"
      CR_notin_show_nat
    by (simp add: try_parse.simps codec_bulk_string_def)
next
  case 6
  show ?case
    using codec_find_crlf_header [of "''*-1''" rest]
    by (simp add: try_parse.simps codec_number_def slice_def utf8_valid_ascii
        ascii_def parse_i64_def digit_val_def in_i64_def)
next
  case (7 xs)
  let ?body = "concat (map encode xs) @ rest"
  have "length xs \<le> length (concat (map encode xs))" by (rule length_encodes)
  then have len: "int (length xs) < 2 ^ 63" using "7.prems"(2) by (simp add: fits_def)
  have cap: "\<not> capacity_overflow elem_size (int (length xs))"
    using "7.prems"(1) len by (simp add: capacity_overflow_def as_usize_small)
  have "fits ?body" using "7.prems"(2) by (simp add: fits_def)
  then have "try_elements elem_size ?body (length xs) = Inr (xs, length (concat (map encode xs)))"
    using 7 by (intro try_elements_recovers) (auto simp: list_all_iff)
  then show ?case
    using codec_find_crlf_header [of "CHR ''*'' # show_nat (length xs)" ?body] len cap CR_notin_show_nat
    by (simp add: try_parse.simps)
qed

interpretation codec: framed_parser "try_parse elem_size" "codec_wf elem_size" "\<lambda>e. e = incomplete"
  for elem_size
proof
  fix v rest assume "codec_wf elem_size v" "fits (encode v @ rest)"
  then show "try_parse elem_size (encode v @ rest) = Inr (v, length (encode v))"
    by (rule try_parse_recovers)
next
  fix s v n assume "fits s" "try_parse elem_size s = Inr (v, n)"
  then show "0 < n \<and> n \<le> length s" by (rule try_parse_consumed)
next
  fix s t assume "fits (s @ t)" "\<And>e. try_parse elem_size s = Inl e \<Longrightarrow> \<not> e = incomplete"
  then show "try_parse elem_size (s @ t) = try_parse elem_size s"
    by (intro try_parse_stable(1)) auto
qed

end
