(* ===== verification/Resp_Laws.thy ===== *)
theory Resp_Laws
  imports Resp
begin

text \<open>
  \<open>RespParser\<close> satisfies the contract of a framed parser too, and what follows for the server:
  values survive the wire, fragmented input is waited for, pipelined input is taken apart in
  order, and the inputs on which parsing panics.
\<close>

section \<open>\<open>RespParser\<close> is a framed parser\<close>

definition need_more :: "resp_error \<Rightarrow> bool" where
  "need_more e \<longleftrightarrow> e = no_crlf \<or> e = Err ''Incomplete bulk string'' \<or> e = Err ''Empty input''"

fun settled :: "resp_error + 'a \<Rightarrow> bool" where
  "settled (Inl e) \<longleftrightarrow> \<not> need_more e"
| "settled (Inr _) \<longleftrightarrow> True"

lemma settled_errors [simp]:
  "need_more no_crlf" "need_more (Err ''Incomplete bulk string'')" "need_more (Err ''Empty input'')"
  by (simp_all add: need_more_def)

lemma settledD: "settled r \<Longrightarrow> need_more e \<Longrightarrow> r \<noteq> Inl e"
  by auto

fun resp_wf :: "resp_value \<Rightarrow> bool" where
  "resp_wf (SimpleString s) \<longleftrightarrow> CR \<notin> set s \<and> utf8_valid s"
| "resp_wf (Error s) \<longleftrightarrow> CR \<notin> set s \<and> utf8_valid s"
| "resp_wf (Integer n) \<longleftrightarrow> in_i64 n"
| "resp_wf (BulkString _) \<longleftrightarrow> True"
| "resp_wf (Array None) \<longleftrightarrow> True"
| "resp_wf (Array (Some xs)) \<longleftrightarrow> list_all resp_wf xs"

lemma parse_line_consumed:
  "parse_simple_string s = Inr (v, n) \<Longrightarrow> 0 < n \<and> n \<le> length s"
  "parse_error s = Inr (v, n) \<Longrightarrow> 0 < n \<and> n \<le> length s"
  "parse_integer s = Inr (v, n) \<Longrightarrow> 0 < n \<and> n \<le> length s"
  "fits s \<Longrightarrow> parse_bulk_string s = Inr (v, n) \<Longrightarrow> 0 < n \<and> n \<le> length s"
  by (auto simp: parse_simple_string_def parse_error_def parse_integer_def parse_bulk_string_def
      dest: find_crlf_bound bulk_body_consumed split: option.splits)

lemma parse_consumed:
  "fits s \<Longrightarrow> parse s = Inr (v, n) \<Longrightarrow> 0 < n \<and> n \<le> length s"
  "fits s \<Longrightarrow> parse_elements s k = Inr (vs, n) \<Longrightarrow> n \<le> length s"
proof (induction s and s k arbitrary: v n and vs n rule: parse_parse_elements.induct)
  case (2 c cs)
  then show ?case
    apply (auto simp: parse.simps(2) dest: parse_line_consumed find_crlf_bound
        split: if_splits option.splits sum.splits)
    subgoal for pos len vs used
      using find_crlf_bound [of "CHR ''*'' # cs" pos] fits_drop [OF fits_tail, of "CHR ''*''" cs "Suc pos"]
      by fastforce
    done
next
  case (3 s k)
  then show ?case
    apply (auto simp: parse_elements.simps [of s k] split: if_splits sum.splits)
    subgoal for v used vs' used'
      using fits_drop [of s used] by fastforce
    done
qed simp

lemma parse_line_stable:
  "settled (parse_simple_string s) \<Longrightarrow> parse_simple_string (s @ t) = parse_simple_string s"
  "settled (parse_error s) \<Longrightarrow> parse_error (s @ t) = parse_error s"
  "settled (parse_integer s) \<Longrightarrow> parse_integer (s @ t) = parse_integer s"
  "fits (s @ t) \<Longrightarrow> settled (parse_bulk_string s) \<Longrightarrow> parse_bulk_string (s @ t) = parse_bulk_string s"
proof -
  have line: "find_crlf (s @ t) = Some pos \<and> slice (s @ t) 1 pos = slice s 1 pos"
    if "find_crlf s = Some pos" for pos
    using find_crlf_append [OF that] find_crlf_bound [OF that] by (simp add: slice_append)
  show "settled (parse_simple_string s) \<Longrightarrow> parse_simple_string (s @ t) = parse_simple_string s"
    using line by (cases "find_crlf s") (auto simp: parse_simple_string_def)
  show "settled (parse_error s) \<Longrightarrow> parse_error (s @ t) = parse_error s"
    using line by (cases "find_crlf s") (auto simp: parse_error_def)
  show "settled (parse_integer s) \<Longrightarrow> parse_integer (s @ t) = parse_integer s"
    using line by (cases "find_crlf s") (auto simp: parse_integer_def)
  show "parse_bulk_string (s @ t) = parse_bulk_string s"
    if "fits (s @ t)" "settled (parse_bulk_string s)"
  proof (cases "find_crlf s")
    case (Some pos)
    then show ?thesis
      using that line [OF Some] settledD [OF that(2), of "Err ''Incomplete bulk string''"]
      by (cases "parse_i64 (utf8_lossy (slice s 1 pos))")
        (auto simp: parse_bulk_string_def bulk_body_stable)
  qed (use that in \<open>simp add: parse_bulk_string_def\<close>)
qed

lemma parse_array_stable:
  assumes pos: "find_crlf (CHR ''*'' # cs) = Some pos"
    and elems: "\<And>len. parse_i64 (utf8_lossy (slice (CHR ''*'' # cs) (Suc 0) pos)) = Some len \<Longrightarrow>
      len \<noteq> - 1 \<Longrightarrow> settled (parse_elements (drop (Suc pos) cs) (nat len)) \<Longrightarrow>
      parse_elements (drop (Suc pos) cs @ t) (nat len) = parse_elements (drop (Suc pos) cs) (nat len)"
    and fin: "settled (parse (CHR ''*'' # cs))"
  shows "parse (CHR ''*'' # cs @ t) = parse (CHR ''*'' # cs)"
proof -
  have bound: "pos \<le> Suc (length cs)" "Suc pos \<le> length cs" using find_crlf_bound [OF pos] by simp_all
  have pos': "find_crlf (CHR ''*'' # cs @ t) = Some pos"
    using find_crlf_append [OF pos, of t] by simp
  have sl: "slice (CHR ''*'' # cs @ t) (Suc 0) pos = slice (CHR ''*'' # cs) (Suc 0) pos"
    using slice_append [of pos "CHR ''*'' # cs" t "Suc 0"] bound by simp
  show ?thesis
  proof (cases "parse_i64 (utf8_lossy (slice (CHR ''*'' # cs) (Suc 0) pos))")
    case None
    then show ?thesis by (simp add: parse.simps(2) pos pos' sl)
  next
    case (Some len)
    then show ?thesis
      using fin elems [OF Some] bound
      by (cases "parse_elements (drop (Suc pos) cs) (nat len)")
        (auto simp: parse.simps(2) pos pos' sl)
  qed
qed

lemma parse_elements_stable:
  assumes "k \<noteq> 0" "fits (s @ t)" "settled (parse_elements s k)"
    and p: "settled (parse s) \<Longrightarrow> parse (s @ t) = parse s"
    and elems: "\<And>v used. parse s = Inr (v, used) \<Longrightarrow> settled (parse_elements (drop used s) (k - 1)) \<Longrightarrow>
      parse_elements (drop used s @ t) (k - 1) = parse_elements (drop used s) (k - 1)"
  shows "parse_elements (s @ t) k = parse_elements s k"
proof (cases "parse s")
  case (Inl e)
  then show ?thesis using assms by (simp add: parse_elements.simps [of _ k])
next
  case (Inr r)
  obtain v used where r: "r = (v, used)" by force
  have "used \<le> length s"
    using parse_consumed(1) Inr r assms(2) by (auto dest: fits_append)
  with Inr r assms show ?thesis
    by (auto simp: parse_elements.simps [of _ k] split: sum.splits)
qed

lemma parse_stable:
  "fits (s @ t) \<Longrightarrow> settled (parse s) \<Longrightarrow> parse (s @ t) = parse s"
  "fits (s @ t) \<Longrightarrow> settled (parse_elements s k) \<Longrightarrow> parse_elements (s @ t) k = parse_elements s k"
proof (induction s and s k rule: parse_parse_elements.induct)
  case 1
  then show ?case by simp
next
  case (2 c cs)
  show ?case
  proof (cases "c = CHR ''*'' \<and> find_crlf (c # cs) \<noteq> None")
    case True
    then obtain pos where pos: "find_crlf (CHR ''*'' # cs) = Some pos" and c: "c = CHR ''*''" by auto
    have "fits (drop (Suc pos) cs @ t)" using "2.prems"(1) by (simp add: fits_def)
    then have "parse (CHR ''*'' # cs @ t) = parse (CHR ''*'' # cs)"
      using parse_array_stable [OF pos, of t] "2.prems" "2.IH" pos c by auto
    then show ?thesis using c by simp
  next
    case False
    then show ?thesis
      using "2.prems" parse_line_stable [of "c # cs" t]
      by (auto simp: parse.simps(2) split: if_splits)
  qed
next
  case (3 s k)
  have "fits (drop used s @ t)" for used
    using "3.prems"(1) by (simp add: fits_def)
  then show ?case
    using "3.prems" "3.IH" parse_elements_stable [of k s t]
    by (cases "k = 0") (auto simp: parse_elements.simps [of _ 0])
qed

lemma parse_elements_recovers:
  assumes "\<And>x rest. x \<in> set xs \<Longrightarrow> fits (encode x @ rest)
      \<Longrightarrow> parse (encode x @ rest) = Inr (x, length (encode x))"
    and "fits (concat (map encode xs) @ rest)"
  shows "parse_elements (concat (map encode xs) @ rest) (length xs)
    = Inr (xs, length (concat (map encode xs)))"
  using assms
proof (induction xs)
  case (Cons x xs)
  have "fits (encode x @ concat (map encode xs) @ rest)" using Cons.prems(2) by simp
  then have "parse (encode x @ concat (map encode xs) @ rest) = Inr (x, length (encode x))"
    "fits (concat (map encode xs) @ rest)"
    using Cons.prems(1) fits_append(2) by auto
  with Cons show ?case
    by (subst parse_elements.simps) auto
qed (simp add: parse_elements.simps)

lemma parse_i64_minus_1: "parse_i64 ''-1'' = Some (- 1)"
  by (simp add: parse_i64_def digit_val_def in_i64_def)

lemma parse_recovers:
  "resp_wf v \<Longrightarrow> fits (encode v @ rest) \<Longrightarrow> parse (encode v @ rest) = Inr (v, length (encode v))"
proof (induction v arbitrary: rest rule: encode.induct)
  case (1 s)
  then show ?case
    using find_crlf_header [of "CHR ''+'' # s" rest]
    by (simp add: parse.simps parse_simple_string_def utf8_lossy_valid)
next
  case (2 s)
  then show ?case
    using find_crlf_header [of "CHR ''-'' # s" rest]
    by (simp add: parse.simps parse_error_def utf8_lossy_valid)
next
  case (3 n)
  then show ?case
    using find_crlf_header [of "CHR '':'' # show_int n" rest] CR_notin_show_int
    by (simp add: parse.simps parse_integer_def parse_show_int)
next
  case 4
  show ?case
    using find_crlf_header [of "''$-1''" rest] parse_i64_minus_1
    by (simp add: parse.simps parse_bulk_string_def slice_def ascii_def bulk_body_def)
next
  case (5 d)
  have "int (length d) < 2 ^ 63" using "5.prems"(2) by (simp add: fits_def)
  then show ?case
    using find_crlf_header [of "CHR ''$'' # show_nat (length d)" "d @ CRLF @ rest"]
      bulk_body_recovers [of "CHR ''$'' # show_nat (length d)" d rest "Err ''Incomplete bulk string''"]
      "5.prems" CR_notin_show_nat
    by (simp add: parse.simps parse_bulk_string_def parse_i64_show_nat)
next
  case 6
  show ?case
    using find_crlf_header [of "''*-1''" rest] parse_i64_minus_1
    by (simp add: parse.simps slice_def ascii_def)
next
  case (7 xs)
  let ?body = "concat (map encode xs) @ rest"
  have "length xs \<le> length (concat (map encode xs))" by (rule length_encodes)
  then have len: "int (length xs) < 2 ^ 63" using "7.prems"(2) by (simp add: fits_def)
  have "fits ?body" using "7.prems"(2) by (simp add: fits_def)
  then have "parse_elements ?body (length xs) = Inr (xs, length (concat (map encode xs)))"
    using 7 by (intro parse_elements_recovers) (auto simp: list_all_iff)
  then show ?case
    using find_crlf_header [of "CHR ''*'' # show_nat (length xs)" ?body] len CR_notin_show_nat
    by (simp add: parse.simps parse_i64_show_nat)
qed

interpretation resp: framed_parser parse resp_wf need_more
proof
  fix v rest assume "resp_wf v" "fits (encode v @ rest)"
  then show "parse (encode v @ rest) = Inr (v, length (encode v))" by (rule parse_recovers)
next
  fix s v n assume "fits s" "parse s = Inr (v, n)"
  then show "0 < n \<and> n \<le> length s" by (rule parse_consumed)
next
  fix s t assume "fits (s @ t)" "\<And>e. parse s = Inl e \<Longrightarrow> \<not> need_more e"
  then show "parse (s @ t) = parse s"
    using parse_stable(1) [of s t] by (cases "parse s") auto
qed

section \<open>Values on the wire\<close>

text \<open>
  C11. A reply or command survives the wire: \<open>RespCodec::parse\<close> on the encoding of a value followed
  by any bytes returns the value and leaves exactly those bytes in the buffer; \<open>RespParser::parse\<close>
  returns the value and the length of its encoding. The codec's size of an element is arbitrary.
  Simple strings and errors must not contain a carriage return (for \<open>RespParser\<close> they must also
  be UTF-8, which the Rust type ensures).
\<close>

theorem resp_round_trip:
  assumes "fits (encode v @ rest)"
  shows "(codec_wf elem_size v \<longrightarrow> codec_parse elem_size (codec_encode v @ rest) = Inr (Some v, rest)) \<and>
    (resp_wf v \<longrightarrow> parse (encode v @ rest) = Inr (v, length (encode v)))"
  using assms codec.recovers [of elem_size v rest] resp.recovers [of v rest]
  by (simp add: codec_parse_def codec_encode_eq)

theorem resp_round_trip_witness:
  "let v = Array (Some [BulkString (Some ''GET''), Integer (- 7), Array None]) in
     codec_parse 40 (codec_encode v @ ''*1'') = Inr (Some v, ''*1'')"
  using resp_round_trip [of "Array (Some [BulkString (Some ''GET''), Integer (- 7), Array None])"
      "''*1''" 40]
  by (simp add: Let_def fits_def in_i64_def show_int_def show_nat.simps)

text \<open>
  Fragmented input: when only a part of the encoding of a value has arrived, wherever it is
  cut, \<open>RespCodec::parse\<close> returns no value and no error and leaves the buffer as it is, so the
  connection waits for the rest.
\<close>

theorem codec_waits_for_rest:
  assumes "codec_wf elem_size v" "fits (encode v)" "encode v = part @ missing" "missing \<noteq> []"
  shows "codec_parse elem_size part = Inr (None, part)"
  using codec.prefix_incomplete [OF assms] by (auto simp: codec_parse_def)

theorem codec_waits_for_rest_witness:
  "codec_parse 40 (''$5'' @ CRLF @ ''hel'') = Inr (None, ''$5'' @ CRLF @ ''hel'')"
proof -
  have e: "encode (BulkString (Some ''hello'')) = (''$5'' @ CRLF @ ''hel'') @ ''lo'' @ CRLF"
    by code_simp
  have "fits (encode (BulkString (Some ''hello'')))"
    unfolding e by (simp add: fits_def)
  then show ?thesis by (intro codec_waits_for_rest [OF _ _ e]) simp_all
qed

text \<open>
  Pipelined input: a buffer with the encodings of several values, followed by anything, is
  parsed into these values in order with the rest left over, by either parser.
\<close>

theorem pipelined_values:
  assumes "fits (concat (map encode vs) @ rest)"
  shows "(list_all (codec_wf elem_size) vs \<longrightarrow>
      parse_many (try_parse elem_size) (length vs) (concat (map encode vs) @ rest) = Some (vs, rest)) \<and>
    (list_all resp_wf vs \<longrightarrow>
      parse_many parse (length vs) (concat (map encode vs) @ rest) = Some (vs, rest))"
  using codec.recovers_all [OF _ assms, of elem_size] resp.recovers_all [OF _ assms]
  by (simp add: list_all_iff)

theorem pipelined_values_witness:
  "let vs = [pong, nil] in
     parse_many (try_parse 40) (length vs) (concat (map encode vs) @ ''+'') = Some (vs, ''+'')"
proof -
  have "fits (concat (map encode [pong, nil]) @ ''+'')" "list_all (codec_wf 40) [pong, nil]"
    by (simp_all add: pong_def nil_def fits_def)
  then show ?thesis unfolding Let_def using pipelined_values [of "[pong, nil]" "''+''" 40] by blast
qed

text \<open>
  More input never changes an answer: once \<open>RespCodec\<close> has returned a value, a protocol error or
  a panic for a buffer, it returns the same for every longer buffer.
\<close>

theorem codec_answer_stable:
  assumes "try_parse elem_size s \<noteq> Inl incomplete" "fits (s @ t)"
  shows "try_parse elem_size (s @ t) = try_parse elem_size s"
  by (rule codec.stable) (use assms in auto)

theorem codec_answer_stable_witness:
  "try_parse 40 ([CHR ''?''] @ ''abc'') = try_parse 40 [CHR ''?'']"
  using codec_answer_stable [of 40 "[CHR ''?'']" "''abc''"]
  by (simp add: fits_def try_parse.simps(2))

section \<open>Inputs that make the server panic\<close>

lemma show_neg: "n < 0 \<Longrightarrow> show_int n = CHR ''-'' # show_nat (nat (- n))"
  by (simp add: show_int_def)

text \<open>
  A negative array length other than -1 makes \<open>RespCodec\<close> panic: \<open>len as usize\<close> exceeds every
  possible capacity. The release profile aborts on panic, so one such line stops the server.
\<close>

theorem codec_negative_array_panics:
  assumes "in_i64 n" "n < - 1" "0 < elem_size"
  shows "codec_parse elem_size (''*'' @ show_int n @ CRLF @ rest) = Inl Panic"
proof -
  have "codec_find_crlf (CHR ''*'' # show_int n @ CR # LF # rest) = Some (Suc (length (show_int n)))"
    using codec_find_crlf_header [of "CHR ''*'' # show_int n" rest] CR_notin_show_int by simp
  moreover have "as_usize n \<ge> 2 ^ 63"
    using assms(1,2) by (simp add: as_usize_neg in_i64_def)
  then have "capacity_overflow elem_size n"
    using assms(3) by (auto simp: capacity_overflow_def intro: le_trans)
  ultimately show ?thesis
    using assms(1,2) by (simp add: codec_parse_def try_parse.simps(2))
qed

theorem codec_negative_array_panics_witness: "codec_parse 40 (''*-2'' @ CRLF) = Inl Panic"
  using codec_negative_array_panics [of "- 2" 40 "[]"]
  by (simp add: in_i64_def show_int_def show_nat.simps)

text \<open>
  A negative bulk length other than -1, as small as the header is long, makes both parsers
  panic on a slice whose end is before its start.
\<close>

theorem negative_bulk_panics:
  assumes "in_i64 n" "n < - 1" "- n \<le> int (length (show_int n)) + 3" "fits (''$'' @ show_int n @ CRLF @ rest)"
  shows "codec_parse elem_size (''$'' @ show_int n @ CRLF @ rest) = Inl Panic \<and>
    parse (''$'' @ show_int n @ CRLF @ rest) = Inl Panic"
proof -
  let ?s = "CHR ''$'' # show_int n @ CR # LF # rest" and ?l = "Suc (length (show_int n))"
  have find: "codec_find_crlf ?s = Some ?l" "find_crlf ?s = Some ?l"
    using codec_find_crlf_header [of "CHR ''$'' # show_int n" rest]
      find_crlf_header [of "CHR ''$'' # show_int n" rest] CR_notin_show_int by simp_all
  have "as_usize n = nat (n + 2 ^ 64)"
    using assms(1,2) by (simp add: as_usize_neg in_i64_def)
  then have sum: "int (?l + 2 + as_usize n) = (int ?l + 2 + n) + 2 ^ 64"
    using assms(1) by (simp add: in_i64_def)
  have "int (wadd (?l + 2) (as_usize n)) = (int ?l + 2 + n + 2 ^ 64) mod 2 ^ 64"
    unfolding wadd_def zmod_int sum by simp
  also have "\<dots> = (int ?l + 2 + n) mod 2 ^ 64" by (rule mod_add_self2)
  also have "\<dots> = int ?l + 2 + n"
    by (rule mod_pos_pos_trivial) (use assms(2,3,4) in \<open>simp_all add: fits_def\<close>)
  finally have stop: "int (wadd (?l + 2) (as_usize n)) = int ?l + 2 + n" .
  have "bulk_body e ?s ?l n = Inl Panic" for e
    using stop assms(2,3,4) wadd_small [of "wadd (?l + 2) (as_usize n)" 2]
    by (auto simp: bulk_body_def Let_def fits_def)
  then show ?thesis
    using assms(1) find
    by (simp add: codec_parse_def try_parse.simps(2) parse.simps(2) codec_bulk_string_def
        parse_bulk_string_def parse_show_int)
qed

theorem negative_bulk_panics_witness:
  "codec_parse 40 (''$-2'' @ CRLF) = Inl Panic \<and> parse (''$-2'' @ CRLF) = Inl Panic"
  using negative_bulk_panics [of "- 2" "[]" 40]
  by (simp add: in_i64_def show_int_def show_nat.simps fits_def)

end
