(* ===== verification/Command.thy ===== *)
theory Command
  imports Prelude
begin

text \<open>
  The commands of the server (\<open>src/redis/command.rs\<close>):
  \<open>enum Command\<close>, one datatype per section of the enum. \<open>data_command\<close> has the commands that a
  transaction queues: \<open>MULTI\<close>, \<open>EXEC\<close>, \<open>DISCARD\<close> and \<open>WATCH\<close> are never queued (\<open>execute\<close> handles
  them before queueing), so the queue is a list of \<open>data_command\<close>.
\<close>

datatype string_command =
    Get string
  | SetCmd string bytes "i64 option" "i64 option" "i64 option" "i64 option" bool bool bool bool
  | SetNx string bytes
  | Append string bytes
  | GetSet string bytes
  | StrLen string
  | MGet "string list"
  | MSet "(string \<times> bytes) list"
  | MSetNx "(string \<times> bytes) list"
  | BatchSet "(string \<times> bytes) list"
  | BatchGet "string list"
  | GetRange string isize isize
  | SetRange string usize bytes
  | SetBit string u64 nat
  | GetBit string u64
  | GetEx string "i64 option" "i64 option" "i64 option" "i64 option" bool
  | GetDel string
  | Incr string
  | Decr string
  | IncrBy string i64
  | DecrBy string i64

datatype key_command =
    Del "string list"
  | Exists "string list"
  | TypeOf string
  | Keys string
  | FlushDb
  | FlushAll
  | Expire string i64 bool bool bool bool
  | ExpireAt string i64
  | PExpire string i64 bool bool bool bool
  | PExpireAt string i64
  | Ttl string
  | Pttl string
  | ExpireTime string
  | PExpireTime string
  | Persist string
  | Sort string "string option"
  | RandomKey
  | Rename string string
  | RenameNx string string

datatype list_command =
    LPush string "bytes list"
  | RPush string "bytes list"
  | LPop string
  | RPop string
  | LLen string
  | LIndex string isize
  | LRange string isize isize
  | LSet string isize bytes
  | LTrim string isize isize
  | RPopLPush string string
  | LMove string string string string

datatype set_command =
    SAdd string "bytes list"
  | SRem string "bytes list"
  | SMembers string
  | SIsMember string bytes
  | SCard string
  | SPop string "usize option"

datatype hash_command =
    HSet string "(bytes \<times> bytes) list"
  | HGet string bytes
  | HDel string "bytes list"
  | HGetAll string
  | HKeys string
  | HVals string
  | HLen string
  | HExists string bytes
  | HIncrBy string bytes i64

datatype server_command =
    Info
  | Ping "bytes option"
  | DbSize
  | Time
  | Wait i64 i64
  | Select u64
  | Echo bytes
  | CommandCommand
  | CommandCount
  | FunctionFlush
  | ClientSetName string
  | ClientGetName
  | ClientId
  | ClientInfo
  | ObjectHelp
  | ObjectEncoding string
  | ObjectRefCount string
  | ObjectIdleTime string
  | ObjectFreq string
  | DebugSet string string
  | DebugObject string
  | Unknown string

datatype data_command =
    StringC string_command
  | KeyC key_command
  | ListC list_command
  | SetC set_command
  | HashC hash_command
  | ServerC server_command
  | Unwatch

datatype command = Data data_command | Multi | Exec | Discard | Watch "string list"

section \<open>Read-only commands\<close>

fun string_read_only :: "string_command \<Rightarrow> bool" where
  "string_read_only (Get _) = True"
| "string_read_only (GetRange _ _ _) = True"
| "string_read_only (GetBit _ _) = True"
| "string_read_only (StrLen _) = True"
| "string_read_only (MGet _) = True"
| "string_read_only _ = False"

fun key_read_only :: "key_command \<Rightarrow> bool" where
  "key_read_only (Exists _) = True"
| "key_read_only (TypeOf _) = True"
| "key_read_only (Keys _) = True"
| "key_read_only (Ttl _) = True"
| "key_read_only (Pttl _) = True"
| "key_read_only (ExpireTime _) = True"
| "key_read_only (PExpireTime _) = True"
| "key_read_only RandomKey = True"
| "key_read_only _ = False"

fun list_read_only :: "list_command \<Rightarrow> bool" where
  "list_read_only (LLen _) = True"
| "list_read_only (LIndex _ _) = True"
| "list_read_only (LRange _ _ _) = True"
| "list_read_only _ = False"

fun set_read_only :: "set_command \<Rightarrow> bool" where
  "set_read_only (SMembers _) = True"
| "set_read_only (SIsMember _ _) = True"
| "set_read_only (SCard _) = True"
| "set_read_only _ = False"

fun hash_read_only :: "hash_command \<Rightarrow> bool" where
  "hash_read_only (HGet _ _) = True"
| "hash_read_only (HGetAll _) = True"
| "hash_read_only (HKeys _) = True"
| "hash_read_only (HVals _) = True"
| "hash_read_only (HLen _) = True"
| "hash_read_only (HExists _ _) = True"
| "hash_read_only _ = False"

fun server_read_only :: "server_command \<Rightarrow> bool" where
  "server_read_only (Select _) = False"
| "server_read_only FunctionFlush = False"
| "server_read_only (ClientSetName _) = False"
| "server_read_only (DebugSet _ _) = False"
| "server_read_only (DebugObject _) = False"
| "server_read_only (Unknown _) = False"
| "server_read_only _ = True"

fun is_read_only :: "command \<Rightarrow> bool" where
  "is_read_only (Data (StringC c)) = string_read_only c"
| "is_read_only (Data (KeyC c)) = key_read_only c"
| "is_read_only (Data (ListC c)) = list_read_only c"
| "is_read_only (Data (SetC c)) = set_read_only c"
| "is_read_only (Data (HashC c)) = hash_read_only c"
| "is_read_only (Data (ServerC c)) = server_read_only c"
| "is_read_only _ = False"

section \<open>The keys of a command\<close>

text \<open>
  \<open>get_keys\<close> is what the permission check compares with the key patterns of a user;
  \<open>get_primary_key\<close> selects the shard.
\<close>

fun string_keys :: "string_command \<Rightarrow> string list" where
  "string_keys (Get k) = [k]"
| "string_keys (SetCmd k _ _ _ _ _ _ _ _ _) = [k]"
| "string_keys (SetNx k _) = [k]"
| "string_keys (Append k _) = [k]"
| "string_keys (GetSet k _) = [k]"
| "string_keys (StrLen k) = [k]"
| "string_keys (MGet ks) = ks"
| "string_keys (MSet ps) = map fst ps"
| "string_keys (MSetNx ps) = map fst ps"
| "string_keys (BatchSet ps) = map fst ps"
| "string_keys (BatchGet ks) = ks"
| "string_keys (GetRange k _ _) = [k]"
| "string_keys (SetRange k _ _) = [k]"
| "string_keys (SetBit k _ _) = [k]"
| "string_keys (GetBit k _) = [k]"
| "string_keys (GetEx k _ _ _ _ _) = [k]"
| "string_keys (GetDel k) = [k]"
| "string_keys (Incr k) = [k]"
| "string_keys (Decr k) = [k]"
| "string_keys (IncrBy k _) = [k]"
| "string_keys (DecrBy k _) = [k]"

fun key_keys :: "key_command \<Rightarrow> string list" where
  "key_keys (Del ks) = ks"
| "key_keys (Exists ks) = ks"
| "key_keys (TypeOf k) = [k]"
| "key_keys (Keys k) = [k]"
| "key_keys FlushDb = []"
| "key_keys FlushAll = []"
| "key_keys (Expire k _ _ _ _ _) = [k]"
| "key_keys (ExpireAt k _) = [k]"
| "key_keys (PExpire k _ _ _ _ _) = [k]"
| "key_keys (PExpireAt k _) = [k]"
| "key_keys (Ttl k) = [k]"
| "key_keys (Pttl k) = [k]"
| "key_keys (ExpireTime k) = [k]"
| "key_keys (PExpireTime k) = [k]"
| "key_keys (Persist k) = [k]"
| "key_keys (Sort k store) = k # (case store of Some d \<Rightarrow> [d] | None \<Rightarrow> [])"
| "key_keys RandomKey = []"
| "key_keys (Rename src dst) = [src, dst]"
| "key_keys (RenameNx src dst) = [src, dst]"

fun list_keys :: "list_command \<Rightarrow> string list" where
  "list_keys (LPush k _) = [k]"
| "list_keys (RPush k _) = [k]"
| "list_keys (LPop k) = [k]"
| "list_keys (RPop k) = [k]"
| "list_keys (LLen k) = [k]"
| "list_keys (LIndex k _) = [k]"
| "list_keys (LRange k _ _) = [k]"
| "list_keys (LSet k _ _) = [k]"
| "list_keys (LTrim k _ _) = [k]"
| "list_keys (RPopLPush src dst) = [src, dst]"
| "list_keys (LMove source dest _ _) = [source, dest]"

fun set_keys :: "set_command \<Rightarrow> string list" where
  "set_keys (SAdd k _) = [k]"
| "set_keys (SRem k _) = [k]"
| "set_keys (SMembers k) = [k]"
| "set_keys (SIsMember k _) = [k]"
| "set_keys (SCard k) = [k]"
| "set_keys (SPop k _) = [k]"

fun hash_command_keys :: "hash_command \<Rightarrow> string list" where
  "hash_command_keys (HSet k _) = [k]"
| "hash_command_keys (HGet k _) = [k]"
| "hash_command_keys (HDel k _) = [k]"
| "hash_command_keys (HGetAll k) = [k]"
| "hash_command_keys (HKeys k) = [k]"
| "hash_command_keys (HVals k) = [k]"
| "hash_command_keys (HLen k) = [k]"
| "hash_command_keys (HExists k _) = [k]"
| "hash_command_keys (HIncrBy k _ _) = [k]"

fun server_keys :: "server_command \<Rightarrow> string list" where
  "server_keys (ObjectEncoding k) = [k]"
| "server_keys (ObjectRefCount k) = [k]"
| "server_keys (ObjectIdleTime k) = [k]"
| "server_keys (ObjectFreq k) = [k]"
| "server_keys (DebugObject k) = [k]"
| "server_keys _ = []"

fun data_keys :: "data_command \<Rightarrow> string list" where
  "data_keys (StringC c) = string_keys c"
| "data_keys (KeyC c) = key_keys c"
| "data_keys (ListC c) = list_keys c"
| "data_keys (SetC c) = set_keys c"
| "data_keys (HashC c) = hash_command_keys c"
| "data_keys (ServerC c) = server_keys c"
| "data_keys Unwatch = []"

fun get_keys :: "command \<Rightarrow> string list" where
  "get_keys (Data c) = data_keys c"
| "get_keys (Watch ks) = ks"
| "get_keys _ = []"

definition first_key :: "string list \<Rightarrow> string option" where
  "first_key ks = (case ks of [] \<Rightarrow> None | k # _ \<Rightarrow> Some k)"

fun get_primary_key :: "command \<Rightarrow> string option" where
  "get_primary_key (Data (KeyC (Keys _))) = None"
| "get_primary_key (Data c) = first_key (data_keys c)"
| "get_primary_key (Watch ks) = first_key ks"
| "get_primary_key _ = None"

end
