(* ===== verification/Float64.thy ===== *)
theory Float64
  imports Prelude
begin

text \<open>
  The \<open>f64\<close> values of the program, as their IEEE 754 bit patterns. The sources compare scores
  (\<open>partial_cmp\<close>, \<open><\<close>, \<open>==\<close>) and test whether a difference is below or above \<open>f64::EPSILON\<close>; both
  are defined here exactly, over the integer multiples of \<open>2 ^ -1074\<close> that the finite values are.
\<close>

section \<open>Bit patterns and what they stand for\<close>

type_synonym f64 = "64 word"

definition f64_is_nan :: "f64 \<Rightarrow> bool" where
  "f64_is_nan x \<longleftrightarrow> and x 0x7FFFFFFFFFFFFFFF > 0x7FF0000000000000"

definition f64_is_finite :: "f64 \<Rightarrow> bool" where
  "f64_is_finite x \<longleftrightarrow> and x 0x7FFFFFFFFFFFFFFF < 0x7FF0000000000000"

text \<open>
  The magnitude in units of \<open>2 ^ -1074\<close>: a subnormal is its fraction, a normal value has the hidden
  bit and is scaled by its exponent. An infinity gets the next value of that scale, above every
  finite one, so that the order of the numbers is the order of the integers.
\<close>

definition f64_magnitude :: "f64 \<Rightarrow> nat" where
  "f64_magnitude x =
     (let e = unat (and (drop_bit 52 x) 0x7FF); f = unat (and x 0xFFFFFFFFFFFFF)
      in if e = 0 then f else (2 ^ 52 + f) * 2 ^ (e - 1))"

definition f64_num :: "f64 \<Rightarrow> int" where
  "f64_num x = (if bit x 63 then - int (f64_magnitude x) else int (f64_magnitude x))"

section \<open>Comparison\<close>

definition f64_partial_cmp :: "f64 \<Rightarrow> f64 \<Rightarrow> ordering option" where
  "f64_partial_cmp x y =
     (if f64_is_nan x \<or> f64_is_nan y then None
      else Some (if f64_num x < f64_num y then Less
                 else if f64_num x = f64_num y then Equal else Greater))"

definition f64_lt :: "f64 \<Rightarrow> f64 \<Rightarrow> bool" where
  "f64_lt x y \<longleftrightarrow> f64_partial_cmp x y = Some Less"

definition f64_le :: "f64 \<Rightarrow> f64 \<Rightarrow> bool" where
  "f64_le x y \<longleftrightarrow> f64_partial_cmp x y \<in> {Some Less, Some Equal}"

definition f64_eq :: "f64 \<Rightarrow> f64 \<Rightarrow> bool" where
  "f64_eq x y \<longleftrightarrow> f64_partial_cmp x y = Some Equal"

section \<open>The tests against \<open>f64::EPSILON\<close>\<close>

text \<open>
  \<open>(a - b).abs() < f64::EPSILON\<close> rounds the exact difference to the nearest \<open>f64\<close> (ties to even)
  before it compares. \<open>EPSILON = 2 ^ -52\<close> has an even significand; the values next to it are
  \<open>2 ^ -52 - 2 ^ -105\<close> and \<open>2 ^ -52 + 2 ^ -104\<close>. So the rounded difference is below \<open>EPSILON\<close> exactly
  when the true one is below the midpoint \<open>2 ^ -52 - 2 ^ -106\<close>, and above \<open>EPSILON\<close> exactly when the
  true one is above the midpoint \<open>2 ^ -52 + 2 ^ -105\<close>. The difference of two infinities of one sign
  is NaN, for which both tests fail; every other difference with an infinity is infinite.
\<close>

definition f64_diff_is_nan :: "f64 \<Rightarrow> f64 \<Rightarrow> bool" where
  "f64_diff_is_nan a b \<longleftrightarrow>
     f64_is_nan a \<or> f64_is_nan b \<or> \<not> f64_is_finite a \<and> \<not> f64_is_finite b \<and> f64_num a = f64_num b"

definition abs_diff_below_epsilon :: "f64 \<Rightarrow> f64 \<Rightarrow> bool" where
  "abs_diff_below_epsilon a b \<longleftrightarrow>
     \<not> f64_diff_is_nan a b \<and> f64_is_finite a \<and> f64_is_finite b \<and>
     \<bar>f64_num a - f64_num b\<bar> < 2 ^ 1022 - 2 ^ 968"

definition abs_diff_above_epsilon :: "f64 \<Rightarrow> f64 \<Rightarrow> bool" where
  "abs_diff_above_epsilon a b \<longleftrightarrow>
     \<not> f64_diff_is_nan a b \<and>
     (\<not> f64_is_finite a \<or> \<not> f64_is_finite b \<or> \<bar>f64_num a - f64_num b\<bar> > 2 ^ 1022 + 2 ^ 969)"

lemma finite_not_nan [simp]: "f64_is_finite x \<Longrightarrow> \<not> f64_is_nan x"
  by (auto simp: f64_is_finite_def f64_is_nan_def)

lemma same_score_below_epsilon [simp]: "f64_is_finite x \<Longrightarrow> abs_diff_below_epsilon x x"
  by (simp add: abs_diff_below_epsilon_def f64_diff_is_nan_def)

lemma infinite_never_below_epsilon: "\<not> f64_is_finite x \<Longrightarrow> \<not> abs_diff_below_epsilon x y"
  by (simp add: abs_diff_below_epsilon_def)

lemma f64_is_finite_zero [simp]: "f64_is_finite 0"
  by (simp add: f64_is_finite_def)

text \<open>Signs matter only through the number: the two zeros are equal.\<close>

lemma f64_zeros_equal: "f64_eq 0x8000000000000000 0"
  by code_simp

section \<open>Finite values lie above minus infinity\<close>

lemma exponent_bits:
  "unat (and (drop_bit 52 x) 0x7FF :: f64) = unat (and x 0x7FFFFFFFFFFFFFFF) div 2 ^ 52"
proof -
  have "and (drop_bit 52 x) 0x7FF = drop_bit 52 (and x 0x7FFFFFFFFFFFFFFF :: f64)"
    by (simp add: drop_bit_and)
  then show ?thesis
    by (simp add: drop_bit_eq_div unat_div)
qed

lemma finite_magnitude:
  assumes "f64_is_finite x"
  shows "f64_magnitude x < 2 ^ 2098"
proof -
  define e f where "e = unat (and (drop_bit 52 x) 0x7FF :: f64)" and "f = unat (and x 0xFFFFFFFFFFFFF)"
  have "unat (and x 0x7FFFFFFFFFFFFFFF) < 0x7FF0000000000000"
    using assms unfolding f64_is_finite_def word_less_nat_alt by simp
  then have "unat (and x 0x7FFFFFFFFFFFFFFF) div 2 ^ 52 < 2047"
    by (simp add: less_mult_imp_div_less)
  then have e: "e < 2047"
    by (simp only: e_def exponent_bits)
  have "and x 0xFFFFFFFFFFFFF = take_bit 52 x"
    by (simp add: take_bit_eq_mask mask_eq_exp_minus_1)
  then have "f = take_bit 52 (unat x)"
    by (simp only: f_def unsigned_take_bit_eq)
  then have f: "f < 2 ^ 52"
    by (simp only: take_bit_nat_less_exp)
  have "(2 ^ 52 + f) * 2 ^ (e - 1) < 2 ^ 53 * (2 ^ 2045 :: nat)"
    using e f by (intro mult_less_le_imp_less power_increasing) auto
  also have "\<dots> = 2 ^ 2098"
    by (simp flip: power_add)
  finally have "(2 ^ 52 + f) * 2 ^ (e - 1) < (2 ^ 2098 :: nat)" .
  moreover have "f < (2 ^ 2098 :: nat)"
    using f power_strict_increasing [of 52 2098 "2 :: nat"] by linarith
  ultimately show ?thesis
    by (simp add: f64_magnitude_def Let_def e_def [symmetric] f_def [symmetric])
qed

lemma minus_infinity_num: "f64_num 0xFFF0000000000000 = - (2 ^ 2098)"
proof -
  have "and (drop_bit 52 0xFFF0000000000000) 0x7FF = (0x7FF :: f64)" "and 0xFFF0000000000000 0xFFFFFFFFFFFFF = (0 :: f64)"
    "bit (0xFFF0000000000000 :: f64) 63"
    by code_simp+
  then have "f64_num 0xFFF0000000000000 = - int (2 ^ 52 * 2 ^ (2047 - 1))"
    by (simp only: f64_num_def f64_magnitude_def Let_def) simp
  also have "2 ^ 52 * 2 ^ (2047 - 1) = (2 ^ (52 + (2047 - 1)) :: nat)"
    by (rule power_add [symmetric])
  finally show ?thesis
    by (simp only: of_nat_power) simp
qed

lemma minus_infinity_least:
  assumes "f64_is_finite s"
  shows "f64_num 0xFFF0000000000000 < f64_num s"
proof -
  define B :: int where "B = 2 ^ 2098"
  have "int (f64_magnitude s) < int (2 ^ 2098)"
    using finite_magnitude [OF assms] by (simp only: of_nat_less_iff)
  then have "int (f64_magnitude s) < B"
    by (simp only: B_def of_nat_power of_nat_numeral)
  then have "- B < f64_num s"
    by (simp add: f64_num_def)
  then show ?thesis
    by (simp only: minus_infinity_num B_def)
qed

end
