(* ===== verification/Skip_List.thy ===== *)
theory Skip_List
  imports Float64 "HOL-Library.Monad_Syntax"
begin

text \<open>
  The skip list of the sorted sets (\<open>src/redis/data/skiplist.rs\<close>): an arena of nodes linked by
  indices at up to 32 levels, each link with the number of nodes it skips. Index 0 is the header.
  An operation is a value of type \<open>option\<close>: \<open>None\<close> stands for a panic (an index out of range, a
  freed slot) or a search loop that never ends. \<open>Skip_List_Laws\<close> shows that neither happens.
\<close>

section \<open>The arena\<close>

definition skiplist_maxlevel :: usize where
  "skiplist_maxlevel = 32"

record skip_list_level =
  forward :: "usize option"
  span :: usize

record skip_list_node =
  sl_member :: string
  sl_score :: f64
  levels :: "skip_list_level list"
  backward :: "usize option"

record skip_list =
  nodes :: "skip_list_node option list"
  free_slots :: "usize list"
  tail :: "usize option"
  sl_level :: usize
  sl_length :: usize
  rng_state :: u64

definition blank_level :: skip_list_level where
  "blank_level = \<lparr>forward = None, span = 0\<rparr>"

definition skiplist_new :: skip_list where
  "skiplist_new =
     \<lparr>nodes = [Some \<lparr>sl_member = [], sl_score = 0, levels = replicate skiplist_maxlevel blank_level,
                     backward = None\<rparr>],
      free_slots = [], tail = None, sl_level = 1, sl_length = 0, rng_state = 0x853c49e6748fea9b\<rparr>"

text \<open>\<open>nodes[x].as_ref().expect(..)\<close>, \<open>node.levels[i]\<close> and the assignments through \<open>as_mut()\<close>.\<close>

definition get_node :: "skip_list \<Rightarrow> usize \<Rightarrow> skip_list_node option" where
  "get_node sl x = (if x < length (nodes sl) then nodes sl ! x else None)"

definition get_level :: "skip_list \<Rightarrow> usize \<Rightarrow> nat \<Rightarrow> skip_list_level option" where
  "get_level sl x i =
     do {n \<leftarrow> get_node sl x; if i < length (levels n) then Some (levels n ! i) else None}"

definition put_node :: "usize \<Rightarrow> skip_list_node \<Rightarrow> skip_list \<Rightarrow> skip_list" where
  "put_node x n sl = sl\<lparr>nodes := (nodes sl)[x := Some n]\<rparr>"

definition set_level :: "usize \<Rightarrow> nat \<Rightarrow> skip_list_level \<Rightarrow> skip_list \<Rightarrow> skip_list option" where
  "set_level x i l sl =
     do {n \<leftarrow> get_node sl x;
         if i < length (levels n) then Some (put_node x (n\<lparr>levels := (levels n)[i := l]\<rparr>) sl) else None}"

definition set_backward :: "usize \<Rightarrow> usize option \<Rightarrow> skip_list \<Rightarrow> skip_list option" where
  "set_backward x b sl = do {n \<leftarrow> get_node sl x; Some (put_node x (n\<lparr>backward := b\<rparr>) sl)}"

text \<open>\<open>usize\<close> subtraction of a release build.\<close>

definition usize_sub :: "usize \<Rightarrow> usize \<Rightarrow> usize" where
  "usize_sub a b = (if b \<le> a then a - b else a + 2 ^ 64 - b)"

section \<open>Levels and slots\<close>

text \<open>
  The test \<open>(x & 0xFFFF) as f64 / 65536.0 >= 0.25\<close> divides an integer below \<open>2 ^ 16\<close> by \<open>2 ^ 16\<close>,
  which is exact, so it compares the integer with \<open>2 ^ 14\<close>.
\<close>

definition xorshift :: "u64 \<Rightarrow> u64" where
  "xorshift x0 =
     (let x1 = xor x0 (push_bit 13 x0); x2 = xor x1 (drop_bit 7 x1) in xor x2 (push_bit 17 x2))"

function draw_level :: "usize \<Rightarrow> u64 \<Rightarrow> usize \<times> u64" where
  "draw_level level x =
     (if level < skiplist_maxlevel
      then let x' = xorshift x
           in if and x' 0xFFFF \<ge> 16384 then (level, x') else draw_level (level + 1) x'
      else (level, x))"
  by auto

termination
  by (relation "measure (\<lambda>(level, _). skiplist_maxlevel - level)") auto

declare draw_level.simps [simp del]

definition random_level :: "skip_list \<Rightarrow> usize \<times> skip_list" where
  "random_level sl = (let (level, x) = draw_level 1 (rng_state sl) in (level, sl\<lparr>rng_state := x\<rparr>))"

definition alloc_node :: "string \<Rightarrow> f64 \<Rightarrow> usize \<Rightarrow> skip_list \<Rightarrow> (usize \<times> skip_list) option" where
  "alloc_node member score level sl =
     (let node = \<lparr>sl_member = member, sl_score = score, levels = replicate level blank_level,
                  backward = None\<rparr>
      in if free_slots sl \<noteq> []
         then let idx = last (free_slots sl)
              in if idx < length (nodes sl)
                 then Some (idx, put_node idx node (sl\<lparr>free_slots := butlast (free_slots sl)\<rparr>))
                 else None
         else Some (length (nodes sl), sl\<lparr>nodes := nodes sl @ [Some node]\<rparr>))"

definition free_node :: "usize \<Rightarrow> skip_list \<Rightarrow> skip_list option" where
  "free_node idx sl =
     (if idx < length (nodes sl)
      then Some (sl\<lparr>nodes := (nodes sl)[idx := None], free_slots := free_slots sl @ [idx]\<rparr>) else None)"

definition then_with :: "ordering \<Rightarrow> ordering \<Rightarrow> ordering" where
  "then_with c d = (if c = Equal then d else c)"

definition str_cmp :: "string \<Rightarrow> string \<Rightarrow> ordering" where
  "str_cmp a b = (if a < b then Less else if a = b then Equal else Greater)"

definition sl_compare :: "f64 \<Rightarrow> string \<Rightarrow> f64 \<Rightarrow> string \<Rightarrow> ordering" where
  "sl_compare score1 member1 score2 member2 =
     then_with (case f64_partial_cmp score1 score2 of Some c \<Rightarrow> c | None \<Rightarrow> Equal)
               (str_cmp member1 member2)"

section \<open>Search\<close>

text \<open>
  The inner loop of a search at level \<open>i\<close>: go forward from \<open>x\<close> while the next node is one to pass,
  adding up the spans. The test sees the next node and the rank it would lead to; only the tests
  that look at the node dereference it.
\<close>

type_synonym sl_test = "skip_list \<Rightarrow> usize \<Rightarrow> nat \<Rightarrow> bool option"

partial_function (option) sl_advance ::
  "skip_list \<Rightarrow> sl_test \<Rightarrow> nat \<Rightarrow> usize \<Rightarrow> nat \<Rightarrow> (usize \<times> nat) option" where
  [code]: "sl_advance sl pass i x r =
     do {l \<leftarrow> get_level sl x i;
         case forward l of
           None \<Rightarrow> Some (x, r)
         | Some fwd \<Rightarrow>
             do {go \<leftarrow> pass sl fwd (r + span l);
                 if go then sl_advance sl pass i fwd (r + span l) else Some (x, r)}}"

text \<open>The outer loop, from the top level down, with the arrays \<open>update\<close> and \<open>rank\<close>.\<close>

fun descend ::
  "skip_list \<Rightarrow> sl_test \<Rightarrow> nat \<Rightarrow> usize \<Rightarrow> nat \<Rightarrow> usize list \<Rightarrow> nat list \<Rightarrow>
   (usize \<times> nat \<times> usize list \<times> nat list) option" where
  "descend sl pass 0 x r update rank = Some (x, r, update, rank)"
| "descend sl pass (Suc i) x r update rank =
     do {(x', r') \<leftarrow> sl_advance sl pass i x r;
         descend sl pass i x' r' (update[i := x']) (rank[i := r'])}"

definition search :: "skip_list \<Rightarrow> sl_test \<Rightarrow> (usize \<times> nat \<times> usize list \<times> nat list) option" where
  "search sl pass =
     descend sl pass (sl_level sl) 0 0 (replicate skiplist_maxlevel 0) (replicate skiplist_maxlevel 0)"

text \<open>The four tests of the source.\<close>

definition pass_before :: "f64 \<Rightarrow> string \<Rightarrow> sl_test" where
  "pass_before score member sl fwd r =
     do {n \<leftarrow> get_node sl fwd; Some (sl_compare (sl_score n) (sl_member n) score member = Less)}"

definition pass_rank :: "f64 \<Rightarrow> string \<Rightarrow> sl_test" where
  "pass_rank score member sl fwd r =
     do {n \<leftarrow> get_node sl fwd;
         let c = sl_compare (sl_score n) (sl_member n) score member
         in Some (c = Less \<or> c = Equal \<and> sl_member n < member)}"

definition pass_member :: "string \<Rightarrow> sl_test" where
  "pass_member member sl fwd r =
     do {n \<leftarrow> get_node sl fwd;
         Some (sl_member n < member \<or>
               sl_member n = member \<and>
               sl_compare (sl_score n) (sl_member n) 0x7FF0000000000000 member = Less)}"

definition pass_count :: "usize \<Rightarrow> sl_test" where
  "pass_count start sl fwd r = Some (r \<le> start)"

section \<open>Insertion\<close>

text \<open>\<open>for i in self.level..level\<close>: new levels start at the header and span the whole list.\<close>

fun raise_levels ::
  "nat list \<Rightarrow> usize list \<Rightarrow> nat list \<Rightarrow> skip_list \<Rightarrow> (usize list \<times> nat list \<times> skip_list) option" where
  "raise_levels [] update rank sl = Some (update, rank, sl)"
| "raise_levels (i # is) update rank sl =
     do {l \<leftarrow> get_level sl 0 i;
         sl' \<leftarrow> set_level 0 i (l\<lparr>span := sl_length sl\<rparr>) sl;
         raise_levels is (update[i := 0]) (rank[i := 0]) sl'}"

text \<open>\<open>for i in 0..level\<close>: splice the new node in after \<open>update[i]\<close>.\<close>

fun splice_in ::
  "nat list \<Rightarrow> usize \<Rightarrow> usize list \<Rightarrow> nat list \<Rightarrow> skip_list \<Rightarrow> skip_list option" where
  "splice_in [] new_idx update rank sl = Some sl"
| "splice_in (i # is) new_idx update rank sl =
     do {old \<leftarrow> get_level sl (update ! i) i;
         sl1 \<leftarrow> set_level new_idx i
                 \<lparr>forward = forward old,
                  span = usize_sub (span old) (usize_sub (rank ! 0) (rank ! i))\<rparr> sl;
         sl2 \<leftarrow> set_level (update ! i) i
                 \<lparr>forward = Some new_idx, span = usize_sub (rank ! 0) (rank ! i) + 1\<rparr> sl1;
         splice_in is new_idx update rank sl2}"

text \<open>\<open>for i in level..self.level\<close>: the levels above the new node skip one node more.\<close>

fun widen_spans :: "nat list \<Rightarrow> usize list \<Rightarrow> skip_list \<Rightarrow> skip_list option" where
  "widen_spans [] update sl = Some sl"
| "widen_spans (i # is) update sl =
     do {l \<leftarrow> get_level sl (update ! i) i;
         sl' \<leftarrow> set_level (update ! i) i (l\<lparr>span := span l + 1\<rparr>) sl;
         widen_spans is update sl'}"

definition insert_internal ::
  "string \<Rightarrow> f64 \<Rightarrow> usize list \<Rightarrow> nat list \<Rightarrow> skip_list \<Rightarrow> skip_list option" where
  "insert_internal member score update0 rank0 sl0 =
     (let (level, sl1) = random_level sl0 in
      do {(new_idx, sl2) \<leftarrow> alloc_node member score level sl1;
          (update, rank, sl3) \<leftarrow>
            (if level > sl_level sl2
             then do {(u, r, s) \<leftarrow> raise_levels [sl_level sl2..<level] update0 rank0 sl2;
                      Some (u, r, s\<lparr>sl_level := level\<rparr>)}
             else Some (update0, rank0, sl2));
          sl4 \<leftarrow> splice_in [0..<level] new_idx update rank sl3;
          sl5 \<leftarrow> widen_spans [level..<sl_level sl4] update sl4;
          sl6 \<leftarrow> set_backward new_idx (if update ! 0 = 0 then None else Some (update ! 0)) sl5;
          l \<leftarrow> get_level sl6 new_idx 0;
          sl7 \<leftarrow> (case forward l of
                   Some fwd \<Rightarrow> set_backward fwd (Some new_idx) sl6
                 | None \<Rightarrow> Some (sl6\<lparr>tail := Some new_idx\<rparr>));
          Some (sl7\<lparr>sl_length := sl_length sl7 + 1\<rparr>)})"

section \<open>Deletion\<close>

text \<open>\<open>for i in 0..self.level\<close>: unlink the node, or skip one node less over it.\<close>

fun splice_out :: "nat list \<Rightarrow> usize \<Rightarrow> usize list \<Rightarrow> skip_list \<Rightarrow> skip_list option" where
  "splice_out [] idx update sl = Some sl"
| "splice_out (i # is) idx update sl =
     do {l \<leftarrow> get_level sl (update ! i) i;
         sl' \<leftarrow> (if forward l = Some idx
                 then do {k \<leftarrow> get_level sl idx i;
                          set_level (update ! i) i
                            \<lparr>forward = forward k, span = usize_sub (span l + span k) 1\<rparr> sl}
                 else set_level (update ! i) i (l\<lparr>span := usize_sub (span l) 1\<rparr>) sl);
         splice_out is idx update sl'}"

text \<open>\<open>while self.level > 1\<close>: drop the levels that only the header is left on.\<close>

fun trim_level :: "skip_list \<Rightarrow> usize \<Rightarrow> usize option" where
  "trim_level sl (Suc (Suc n)) =
     do {l \<leftarrow> get_level sl 0 (Suc n);
         if forward l \<noteq> None then Some (Suc (Suc n)) else trim_level sl (Suc n)}"
| "trim_level sl n = Some n"

definition delete_node :: "usize \<Rightarrow> usize list \<Rightarrow> skip_list \<Rightarrow> skip_list option" where
  "delete_node idx update sl0 =
     do {sl1 \<leftarrow> splice_out [0..<sl_level sl0] idx update sl0;
         l \<leftarrow> get_level sl1 idx 0;
         n \<leftarrow> get_node sl1 idx;
         sl2 \<leftarrow> (case forward l of
                  Some fwd \<Rightarrow> set_backward fwd (backward n) sl1
                | None \<Rightarrow> Some (sl1\<lparr>tail := backward n\<rparr>));
         level \<leftarrow> trim_level sl2 (sl_level sl2);
         sl3 \<leftarrow> free_node idx (sl2\<lparr>sl_level := level\<rparr>);
         Some (sl3\<lparr>sl_length := usize_sub (sl_length sl3) 1\<rparr>)}"

section \<open>The public operations\<close>

definition next_at_bottom :: "skip_list \<Rightarrow> usize \<Rightarrow> (usize \<times> skip_list_node) option option" where
  "next_at_bottom sl x =
     do {l \<leftarrow> get_level sl x 0;
         case forward l of
           None \<Rightarrow> Some None
         | Some fwd \<Rightarrow> do {n \<leftarrow> get_node sl fwd; Some (Some (fwd, n))}}"

definition skiplist_insert :: "string \<Rightarrow> f64 \<Rightarrow> skip_list \<Rightarrow> (skip_list \<times> bool) option" where
  "skiplist_insert member score sl =
     do {(x, _, update, rank) \<leftarrow> search sl (pass_before score member);
         candidate \<leftarrow> next_at_bottom sl x;
         case candidate of
           Some (fwd, n) \<Rightarrow>
             if sl_member n = member
             then if abs_diff_above_epsilon (sl_score n) score
                  then do {sl1 \<leftarrow> delete_node fwd update sl;
                           sl2 \<leftarrow> insert_internal member score update rank sl1;
                           Some (sl2, False)}
                  else Some (sl, False)
             else do {sl1 \<leftarrow> insert_internal member score update rank sl; Some (sl1, True)}
         | None \<Rightarrow> do {sl1 \<leftarrow> insert_internal member score update rank sl; Some (sl1, True)}}"

definition skiplist_remove :: "string \<Rightarrow> skip_list \<Rightarrow> (skip_list \<times> f64 option) option" where
  "skiplist_remove member sl =
     do {(x, _, update, _) \<leftarrow> search sl (pass_member member);
         candidate \<leftarrow> next_at_bottom sl x;
         case candidate of
           Some (fwd, n) \<Rightarrow>
             if sl_member n = member
             then do {sl' \<leftarrow> delete_node fwd update sl; Some (sl', Some (sl_score n))}
             else Some (sl, None)
         | None \<Rightarrow> Some (sl, None)}"

definition remove_with_score :: "string \<Rightarrow> f64 \<Rightarrow> skip_list \<Rightarrow> (skip_list \<times> bool) option" where
  "remove_with_score member score sl =
     do {(x, _, update, _) \<leftarrow> search sl (pass_before score member);
         candidate \<leftarrow> next_at_bottom sl x;
         case candidate of
           Some (fwd, n) \<Rightarrow>
             if sl_member n = member \<and> abs_diff_below_epsilon (sl_score n) score
             then do {sl' \<leftarrow> delete_node fwd update sl; Some (sl', True)}
             else Some (sl, False)
         | None \<Rightarrow> Some (sl, False)}"

definition skiplist_rank :: "string \<Rightarrow> f64 \<Rightarrow> skip_list \<Rightarrow> nat option option" where
  "skiplist_rank member score sl =
     do {(x, rank, _) \<leftarrow> search sl (pass_rank score member);
         candidate \<leftarrow> next_at_bottom sl x;
         Some (case candidate of
                 Some (fwd, n) \<Rightarrow>
                   if sl_member n = member \<and> abs_diff_below_epsilon (sl_score n) score
                   then Some rank else None
               | None \<Rightarrow> None)}"

definition get_by_rank :: "usize \<Rightarrow> skip_list \<Rightarrow> (string \<times> f64) option option" where
  "get_by_rank rank sl =
     (if rank \<ge> sl_length sl then Some None
      else do {(x, _) \<leftarrow> search sl (pass_count rank);
               candidate \<leftarrow> next_at_bottom sl x;
               Some (map_option (\<lambda>(_, n). (sl_member n, sl_score n)) candidate)})"

text \<open>\<open>for _ in start..=end\<close>: at most \<open>k\<close> elements from \<open>current\<close> on.\<close>

fun collect :: "skip_list \<Rightarrow> nat \<Rightarrow> usize option \<Rightarrow> (string \<times> f64) list option" where
  "collect sl 0 current = Some []"
| "collect sl (Suc k) None = Some []"
| "collect sl (Suc k) (Some idx) =
     do {n \<leftarrow> get_node sl idx;
         l \<leftarrow> get_level sl idx 0;
         rest \<leftarrow> collect sl k (forward l);
         Some ((sl_member n, sl_score n) # rest)}"

definition skiplist_range :: "usize \<Rightarrow> usize \<Rightarrow> skip_list \<Rightarrow> (string \<times> f64) list option" where
  "skiplist_range start end0 sl =
     (if start > end0 \<or> start \<ge> sl_length sl then Some []
      else let end1 = min end0 (sl_length sl - 1)
           in do {(x, _) \<leftarrow> search sl (pass_count start);
                  l \<leftarrow> get_level sl x 0;
                  collect sl (end1 + 1 - start) (forward l)})"

definition skiplist_rev_range :: "usize \<Rightarrow> usize \<Rightarrow> skip_list \<Rightarrow> (string \<times> f64) list option" where
  "skiplist_rev_range start end0 sl =
     (if start > end0 \<or> start \<ge> sl_length sl then Some []
      else let end1 = min end0 (sl_length sl - 1)
           in map_option rev (skiplist_range (sl_length sl - 1 - end1) (sl_length sl - 1 - start) sl))"

definition skiplist_is_empty :: "skip_list \<Rightarrow> bool" where
  "skiplist_is_empty sl \<longleftrightarrow> sl_length sl = 0"

text \<open>\<open>iter()\<close> and \<open>SkipListIter::next\<close>, run to the end.\<close>

partial_function (option) iterate :: "skip_list \<Rightarrow> usize option \<Rightarrow> (string \<times> f64) list option" where
  [code]: "iterate sl current =
     (case current of
        None \<Rightarrow> Some []
      | Some idx \<Rightarrow>
          do {n \<leftarrow> get_node sl idx;
              l \<leftarrow> get_level sl idx 0;
              rest \<leftarrow> iterate sl (forward l);
              Some ((sl_member n, sl_score n) # rest)})"

definition skiplist_iter :: "skip_list \<Rightarrow> (string \<times> f64) list option" where
  "skiplist_iter sl = do {l \<leftarrow> get_level sl 0 0; iterate sl (forward l)}"

end
