(* ===== verification/Collections.thy ===== *)
theory Collections
  imports Skip_List
begin

text \<open>
  The value types of the store (\<open>src/redis/data/\<close>): lists, sets and hashes with their operations,
  the data of sorted sets, and the union \<open>Value\<close>. Strings are byte strings (\<open>Sds\<close> shows why).
  A hash table yields its entries in an order of its own: \<open>it\<close> is that order, an argument of the
  operations that iterate, and \<open>enumerates it\<close> says that it lists every entry once.
\<close>

section \<open>Iteration order\<close>

type_synonym order = "string fset \<Rightarrow> string list"

definition enumerates :: "('a fset \<Rightarrow> 'a list) \<Rightarrow> bool" where
  "enumerates it \<longleftrightarrow> (\<forall>S. distinct (it S) \<and> set (it S) = fset S)"

lemma enumerates_set [simp]: "enumerates it \<Longrightarrow> set (it S) = fset S"
  by (simp add: enumerates_def)

lemma enumerates_distinct [simp]: "enumerates it \<Longrightarrow> distinct (it S)"
  by (simp add: enumerates_def)

lemma enumerates_length [simp]: "enumerates it \<Longrightarrow> length (it S) = fcard S"
  by (metis distinct_card enumerates_distinct enumerates_set fcard.rep_eq)

lemma enumerates_sorted: "enumerates sorted_list_of_fset"
  by (simp add: enumerates_def sorted_list_of_fset.rep_eq)

lemma enumerates_ne: "enumerates it \<Longrightarrow> it S = [] \<longleftrightarrow> S = {||}"
  by (metis enumerates_set bot_fset.rep_eq empty_set fset_inject set_empty)

section \<open>\<open>RedisList\<close>\<close>

type_synonym redis_list = "bytes list"

definition list_lpush :: "redis_list \<Rightarrow> bytes \<Rightarrow> redis_list" where
  "list_lpush l v = v # l"

definition list_rpush :: "redis_list \<Rightarrow> bytes \<Rightarrow> redis_list" where
  "list_rpush l v = l @ [v]"

definition list_lpop :: "redis_list \<Rightarrow> redis_list \<times> bytes option" where
  "list_lpop l = (case l of [] \<Rightarrow> ([], None) | x # xs \<Rightarrow> (xs, Some x))"

definition list_rpop :: "redis_list \<Rightarrow> redis_list \<times> bytes option" where
  "list_rpop l = (if l = [] then ([], None) else (butlast l, Some (last l)))"

definition list_len :: "redis_list \<Rightarrow> usize" where
  "list_len l = length l"

definition list_is_empty :: "redis_list \<Rightarrow> bool" where
  "list_is_empty l \<longleftrightarrow> l = []"

text \<open>The clamping of a start and a stop index that \<open>range\<close> and \<open>trim\<close> have in common.\<close>

definition norm_start :: "isize \<Rightarrow> isize \<Rightarrow> isize" where
  "norm_start len start = (if start < 0 then max (len + start) 0 else min start len)"

definition norm_stop :: "isize \<Rightarrow> isize \<Rightarrow> isize" where
  "norm_stop len stop = (if stop < 0 then max (len + stop) (- 1) else min stop (len - 1))"

definition list_range :: "redis_list \<Rightarrow> isize \<Rightarrow> isize \<Rightarrow> bytes list" where
  "list_range l start stop =
     (let len = int (length l); s = norm_start len start; e = norm_stop len stop
      in if s > e \<or> s \<ge> len then [] else take (nat (e - s + 1)) (drop (nat s) l))"

definition list_get :: "redis_list \<Rightarrow> isize \<Rightarrow> bytes option" where
  "list_get l index =
     (let len = int (length l); idx = (if index < 0 then len + index else index)
      in if idx < 0 \<or> idx \<ge> len then None else Some (l ! nat idx))"

definition list_set :: "redis_list \<Rightarrow> isize \<Rightarrow> bytes \<Rightarrow> string + redis_list" where
  "list_set l index v =
     (let len = int (length l); idx = (if index < 0 then len + index else index)
      in if idx < 0 \<or> idx \<ge> len then Inl ''ERR index out of range'' else Inr (l[nat idx := v]))"

definition list_trim :: "redis_list \<Rightarrow> isize \<Rightarrow> isize \<Rightarrow> redis_list" where
  "list_trim l start stop =
     (let len = int (length l); s = norm_start len start; e = norm_stop len stop
      in if len = 0 then l
         else if s > e \<or> s \<ge> len then []
         else take (nat (e - s + 1)) (drop (nat s) l))"

lemma list_trim_range: "list_trim l start stop = list_range l start stop"
  by (simp add: list_trim_def list_range_def Let_def)

text \<open>
  The reference meaning of a range: position \<open>i\<close> is selected when it lies between the two ends,
  where a negative end counts from the back. No clamping is needed to say so.
\<close>

definition from_back :: "nat \<Rightarrow> isize \<Rightarrow> isize" where
  "from_back len i = (if i < 0 then int len + i else i)"

definition in_range :: "nat \<Rightarrow> isize \<Rightarrow> isize \<Rightarrow> nat \<Rightarrow> bool" where
  "in_range len start stop i \<longleftrightarrow> from_back len start \<le> int i \<and> int i \<le> from_back len stop"

lemma filter_interval: "filter (\<lambda>i. a \<le> int i \<and> int i \<le> b) [0..<n] = [nat a..<min n (nat (b + 1))]"
proof (induction n)
  case (Suc n)
  then show ?case
    by (auto simp: min_def upt_rec [of _ "Suc _"] le_less_Suc_eq) (metis le_antisym not_less_eq_eq)
qed simp

lemma map_nth_upt: "j \<le> length l \<Longrightarrow> map (\<lambda>i. l ! i) [i..<j] = take (j - i) (drop i l)"
  by (rule nth_equalityI) auto

lemma clamped_slice:
  assumes "len = int (length l)" "s = norm_start len start" "e = norm_stop len stop"
  shows "(if s > e \<or> s \<ge> len then [] else take (nat (e - s + 1)) (drop (nat s) l)) =
     map (\<lambda>i. l ! i) (filter (in_range (length l) start stop) [0..<length l])"
proof -
  let ?a = "from_back (length l) start" and ?b = "from_back (length l) stop"
  have "map (\<lambda>i. l ! i) (filter (in_range (length l) start stop) [0..<length l])
      = take (min (length l) (nat (?b + 1)) - nat ?a) (drop (nat ?a) l)"
    unfolding in_range_def filter_interval by (rule map_nth_upt) simp
  also have "\<dots> = (if s > e \<or> s \<ge> len then [] else take (nat (e - s + 1)) (drop (nat s) l))"
    unfolding assms
    by (auto simp: norm_start_def norm_stop_def from_back_def max_def min_def
        intro!: arg_cong2 [where f = take]) (simp flip: length_0_conv)
  finally show ?thesis by simp
qed

lemma list_range_spec:
  "list_range l start stop =
     map (\<lambda>i. l ! i) (filter (in_range (length l) start stop) [0..<length l])"
  unfolding list_range_def Let_def by (rule clamped_slice [OF refl refl refl])

section \<open>\<open>RedisSet\<close>\<close>

type_synonym redis_set = "string fset"

definition set_add :: "redis_set \<Rightarrow> bytes \<Rightarrow> redis_set \<times> bool" where
  "set_add s member = (let m = utf8_lossy member in (finsert m s, m |\<notin>| s))"

definition set_remove :: "redis_set \<Rightarrow> bytes \<Rightarrow> redis_set \<times> bool" where
  "set_remove s member = (let m = utf8_lossy member in (s |-| {|m|}, m |\<in>| s))"

definition set_contains :: "redis_set \<Rightarrow> bytes \<Rightarrow> bool" where
  "set_contains s member \<longleftrightarrow> utf8_lossy member |\<in>| s"

definition set_members :: "order \<Rightarrow> redis_set \<Rightarrow> bytes list" where
  "set_members it s = it s"

definition set_len :: "redis_set \<Rightarrow> usize" where
  "set_len s = fcard s"

definition set_is_empty :: "redis_set \<Rightarrow> bool" where
  "set_is_empty s \<longleftrightarrow> s = {||}"

definition set_pop :: "order \<Rightarrow> redis_set \<Rightarrow> redis_set \<times> bytes option" where
  "set_pop it s = (case it s of [] \<Rightarrow> (s, None) | m # _ \<Rightarrow> (s |-| {|m|}, Some m))"

text \<open>\<open>pop_count\<close>: the body of its loop, run \<open>count.min(len)\<close> times.\<close>

primrec pop_loop :: "order \<Rightarrow> nat \<Rightarrow> redis_set \<Rightarrow> bytes list \<Rightarrow> redis_set \<times> bytes list" where
  "pop_loop it 0 s result = (s, result)"
| "pop_loop it (Suc n) s result =
     (case it s of
        m # _ \<Rightarrow> pop_loop it n (s |-| {|m|}) (result @ [m])
      | [] \<Rightarrow> pop_loop it n s result)"

definition set_pop_count :: "order \<Rightarrow> redis_set \<Rightarrow> usize \<Rightarrow> redis_set \<times> bytes list" where
  "set_pop_count it s count = pop_loop it (min count (set_len s)) s []"

lemma pop_loop_spec:
  assumes "enumerates it" "n \<le> fcard s" "pop_loop it n s acc = (s', r)"
  shows "\<exists>r'. r = acc @ r' \<and> length r' = n \<and> distinct r' \<and> set r' \<subseteq> fset s \<and> s' = s |-| fset_of_list r'"
  using assms(2,3)
proof (induction n arbitrary: s acc)
  case (Suc n)
  have "s \<noteq> {||}" using Suc.prems(1) by (auto simp: fcard.rep_eq)
  then obtain m ms where m: "it s = m # ms"
    using assms(1) enumerates_ne [of it s] by (cases "it s") auto
  then have "m |\<in>| s" using enumerates_set [OF assms(1), of s] by auto
  then have "n \<le> fcard (s |-| {|m|})"
    using Suc.prems(1) by (simp add: fcard_fminus_fsingleton)
  moreover have "pop_loop it n (s |-| {|m|}) (acc @ [m]) = (s', r)" using Suc.prems(2) m by simp
  ultimately obtain r' where "r = (acc @ [m]) @ r'" "length r' = n" "distinct r'"
    "set r' \<subseteq> fset (s |-| {|m|})" "s' = s |-| {|m|} |-| fset_of_list r'"
    using Suc.IH by blast
  with \<open>m |\<in>| s\<close> show ?case
    by (intro exI [of _ "m # r'"]) auto
qed auto

section \<open>\<open>RedisHash\<close>\<close>

type_synonym redis_hash = "(string, bytes) fmap"

definition hash_set :: "redis_hash \<Rightarrow> bytes \<Rightarrow> bytes \<Rightarrow> redis_hash" where
  "hash_set h field v = fmupd (utf8_lossy field) v h"

definition hash_get :: "redis_hash \<Rightarrow> bytes \<Rightarrow> bytes option" where
  "hash_get h field = fmlookup h (utf8_lossy field)"

definition hash_delete :: "redis_hash \<Rightarrow> bytes \<Rightarrow> redis_hash \<times> bool" where
  "hash_delete h field =
     (let f = utf8_lossy field in (fmdrop f h, fmlookup h f \<noteq> None))"

definition hash_exists :: "redis_hash \<Rightarrow> bytes \<Rightarrow> bool" where
  "hash_exists h field \<longleftrightarrow> utf8_lossy field |\<in>| fmdom h"

definition hash_len :: "redis_hash \<Rightarrow> usize" where
  "hash_len h = fcard (fmdom h)"

definition hash_is_empty :: "redis_hash \<Rightarrow> bool" where
  "hash_is_empty h \<longleftrightarrow> h = fmempty"

definition hash_get_all :: "order \<Rightarrow> redis_hash \<Rightarrow> (bytes \<times> bytes) list" where
  "hash_get_all it h = concat (map (\<lambda>k. case fmlookup h k of Some v \<Rightarrow> [(k, v)] | None \<Rightarrow> []) (it (fmdom h)))"

definition hash_keys :: "order \<Rightarrow> redis_hash \<Rightarrow> bytes list" where
  "hash_keys it h = it (fmdom h)"

definition hash_values :: "order \<Rightarrow> redis_hash \<Rightarrow> bytes list" where
  "hash_values it h = map snd (hash_get_all it h)"

lemma hash_get_all_map_of:
  assumes "enumerates it"
  shows "map_of (hash_get_all it h) = fmlookup h"
proof -
  have "map_of (concat (map (\<lambda>k. case fmlookup h k of Some v \<Rightarrow> [(k, v)] | None \<Rightarrow> []) ks)) k
      = (if k \<in> set ks then fmlookup h k else None)" for ks k
    by (induction ks) (auto simp: map_add_def split: option.splits)
  then show ?thesis
    using assms by (auto simp: hash_get_all_def fun_eq_iff fmlookup_dom_iff)
qed

section \<open>Sorted sets and values\<close>

text \<open>
  A sorted set keeps the score of every member in a map and the members in score order in a skip
  list; its operations are in the theory \<open>Sorted_Set\<close>.
\<close>

record redis_sorted_set =
  zset_members :: "(string, f64) fmap"
  zset_skiplist :: skip_list

definition zset_len :: "redis_sorted_set \<Rightarrow> usize" where
  "zset_len z = fcard (fmdom (zset_members z))"

datatype redis_value =
    String bytes
  | List redis_list
  | Set redis_set
  | Hash redis_hash
  | SortedSet redis_sorted_set
  | Null

end
