(* ===== verification/Executor_Core.thy ===== *)
theory Executor_Core
  imports Command Collections Resp
begin

text \<open>
  The state of \<open>CommandExecutor\<close> (\<open>src/redis/executor/mod.rs\<close>) and the parts every command uses:
  expiry, lookup, eviction, the invariants and the fast paths. A method of the executor is a
  function that returns the new state and the reply. The \<open>live\<close> view is the specification of the
  store: the keys that exist at the current time, each with its value and expiry; keys whose time
  has passed may linger in the maps and are not part of it.
\<close>

section \<open>State\<close>

type_synonym virtual_time = u64

record executor =
  data :: "(string, redis_value) fmap"
  expirations :: "(string, virtual_time) fmap"
  current_time :: virtual_time
  commands_processed :: usize
  simulation_start_epoch :: i64
  simulation_start_epoch_ms :: i64
  in_transaction :: bool
  queued_commands :: "data_command list"
  watched_keys :: "(string, redis_value option) fmap"

type_synonym reply = "executor \<times> resp_value"

abbreviation WRONGTYPE :: resp_value where
  "WRONGTYPE \<equiv> err ''WRONGTYPE Operation against a key holding the wrong kind of value''"

abbreviation bulk :: "bytes \<Rightarrow> resp_value" where
  "bulk b \<equiv> BulkString (Some b)"

abbreviation int_of_bool :: "bool \<Rightarrow> i64" where
  "int_of_bool b \<equiv> (if b then 1 else 0)"

definition exec_new :: executor where
  "exec_new =
     \<lparr>data = fmempty, expirations = fmempty, current_time = 0, commands_processed = 0,
      simulation_start_epoch = 0, simulation_start_epoch_ms = 0, in_transaction = False,
      queued_commands = [], watched_keys = fmempty\<rparr>"

definition set_simulation_start_epoch :: "i64 \<Rightarrow> executor \<Rightarrow> executor" where
  "set_simulation_start_epoch epoch s =
     (let s' = s\<lparr>simulation_start_epoch := epoch\<rparr>
      in if simulation_start_epoch_ms s' = 0
         then s'\<lparr>simulation_start_epoch_ms := wrap_i64 (epoch * 1000)\<rparr> else s')"

definition set_simulation_start_epoch_ms :: "i64 \<Rightarrow> executor \<Rightarrow> executor" where
  "set_simulation_start_epoch_ms epoch_ms s = s\<lparr>simulation_start_epoch_ms := epoch_ms\<rparr>"

definition update_time_readonly :: "virtual_time \<Rightarrow> executor \<Rightarrow> executor" where
  "update_time_readonly t s = s\<lparr>current_time := t\<rparr>"

definition is_expired :: "executor \<Rightarrow> string \<Rightarrow> bool" where
  "is_expired s key =
     (case fmlookup (expirations s) key of Some t \<Rightarrow> t \<le> current_time s | None \<Rightarrow> False)"

definition contains_key :: "executor \<Rightarrow> string \<Rightarrow> bool" where
  "contains_key s key \<longleftrightarrow> key |\<in>| fmdom (data s)"

text \<open>The statements on the two maps that the commands are made of.\<close>

definition insert_data :: "string \<Rightarrow> redis_value \<Rightarrow> executor \<Rightarrow> executor" where
  "insert_data key v s = s\<lparr>data := fmupd key v (data s)\<rparr>"

definition insert_expiry :: "string \<Rightarrow> virtual_time \<Rightarrow> executor \<Rightarrow> executor" where
  "insert_expiry key t s = s\<lparr>expirations := fmupd key t (expirations s)\<rparr>"

definition remove_expiry :: "string \<Rightarrow> executor \<Rightarrow> executor" where
  "remove_expiry key s = s\<lparr>expirations := fmdrop key (expirations s)\<rparr>"

definition remove_key :: "string \<Rightarrow> executor \<Rightarrow> executor" where
  "remove_key key s =
     s\<lparr>data := fmdrop key (data s), expirations := fmdrop key (expirations s)\<rparr>"

definition purge_if_expired :: "string \<Rightarrow> executor \<Rightarrow> executor" where
  "purge_if_expired key s = (if is_expired s key then remove_key key s else s)"

section \<open>Lookup, eviction and the fast paths\<close>

definition get_value :: "string \<Rightarrow> executor \<Rightarrow> executor \<times> redis_value option" where
  "get_value key s =
     (if is_expired s key then (remove_key key s, None) else (s, fmlookup (data s) key))"

definition evict_expired_keys :: "executor \<Rightarrow> executor" where
  "evict_expired_keys s =
     (let expired = ffilter (is_expired s) (fmdom (expirations s))
      in s\<lparr>expirations := fmfilter (\<lambda>k. k |\<notin>| expired) (expirations s),
           data := fmdrop_fset expired (data s)\<rparr>)"

definition set_time :: "virtual_time \<Rightarrow> executor \<Rightarrow> executor" where
  "set_time t s = evict_expired_keys (s\<lparr>current_time := t\<rparr>)"

definition evict_expired_direct :: "virtual_time \<Rightarrow> executor \<Rightarrow> executor \<times> usize" where
  "evict_expired_direct t s =
     (let s' = s\<lparr>current_time := t\<rparr>;
          expired = ffilter (is_expired s') (fmdom (expirations s'))
      in (s'\<lparr>expirations := fmfilter (\<lambda>k. k |\<notin>| expired) (expirations s'),
             data := fmdrop_fset expired (data s')\<rparr>, fcard expired))"

definition get_direct :: "string \<Rightarrow> executor \<Rightarrow> reply" where
  "get_direct key s =
     (let (s', v) = get_value key (s\<lparr>commands_processed := commands_processed s + 1\<rparr>)
      in (s', case v of Some (String b) \<Rightarrow> bulk b | Some _ \<Rightarrow> WRONGTYPE | None \<Rightarrow> nil))"

definition set_direct :: "string \<Rightarrow> bytes \<Rightarrow> executor \<Rightarrow> reply" where
  "set_direct key b s =
     (remove_expiry key (insert_data key (String b)
        (s\<lparr>commands_processed := commands_processed s + 1\<rparr>)), ok)"

section \<open>Invariants\<close>

fun value_nonempty :: "redis_value \<Rightarrow> bool" where
  "value_nonempty (List l) \<longleftrightarrow> \<not> list_is_empty l"
| "value_nonempty (Set s) \<longleftrightarrow> \<not> set_is_empty s"
| "value_nonempty (Hash h) \<longleftrightarrow> \<not> hash_is_empty h"
| "value_nonempty (SortedSet z) \<longleftrightarrow> zset_len z > 0"
| "value_nonempty _ \<longleftrightarrow> True"

definition exec_verify_invariants :: "executor \<Rightarrow> bool" where
  "exec_verify_invariants s \<longleftrightarrow>
     fmpred (\<lambda>k t. contains_key s k) (expirations s) \<and>
     fmpred (\<lambda>k t. t > current_time s) (expirations s) \<and>
     fmpred (\<lambda>k v. value_nonempty v) (data s)"

text \<open>
  Between evictions the second of these need not hold; the other two do, and they are the
  invariant of every command.
\<close>

definition exec_inv :: "executor \<Rightarrow> bool" where
  "exec_inv s \<longleftrightarrow>
     (\<forall>k t. fmlookup (expirations s) k = Some t \<longrightarrow> fmlookup (data s) k \<noteq> None) \<and>
     (\<forall>k v. fmlookup (data s) k = Some v \<longrightarrow> value_nonempty v)"

text \<open>The part of it that also holds when a sorted set is empty, as \<open>ZADD\<close> may leave it.\<close>

definition deadlines_ok :: "executor \<Rightarrow> bool" where
  "deadlines_ok s \<longleftrightarrow> (\<forall>k t. fmlookup (expirations s) k = Some t \<longrightarrow> fmlookup (data s) k \<noteq> None)"

lemma exec_inv_deadlines: "exec_inv s \<Longrightarrow> deadlines_ok s"
  by (simp add: exec_inv_def deadlines_ok_def)

section \<open>The live view\<close>

type_synonym entry = "redis_value \<times> virtual_time option"

definition live :: "executor \<Rightarrow> string \<rightharpoonup> entry" where
  "live s key =
     (if is_expired s key then None
      else map_option (\<lambda>v. (v, fmlookup (expirations s) key)) (fmlookup (data s) key))"

definition visible :: "executor \<Rightarrow> string \<rightharpoonup> redis_value" where
  "visible s key = map_option fst (live s key)"

lemma insert_data_twice [simp]: "insert_data key v (insert_data key w s) = insert_data key v s"
  by (simp add: insert_data_def fmap_eq_iff)

lemma is_expired_upd [simp]:
  "is_expired (s\<lparr>commands_processed := n\<rparr>) = is_expired s"
  "is_expired (s\<lparr>data := d\<rparr>) = is_expired s"
  "is_expired (s\<lparr>in_transaction := b\<rparr>) = is_expired s"
  "is_expired (s\<lparr>queued_commands := q\<rparr>) = is_expired s"
  "is_expired (s\<lparr>watched_keys := w\<rparr>) = is_expired s"
  "is_expired (insert_data key v s) = is_expired s"
  by (simp_all add: is_expired_def fun_eq_iff insert_data_def cong: option.case_cong)

lemma is_expired_remove [simp]:
  "is_expired (remove_key key s) k \<longleftrightarrow> k \<noteq> key \<and> is_expired s k"
  "is_expired (remove_expiry key s) k \<longleftrightarrow> k \<noteq> key \<and> is_expired s k"
  "is_expired (purge_if_expired key s) k \<longleftrightarrow> k \<noteq> key \<and> is_expired s k"
  by (auto simp: is_expired_def remove_key_def remove_expiry_def purge_if_expired_def
      split: option.splits)

lemma is_expired_insert [simp]:
  "is_expired (insert_expiry key t s) k \<longleftrightarrow> (if k = key then t \<le> current_time s else is_expired s k)"
  by (simp add: is_expired_def insert_expiry_def cong: option.case_cong)

lemma live_upd [simp]:
  "live (s\<lparr>commands_processed := n\<rparr>) = live s"
  "live (s\<lparr>in_transaction := b\<rparr>) = live s"
  "live (s\<lparr>queued_commands := q\<rparr>) = live s"
  "live (s\<lparr>watched_keys := w\<rparr>) = live s"
  by (simp_all add: live_def fun_eq_iff)

lemma live_remove_key [simp]: "live (remove_key key s) = (live s)(key := None)"
  by (auto simp: live_def fun_eq_iff) (auto simp: remove_key_def)

lemma live_purge [simp]: "live (purge_if_expired key s) = live s"
proof (cases "is_expired s key")
  case True
  then have "live s key = None" by (simp add: live_def)
  with True show ?thesis by (simp add: purge_if_expired_def fun_upd_idem)
qed (simp add: purge_if_expired_def)

lemma live_remove_expiry [simp]:
  "live (remove_expiry key s) =
     (live s)(key := map_option (\<lambda>v. (v, None)) (fmlookup (data s) key))"
  by (auto simp: live_def fun_eq_iff) (auto simp: remove_expiry_def)

lemma live_insert_expiry [simp]:
  "live (insert_expiry key t s) = (live s)(key :=
     (if t \<le> current_time s then None else map_option (\<lambda>v. (v, Some t)) (fmlookup (data s) key)))"
  by (auto simp: live_def fun_eq_iff) (auto simp: insert_expiry_def)

lemma live_insert_data:
  "live (insert_data key v s) = (live s)(key :=
     (if is_expired s key then None else Some (v, fmlookup (expirations s) key)))"
  by (auto simp: live_def fun_eq_iff) (auto simp: insert_data_def)

text \<open>\<open>get_value\<close> drops the key if its time has passed, which the live view does not show.\<close>

lemma get_value_eq:
  "get_value key s = (purge_if_expired key s, visible s key)"
  by (cases "fmlookup (data s) key")
    (simp_all add: get_value_def purge_if_expired_def visible_def live_def)

lemma live_at:
  "\<not> is_expired s key \<Longrightarrow>
     live s key = map_option (\<lambda>v. (v, fmlookup (expirations s) key)) (fmlookup (data s) key)"
  by (simp add: live_def)

lemma purge_at [simp]:
  "fmlookup (data (purge_if_expired key s)) key = visible s key"
  by (cases "fmlookup (data s) key")
    (auto simp: purge_if_expired_def visible_def live_def remove_key_def)

lemma purge_expiry_at:
  "exec_inv s \<Longrightarrow>
     fmlookup (expirations (purge_if_expired key s)) key = Option.bind (live s key) snd"
  by (cases "fmlookup (data s) key"; cases "fmlookup (expirations s) key")
    (auto simp: purge_if_expired_def exec_inv_def live_def remove_key_def is_expired_def)

lemma visible_upd [simp]:
  "visible (s\<lparr>commands_processed := n\<rparr>) = visible s"
  "visible (purge_if_expired key s) = visible s"
  by (simp_all add: visible_def fun_eq_iff)

lemma live_put:
  "exec_inv s \<Longrightarrow> live (insert_data key v (purge_if_expired key s)) =
     (live s)(key \<mapsto> (v, Option.bind (live s key) snd))"
  by (simp add: live_insert_data purge_expiry_at)

lemma data_insert_data [simp]: "fmlookup (data (insert_data key v s)) k = (if k = key then Some v else fmlookup (data s) k)"
  by (simp add: insert_data_def)

lemma live_store [simp]:
  "live (remove_expiry key (insert_data key v s)) = (live s)(key \<mapsto> (v, None))"
  by (auto simp: live_insert_data)

lemma key_exists: "\<not> is_expired s key \<and> contains_key s key \<longleftrightarrow> visible s key \<noteq> None"
  by (auto simp: contains_key_def visible_def live_def fmlookup_dom_iff)

section \<open>What a command may touch\<close>

text \<open>
  \<open>env\<close> is the rest of the state. \<open>tidy K s s'\<close> says of a step from \<open>s\<close> to \<open>s'\<close> that it keeps deadlines
  to keys of the store, changes the live view at the keys of \<open>K\<close> only, and leaves the rest alone;
  \<open>touches K s s'\<close> says moreover that it keeps the invariant of the store. The rules below follow the
  statements the commands are made of.
\<close>

definition env where
  "env s = (current_time s, commands_processed s, simulation_start_epoch s,
     simulation_start_epoch_ms s, in_transaction s, queued_commands s, watched_keys s)"

definition tidy :: "string set \<Rightarrow> executor \<Rightarrow> executor \<Rightarrow> bool" where
  "tidy K s s' \<longleftrightarrow>
     (deadlines_ok s \<longrightarrow> deadlines_ok s') \<and> (\<forall>k. k \<notin> K \<longrightarrow> live s' k = live s k) \<and> env s' = env s"

definition touches :: "string set \<Rightarrow> executor \<Rightarrow> executor \<Rightarrow> bool" where
  "touches K s s' \<longleftrightarrow> (exec_inv s \<longrightarrow> exec_inv s') \<and> tidy K s s'"

named_theorems touch "introduction rules for touches"

lemma env_simps [simp]:
  "env (insert_data key v s) = env s"
  "env (insert_expiry key t s) = env s"
  "env (remove_expiry key s) = env s"
  "env (remove_key key s) = env s"
  "env (purge_if_expired key s) = env s"
  by (simp_all add: env_def insert_data_def insert_expiry_def remove_expiry_def remove_key_def
      purge_if_expired_def)

lemma exec_inv_remove_key: "exec_inv s \<Longrightarrow> exec_inv (remove_key key s)"
  by (auto simp: exec_inv_def remove_key_def)

lemma exec_inv_purge: "exec_inv s \<Longrightarrow> exec_inv (purge_if_expired key s)"
  by (simp add: purge_if_expired_def exec_inv_remove_key)

lemma exec_inv_insert_data:
  "exec_inv s \<Longrightarrow> value_nonempty v \<Longrightarrow> exec_inv (insert_data key v s)"
  by (auto simp: exec_inv_def insert_data_def)

lemma exec_inv_remove_expiry: "exec_inv s \<Longrightarrow> exec_inv (remove_expiry key s)"
  by (auto simp: exec_inv_def remove_expiry_def)

lemma exec_inv_insert_expiry:
  "exec_inv s \<Longrightarrow> fmlookup (data s) key \<noteq> None \<Longrightarrow> exec_inv (insert_expiry key t s)"
  by (auto simp: exec_inv_def insert_expiry_def)

lemma deadlines_remove_key: "deadlines_ok s \<Longrightarrow> deadlines_ok (remove_key key s)"
  by (auto simp: deadlines_ok_def remove_key_def)

lemma deadlines_purge: "deadlines_ok s \<Longrightarrow> deadlines_ok (purge_if_expired key s)"
  by (simp add: purge_if_expired_def deadlines_remove_key)

lemma deadlines_insert_data: "deadlines_ok s \<Longrightarrow> deadlines_ok (insert_data key v s)"
  by (auto simp: deadlines_ok_def insert_data_def)

lemma deadlines_remove_expiry: "deadlines_ok s \<Longrightarrow> deadlines_ok (remove_expiry key s)"
  by (auto simp: deadlines_ok_def remove_expiry_def)

lemma deadlines_insert_expiry:
  "deadlines_ok s \<Longrightarrow> fmlookup (data s) key \<noteq> None \<Longrightarrow> deadlines_ok (insert_expiry key t s)"
  by (auto simp: deadlines_ok_def insert_expiry_def)

lemmas deadlines_rules = deadlines_remove_key deadlines_purge deadlines_insert_data
  deadlines_remove_expiry deadlines_insert_expiry

lemma touches_refl [touch]: "touches K s s"
  by (simp add: touches_def tidy_def deadlines_rules)

lemma touches_trans: "touches K s s' \<Longrightarrow> touches K s' s'' \<Longrightarrow> touches K s s''"
  by (simp add: touches_def tidy_def deadlines_rules)

lemma touches_mono: "touches K s s' \<Longrightarrow> K \<subseteq> L \<Longrightarrow> touches L s s'"
  by (auto simp: touches_def tidy_def deadlines_rules)

lemma touches_remove_key [touch]:
  "touches K s s' \<Longrightarrow> key \<in> K \<Longrightarrow> touches K s (remove_key key s')"
  by (auto simp: touches_def tidy_def deadlines_rules exec_inv_remove_key)

lemma touches_purge [touch]: "touches K s s' \<Longrightarrow> touches K s (purge_if_expired key s')"
  by (simp add: touches_def tidy_def deadlines_rules exec_inv_purge)

lemma touches_insert_data [touch]:
  "touches K s s' \<Longrightarrow> key \<in> K \<Longrightarrow> value_nonempty v \<Longrightarrow> touches K s (insert_data key v s')"
  by (auto simp: touches_def tidy_def deadlines_rules exec_inv_insert_data live_insert_data)

lemma touches_remove_expiry [touch]:
  "touches K s s' \<Longrightarrow> key \<in> K \<Longrightarrow> touches K s (remove_expiry key s')"
  by (auto simp: touches_def tidy_def deadlines_rules exec_inv_remove_expiry)

lemma touches_insert_expiry [touch]:
  "touches K s s' \<Longrightarrow> key \<in> K \<Longrightarrow> fmlookup (data s') key \<noteq> None \<Longrightarrow>
     touches K s (insert_expiry key t s')"
  by (auto simp: touches_def tidy_def deadlines_rules exec_inv_insert_expiry)

text \<open>Reads: the live view does not change at all.\<close>

lemma touches_none_live: "touches {} s s' \<Longrightarrow> live s' = live s"
  by (auto simp: touches_def tidy_def deadlines_rules fun_eq_iff)

lemma visible_nonempty: "exec_inv s \<Longrightarrow> visible s key = Some v \<Longrightarrow> value_nonempty v"
  by (auto simp: exec_inv_def visible_def live_def split: if_splits)

lemma remove_key_insert_data [simp]: "remove_key key (insert_data key v s) = remove_key key s"
  by (simp add: remove_key_def insert_data_def fmap_eq_iff)

section \<open>Eviction\<close>

lemma lookup_evict:
  "fmlookup (data (evict_expired_keys s)) k = (if is_expired s k then None else fmlookup (data s) k)"
  "fmlookup (expirations (evict_expired_keys s)) k =
     (if is_expired s k then None else fmlookup (expirations s) k)"
  by (auto simp: evict_expired_keys_def Let_def is_expired_def fmlookup_dom_iff split: option.splits)

lemma is_expired_evict [simp]: "\<not> is_expired (evict_expired_keys s) k"
proof -
  have "current_time (evict_expired_keys s) = current_time s"
    by (simp add: evict_expired_keys_def Let_def)
  then show ?thesis
    by (cases "is_expired s k") (auto simp: is_expired_def lookup_evict split: option.splits if_splits)
qed

lemma live_evict [simp]: "live (evict_expired_keys s) = live s"
  by (simp add: live_def fun_eq_iff lookup_evict)

lemma exec_inv_evict: "exec_inv s \<Longrightarrow> exec_inv (evict_expired_keys s)"
  by (auto simp: exec_inv_def lookup_evict split: if_splits)

lemma exec_inv_time: "exec_inv (s\<lparr>current_time := t\<rparr>) \<longleftrightarrow> exec_inv s"
  by (simp add: exec_inv_def)

lemma exec_verify_after_evict:
  "exec_inv s \<Longrightarrow> exec_verify_invariants (evict_expired_keys s)"
proof -
  assume "exec_inv s"
  then have inv: "exec_inv (evict_expired_keys s)" by (rule exec_inv_evict)
  have "t > current_time (evict_expired_keys s)"
    if "fmlookup (expirations (evict_expired_keys s)) k = Some t" for k t
    using is_expired_evict [of s k] that by (simp add: is_expired_def not_le)
  with inv show ?thesis
    by (auto simp: exec_verify_invariants_def exec_inv_def fmpred_iff contains_key_def
        fmlookup_dom_iff)
qed

end
