(* ===== verification/String_Ops.thy ===== *)
theory String_Ops
  imports Executor_Core Sds
begin

text \<open>
  The string commands (\<open>src/redis/executor/string_ops.rs\<close>) and the bitmap commands
  (\<open>src/redis/executor/bitmap_ops.rs\<close>): one definition per method, what each of them may touch,
  and their behaviour on the live view. \<open>INCRBYFLOAT\<close> is not modelled.
\<close>

section \<open>Deadlines\<close>

text \<open>
  \<open>VirtualTime\<close> and \<open>Duration\<close> are milliseconds in a \<open>u64\<close>; sums wrap. An absolute Unix time is
  taken relative to the start epoch, with saturation, and one that is not after it deletes the
  key.
\<close>

definition after_secs :: "executor \<Rightarrow> i64 \<Rightarrow> virtual_time" where
  "after_secs s seconds = current_time s + word_of_int seconds * 1000"

definition after_millis :: "executor \<Rightarrow> i64 \<Rightarrow> virtual_time" where
  "after_millis s millis = current_time s + word_of_int millis"

definition relative_ms :: "executor \<Rightarrow> i64 \<Rightarrow> i64" where
  "relative_ms s timestamp_ms = sat_i64 (timestamp_ms - simulation_start_epoch_ms s)"

definition expire_relative :: "string \<Rightarrow> i64 \<Rightarrow> executor \<Rightarrow> executor" where
  "expire_relative key rel s =
     (if rel \<le> 0 then remove_key key s else insert_expiry key (word_of_int rel) s)"

section \<open>Operations\<close>

definition execute_get :: "string \<Rightarrow> executor \<Rightarrow> reply" where
  "execute_get key s =
     (let (s', v) = get_value key s
      in (s', case v of Some (String b) \<Rightarrow> bulk b | Some _ \<Rightarrow> WRONGTYPE | None \<Rightarrow> nil))"

definition execute_setnx :: "string \<Rightarrow> bytes \<Rightarrow> executor \<Rightarrow> reply" where
  "execute_setnx key v s =
     (let key_exists = (\<not> is_expired s key \<and> contains_key s key)
      in if key_exists then (s, Integer 0)
         else (remove_expiry key (insert_data key (String v) s), Integer 1))"

definition set_invalid_expire ::
  "i64 option \<Rightarrow> i64 option \<Rightarrow> i64 option \<Rightarrow> i64 option \<Rightarrow> bool" where
  "set_invalid_expire ex px exat pxat \<longleftrightarrow>
     (case ex of Some seconds \<Rightarrow> seconds \<le> 0 \<or> seconds > quot_i64 I64_MAX 1000 | None \<Rightarrow> False) \<or>
     (case px of Some millis \<Rightarrow> millis \<le> 0 | None \<Rightarrow> False) \<or>
     (case exat of Some ts \<Rightarrow> ts \<le> 0 | None \<Rightarrow> False) \<or>
     (case pxat of Some ts_ms \<Rightarrow> ts_ms \<le> 0 | None \<Rightarrow> False)"

definition set_expiration ::
  "string \<Rightarrow> i64 option \<Rightarrow> i64 option \<Rightarrow> i64 option \<Rightarrow> i64 option \<Rightarrow> bool \<Rightarrow> executor \<Rightarrow> executor" where
  "set_expiration key ex px exat pxat keepttl s =
     (case ex of Some seconds \<Rightarrow> insert_expiry key (after_secs s seconds) s | None \<Rightarrow>
      case px of Some millis \<Rightarrow> insert_expiry key (after_millis s millis) s | None \<Rightarrow>
      case exat of
        Some timestamp \<Rightarrow> expire_relative key (relative_ms s (sat_i64 (timestamp * 1000))) s | None \<Rightarrow>
      case pxat of
        Some timestamp_ms \<Rightarrow> expire_relative key (relative_ms s timestamp_ms) s | None \<Rightarrow>
      if keepttl then s else remove_expiry key s)"

definition set_checked ::
  "string \<Rightarrow> bytes \<Rightarrow> i64 option \<Rightarrow> i64 option \<Rightarrow> i64 option \<Rightarrow> i64 option \<Rightarrow> bool \<Rightarrow> bool \<Rightarrow> bool \<Rightarrow> bool
    \<Rightarrow> bytes option \<Rightarrow> executor \<Rightarrow> reply" where
  "set_checked key v ex px exat pxat nx xx get keepttl old_value s =
     (let key_exists = (\<not> is_expired s key \<and> contains_key s key)
      in if nx \<and> key_exists then (s, BulkString old_value)
         else if xx \<and> \<not> key_exists then (s, nil)
         else (set_expiration key ex px exat pxat keepttl (insert_data key (String v) s),
               if get then BulkString old_value else ok))"

definition execute_set ::
  "string \<Rightarrow> bytes \<Rightarrow> i64 option \<Rightarrow> i64 option \<Rightarrow> i64 option \<Rightarrow> i64 option \<Rightarrow> bool \<Rightarrow> bool \<Rightarrow> bool \<Rightarrow> bool
    \<Rightarrow> executor \<Rightarrow> reply" where
  "execute_set key v ex px exat pxat nx xx get keepttl s =
     (if set_invalid_expire ex px exat pxat
      then (s, err ''ERR invalid expire time in 'set' command'')
      else if get then
        (let (s', old) = get_value key s
         in case old of
              Some (String b) \<Rightarrow> set_checked key v ex px exat pxat nx xx get keepttl (Some b) s'
            | Some _ \<Rightarrow> (s', WRONGTYPE)
            | None \<Rightarrow> set_checked key v ex px exat pxat nx xx get keepttl None s')
      else set_checked key v ex px exat pxat nx xx get keepttl None s)"

definition execute_append :: "string \<Rightarrow> bytes \<Rightarrow> executor \<Rightarrow> reply" where
  "execute_append key v s =
     (let (s', old) = get_value key s
      in case old of
           Some (String b) \<Rightarrow> (insert_data key (String (b @ v)) s', Integer (int (length (b @ v))))
         | Some _ \<Rightarrow> (s', WRONGTYPE)
         | None \<Rightarrow> (insert_data key (String v) s', Integer (int (length v))))"

definition execute_getset :: "string \<Rightarrow> bytes \<Rightarrow> executor \<Rightarrow> reply" where
  "execute_getset key v s =
     (let (s', old) = get_value key s
      in case old of
           Some (String b) \<Rightarrow> (insert_data key (String v) s', bulk b)
         | Some _ \<Rightarrow> (s', WRONGTYPE)
         | None \<Rightarrow> (insert_data key (String v) s', nil))"

definition execute_strlen :: "string \<Rightarrow> executor \<Rightarrow> reply" where
  "execute_strlen key s =
     (let (s', v) = get_value key s
      in (s', case v of Some (String b) \<Rightarrow> Integer (int (length b)) | Some _ \<Rightarrow> WRONGTYPE
                      | None \<Rightarrow> Integer 0))"

text \<open>\<open>MGET\<close> and \<open>BATCHGET\<close> read the keys in turn; each lookup may drop an expired key.\<close>

fun get_strings :: "string list \<Rightarrow> executor \<Rightarrow> executor \<times> resp_value list" where
  "get_strings [] s = (s, [])"
| "get_strings (k # ks) s =
     (let (s1, v) = get_value k s;
          r = (case v of Some (String b) \<Rightarrow> bulk b | _ \<Rightarrow> BulkString None);
          (s2, rs) = get_strings ks s1
      in (s2, r # rs))"

definition execute_mget :: "string list \<Rightarrow> executor \<Rightarrow> reply" where
  "execute_mget keys s = (let (s', rs) = get_strings keys s in (s', Array (Some rs)))"

definition execute_batch_get :: "string list \<Rightarrow> executor \<Rightarrow> reply" where
  "execute_batch_get keys s = (let (s', rs) = get_strings keys s in (s', Array (Some rs)))"

fun insert_pairs :: "(string \<times> bytes) list \<Rightarrow> executor \<Rightarrow> executor" where
  "insert_pairs [] s = s"
| "insert_pairs ((k, v) # ps) s = insert_pairs ps (insert_data k (String v) s)"

definition execute_mset :: "(string \<times> bytes) list \<Rightarrow> executor \<Rightarrow> reply" where
  "execute_mset ps s = (insert_pairs ps s, ok)"

definition execute_msetnx :: "(string \<times> bytes) list \<Rightarrow> executor \<Rightarrow> reply" where
  "execute_msetnx ps s =
     (if list_ex (\<lambda>(k, _). \<not> is_expired s k \<and> contains_key s k) ps then (s, Integer 0)
      else (insert_pairs ps s, Integer 1))"

definition execute_batch_set :: "(string \<times> bytes) list \<Rightarrow> executor \<Rightarrow> reply" where
  "execute_batch_set ps s = (insert_pairs ps s, ok)"

definition range_bytes :: "bytes \<Rightarrow> isize \<Rightarrow> isize \<Rightarrow> bytes" where
  "range_bytes b start stop =
     (let len = int (length b) in
      if len = 0 then []
      else let s_idx = (if start < 0 then max (len + start) 0 else min start len);
               e_idx = (if stop < 0 then max (len + stop) 0 else min stop (len - 1))
           in if s_idx > e_idx \<or> s_idx \<ge> len then []
              else let s_idx = max s_idx 0; e_idx = min e_idx (len - 1)
                   in take (nat e_idx + 1 - nat s_idx) (drop (nat s_idx) b))"

definition execute_getrange :: "string \<Rightarrow> isize \<Rightarrow> isize \<Rightarrow> executor \<Rightarrow> reply" where
  "execute_getrange key start stop s =
     (let (s', v) = get_value key s
      in (s', case v of Some (String b) \<Rightarrow> bulk (range_bytes b start stop)
                      | Some _ \<Rightarrow> WRONGTYPE | None \<Rightarrow> bulk []))"

text \<open>\<open>bytes.resize(needed, 0)\<close> when too short, then \<open>copy_from_slice\<close> at the offset.\<close>

definition overwrite :: "bytes \<Rightarrow> usize \<Rightarrow> bytes \<Rightarrow> bytes" where
  "overwrite b offset v =
     (let needed = offset + length v;
          b' = (if needed > length b then vec_resize b needed else b)
      in copy_into b' offset v)"

definition execute_setrange :: "string \<Rightarrow> usize \<Rightarrow> bytes \<Rightarrow> executor \<Rightarrow> reply" where
  "execute_setrange key offset v s =
     (let needed = offset + length v in
      if needed \<ge> 2 ^ 64 then (s, err ''ERR string exceeds maximum allowed size'')
      else if needed > 512 * 1024 * 1024 then (s, err ''ERR string exceeds maximum allowed size'')
      else let (s', old) = get_value key s in
        case old of
          Some (String b) \<Rightarrow>
            (let b' = overwrite b offset v
             in (insert_data key (String b') s', Integer (int (length b'))))
        | Some _ \<Rightarrow> (s', WRONGTYPE)
        | None \<Rightarrow>
            if needed = 0 then (s', Integer 0)
            else (let b' = copy_into (replicate needed NUL) offset v
                  in (insert_data key (String b') s', Integer (int (length b')))))"

definition execute_getex ::
  "string \<Rightarrow> i64 option \<Rightarrow> i64 option \<Rightarrow> i64 option \<Rightarrow> i64 option \<Rightarrow> bool \<Rightarrow> executor \<Rightarrow> reply" where
  "execute_getex key ex px exat pxat pers s =
     (let (s', v) = get_value key s in
      case v of
        Some (String b) \<Rightarrow>
          (case ex of
             Some seconds \<Rightarrow>
               if seconds \<le> 0 \<or> seconds > quot_i64 I64_MAX 1000
               then (s', err ''ERR invalid expire time in 'getex' command'')
               else (insert_expiry key (after_secs s' seconds) s', bulk b)
           | None \<Rightarrow>
           case px of
             Some millis \<Rightarrow>
               if millis \<le> 0 then (s', err ''ERR invalid expire time in 'getex' command'')
               else (insert_expiry key (after_millis s' millis) s', bulk b)
           | None \<Rightarrow>
           case exat of
             Some timestamp \<Rightarrow>
               (expire_relative key (relative_ms s' (sat_i64 (timestamp * 1000))) s', bulk b)
           | None \<Rightarrow>
           case pxat of
             Some timestamp_ms \<Rightarrow> (expire_relative key (relative_ms s' timestamp_ms) s', bulk b)
           | None \<Rightarrow> (if pers then remove_expiry key s' else s', bulk b))
      | Some _ \<Rightarrow> (s', WRONGTYPE)
      | None \<Rightarrow> (s', nil))"

definition execute_getdel :: "string \<Rightarrow> executor \<Rightarrow> reply" where
  "execute_getdel key s =
     (let (s', v) = get_value key s
      in case v of Some (String b) \<Rightarrow> (remove_key key s', bulk b) | Some _ \<Rightarrow> (s', WRONGTYPE)
                 | None \<Rightarrow> (s', nil))"

definition incr_by_impl :: "string \<Rightarrow> i64 \<Rightarrow> executor \<Rightarrow> reply" where
  "incr_by_impl key increment s =
     (let (s', v) = get_value key s
      in case v of
           Some (String b) \<Rightarrow>
             (case parse_i64 (utf8_lossy b) of
                None \<Rightarrow> (s', err ''ERR value is not an integer or out of range'')
              | Some current \<Rightarrow>
                  case checked_add current increment of
                    None \<Rightarrow> (s', err ''ERR increment or decrement would overflow'')
                  | Some new_value \<Rightarrow>
                      (insert_data key (String (show_int new_value)) s', Integer new_value))
         | Some _ \<Rightarrow> (s', WRONGTYPE)
         | None \<Rightarrow> (insert_data key (String (show_int increment)) s', Integer increment))"

section \<open>Bitmaps\<close>

abbreviation MAX_BIT_OFFSET :: u64 where
  "MAX_BIT_OFFSET \<equiv> 512 * 1024 * 1024 * 8"

definition byte_index :: "u64 \<Rightarrow> usize" where
  "byte_index offset = unat (offset div 8)"

definition bit_mask :: "u64 \<Rightarrow> 8 word" where
  "bit_mask offset = drop_bit (unat (offset mod 8)) 0x80"

definition byte_word :: "char \<Rightarrow> 8 word" where
  "byte_word c = of_nat (of_char c)"

definition word_byte :: "8 word \<Rightarrow> char" where
  "word_byte w = char_of (unat w)"

definition bit_of_byte :: "char \<Rightarrow> u64 \<Rightarrow> i64" where
  "bit_of_byte c offset = (if and (byte_word c) (bit_mask offset) \<noteq> 0 then 1 else 0)"

definition put_bit :: "char \<Rightarrow> u64 \<Rightarrow> nat \<Rightarrow> char" where
  "put_bit c offset v =
     word_byte (if v = 1 then or (byte_word c) (bit_mask offset)
                else and (byte_word c) (not (bit_mask offset)))"

definition execute_setbit :: "string \<Rightarrow> u64 \<Rightarrow> nat \<Rightarrow> executor \<Rightarrow> reply" where
  "execute_setbit key offset v s =
     (if offset \<ge> MAX_BIT_OFFSET then (s, err ''ERR bit offset is not an integer or out of range'')
      else
        let i = byte_index offset;
            required_len = i + 1;
            (s', old) = get_value key s;
            set_in = (\<lambda>b. let b' = (if length b < required_len then vec_resize b required_len else b)
                          in (insert_data key (String (b'[i := put_bit (b' ! i) offset v])) s',
                              Integer (bit_of_byte (b' ! i) offset)))
        in case old of
             Some (String b) \<Rightarrow> set_in b
           | Some _ \<Rightarrow> (s', WRONGTYPE)
           | None \<Rightarrow> set_in (replicate required_len NUL))"

definition execute_getbit :: "string \<Rightarrow> u64 \<Rightarrow> executor \<Rightarrow> reply" where
  "execute_getbit key offset s =
     (if offset \<ge> MAX_BIT_OFFSET then (s, err ''ERR bit offset is not an integer or out of range'')
      else
        let i = byte_index offset; (s', v) = get_value key s
        in (s', case v of
                  None \<Rightarrow> Integer 0
                | Some (String b) \<Rightarrow>
                    if i \<ge> length b then Integer 0 else Integer (bit_of_byte (b ! i) offset)
                | Some _ \<Rightarrow> WRONGTYPE))"

section \<open>What the commands touch\<close>

lemmas reads = Let_def get_value_eq split_beta

lemma get_strings_eq:
  "get_strings ks s =
     (fold purge_if_expired ks s,
      map (\<lambda>k. case visible s k of Some (String b) \<Rightarrow> bulk b | _ \<Rightarrow> BulkString None) ks)"
  by (induction ks arbitrary: s) (auto simp: reads)

lemma touches_fold_purge [touch]: "touches K s s' \<Longrightarrow> touches K s (fold purge_if_expired ks s')"
  by (induction ks arbitrary: s') (auto intro: touch)

lemma touches_insert_pairs [touch]:
  "touches K s s' \<Longrightarrow> fst ` set ps \<subseteq> K \<Longrightarrow> touches K s (insert_pairs ps s')"
  by (induction ps s' rule: insert_pairs.induct) (simp_all add: touches_insert_data)

lemma touches_expire_relative [touch]:
  "touches K s s' \<Longrightarrow> key \<in> K \<Longrightarrow> fmlookup (data s') key \<noteq> None \<Longrightarrow>
     touches K s (expire_relative key rel s')"
  by (auto simp: expire_relative_def intro: touch)

lemma touches_set_expiration [touch]:
  "touches K s s' \<Longrightarrow> key \<in> K \<Longrightarrow> fmlookup (data s') key \<noteq> None \<Longrightarrow>
     touches K s (set_expiration key ex px exat pxat keepttl s')"
  by (auto simp: set_expiration_def intro: touch split: option.splits)

lemma touches_set_checked [touch]:
  "touches K s s' \<Longrightarrow> key \<in> K \<Longrightarrow>
     touches K s (fst (set_checked key v ex px exat pxat nx xx get keepttl old s'))"
  by (auto simp: set_checked_def Let_def intro!: touch)

lemma touches_string_reads:
  "touches {} s (fst (execute_get key s))"
  "touches {} s (fst (execute_strlen key s))"
  "touches {} s (fst (execute_mget keys s))"
  "touches {} s (fst (execute_batch_get keys s))"
  "touches {} s (fst (execute_getrange key start stop s))"
  "touches {} s (fst (execute_getbit key offset s))"
  by (auto simp: execute_get_def execute_strlen_def execute_mget_def execute_batch_get_def
      execute_getrange_def execute_getbit_def get_strings_eq reads intro: touch)

lemma touches_execute_set:
  "touches {key} s (fst (execute_set key v ex px exat pxat nx xx get keepttl s))"
  by (auto simp: execute_set_def reads intro!: touch split: option.splits redis_value.splits)

lemma touches_string_writes:
  "touches {key} s (fst (execute_setnx key v s))"
  "touches {key} s (fst (execute_append key v s))"
  "touches {key} s (fst (execute_getset key v s))"
  "touches {key} s (fst (execute_setrange key offset v s))"
  "touches {key} s (fst (execute_getdel key s))"
  "touches {key} s (fst (incr_by_impl key i s))"
  "touches {key} s (fst (execute_setbit key bitoff bv s))"
  by (auto simp: execute_setnx_def execute_append_def execute_getset_def execute_setrange_def
      execute_getdel_def incr_by_impl_def execute_setbit_def reads intro!: touch
      split: option.splits redis_value.splits)

lemma touches_execute_getex:
  "touches {key} s (fst (execute_getex key ex px exat pxat pers s))"
  by (auto simp: execute_getex_def reads intro!: touch split: option.splits redis_value.splits)

lemma touches_msets:
  "touches (fst ` set ps) s (fst (execute_mset ps s))"
  "touches (fst ` set ps) s (fst (execute_msetnx ps s))"
  "touches (fst ` set ps) s (fst (execute_batch_set ps s))"
  by (auto simp: execute_mset_def execute_msetnx_def execute_batch_set_def intro!: touch)

end
