(* ===== verification/Glob.thy ===== *)
theory Glob
  imports Prelude
begin

text \<open>
  Pattern matching of \<open>KEYS\<close> and \<open>SCAN\<close> (\<open>glob_match\<close> of \<open>src/redis/executor/mod.rs\<close>) and the
  language of a pattern, given by tokens. The indices \<open>k_idx\<close> and \<open>p_idx\<close> of the code only grow;
  the model passes the rest of the key and the rest of the pattern.
\<close>

section \<open>The matcher\<close>

definition byte_range :: "char \<Rightarrow> char \<Rightarrow> bytes" where
  "byte_range a b = map char_of [of_char a ..< Suc (of_char b)]"

fun expand_class :: "bytes \<Rightarrow> bytes" where
  "expand_class (a # d # b # cs) =
     (if d = CHR ''-'' then byte_range a b @ expand_class cs else a # expand_class (d # b # cs))"
| "expand_class (c # cs) = c # expand_class cs"
| "expand_class [] = []"

definition chars_to_check :: "bytes \<Rightarrow> bytes" where
  "chars_to_check char_set =
     (let cs = expand_class char_set in if cs = [] then char_set else cs)"

definition class_accepts :: "bytes \<Rightarrow> char \<Rightarrow> bool" where
  "class_accepts cls c =
     (let (negate, char_set) =
        (case cls of h # t \<Rightarrow> if h = CHR ''^'' then (True, t) else (False, cls) | [] \<Rightarrow> (False, cls))
      in (c \<in> set (chars_to_check char_set)) \<noteq> negate)"

definition class_body :: "bytes \<Rightarrow> bytes" where
  "class_body ps = takeWhile (\<lambda>c. c \<noteq> CHR '']'') ps"

definition class_rest :: "bytes \<Rightarrow> bytes option" where
  "class_rest ps =
     (case dropWhile (\<lambda>c. c \<noteq> CHR '']'') ps of [] \<Rightarrow> None | _ # rest \<Rightarrow> Some rest)"

lemma class_rest_length: "class_rest ps = Some rest \<Longrightarrow> length rest < length ps"
  using length_dropWhile_le [of "\<lambda>c. c \<noteq> CHR '']''" ps]
  by (auto simp: class_rest_def split: list.splits)

function glob_match :: "bytes \<Rightarrow> bytes \<Rightarrow> bool" where
  "glob_match key [] \<longleftrightarrow> key = []"
| "glob_match key (p # ps) \<longleftrightarrow>
     (if p = CHR ''*'' then list_ex (\<lambda>i. glob_match (drop i key) ps) [0..<Suc (length key)]
      else if p = CHR ''?'' then (case key of [] \<Rightarrow> False | _ # ks \<Rightarrow> glob_match ks ps)
      else if p = CHR ''['' then
        (case class_rest ps of
           None \<Rightarrow> False
         | Some rest \<Rightarrow>
             (case key of [] \<Rightarrow> False
              | c # ks \<Rightarrow> if class_accepts (class_body ps) c then glob_match ks rest else False))
      else (case key of [] \<Rightarrow> False | c # ks \<Rightarrow> if c \<noteq> p then False else glob_match ks ps))"
  by pat_completeness auto
termination
  by (relation "measure (length \<circ> snd)") (auto dest: class_rest_length)

definition matches_glob_pattern :: "bytes \<Rightarrow> bytes \<Rightarrow> bool" where
  "matches_glob_pattern key pattern = glob_match key pattern"

section \<open>The language of a pattern\<close>

datatype token = Star | AnyByte | OneOf "char \<Rightarrow> bool" | Literal char

text \<open>A pattern with an unterminated class denotes nothing.\<close>

function tokens :: "bytes \<Rightarrow> token list option" where
  "tokens [] = Some []"
| "tokens (p # ps) =
     (if p = CHR ''*'' then map_option ((#) Star) (tokens ps)
      else if p = CHR ''?'' then map_option ((#) AnyByte) (tokens ps)
      else if p = CHR ''['' then
        Option.bind (class_rest ps)
          (\<lambda>rest. map_option ((#) (OneOf (class_accepts (class_body ps)))) (tokens rest))
      else map_option ((#) (Literal p)) (tokens ps))"
  by pat_completeness auto
termination
  by (relation "measure length") (auto dest: class_rest_length)

declare glob_match.simps(2) [simp del] tokens.simps(2) [simp del]

inductive denotes :: "token list \<Rightarrow> bytes \<Rightarrow> bool" where
  empty: "denotes [] []"
| star: "denotes ts v \<Longrightarrow> denotes (Star # ts) (u @ v)"
| any: "denotes ts v \<Longrightarrow> denotes (AnyByte # ts) (c # v)"
| one_of: "denotes ts v \<Longrightarrow> P c \<Longrightarrow> denotes (OneOf P # ts) (c # v)"
| literal: "denotes ts v \<Longrightarrow> denotes (Literal c # ts) (c # v)"

inductive_simps denotes_simps [simp]:
  "denotes [] w" "denotes (AnyByte # ts) w" "denotes (OneOf P # ts) w" "denotes (Literal c # ts) w"

inductive_cases denotes_StarE: "denotes (Star # ts) w"

lemma denotes_Star: "denotes (Star # ts) w \<longleftrightarrow> (\<exists>i\<le>length w. denotes ts (drop i w))"
proof
  assume "denotes (Star # ts) w"
  then obtain u v where "w = u @ v" "denotes ts v" by (rule denotes_StarE) blast
  then show "\<exists>i\<le>length w. denotes ts (drop i w)" by (intro exI [of _ "length u"]) simp
next
  assume "\<exists>i\<le>length w. denotes ts (drop i w)"
  then obtain i where "denotes ts (drop i w)" by blast
  then have "denotes (Star # ts) (take i w @ drop i w)" by (rule denotes.star)
  then show "denotes (Star # ts) w" by simp
qed


end
