(* ===== verification/Key_Ops.thy ===== *)
theory Key_Ops
  imports String_Ops Glob
begin

text \<open>
  The key commands (\<open>src/redis/executor/key_ops.rs\<close>): deletion, existence, type, enumeration,
  expiry. \<open>KEYS\<close> lists the keys in the iteration order of the hash map, the parameter \<open>it\<close>.
\<close>

section \<open>Operations\<close>

fun del_loop :: "string list \<Rightarrow> executor \<Rightarrow> i64 \<Rightarrow> executor \<times> i64" where
  "del_loop [] s count = (s, count)"
| "del_loop (k # ks) s count =
     del_loop ks (remove_key k s) (if contains_key s k then count + 1 else count)"

definition execute_del :: "string list \<Rightarrow> executor \<Rightarrow> reply" where
  "execute_del keys s = (let (s', count) = del_loop keys s 0 in (s', Integer count))"

definition key_missing :: "executor \<Rightarrow> string \<Rightarrow> bool" where
  "key_missing s key \<longleftrightarrow> is_expired s key \<or> \<not> contains_key s key"

definition execute_exists :: "string list \<Rightarrow> executor \<Rightarrow> reply" where
  "execute_exists keys s =
     (s, Integer (int (length (filter (\<lambda>k. \<not> is_expired s k \<and> contains_key s k) keys))))"

definition execute_typeof :: "string \<Rightarrow> executor \<Rightarrow> reply" where
  "execute_typeof key s =
     (let (s', v) = get_value key s
      in (s', SimpleString
            (case v of
               Some (String _) \<Rightarrow> ''string'' | Some (List _) \<Rightarrow> ''list'' | Some (Set _) \<Rightarrow> ''set''
             | Some (Hash _) \<Rightarrow> ''hash'' | Some (SortedSet _) \<Rightarrow> ''zset'' | Some Null \<Rightarrow> ''none''
             | None \<Rightarrow> ''none'')))"

definition execute_keys :: "order \<Rightarrow> string \<Rightarrow> executor \<Rightarrow> reply" where
  "execute_keys it pattern s =
     (s, Array (Some (map bulk
        (filter (\<lambda>k. \<not> is_expired s k \<and> matches_glob_pattern k pattern) (it (fmdom (data s)))))))"

definition execute_flush :: "executor \<Rightarrow> reply" where
  "execute_flush s = (s\<lparr>data := fmempty, expirations := fmempty\<rparr>, ok)"

definition basetime_ms :: "executor \<Rightarrow> i64" where
  "basetime_ms s = sat_i64 (simulation_start_epoch_ms s + sint (current_time s))"

definition expire_flags ::
  "bool \<Rightarrow> bool \<Rightarrow> bool \<Rightarrow> bool \<Rightarrow> virtual_time \<Rightarrow> virtual_time option \<Rightarrow> bool" where
  "expire_flags nx xx gt lt new current \<longleftrightarrow>
     \<not> (nx \<and> current \<noteq> None) \<and> \<not> (xx \<and> current = None) \<and>
     (gt \<longrightarrow> (case current of Some c \<Rightarrow> \<not> new \<le> c | None \<Rightarrow> False)) \<and>
     (lt \<longrightarrow> (case current of Some c \<Rightarrow> \<not> new \<ge> c | None \<Rightarrow> True))"

definition execute_expire ::
  "string \<Rightarrow> i64 \<Rightarrow> bool \<Rightarrow> bool \<Rightarrow> bool \<Rightarrow> bool \<Rightarrow> executor \<Rightarrow> reply" where
  "execute_expire key seconds nx xx gt lt s =
     (if seconds > quot_i64 I64_MAX 1000 \<or> seconds < quot_i64 I64_MIN 1000
      then (s, err ''ERR invalid expire time in 'expire' command'')
      else
        let expire_ms = sat_i64 (seconds * 1000) in
        if expire_ms > 0 \<and> expire_ms > wrap_i64 (I64_MAX - basetime_ms s)
        then (s, err ''ERR invalid expire time in 'expire' command'')
        else if key_missing s key then (s, Integer 0)
        else if seconds \<le> 0 then (remove_key key s, Integer 1)
        else
          let new_expiration = after_secs s seconds in
          if expire_flags nx xx gt lt new_expiration (fmlookup (expirations s) key)
          then (insert_expiry key new_expiration s, Integer 1)
          else (s, Integer 0))"

definition execute_pexpire ::
  "string \<Rightarrow> i64 \<Rightarrow> bool \<Rightarrow> bool \<Rightarrow> bool \<Rightarrow> bool \<Rightarrow> executor \<Rightarrow> reply" where
  "execute_pexpire key milliseconds nx xx gt lt s =
     (if milliseconds > 0 \<and> milliseconds > wrap_i64 (I64_MAX - basetime_ms s)
      then (s, err ''ERR invalid expire time in 'pexpire' command'')
      else if \<not> milliseconds > 0 \<and> milliseconds < quot_i64 I64_MIN 2
      then (s, err ''ERR invalid expire time in 'pexpire' command'')
      else if key_missing s key then (s, Integer 0)
      else if milliseconds \<le> 0 then (remove_key key s, Integer 1)
      else
        let new_expiration = after_millis s milliseconds in
        if expire_flags nx xx gt lt new_expiration (fmlookup (expirations s) key)
        then (insert_expiry key new_expiration s, Integer 1)
        else (s, Integer 0))"

definition execute_expiretime :: "string \<Rightarrow> executor \<Rightarrow> reply" where
  "execute_expiretime key s =
     (s, if key_missing s key then Integer (- 2)
         else case fmlookup (expirations s) key of
                Some t \<Rightarrow> Integer (quot_i64 (sat_i64 (simulation_start_epoch_ms s + sint t)) 1000)
              | None \<Rightarrow> Integer (- 1))"

definition execute_pexpiretime :: "string \<Rightarrow> executor \<Rightarrow> reply" where
  "execute_pexpiretime key s =
     (s, if key_missing s key then Integer (- 2)
         else case fmlookup (expirations s) key of
                Some t \<Rightarrow> Integer (sat_i64 (simulation_start_epoch_ms s + sint t))
              | None \<Rightarrow> Integer (- 1))"

definition expire_at_relative :: "string \<Rightarrow> i64 \<Rightarrow> executor \<Rightarrow> reply" where
  "expire_at_relative key rel s =
     (if rel \<le> 0 then (remove_key key s, Integer 1)
      else if word_of_int rel \<le> current_time s then (remove_key key s, Integer 1)
      else (insert_expiry key (word_of_int rel) s, Integer 1))"

definition execute_expireat :: "string \<Rightarrow> i64 \<Rightarrow> executor \<Rightarrow> reply" where
  "execute_expireat key timestamp s =
     (if key_missing s key then (s, Integer 0)
      else expire_at_relative key (relative_ms s (sat_i64 (timestamp * 1000))) s)"

definition execute_pexpireat :: "string \<Rightarrow> i64 \<Rightarrow> executor \<Rightarrow> reply" where
  "execute_pexpireat key timestamp_millis s =
     (if key_missing s key then (s, Integer 0)
      else expire_at_relative key (relative_ms s timestamp_millis) s)"

definition execute_ttl :: "string \<Rightarrow> executor \<Rightarrow> reply" where
  "execute_ttl key s =
     (s, Integer
       (if key_missing s key then - 2
        else case fmlookup (expirations s) key of
               Some t \<Rightarrow>
                 (let remaining_ms = wrap_i64 (sint t - sint (current_time s))
                  in max (quot_i64 (wrap_i64 (remaining_ms + 999)) 1000) 0)
             | None \<Rightarrow> - 1))"

definition execute_pttl :: "string \<Rightarrow> executor \<Rightarrow> reply" where
  "execute_pttl key s =
     (s, Integer
       (if key_missing s key then - 2
        else case fmlookup (expirations s) key of
               Some t \<Rightarrow> max (wrap_i64 (sint t - sint (current_time s))) 0
             | None \<Rightarrow> - 1))"

definition execute_persist :: "string \<Rightarrow> executor \<Rightarrow> reply" where
  "execute_persist key s =
     (if key_missing s key then (s, Integer 0)
      else if fmlookup (expirations s) key \<noteq> None then (remove_expiry key s, Integer 1)
      else (s, Integer 0))"

section \<open>What the commands touch\<close>

lemma key_missing_iff: "key_missing s key \<longleftrightarrow> live s key = None"
  by (auto simp: key_missing_def live_def contains_key_def fmlookup_dom_iff)

lemma not_missing: "\<not> key_missing s key \<Longrightarrow> fmlookup (data s) key \<noteq> None"
  by (auto simp: key_missing_def contains_key_def fmlookup_dom_iff)

lemma touches_del_loop [touch]:
  "touches K s s' \<Longrightarrow> set ks \<subseteq> K \<Longrightarrow> touches K s (fst (del_loop ks s' n))"
  by (induction ks s' n rule: del_loop.induct) (simp_all add: touches_remove_key)

lemma touches_key_reads:
  "touches {} s (fst (execute_exists keys s))"
  "touches {} s (fst (execute_typeof key s))"
  "touches {} s (fst (execute_keys it pattern s))"
  "touches {} s (fst (execute_expiretime key s))"
  "touches {} s (fst (execute_pexpiretime key s))"
  "touches {} s (fst (execute_ttl key s))"
  "touches {} s (fst (execute_pttl key s))"
  by (auto simp: execute_exists_def execute_typeof_def execute_keys_def execute_expiretime_def
      execute_pexpiretime_def execute_ttl_def execute_pttl_def reads intro: touch)

lemma touches_key_writes:
  "touches (set keys) s (fst (execute_del keys s))"
  "touches {key} s (fst (execute_expire key n nx xx gt lt s))"
  "touches {key} s (fst (execute_pexpire key n nx xx gt lt s))"
  "touches {key} s (fst (execute_expireat key n s))"
  "touches {key} s (fst (execute_pexpireat key n s))"
  "touches {key} s (fst (execute_persist key s))"
  by (auto simp: execute_del_def execute_expire_def execute_pexpire_def execute_expireat_def
      execute_pexpireat_def execute_persist_def expire_at_relative_def split_beta Let_def
      intro!: touch dest: not_missing)

lemma touches_flush: "touches UNIV s (fst (execute_flush s))"
  by (simp add: touches_def tidy_def execute_flush_def env_def exec_inv_def deadlines_ok_def)

end
