(* ===== verification/List_Ops.thy ===== *)
theory List_Ops
  imports String_Ops
begin

text \<open>
  The list commands (\<open>src/redis/executor/list_ops.rs\<close>): one definition per method, what each may
  touch, and their behaviour on the live view. A list that becomes empty is removed with its key.
\<close>

section \<open>Operations\<close>

text \<open>\<open>data.entry(key).or_insert_with(RedisList::new)\<close>, then the update of the list in place.\<close>

definition push_with ::
  "(redis_list \<Rightarrow> redis_list) \<Rightarrow> (redis_list \<Rightarrow> resp_value) \<Rightarrow> string \<Rightarrow> executor \<Rightarrow> reply" where
  "push_with f r key s =
     (case fmlookup (data s) key of
        None \<Rightarrow> (insert_data key (List (f [])) s, r (f []))
      | Some (List l) \<Rightarrow> (insert_data key (List (f l)) s, r (f l))
      | Some _ \<Rightarrow> (s, WRONGTYPE))"

definition execute_lpush :: "string \<Rightarrow> bytes list \<Rightarrow> executor \<Rightarrow> reply" where
  "execute_lpush key vs s =
     push_with (\<lambda>l. fold (\<lambda>v l. list_lpush l v) vs l) (\<lambda>l. Integer (int (list_len l))) key
       (purge_if_expired key s)"

definition execute_rpush :: "string \<Rightarrow> bytes list \<Rightarrow> executor \<Rightarrow> reply" where
  "execute_rpush key vs s =
     push_with (\<lambda>l. fold (\<lambda>v l. list_rpush l v) vs l) (\<lambda>l. Integer (int (list_len l))) key
       (purge_if_expired key s)"

definition drop_empty_list :: "string \<Rightarrow> executor \<Rightarrow> executor" where
  "drop_empty_list key s =
     (case fmlookup (data s) key of
        Some (List l) \<Rightarrow> if list_is_empty l then remove_key key s else s
      | _ \<Rightarrow> s)"

definition pop_with :: "(redis_list \<Rightarrow> redis_list \<times> bytes option) \<Rightarrow> string \<Rightarrow> executor \<Rightarrow> reply" where
  "pop_with f key s =
     (let (s', v) = get_value key s;
          (s'', r) =
            (case v of
               Some (List l) \<Rightarrow> (let (l', x) = f l in (insert_data key (List l') s', BulkString x))
             | Some _ \<Rightarrow> (s', WRONGTYPE)
             | None \<Rightarrow> (s', nil))
      in (drop_empty_list key s'', r))"

definition execute_lpop :: "string \<Rightarrow> executor \<Rightarrow> reply" where
  "execute_lpop = pop_with list_lpop"

definition execute_rpop :: "string \<Rightarrow> executor \<Rightarrow> reply" where
  "execute_rpop = pop_with list_rpop"

definition execute_llen :: "string \<Rightarrow> executor \<Rightarrow> reply" where
  "execute_llen key s =
     (let (s', v) = get_value key s
      in (s', case v of Some (List l) \<Rightarrow> Integer (int (list_len l)) | Some _ \<Rightarrow> WRONGTYPE
                      | None \<Rightarrow> Integer 0))"

definition index_reply :: "redis_list \<Rightarrow> isize \<Rightarrow> resp_value" where
  "index_reply l index =
     (let len = int (list_len l);
          at = (\<lambda>i. case list_range l i i of x # _ \<Rightarrow> bulk x | [] \<Rightarrow> BulkString None)
      in if index < 0 then (if len + index < 0 then BulkString None else at (len + index))
         else if index \<ge> len then BulkString None
         else at index)"

definition execute_lindex :: "string \<Rightarrow> isize \<Rightarrow> executor \<Rightarrow> reply" where
  "execute_lindex key index s =
     (let (s', v) = get_value key s
      in (s', case v of Some (List l) \<Rightarrow> index_reply l index | Some _ \<Rightarrow> WRONGTYPE | None \<Rightarrow> nil))"

definition execute_lrange :: "string \<Rightarrow> isize \<Rightarrow> isize \<Rightarrow> executor \<Rightarrow> reply" where
  "execute_lrange key start stop s =
     (let (s', v) = get_value key s
      in (s', case v of Some (List l) \<Rightarrow> Array (Some (map bulk (list_range l start stop)))
                      | Some _ \<Rightarrow> WRONGTYPE | None \<Rightarrow> Array (Some [])))"

definition execute_lset :: "string \<Rightarrow> isize \<Rightarrow> bytes \<Rightarrow> executor \<Rightarrow> reply" where
  "execute_lset key index v s =
     (let s' = purge_if_expired key s in
      case fmlookup (data s') key of
        Some (List l) \<Rightarrow>
          (case list_set l index v of
             Inr l' \<Rightarrow> (insert_data key (List l') s', ok)
           | Inl e \<Rightarrow> (s', err e))
      | Some _ \<Rightarrow> (s', WRONGTYPE)
      | None \<Rightarrow> (s', err ''ERR no such key''))"

definition execute_ltrim :: "string \<Rightarrow> isize \<Rightarrow> isize \<Rightarrow> executor \<Rightarrow> reply" where
  "execute_ltrim key start stop s =
     (let s' = purge_if_expired key s in
      case fmlookup (data s') key of
        Some (List l) \<Rightarrow>
          (let l' = list_trim l start stop
           in (if list_is_empty l' then remove_key key (insert_data key (List l') s')
               else insert_data key (List l') s', ok))
      | Some _ \<Rightarrow> (s', WRONGTYPE)
      | None \<Rightarrow> (s', ok))"

definition move_with ::
  "(redis_list \<Rightarrow> redis_list \<times> bytes option) \<Rightarrow> (redis_list \<Rightarrow> bytes \<Rightarrow> redis_list)
    \<Rightarrow> string \<Rightarrow> string \<Rightarrow> executor \<Rightarrow> reply" where
  "move_with pop push source dest s =
     (let s1 = purge_if_expired source s in
      case fmlookup (data s1) source of
        Some (List l) \<Rightarrow>
          (let (l', popped) = pop l; s2 = insert_data source (List l') s1 in
           case popped of
             Some v \<Rightarrow>
               push_with (\<lambda>l. push l v) (\<lambda>_. bulk v) dest
                 (purge_if_expired dest (drop_empty_list source s2))
           | None \<Rightarrow> (s2, nil))
      | Some _ \<Rightarrow> (s1, WRONGTYPE)
      | None \<Rightarrow> (s1, nil))"

definition execute_rpoplpush :: "string \<Rightarrow> string \<Rightarrow> executor \<Rightarrow> reply" where
  "execute_rpoplpush = move_with list_rpop list_lpush"

definition execute_lmove :: "string \<Rightarrow> string \<Rightarrow> string \<Rightarrow> string \<Rightarrow> executor \<Rightarrow> reply" where
  "execute_lmove source dest wherefrom whereto =
     move_with (if wherefrom = ''LEFT'' then list_lpop else list_rpop)
       (if whereto = ''LEFT'' then list_lpush else list_rpush) source dest"

section \<open>What the commands touch\<close>

lemma drop_empty_put:
  "drop_empty_list key (insert_data key (List l) s) =
     (if l = [] then remove_key key s else insert_data key (List l) s)"
  by (simp add: drop_empty_list_def list_is_empty_def)

lemma touches_drop_empty_list [touch]:
  "touches K s s' \<Longrightarrow> key \<in> K \<Longrightarrow> touches K s (drop_empty_list key s')"
  by (auto simp: drop_empty_list_def intro!: touch split: option.splits redis_value.splits)

lemma touches_put_list [touch]:
  "touches K s s' \<Longrightarrow> key \<in> K \<Longrightarrow> touches K s (drop_empty_list key (insert_data key (List l) s'))"
  by (auto simp: drop_empty_put list_is_empty_def intro!: touch)

lemma touches_push_with [touch]:
  "touches K s s' \<Longrightarrow> key \<in> K \<Longrightarrow> (\<And>l. f l \<noteq> []) \<Longrightarrow> touches K s (fst (push_with f r key s'))"
  by (auto simp: push_with_def list_is_empty_def intro!: touch split: option.splits redis_value.splits)

lemma touches_pop_with: "touches {key} s (fst (pop_with f key s))"
  by (auto simp: pop_with_def reads drop_empty_put list_is_empty_def intro!: touch
      split: option.splits redis_value.splits)

lemma fold_lpush: "fold (\<lambda>v l. list_lpush l v) vs l = rev vs @ l"
  by (induction vs arbitrary: l) (simp_all add: list_lpush_def)

lemma fold_rpush: "fold (\<lambda>v l. list_rpush l v) vs l = l @ vs"
  by (induction vs arbitrary: l) (simp_all add: list_rpush_def)

lemma touches_list_reads:
  "touches {} s (fst (execute_llen key s))"
  "touches {} s (fst (execute_lindex key index s))"
  "touches {} s (fst (execute_lrange key start stop s))"
  by (auto simp: execute_llen_def execute_lindex_def execute_lrange_def reads intro: touch)

lemma touches_push:
  "vs \<noteq> [] \<Longrightarrow> touches {key} s (fst (execute_lpush key vs s))"
  "vs \<noteq> [] \<Longrightarrow> touches {key} s (fst (execute_rpush key vs s))"
  by (auto simp: execute_lpush_def execute_rpush_def fold_lpush fold_rpush intro!: touch)

lemma touches_list_writes:
  "touches {key} s (fst (execute_lpop key s))"
  "touches {key} s (fst (execute_rpop key s))"
  "touches {key} s (fst (execute_ltrim key start stop s))"
  by (auto simp: execute_lpop_def execute_rpop_def execute_ltrim_def touches_pop_with Let_def
      list_is_empty_def intro!: touch split: option.splits redis_value.splits)

lemma list_set_nonempty: "list_set l index v = Inr l' \<Longrightarrow> l' \<noteq> []"
  by (auto simp: list_set_def Let_def split: if_splits)

lemma touches_lset: "touches {key} s (fst (execute_lset key index v s))"
  by (auto simp: execute_lset_def Let_def list_is_empty_def list_set_nonempty intro!: touch
      split: option.splits redis_value.splits sum.splits)

lemma touches_move_with:
  assumes pop: "\<And>l. snd (pop l) = None \<Longrightarrow> l = []" and push: "\<And>l v. push l v \<noteq> []"
  shows "touches {source, dest} s (fst (move_with pop push source dest s))"
proof (cases "visible s source")
  case (Some v)
  show ?thesis
  proof (cases v)
    case (List l)
    show ?thesis
    proof (cases "snd (pop l)")
      case None
      then have "\<not> exec_inv s"
        using pop visible_nonempty [of s source v] Some List by (auto simp: list_is_empty_def)
      then have "touches {source, dest} s (insert_data source (List l') (purge_if_expired source s))"
        for l' by (simp add: touches_def tidy_def live_insert_data deadlines_rules)
      with Some List None show ?thesis by (simp add: move_with_def split_beta Let_def)
    next
      case (Some x)
      with \<open>visible s source = Some v\<close> List push show ?thesis
        by (auto simp: move_with_def split_beta Let_def intro!: touch)
    qed
  qed (use Some in \<open>auto simp: move_with_def intro: touch\<close>)
qed (auto simp: move_with_def intro: touch)

lemma touches_moves:
  "touches {source, dest} s (fst (execute_rpoplpush source dest s))"
  "touches {source, dest} s (fst (execute_lmove source dest wherefrom whereto s))"
  by (auto simp: execute_rpoplpush_def execute_lmove_def list_lpop_def list_rpop_def list_lpush_def
      list_rpush_def split: list.splits if_splits intro!: touches_move_with)

end
