(* ===== verification/Set_Ops.thy ===== *)
theory Set_Ops
  imports String_Ops
begin

text \<open>
  The set commands (\<open>src/redis/executor/set_ops.rs\<close>). A set that becomes empty is removed with its
  key. \<open>SMEMBERS\<close> and \<open>SPOP\<close> follow the iteration order \<open>it\<close> of the hash set.
\<close>

section \<open>Operations\<close>

fun add_all :: "redis_set \<Rightarrow> bytes list \<Rightarrow> i64 \<Rightarrow> redis_set \<times> i64" where
  "add_all m [] added = (m, added)"
| "add_all m (x # xs) added =
     (let (m', fresh) = set_add m x in add_all m' xs (if fresh then added + 1 else added))"

definition execute_sadd :: "string \<Rightarrow> bytes list \<Rightarrow> executor \<Rightarrow> reply" where
  "execute_sadd key members s =
     (let s' = purge_if_expired key s in
      case fmlookup (data s') key of
        None \<Rightarrow> (let (m, added) = add_all {||} members 0 in (insert_data key (Set m) s', Integer added))
      | Some (Set m) \<Rightarrow>
          (let (m', added) = add_all m members 0 in (insert_data key (Set m') s', Integer added))
      | Some _ \<Rightarrow> (s', WRONGTYPE))"

fun remove_all :: "redis_set \<Rightarrow> bytes list \<Rightarrow> i64 \<Rightarrow> redis_set \<times> i64" where
  "remove_all m [] removed = (m, removed)"
| "remove_all m (x # xs) removed =
     (let (m', hit) = set_remove m x in remove_all m' xs (if hit then removed + 1 else removed))"

definition drop_empty_set :: "string \<Rightarrow> executor \<Rightarrow> executor" where
  "drop_empty_set key s =
     (case fmlookup (data s) key of
        Some (Set m) \<Rightarrow> if set_is_empty m then remove_key key s else s
      | _ \<Rightarrow> s)"

definition execute_srem :: "string \<Rightarrow> bytes list \<Rightarrow> executor \<Rightarrow> reply" where
  "execute_srem key members s =
     (let (s', v) = get_value key s;
          (s'', r) =
            (case v of
               Some (Set m) \<Rightarrow>
                 (let (m', removed) = remove_all m members 0
                  in (insert_data key (Set m') s', Integer removed))
             | Some _ \<Rightarrow> (s', WRONGTYPE)
             | None \<Rightarrow> (s', Integer 0))
      in (drop_empty_set key s'', r))"

definition execute_smembers :: "order \<Rightarrow> string \<Rightarrow> executor \<Rightarrow> reply" where
  "execute_smembers it key s =
     (let (s', v) = get_value key s
      in (s', case v of Some (Set m) \<Rightarrow> Array (Some (map bulk (set_members it m)))
                      | Some _ \<Rightarrow> WRONGTYPE | None \<Rightarrow> Array (Some [])))"

definition execute_sismember :: "string \<Rightarrow> bytes \<Rightarrow> executor \<Rightarrow> reply" where
  "execute_sismember key member s =
     (let (s', v) = get_value key s
      in (s', case v of Some (Set m) \<Rightarrow> Integer (int_of_bool (set_contains m member))
                      | Some _ \<Rightarrow> WRONGTYPE | None \<Rightarrow> Integer 0))"

definition execute_scard :: "string \<Rightarrow> executor \<Rightarrow> reply" where
  "execute_scard key s =
     (let (s', v) = get_value key s
      in (s', case v of Some (Set m) \<Rightarrow> Integer (int (set_len m)) | Some _ \<Rightarrow> WRONGTYPE
                      | None \<Rightarrow> Integer 0))"

definition execute_spop :: "order \<Rightarrow> string \<Rightarrow> usize option \<Rightarrow> executor \<Rightarrow> reply" where
  "execute_spop it key count s =
     (let (s', v) = get_value key s;
          (s'', r) =
            (case v of
               Some (Set m) \<Rightarrow>
                 (case count of
                    None \<Rightarrow>
                      (let (m', x) = set_pop it m
                       in (insert_data key (Set m') s', BulkString (map_option utf8_lossy x)))
                  | Some n \<Rightarrow>
                      (let (m', xs) = set_pop_count it m n
                       in (insert_data key (Set m') s',
                           Array (Some (map (\<lambda>x. bulk (utf8_lossy x)) xs)))))
             | Some _ \<Rightarrow> (s', WRONGTYPE)
             | None \<Rightarrow> (s', case count of None \<Rightarrow> nil | Some _ \<Rightarrow> Array (Some [])))
      in (drop_empty_set key s'', r))"

section \<open>What the commands touch\<close>

lemma drop_empty_set_put:
  "drop_empty_set key (insert_data key (Set m) s) =
     (if m = {||} then remove_key key s else insert_data key (Set m) s)"
  by (simp add: drop_empty_set_def set_is_empty_def)

lemma touches_drop_empty_set [touch]:
  "touches K s s' \<Longrightarrow> key \<in> K \<Longrightarrow> touches K s (drop_empty_set key s')"
  by (auto simp: drop_empty_set_def intro!: touch split: option.splits redis_value.splits)

lemma touches_put_set [touch]:
  "touches K s s' \<Longrightarrow> key \<in> K \<Longrightarrow> touches K s (drop_empty_set key (insert_data key (Set m) s'))"
  by (auto simp: drop_empty_set_put set_is_empty_def intro!: touch)

text \<open>The two loops in closed form: the new set, and how much it grew or shrank.\<close>

lemma add_all_eq:
  "add_all m xs n =
     (m |\<union>| fset_of_list (map utf8_lossy xs),
      n + int (fcard (m |\<union>| fset_of_list (map utf8_lossy xs))) - int (fcard m))"
proof (induction m xs n rule: add_all.induct)
  case (2 m x xs n)
  have "fcard (finsert (utf8_lossy x) m) = (if utf8_lossy x |\<in>| m then fcard m else fcard m + 1)"
    by (simp add: fcard_finsert_if)
  with 2 show ?case by (auto simp: set_add_def Let_def)
qed simp

lemma remove_all_eq:
  "remove_all m xs n =
     (m |-| fset_of_list (map utf8_lossy xs),
      n + int (fcard m) - int (fcard (m |-| fset_of_list (map utf8_lossy xs))))"
proof (induction m xs n rule: remove_all.induct)
  case (2 m x xs n)
  have card: "int (fcard (m |-| {|utf8_lossy x|})) =
      (if utf8_lossy x |\<in>| m then int (fcard m) - 1 else int (fcard m))"
  proof (cases "utf8_lossy x |\<in>| m")
    case True
    then have "0 < fcard m" by (auto simp: fcard.rep_eq card_gt_0_iff)
    with True show ?thesis by (simp add: fcard_fminus_fsingleton)
  qed (simp add: fminus_finsert_absorb)
  have "m |-| finsert (utf8_lossy x) (fset_of_list (map utf8_lossy xs))
      = m |-| {|utf8_lossy x|} |-| fset_of_list (map utf8_lossy xs)" by auto
  with 2 card show ?case by (simp add: set_remove_def Let_def)
qed simp

lemma touches_set_reads:
  "touches {} s (fst (execute_smembers it key s))"
  "touches {} s (fst (execute_sismember key member s))"
  "touches {} s (fst (execute_scard key s))"
  by (auto simp: execute_smembers_def execute_sismember_def execute_scard_def reads intro: touch)

lemma touches_sadd: "members \<noteq> [] \<Longrightarrow> touches {key} s (fst (execute_sadd key members s))"
  by (cases members)
    (auto simp: execute_sadd_def add_all_eq Let_def set_is_empty_def intro!: touch
      split: option.splits redis_value.splits)

lemma touches_set_writes:
  "touches {key} s (fst (execute_srem key members s))"
  "touches {key} s (fst (execute_spop it key count s))"
  by (auto simp: execute_srem_def execute_spop_def reads intro!: touch
      split: option.splits redis_value.splits)

end
