(* ===== verification/Hash_Ops.thy ===== *)
theory Hash_Ops
  imports String_Ops
begin

text \<open>
  The hash commands (\<open>src/redis/executor/hash_ops.rs\<close>). A hash that becomes empty is removed with
  its key. \<open>HGETALL\<close>, \<open>HKEYS\<close> and \<open>HVALS\<close> follow the iteration order \<open>it\<close> of the hash map.
\<close>

section \<open>Operations\<close>

fun set_fields :: "redis_hash \<Rightarrow> (bytes \<times> bytes) list \<Rightarrow> i64 \<Rightarrow> redis_hash \<times> i64" where
  "set_fields h [] new_fields = (h, new_fields)"
| "set_fields h ((f, v) # ps) new_fields =
     set_fields (hash_set h f v) ps (if hash_exists h f then new_fields else new_fields + 1)"

definition execute_hset :: "string \<Rightarrow> (bytes \<times> bytes) list \<Rightarrow> executor \<Rightarrow> reply" where
  "execute_hset key ps s =
     (let s' = purge_if_expired key s in
      case fmlookup (data s') key of
        None \<Rightarrow> (let (h, n) = set_fields fmempty ps 0 in (insert_data key (Hash h) s', Integer n))
      | Some (Hash h) \<Rightarrow>
          (let (h', n) = set_fields h ps 0 in (insert_data key (Hash h') s', Integer n))
      | Some _ \<Rightarrow> (s', WRONGTYPE))"

definition execute_hget :: "string \<Rightarrow> bytes \<Rightarrow> executor \<Rightarrow> reply" where
  "execute_hget key field s =
     (let (s', v) = get_value key s
      in (s', case v of Some (Hash h) \<Rightarrow> BulkString (hash_get h field) | Some _ \<Rightarrow> WRONGTYPE
                      | None \<Rightarrow> nil))"

fun delete_fields :: "redis_hash \<Rightarrow> bytes list \<Rightarrow> i64 \<Rightarrow> redis_hash \<times> i64" where
  "delete_fields h [] deleted = (h, deleted)"
| "delete_fields h (f # fs) deleted =
     (let (h', hit) = hash_delete h f in delete_fields h' fs (if hit then deleted + 1 else deleted))"

definition drop_empty_hash :: "string \<Rightarrow> executor \<Rightarrow> executor" where
  "drop_empty_hash key s =
     (case fmlookup (data s) key of
        Some (Hash h) \<Rightarrow> if hash_is_empty h then remove_key key s else s
      | _ \<Rightarrow> s)"

definition execute_hdel :: "string \<Rightarrow> bytes list \<Rightarrow> executor \<Rightarrow> reply" where
  "execute_hdel key fs s =
     (let (s', v) = get_value key s;
          (s'', r) =
            (case v of
               Some (Hash h) \<Rightarrow>
                 (let (h', deleted) = delete_fields h fs 0
                  in (insert_data key (Hash h') s', Integer deleted))
             | Some _ \<Rightarrow> (s', WRONGTYPE)
             | None \<Rightarrow> (s', Integer 0))
      in (drop_empty_hash key s'', r))"

definition execute_hgetall :: "order \<Rightarrow> string \<Rightarrow> executor \<Rightarrow> reply" where
  "execute_hgetall it key s =
     (let (s', v) = get_value key s
      in (s', case v of
                Some (Hash h) \<Rightarrow>
                  Array (Some (concat (map (\<lambda>(k, v). [bulk k, bulk v]) (hash_get_all it h))))
              | Some _ \<Rightarrow> WRONGTYPE | None \<Rightarrow> Array (Some [])))"

definition execute_hkeys :: "order \<Rightarrow> string \<Rightarrow> executor \<Rightarrow> reply" where
  "execute_hkeys it key s =
     (let (s', v) = get_value key s
      in (s', case v of Some (Hash h) \<Rightarrow> Array (Some (map bulk (hash_keys it h)))
                      | Some _ \<Rightarrow> WRONGTYPE | None \<Rightarrow> Array (Some [])))"

definition execute_hvals :: "order \<Rightarrow> string \<Rightarrow> executor \<Rightarrow> reply" where
  "execute_hvals it key s =
     (let (s', v) = get_value key s
      in (s', case v of Some (Hash h) \<Rightarrow> Array (Some (map bulk (hash_values it h)))
                      | Some _ \<Rightarrow> WRONGTYPE | None \<Rightarrow> Array (Some [])))"

definition execute_hlen :: "string \<Rightarrow> executor \<Rightarrow> reply" where
  "execute_hlen key s =
     (let (s', v) = get_value key s
      in (s', case v of Some (Hash h) \<Rightarrow> Integer (int (hash_len h)) | Some _ \<Rightarrow> WRONGTYPE
                      | None \<Rightarrow> Integer 0))"

definition execute_hexists :: "string \<Rightarrow> bytes \<Rightarrow> executor \<Rightarrow> reply" where
  "execute_hexists key field s =
     (let (s', v) = get_value key s
      in (s', case v of Some (Hash h) \<Rightarrow> Integer (int_of_bool (hash_exists h field))
                      | Some _ \<Rightarrow> WRONGTYPE | None \<Rightarrow> Integer 0))"

definition incr_field :: "string \<Rightarrow> bytes \<Rightarrow> i64 \<Rightarrow> redis_hash \<Rightarrow> executor \<Rightarrow> reply" where
  "incr_field key field increment h s =
     (case (case hash_get h field of Some v \<Rightarrow> parse_i64 (utf8_lossy v) | None \<Rightarrow> Some 0) of
        None \<Rightarrow> (s, err ''ERR hash value is not an integer'')
      | Some current \<Rightarrow>
          (case checked_add current increment of
             None \<Rightarrow> (s, err ''ERR increment or decrement would overflow'')
           | Some new_value \<Rightarrow>
               (insert_data key (Hash (hash_set h field (show_int new_value))) s,
                Integer new_value)))"

definition execute_hincrby :: "string \<Rightarrow> bytes \<Rightarrow> i64 \<Rightarrow> executor \<Rightarrow> reply" where
  "execute_hincrby key field increment s =
     (let s' = purge_if_expired key s in
      case fmlookup (data s') key of
        None \<Rightarrow> incr_field key field increment fmempty (insert_data key (Hash fmempty) s')
      | Some (Hash h) \<Rightarrow> incr_field key field increment h s'
      | Some _ \<Rightarrow> (s', WRONGTYPE))"

section \<open>What the commands touch\<close>

lemma drop_empty_hash_put:
  "drop_empty_hash key (insert_data key (Hash h) s) =
     (if h = fmempty then remove_key key s else insert_data key (Hash h) s)"
  by (simp add: drop_empty_hash_def hash_is_empty_def)

lemma touches_drop_empty_hash [touch]:
  "touches K s s' \<Longrightarrow> key \<in> K \<Longrightarrow> touches K s (drop_empty_hash key s')"
  by (auto simp: drop_empty_hash_def intro!: touch split: option.splits redis_value.splits)

lemma touches_put_hash [touch]:
  "touches K s s' \<Longrightarrow> key \<in> K \<Longrightarrow> touches K s (drop_empty_hash key (insert_data key (Hash h) s'))"
  by (auto simp: drop_empty_hash_put hash_is_empty_def intro!: touch)

lemma fmupd_ne [simp]: "fmupd k v h \<noteq> fmempty"
  by (metis fmempty_lookup fmupd_lookup option.distinct(1))

lemma set_fields_lookup:
  "fmlookup (fst (set_fields h ps n)) f =
     (case map_of (rev (map (map_prod utf8_lossy id) ps)) f of Some v \<Rightarrow> Some v | None \<Rightarrow> fmlookup h f)"
  by (induction h ps n rule: set_fields.induct)
    (auto simp: hash_set_def map_add_def split: option.splits)

lemma set_fields_ne: "ps \<noteq> [] \<or> h \<noteq> fmempty \<Longrightarrow> fst (set_fields h ps n) \<noteq> fmempty"
  by (induction h ps n rule: set_fields.induct) (auto simp: hash_set_def)

lemma touches_hash_reads:
  "touches {} s (fst (execute_hget key field s))"
  "touches {} s (fst (execute_hgetall it key s))"
  "touches {} s (fst (execute_hkeys it key s))"
  "touches {} s (fst (execute_hvals it key s))"
  "touches {} s (fst (execute_hlen key s))"
  "touches {} s (fst (execute_hexists key field s))"
  by (auto simp: execute_hget_def execute_hgetall_def execute_hkeys_def execute_hvals_def
      execute_hlen_def execute_hexists_def reads intro: touch)

lemma touches_hset: "ps \<noteq> [] \<Longrightarrow> touches {key} s (fst (execute_hset key ps s))"
  by (auto simp: execute_hset_def split_beta Let_def hash_is_empty_def set_fields_ne intro!: touch
      split: option.splits redis_value.splits)

lemma touches_hdel: "touches {key} s (fst (execute_hdel key fs s))"
  by (auto simp: execute_hdel_def reads intro!: touch split: option.splits redis_value.splits)

lemma touches_hincrby: "in_i64 n \<Longrightarrow> touches {key} s (fst (execute_hincrby key field n s))"
  by (auto simp: execute_hincrby_def incr_field_def Let_def checked_add_def hash_get_def
      hash_set_def hash_is_empty_def intro!: touch split: option.splits redis_value.splits)

end
