(* ===== verification/Executor.thy ===== *)
theory Executor
  imports Key_Ops List_Ops Set_Ops Hash_Ops
begin

text \<open>
  \<open>CommandExecutor::execute\<close> (\<open>src/redis/executor/mod.rs\<close>) with the commands it implements itself,
  and the transaction commands (\<open>src/redis/executor/transaction_ops.rs\<close>). The match on the command
  is one definition per family of commands. The model is of a build without the \<open>simulation\<close>
  feature: no fault is injected at the start of \<open>execute\<close>.
\<close>

section \<open>Server commands\<close>

definition LINE :: string where
  "LINE = [CR, LF]"

definition execute_info :: "executor \<Rightarrow> resp_value" where
  "execute_info s = bulk (
     ''# Server'' @ LINE @ ''redis_mode:simulator'' @ LINE @ LINE @ ''# Stats'' @ LINE @
     ''total_commands_processed:'' @ show_nat (commands_processed s) @ LINE @
     ''total_keys:'' @ show_nat (fcard (fmdom (data s))) @ LINE @
     ''keys_with_expiration:'' @ show_nat (fcard (fmdom (expirations s))) @ LINE @
     ''current_time_ms:'' @ show_nat (unat (current_time s)) @ LINE)"

definition execute_dbsize :: "executor \<Rightarrow> resp_value" where
  "execute_dbsize s = Integer (int (fcard (ffilter (\<lambda>k. \<not> is_expired s k) (fmdom (data s)))))"

definition execute_time :: "executor \<Rightarrow> resp_value" where
  "execute_time s =
     (let epoch_secs =
            sat_i64 (simulation_start_epoch s + quot_i64 (sint (current_time s)) 1000);
          remaining_us = (current_time s mod 1000) * 1000
      in Array (Some [bulk (show_int epoch_secs), bulk (show_nat (unat remaining_us))]))"

definition object_encoding :: "redis_value \<Rightarrow> string option" where
  "object_encoding v =
     (case v of
        String b \<Rightarrow>
          Some (if parse_i64 (if utf8_valid b then b else []) \<noteq> None then ''int''
                else if length b \<le> 44 then ''embstr'' else ''raw'')
      | List l \<Rightarrow> Some (if list_len l \<le> 128 then ''listpack'' else ''quicklist'')
      | Set m \<Rightarrow> Some (if set_len m \<le> 128 then ''listpack'' else ''hashtable'')
      | Hash h \<Rightarrow> Some (if hash_len h \<le> 128 then ''listpack'' else ''hashtable'')
      | SortedSet z \<Rightarrow> Some (if zset_len z \<le> 128 then ''listpack'' else ''skiplist'')
      | Null \<Rightarrow> None)"

definition object_reply :: "(redis_value \<Rightarrow> resp_value option) \<Rightarrow> string \<Rightarrow> executor \<Rightarrow> reply" where
  "object_reply f key s =
     (let (s', v) = get_value key s
      in (s', case Option.bind v f of Some r \<Rightarrow> r | None \<Rightarrow> err ''ERR no such key''))"

definition ascii_upper :: "char \<Rightarrow> char" where
  "ascii_upper c =
     (let n = (of_char c :: nat) in if 97 \<le> n \<and> n \<le> 122 then char_of (n - 32) else c)"

fun run_server :: "server_command \<Rightarrow> executor \<Rightarrow> reply" where
  "run_server Info s = (s, execute_info s)"
| "run_server (Ping None) s = (s, pong)"
| "run_server (Ping (Some msg)) s = (s, bulk msg)"
| "run_server DbSize s = (s, execute_dbsize s)"
| "run_server Time s = (s, execute_time s)"
| "run_server (Wait _ _) s = (s, Integer 0)"
| "run_server (Select _) s = (s, ok)"
| "run_server (Echo msg) s = (s, bulk msg)"
| "run_server CommandCommand s = (s, Array (Some []))"
| "run_server CommandCount s = (s, Integer 200)"
| "run_server FunctionFlush s = (s, ok)"
| "run_server (ClientSetName _) s = (s, ok)"
| "run_server ClientGetName s = (s, nil)"
| "run_server ClientId s = (s, Integer 1)"
| "run_server ClientInfo s = (s, bulk ''id=1 fd=5 name= db=0 flags=N'')"
| "run_server ObjectHelp s =
     (s, Array (Some [bulk ''OBJECT ENCODING <key>'', bulk ''OBJECT REFCOUNT <key>'',
        bulk ''OBJECT IDLETIME <key>'', bulk ''OBJECT FREQ <key>'', bulk ''OBJECT HELP'']))"
| "run_server (ObjectEncoding k) s = object_reply (\<lambda>v. map_option bulk (object_encoding v)) k s"
| "run_server (ObjectRefCount k) s = object_reply (\<lambda>_. Some (Integer 1)) k s"
| "run_server (ObjectIdleTime k) s = object_reply (\<lambda>_. Some (Integer 0)) k s"
| "run_server (ObjectFreq k) s = object_reply (\<lambda>_. Some (Integer 0)) k s"
| "run_server (DebugSet _ _) s = (s, ok)"
| "run_server (DebugObject k) s =
     object_reply (\<lambda>_. Some (bulk (''Value at:0x0 refcount:1 encoding:raw serializedlength:0 '' @
       ''lru:0 lru_seconds_idle:0 type:string''))) k s"
| "run_server (Unknown cmd) s =
     (s, if map ascii_upper cmd = ''XADD'' then bulk ''0-1''
         else if take 5 cmd = ''XINFO'' then Array (Some [])
         else err (''ERR unknown command '' @ [CHR 0x27] @ cmd @ [CHR 0x27]))"

section \<open>Strings, keys, lists, sets, hashes\<close>

fun run_string :: "string_command \<Rightarrow> executor \<Rightarrow> reply" where
  "run_string (Get k) s = execute_get k s"
| "run_string (SetCmd k v ex px exat pxat nx xx get keepttl) s =
     execute_set k v ex px exat pxat nx xx get keepttl s"
| "run_string (SetNx k v) s = execute_setnx k v s"
| "run_string (Append k v) s = execute_append k v s"
| "run_string (GetSet k v) s = execute_getset k v s"
| "run_string (StrLen k) s = execute_strlen k s"
| "run_string (MGet ks) s = execute_mget ks s"
| "run_string (MSet ps) s = execute_mset ps s"
| "run_string (MSetNx ps) s = execute_msetnx ps s"
| "run_string (BatchSet ps) s = execute_batch_set ps s"
| "run_string (BatchGet ks) s = execute_batch_get ks s"
| "run_string (GetRange k start stop) s = execute_getrange k start stop s"
| "run_string (SetRange k offset v) s = execute_setrange k offset v s"
| "run_string (SetBit k offset v) s = execute_setbit k offset v s"
| "run_string (GetBit k offset) s = execute_getbit k offset s"
| "run_string (GetEx k ex px exat pxat pers) s = execute_getex k ex px exat pxat pers s"
| "run_string (GetDel k) s = execute_getdel k s"
| "run_string (Incr k) s = incr_by_impl k 1 s"
| "run_string (Decr k) s = incr_by_impl k (- 1) s"
| "run_string (IncrBy k n) s = incr_by_impl k n s"
| "run_string (DecrBy k n) s =
     (case checked_neg n of Some m \<Rightarrow> incr_by_impl k m s | None \<Rightarrow> (s, err ''ERR value is out of range''))"

definition rename_to :: "string \<Rightarrow> string \<Rightarrow> executor \<Rightarrow> executor" where
  "rename_to src dst s =
     (case fmlookup (data s) src of
        None \<Rightarrow> s
      | Some v \<Rightarrow>
          (let s' = insert_data dst v (remove_key src s)
           in case fmlookup (expirations s) src of
                Some t \<Rightarrow> insert_expiry dst t s'
              | None \<Rightarrow> remove_expiry dst s'))"

definition execute_rename :: "string \<Rightarrow> string \<Rightarrow> executor \<Rightarrow> reply" where
  "execute_rename src dst s =
     (if key_missing s src then (s, err ''ERR no such key'') else (rename_to src dst s, ok))"

definition execute_renamenx :: "string \<Rightarrow> string \<Rightarrow> executor \<Rightarrow> reply" where
  "execute_renamenx src dst s =
     (if key_missing s src then (s, err ''ERR no such key'')
      else if \<not> is_expired s dst \<and> contains_key s dst then (s, Integer 0)
      else (rename_to src dst s, Integer 1))"

definition sort_store :: "bytes list \<Rightarrow> string option \<Rightarrow> executor \<Rightarrow> reply" where
  "sort_store members store s =
     (let sorted = sort members in
      case store of
        Some dest \<Rightarrow>
          (if sorted = [] then remove_key dest s
           else remove_expiry dest (insert_data dest (List (fold (\<lambda>v l. list_rpush l v) sorted [])) s),
           Integer (int (length sorted)))
      | None \<Rightarrow> (s, Array (Some (map bulk sorted))))"

definition execute_sort :: "order \<Rightarrow> string \<Rightarrow> string option \<Rightarrow> executor \<Rightarrow> reply" where
  "execute_sort it key store s =
     (let (s', v) = get_value key s in
      case v of
        Some (List l) \<Rightarrow> sort_store (list_range l 0 (int (list_len l) - 1)) store s'
      | Some (Set m) \<Rightarrow> sort_store (set_members it m) store s'
      | None \<Rightarrow> sort_store [] store s'
      | Some _ \<Rightarrow> (s', WRONGTYPE))"

definition execute_randomkey :: "order \<Rightarrow> executor \<Rightarrow> reply" where
  "execute_randomkey it s =
     (s, BulkString (List.find (\<lambda>k. \<not> is_expired s k) (it (fmdom (data s)))))"

fun run_key :: "order \<Rightarrow> key_command \<Rightarrow> executor \<Rightarrow> reply" where
  "run_key it (Del ks) s = execute_del ks s"
| "run_key it (Exists ks) s = execute_exists ks s"
| "run_key it (TypeOf k) s = execute_typeof k s"
| "run_key it (Keys p) s = execute_keys it p s"
| "run_key it FlushDb s = execute_flush s"
| "run_key it FlushAll s = execute_flush s"
| "run_key it (Expire k n nx xx gt lt) s = execute_expire k n nx xx gt lt s"
| "run_key it (ExpireAt k t) s = execute_expireat k t s"
| "run_key it (PExpire k n nx xx gt lt) s = execute_pexpire k n nx xx gt lt s"
| "run_key it (PExpireAt k t) s = execute_pexpireat k t s"
| "run_key it (Ttl k) s = execute_ttl k s"
| "run_key it (Pttl k) s = execute_pttl k s"
| "run_key it (ExpireTime k) s = execute_expiretime k s"
| "run_key it (PExpireTime k) s = execute_pexpiretime k s"
| "run_key it (Persist k) s = execute_persist k s"
| "run_key it (Sort k store) s = execute_sort it k store s"
| "run_key it RandomKey s = execute_randomkey it s"
| "run_key it (Rename src dst) s = execute_rename src dst s"
| "run_key it (RenameNx src dst) s = execute_renamenx src dst s"

fun run_list :: "list_command \<Rightarrow> executor \<Rightarrow> reply" where
  "run_list (LPush k vs) s = execute_lpush k vs s"
| "run_list (RPush k vs) s = execute_rpush k vs s"
| "run_list (LPop k) s = execute_lpop k s"
| "run_list (RPop k) s = execute_rpop k s"
| "run_list (LLen k) s = execute_llen k s"
| "run_list (LIndex k i) s = execute_lindex k i s"
| "run_list (LRange k a b) s = execute_lrange k a b s"
| "run_list (LSet k i v) s = execute_lset k i v s"
| "run_list (LTrim k a b) s = execute_ltrim k a b s"
| "run_list (RPopLPush src dst) s = execute_rpoplpush src dst s"
| "run_list (LMove source dest wherefrom whereto) s = execute_lmove source dest wherefrom whereto s"

fun run_set :: "order \<Rightarrow> set_command \<Rightarrow> executor \<Rightarrow> reply" where
  "run_set it (SAdd k ms) s = execute_sadd k ms s"
| "run_set it (SRem k ms) s = execute_srem k ms s"
| "run_set it (SMembers k) s = execute_smembers it k s"
| "run_set it (SIsMember k m) s = execute_sismember k m s"
| "run_set it (SCard k) s = execute_scard k s"
| "run_set it (SPop k count) s = execute_spop it k count s"

fun run_hash :: "order \<Rightarrow> hash_command \<Rightarrow> executor \<Rightarrow> reply" where
  "run_hash it (HSet k ps) s = execute_hset k ps s"
| "run_hash it (HGet k f) s = execute_hget k f s"
| "run_hash it (HDel k fs) s = execute_hdel k fs s"
| "run_hash it (HGetAll k) s = execute_hgetall it k s"
| "run_hash it (HKeys k) s = execute_hkeys it k s"
| "run_hash it (HVals k) s = execute_hvals it k s"
| "run_hash it (HLen k) s = execute_hlen k s"
| "run_hash it (HExists k f) s = execute_hexists k f s"
| "run_hash it (HIncrBy k f n) s = execute_hincrby k f n s"

definition execute_unwatch :: "executor \<Rightarrow> reply" where
  "execute_unwatch s = (s\<lparr>watched_keys := fmempty\<rparr>, ok)"

fun run_data :: "order \<Rightarrow> data_command \<Rightarrow> executor \<Rightarrow> reply" where
  "run_data it (StringC c) s = run_string c s"
| "run_data it (KeyC c) s = run_key it c s"
| "run_data it (ListC c) s = run_list c s"
| "run_data it (SetC c) s = run_set it c s"
| "run_data it (HashC c) s = run_hash it c s"
| "run_data it (ServerC c) s = run_server c s"
| "run_data it Unwatch s = execute_unwatch s"

section \<open>Transactions\<close>

definition count_command :: "executor \<Rightarrow> executor" where
  "count_command s = s\<lparr>commands_processed := commands_processed s + 1\<rparr>"

text \<open>
  \<open>execute\<close> on a command that may be queued. Every queued command is one of these, so the calls
  \<open>EXEC\<close> makes to \<open>execute\<close> are calls of this.
\<close>

definition execute_data :: "order \<Rightarrow> data_command \<Rightarrow> executor \<Rightarrow> reply" where
  "execute_data it c s =
     (let s' = count_command s
      in if in_transaction s' then (s'\<lparr>queued_commands := queued_commands s' @ [c]\<rparr>, queued)
         else run_data it c s')"

fun execute_all :: "order \<Rightarrow> data_command list \<Rightarrow> executor \<Rightarrow> executor \<times> resp_value list" where
  "execute_all it [] s = (s, [])"
| "execute_all it (c # cs) s =
     (let (s1, r) = execute_data it c s; (s2, rs) = execute_all it cs s1 in (s2, r # rs))"

text \<open>
  \<open>PartialEq\<close> on values is derived, down to the scores of a sorted set, which compare as IEEE
  numbers: a NaN differs from itself and the two zeros are equal.
\<close>

definition zset_eq :: "redis_sorted_set \<Rightarrow> redis_sorted_set \<Rightarrow> bool" where
  "zset_eq a b \<longleftrightarrow>
     fmdom (zset_members a) = fmdom (zset_members b) \<and>
     fBall (fmdom (zset_members a))
       (\<lambda>m. f64_eq (the (fmlookup (zset_members a) m)) (the (fmlookup (zset_members b) m)))"

fun value_eq :: "redis_value \<Rightarrow> redis_value \<Rightarrow> bool" where
  "value_eq (SortedSet a) (SortedSet b) = zset_eq a b"
| "value_eq v w = (v = w)"

fun value_option_eq :: "redis_value option \<Rightarrow> redis_value option \<Rightarrow> bool" where
  "value_option_eq (Some v) (Some w) = value_eq v w"
| "value_option_eq None None = True"
| "value_option_eq _ _ = False"

definition execute_multi :: "executor \<Rightarrow> reply" where
  "execute_multi s =
     (if in_transaction s then (s, err ''ERR MULTI calls can not be nested'')
      else (s\<lparr>in_transaction := True, queued_commands := []\<rparr>, ok))"

definition watch_violated :: "executor \<Rightarrow> bool" where
  "watch_violated s \<longleftrightarrow>
     fBex (fmdom (watched_keys s))
       (\<lambda>k. \<not> value_option_eq (fmlookup (data s) k) (the (fmlookup (watched_keys s) k)))"

definition execute_exec :: "order \<Rightarrow> executor \<Rightarrow> reply" where
  "execute_exec it s =
     (if \<not> in_transaction s then (s, err ''ERR EXEC without MULTI'')
      else
        let violated = watch_violated s;
            cs = queued_commands s;
            s' = s\<lparr>in_transaction := False, queued_commands := [], watched_keys := fmempty\<rparr>
        in if violated then (s', BulkString None)
           else let (s'', rs) = execute_all it cs s' in (s'', Array (Some rs)))"

definition execute_discard :: "executor \<Rightarrow> reply" where
  "execute_discard s =
     (if \<not> in_transaction s then (s, err ''ERR DISCARD without MULTI'')
      else (s\<lparr>in_transaction := False, queued_commands := [], watched_keys := fmempty\<rparr>, ok))"

definition execute_watch :: "string list \<Rightarrow> executor \<Rightarrow> reply" where
  "execute_watch keys s =
     (if in_transaction s then (s, err ''ERR WATCH inside MULTI is not allowed'')
      else (s\<lparr>watched_keys := fold (\<lambda>k m. fmupd k (fmlookup (data s) k) m) keys (watched_keys s)\<rparr>,
            ok))"

fun execute :: "order \<Rightarrow> command \<Rightarrow> executor \<Rightarrow> reply" where
  "execute it (Data c) s = execute_data it c s"
| "execute it Multi s = execute_multi (count_command s)"
| "execute it Exec s = execute_exec it (count_command s)"
| "execute it Discard s = execute_discard (count_command s)"
| "execute it (Watch keys) s = execute_watch keys (count_command s)"

text \<open>\<open>execute_readonly\<close> answers a few commands from a shared reference.\<close>

fun execute_readonly :: "order \<Rightarrow> command \<Rightarrow> executor \<Rightarrow> resp_value" where
  "execute_readonly it (Data (StringC (Get k))) s =
     (if is_expired s k then BulkString None
      else case fmlookup (data s) k of
             Some (String b) \<Rightarrow> bulk b | Some _ \<Rightarrow> err ''WRONGTYPE'' | None \<Rightarrow> BulkString None)"
| "execute_readonly it (Data (KeyC (Exists ks))) s =
     Integer (int (length (filter (\<lambda>k. \<not> is_expired s k \<and> contains_key s k) ks)))"
| "execute_readonly it (Data (KeyC (Keys p))) s =
     Array (Some (map bulk
       (filter (\<lambda>k. \<not> is_expired s k \<and> matches_glob_pattern k p) (it (fmdom (data s))))))"
| "execute_readonly it (Data (ServerC (Ping None))) s = pong"
| "execute_readonly it (Data (ServerC (Ping (Some msg)))) s = bulk msg"
| "execute_readonly it _ s = err ''ERR command not supported in readonly mode''"

end
