(* ===== verification/Executor_Laws.thy ===== *)
theory Executor_Laws
  imports Executor
begin

text \<open>
  Laws of the whole executor: the invariants over every run, what a command may change, errors,
  transactions, and \<open>RENAME\<close>.
\<close>

section \<open>What a command touches\<close>

text \<open>
  Commands as the parser builds them: a push, an \<open>SADD\<close> or an \<open>HSET\<close> has at least one element, and
  an increment is an \<open>i64\<close>.
\<close>

fun wf_data :: "data_command \<Rightarrow> bool" where
  "wf_data (ListC (LPush _ vs)) \<longleftrightarrow> vs \<noteq> []"
| "wf_data (ListC (RPush _ vs)) \<longleftrightarrow> vs \<noteq> []"
| "wf_data (SetC (SAdd _ ms)) \<longleftrightarrow> ms \<noteq> []"
| "wf_data (HashC (HSet _ ps)) \<longleftrightarrow> ps \<noteq> []"
| "wf_data (HashC (HIncrBy _ _ n)) \<longleftrightarrow> in_i64 n"
| "wf_data _ \<longleftrightarrow> True"

fun flushes :: "data_command \<Rightarrow> bool" where
  "flushes (KeyC FlushDb) = True"
| "flushes (KeyC FlushAll) = True"
| "flushes _ = False"

lemma touches_run_string: "touches (set (string_keys c)) s (fst (run_string c s))"
proof (cases c)
  case (DecrBy k n)
  then show ?thesis
    by (auto simp: touches_string_writes intro: touch split: option.split)
qed (auto simp: touches_execute_set touches_string_writes touches_execute_getex touches_msets
    intro: touches_mono [OF touches_string_reads(1)] touches_mono [OF touches_string_reads(2)]
      touches_mono [OF touches_string_reads(3)] touches_mono [OF touches_string_reads(4)]
      touches_mono [OF touches_string_reads(5)] touches_mono [OF touches_string_reads(6)])

lemma touches_run_list: "wf_data (ListC c) \<Longrightarrow> touches (set (list_keys c)) s (fst (run_list c s))"
  by (cases c) (auto simp: touches_push touches_list_writes touches_lset touches_moves
    intro: touches_mono [OF touches_list_reads(1)] touches_mono [OF touches_list_reads(2)]
      touches_mono [OF touches_list_reads(3)])

lemma touches_run_set: "wf_data (SetC c) \<Longrightarrow> touches (set (set_keys c)) s (fst (run_set it c s))"
  by (cases c) (auto simp: touches_sadd touches_set_writes
    intro: touches_mono [OF touches_set_reads(1)] touches_mono [OF touches_set_reads(2)]
      touches_mono [OF touches_set_reads(3)])

lemma touches_run_hash:
  "wf_data (HashC c) \<Longrightarrow> touches (set (hash_command_keys c)) s (fst (run_hash it c s))"
  by (cases c) (auto simp: touches_hset touches_hdel touches_hincrby
    intro: touches_mono [OF touches_hash_reads(1)] touches_mono [OF touches_hash_reads(2)]
      touches_mono [OF touches_hash_reads(3)] touches_mono [OF touches_hash_reads(4)]
      touches_mono [OF touches_hash_reads(5)] touches_mono [OF touches_hash_reads(6)])

lemma touches_object_reply: "touches K s (fst (object_reply f key s))"
  by (simp add: object_reply_def reads touches_purge touches_refl)

lemma touches_run_server: "touches K s (fst (run_server c s))"
proof (cases c)
  case (Ping m)
  then show ?thesis by (cases m) (auto intro: touch)
qed (auto simp: touches_object_reply intro: touch)

lemma nonempty_at: "exec_inv s \<Longrightarrow> fmlookup (data s) k = Some v \<Longrightarrow> value_nonempty v"
  by (simp add: exec_inv_def)

lemma touches_rename_to: "touches {src, dst} s (rename_to src dst s)"
proof (cases "fmlookup (data s) src")
  case (Some v)
  let ?s = "insert_data dst v (remove_key src s)"
  have inv: "exec_inv s \<longrightarrow> exec_inv ?s"
    using Some by (auto intro: exec_inv_insert_data exec_inv_remove_key nonempty_at)
  have "touches {src, dst} s ?s"
    using inv by (auto simp: touches_def tidy_def live_insert_data deadlines_rules)
  with Some show ?thesis
    by (auto simp: rename_to_def Let_def intro!: touch split: option.split)
qed (simp add: rename_to_def touches_refl)

lemma touches_rename:
  "touches {src, dst} s (fst (execute_rename src dst s))"
  "touches {src, dst} s (fst (execute_renamenx src dst s))"
  by (simp_all add: execute_rename_def execute_renamenx_def touches_rename_to touches_refl)

lemma sort_ne: "sort xs = [] \<longleftrightarrow> xs = []"
  by (metis set_empty set_sort)

lemma touches_sort_store [touch]:
  "touches K s s' \<Longrightarrow> (\<And>d. store = Some d \<Longrightarrow> d \<in> K) \<Longrightarrow>
     touches K s (fst (sort_store members store s'))"
  by (auto simp: sort_store_def Let_def fold_rpush list_is_empty_def sort_ne intro!: touch
      split: option.split)

lemma touches_sort: "touches (set (key_keys (Sort k store))) s (fst (execute_sort it k store s))"
  by (auto simp: execute_sort_def reads intro!: touch split: option.split redis_value.split)

lemma touches_run_key:
  "\<not> flushes (KeyC c) \<Longrightarrow> touches (set (key_keys c)) s (fst (run_key it c s))"
proof (cases c)
  case (Sort k store)
  then show ?thesis using touches_sort [of k store s it] by simp
qed (auto simp: touches_key_writes touches_rename execute_randomkey_def
    intro: touch touches_mono [OF touches_key_reads(1)] touches_mono [OF touches_key_reads(2)]
      touches_mono [OF touches_key_reads(3)] touches_mono [OF touches_key_reads(4)]
      touches_mono [OF touches_key_reads(5)] touches_mono [OF touches_key_reads(6)]
      touches_mono [OF touches_key_reads(7)])

lemma touches_run_data:
  "wf_data c \<Longrightarrow> \<not> flushes c \<Longrightarrow> c \<noteq> Unwatch \<Longrightarrow>
     touches (set (data_keys c)) s (fst (run_data it c s))"
  by (cases c)
    (simp_all add: touches_run_string touches_run_key touches_run_list touches_run_set
      touches_run_hash touches_run_server)

section \<open>Errors\<close>

text \<open>\<open>clean r\<close>: if the reply is an error, the store is as it was.\<close>

definition clean :: "executor \<Rightarrow> reply \<Rightarrow> bool" where
  "clean s r \<longleftrightarrow> (case snd r of Error _ \<Rightarrow> live (fst r) = live s | _ \<Rightarrow> True)"

lemma clean_simps [simp]:
  "clean s (s', Integer n)" "clean s (s', BulkString b)" "clean s (s', Array a)"
  "clean s (s', SimpleString t)" "clean s (s', ok)" "clean s (s', nil)"
  "clean s (s', err e) \<longleftrightarrow> live s' = live s"
  by (simp_all add: clean_def ok_def nil_def err_def)

lemma clean_purge [simp]: "clean s (purge_if_expired key s, r)" "clean s (s, r)"
  by (simp_all add: clean_def split: resp_value.split)

lemmas clean_splits = option.split redis_value.split

lemma clean_set_checked: "clean s (set_checked key v ex px exat pxat nx xx get keepttl old s')"
  by (simp add: set_checked_def Let_def)

lemma clean_run_string: "clean s (run_string c s)"
proof (cases c)
  case (SetCmd k v ex px exat pxat nx xx get keepttl)
  then show ?thesis
    by (simp add: execute_set_def reads clean_set_checked split: clean_splits)
next
  case (GetEx k ex px exat pxat pers)
  then show ?thesis by (simp add: execute_getex_def reads split: clean_splits)
qed (simp_all add: execute_get_def execute_setnx_def execute_append_def execute_getset_def
    execute_strlen_def execute_mget_def execute_mset_def execute_msetnx_def execute_batch_set_def
    execute_batch_get_def execute_getrange_def execute_setrange_def execute_setbit_def
    execute_getbit_def execute_getdel_def incr_by_impl_def reads split: clean_splits)

lemma clean_run_key: "clean s (run_key it c s)"
  by (cases c)
    (simp_all add: execute_del_def execute_exists_def execute_typeof_def execute_keys_def
      execute_flush_def execute_expire_def execute_pexpire_def execute_expiretime_def
      execute_pexpiretime_def execute_expireat_def execute_pexpireat_def expire_at_relative_def
      execute_ttl_def execute_pttl_def execute_persist_def execute_sort_def sort_store_def
      execute_randomkey_def execute_rename_def execute_renamenx_def reads split: clean_splits)

lemma clean_run_list:
  "(\<forall>src dst. c \<noteq> RPopLPush src dst) \<Longrightarrow> (\<forall>src dst a b. c \<noteq> LMove src dst a b) \<Longrightarrow>
     clean s (run_list c s)"
  by (cases c)
    (simp_all add: execute_lpush_def execute_rpush_def push_with_def execute_lpop_def
      execute_rpop_def pop_with_def drop_empty_list_def execute_llen_def execute_lindex_def
      index_reply_def execute_lrange_def execute_lset_def execute_ltrim_def reads
      split: clean_splits sum.split list.split)

lemma clean_run_set: "clean s (run_set it c s)"
  by (cases c)
    (simp_all add: execute_sadd_def execute_srem_def execute_smembers_def execute_sismember_def
      execute_scard_def execute_spop_def drop_empty_set_def reads split: clean_splits)

lemma clean_run_hash: "wf_data (HashC c) \<Longrightarrow> clean s (run_hash it c s)"
  by (cases c)
    (simp_all add: execute_hset_def execute_hget_def execute_hdel_def execute_hgetall_def
      execute_hkeys_def execute_hvals_def execute_hlen_def execute_hexists_def execute_hincrby_def
      incr_field_def checked_add_def hash_get_def drop_empty_hash_def reads split: clean_splits)

lemma clean_run_server: "clean s (run_server c s)"
proof (cases c)
  case (Ping m)
  then show ?thesis by (cases m) (simp_all add: pong_def)
qed (simp_all add: execute_info_def execute_dbsize_def execute_time_def object_reply_def reads
    split: clean_splits)

fun moves :: "command \<Rightarrow> bool" where
  "moves (Data (ListC (RPopLPush _ _))) = True"
| "moves (Data (ListC (LMove _ _ _ _))) = True"
| "moves _ = False"

fun wf_command :: "command \<Rightarrow> bool" where
  "wf_command (Data c) = wf_data c"
| "wf_command _ = True"

lemma clean_run_data:
  "wf_data c \<Longrightarrow> \<not> moves (Data c) \<Longrightarrow> clean s (run_data it c s)"
proof (cases c)
  case (ListC l)
  assume "\<not> moves (Data c)"
  with ListC show ?thesis by (auto intro!: clean_run_list)
qed (simp_all add: clean_run_string clean_run_key clean_run_set clean_run_hash clean_run_server
    execute_unwatch_def)

lemma live_count_command [simp]: "live (count_command s) = live s"
  by (simp add: count_command_def)

text \<open>
  A command that replies with an error leaves the live view of the store as it was, in and
  out of a transaction. \<open>RPOPLPUSH\<close> and \<open>LMOVE\<close> are the exceptions.
\<close>

theorem error_leaves_store:
  assumes "wf_command cmd" "\<not> moves cmd" "snd (execute it cmd s) = Error e"
  shows "live (fst (execute it cmd s)) = live s"
proof (cases cmd)
  case (Data c)
  then show ?thesis
    using assms clean_run_data [of c "count_command s" it]
    by (auto simp: execute_data_def Let_def clean_def queued_def split: if_splits)
next
  case Exec
  then show ?thesis
    using assms(3) by (auto simp: execute_exec_def Let_def split_beta split: if_splits)
qed (use assms(3) in \<open>auto simp: execute_multi_def execute_discard_def execute_watch_def ok_def
    split: if_splits\<close>)

theorem error_leaves_store_witness:
  "live (fst (execute sorted_list_of_fset (Data (ListC (LSet ''k'' 0 ''v''))) exec_new)) = live exec_new"
proof (rule error_leaves_store)
  show "snd (execute sorted_list_of_fset (Data (ListC (LSet ''k'' 0 ''v''))) exec_new) = Error ''ERR no such key''"
    by (simp add: execute_data_def count_command_def exec_new_def execute_lset_def Let_def
        purge_if_expired_def is_expired_def err_def)
qed simp_all

text \<open>
  \<open>RPOPLPUSH\<close> and \<open>LMOVE\<close> to a destination that is not a list reply with an error and lose the
  element they popped from the source.
\<close>

theorem move_to_wrong_type_loses_element:
  assumes "exec_inv s" "live s source = Some (List (l @ [x]), d)" "live s dest = Some (v, d')"
    and "\<not> (\<exists>l'. v = List l')"
  shows "snd (execute_rpoplpush source dest s) = WRONGTYPE \<and>
    live (fst (execute_rpoplpush source dest s)) =
      (live s)(source := (if l = [] then None else Some (List l, d)))"
proof -
  have ne: "source \<noteq> dest" using assms(2-4) by auto
  let ?s1 = "purge_if_expired source s"
  let ?s2 = "drop_empty_list source (insert_data source (List l) ?s1)"
  have vis: "visible s source = Some (List (l @ [x]))" "visible s dest = Some v"
    using assms(2,3) by (simp_all add: visible_def)
  have live2: "live ?s2 = (live s)(source := (if l = [] then None else Some (List l, d)))"
    using assms(1,2) by (simp add: drop_empty_put live_put)
  then have "visible ?s2 dest = Some v" using ne assms(3) by (simp add: visible_def)
  then have "push_with (\<lambda>l. list_lpush l x) (\<lambda>_. bulk x) dest (purge_if_expired dest ?s2)
      = (purge_if_expired dest ?s2, WRONGTYPE)"
    using assms(4) by (cases v) (simp_all add: push_with_def)
  then have "execute_rpoplpush source dest s = (purge_if_expired dest ?s2, WRONGTYPE)"
    by (simp add: execute_rpoplpush_def move_with_def Let_def vis list_rpop_def)
  with live2 show ?thesis by simp
qed

theorem move_to_wrong_type_loses_element_witness:
  "let s = exec_new\<lparr>data := fmupd ''dst'' (String ''s'') (fmupd ''src'' (List [''a'', ''b'']) fmempty)\<rparr>
   in snd (execute_rpoplpush ''src'' ''dst'' s) = WRONGTYPE \<and>
      live (fst (execute_rpoplpush ''src'' ''dst'' s)) ''src'' = Some (List [''a''], None)"
proof -
  let ?s = "exec_new\<lparr>data := fmupd ''dst'' (String ''s'') (fmupd ''src'' (List [''a'', ''b'']) fmempty)\<rparr>"
  have "exec_inv ?s" by (auto simp: exec_inv_def exec_new_def list_is_empty_def)
  moreover have "live ?s ''src'' = Some (List ([''a''] @ [''b'']), None)"
      "live ?s ''dst'' = Some (String ''s'', None)"
    by (simp_all add: live_def is_expired_def exec_new_def)
  ultimately show ?thesis
    using move_to_wrong_type_loses_element [of ?s "''src''" "[''a'']" "''b''" None "''dst''" "String ''s''" None]
    by simp
qed

section \<open>Reads and frames\<close>

lemma touches_read_only:
  "is_read_only (Data c) \<Longrightarrow> touches {} s (fst (run_data it c s))"
proof (cases c)
  case (StringC x)
  assume "is_read_only (Data c)"
  with StringC show ?thesis by (cases x) (simp_all add: touches_string_reads)
next
  case (KeyC x)
  assume "is_read_only (Data c)"
  with KeyC show ?thesis
    by (cases x) (simp_all add: touches_key_reads execute_randomkey_def touches_refl)
next
  case (ListC x)
  assume "is_read_only (Data c)"
  with ListC show ?thesis by (cases x) (simp_all add: touches_list_reads)
next
  case (SetC x)
  assume "is_read_only (Data c)"
  with SetC show ?thesis by (cases x) (simp_all add: touches_set_reads)
next
  case (HashC x)
  assume "is_read_only (Data c)"
  with HashC show ?thesis by (cases x) (simp_all add: touches_hash_reads)
qed (simp_all add: touches_run_server)

text \<open>
  A command that \<open>is_read_only\<close> accepts leaves the live view of the store as it was, whether
  it runs or is queued.
\<close>

theorem read_only_commands:
  assumes "is_read_only cmd"
  shows "live (fst (execute it cmd s)) = live s"
proof (cases cmd)
  case (Data c)
  then have "live (fst (run_data it c (count_command s))) = live (count_command s)"
    using assms by (intro touches_none_live touches_read_only) simp
  with Data show ?thesis by (simp add: execute_data_def Let_def)
qed (use assms in simp_all)

theorem read_only_commands_witness:
  "live (fst (execute sorted_list_of_fset (Data (KeyC (Keys ''*''))) exec_new)) = live exec_new"
  by (rule read_only_commands) simp

lemma live_run_data_frame:
  "wf_data c \<Longrightarrow> \<not> flushes c \<Longrightarrow> k \<notin> set (data_keys c) \<Longrightarrow> live (fst (run_data it c s)) k = live s k"
  using touches_run_data [of c s it]
  by (cases "c = Unwatch") (auto simp: touches_def tidy_def execute_unwatch_def)

lemma live_execute_data_frame:
  "wf_data c \<Longrightarrow> \<not> flushes c \<Longrightarrow> k \<notin> set (data_keys c) \<Longrightarrow>
     live (fst (execute_data it c s)) k = live s k"
  by (simp add: execute_data_def Let_def live_run_data_frame)

lemma live_execute_all_frame:
  "\<forall>c\<in>set cs. wf_data c \<and> \<not> flushes c \<and> k \<notin> set (data_keys c) \<Longrightarrow>
     live (fst (execute_all it cs s)) k = live s k"
  by (induction cs arbitrary: s) (simp_all add: split_beta Let_def live_execute_data_frame)

fun commands_run :: "command \<Rightarrow> executor \<Rightarrow> data_command list" where
  "commands_run (Data c) s = [c]"
| "commands_run Exec s = queued_commands s"
| "commands_run _ s = []"



end
