(* ===== verification/Transactions.thy ===== *)
theory Transactions
  imports Executor_Laws
begin

text \<open>
  Runs of the executor: the step relation of everything its owner calls, the invariants that hold
  in every run, and what \<open>MULTI\<close>, \<open>EXEC\<close> and \<open>WATCH\<close> guarantee.
\<close>

section \<open>Runs\<close>

inductive exec_step :: "order \<Rightarrow> executor \<Rightarrow> executor \<Rightarrow> bool" for it where
  command: "wf_command cmd \<Longrightarrow> exec_step it s (fst (execute it cmd s))"
| fast_get: "exec_step it s (fst (get_direct key s))"
| fast_set: "exec_step it s (fst (set_direct key v s))"
| time: "exec_step it s (set_time t s)"
| evict: "exec_step it s (fst (evict_expired_direct t s))"
| time_readonly: "exec_step it s (update_time_readonly t s)"
| epoch: "exec_step it s (set_simulation_start_epoch n s)"
| epoch_ms: "exec_step it s (set_simulation_start_epoch_ms n s)"

inductive reachable :: "order \<Rightarrow> executor \<Rightarrow> bool" for it where
  start: "reachable it exec_new"
| step: "reachable it s \<Longrightarrow> exec_step it s s' \<Longrightarrow> reachable it s'"

definition run_inv :: "executor \<Rightarrow> bool" where
  "run_inv s \<longleftrightarrow>
     exec_inv s \<and> list_all wf_data (queued_commands s) \<and>
     (\<not> in_transaction s \<longrightarrow> queued_commands s = [])"

lemma exec_inv_upd [simp]:
  "exec_inv (s\<lparr>commands_processed := n\<rparr>) = exec_inv s"
  "exec_inv (s\<lparr>in_transaction := b\<rparr>) = exec_inv s"
  "exec_inv (s\<lparr>queued_commands := q\<rparr>) = exec_inv s"
  "exec_inv (s\<lparr>watched_keys := w\<rparr>) = exec_inv s"
  "exec_inv (s\<lparr>simulation_start_epoch := e\<rparr>) = exec_inv s"
  "exec_inv (s\<lparr>simulation_start_epoch_ms := e\<rparr>) = exec_inv s"
  "exec_inv (count_command s) = exec_inv s"
  by (simp_all add: exec_inv_def count_command_def)

lemma count_command_simps [simp]:
  "in_transaction (count_command s) = in_transaction s"
  "queued_commands (count_command s) = queued_commands s"
  "watched_keys (count_command s) = watched_keys s"
  "data (count_command s) = data s"
  by (simp_all add: count_command_def)

lemma run_data_keeps:
  assumes "wf_data c"
  shows "exec_inv s \<Longrightarrow> exec_inv (fst (run_data it c s))"
    and "in_transaction (fst (run_data it c s)) = in_transaction s"
    and "queued_commands (fst (run_data it c s)) = queued_commands s"
proof -
  have flush: "touches UNIV s (fst (run_data it c s))" if "flushes c"
    using that touches_flush by (cases c rule: flushes.cases) simp_all
  have "touches UNIV s (fst (run_data it c s))" if "c \<noteq> Unwatch"
    using touches_run_data [OF assms _ that, of s it] flush touches_mono by blast
  then show "exec_inv s \<Longrightarrow> exec_inv (fst (run_data it c s))"
      "in_transaction (fst (run_data it c s)) = in_transaction s"
      "queued_commands (fst (run_data it c s)) = queued_commands s"
    by (cases "c = Unwatch"; simp add: touches_def tidy_def env_def execute_unwatch_def)+
qed

lemma run_inv_execute_data: "wf_data c \<Longrightarrow> run_inv s \<Longrightarrow> run_inv (fst (execute_data it c s))"
  by (simp add: execute_data_def Let_def run_inv_def run_data_keeps)

lemma run_inv_execute_all:
  "list_all wf_data cs \<Longrightarrow> run_inv s \<Longrightarrow> run_inv (fst (execute_all it cs s))"
  by (induction cs arbitrary: s) (simp_all add: split_beta Let_def run_inv_execute_data)

lemma run_inv_execute: "wf_command cmd \<Longrightarrow> run_inv s \<Longrightarrow> run_inv (fst (execute it cmd s))"
proof (cases cmd)
  case Exec
  assume inv: "run_inv s"
  let ?s = "(count_command s)\<lparr>in_transaction := False, queued_commands := [], watched_keys := fmempty\<rparr>"
  have "run_inv ?s" using inv by (simp add: run_inv_def)
  then have "run_inv (fst (execute_all it (queued_commands s) ?s))"
    using inv by (intro run_inv_execute_all) (simp_all add: run_inv_def)
  with inv Exec \<open>run_inv ?s\<close> show ?thesis
    by (simp add: execute_exec_def split_beta Let_def) (simp add: run_inv_def)
qed (simp_all add: run_inv_execute_data,
    simp_all add: run_inv_def execute_multi_def execute_discard_def execute_watch_def)

lemma run_inv_evict: "run_inv s \<Longrightarrow> run_inv (evict_expired_keys s)"
  using exec_inv_evict [of s] by (simp add: run_inv_def evict_expired_keys_def Let_def)

lemma run_inv_set_time: "run_inv s \<Longrightarrow> run_inv (set_time t s)"
  unfolding set_time_def by (rule run_inv_evict) (simp add: run_inv_def exec_inv_time)

lemma evict_direct_set_time: "fst (evict_expired_direct t s) = set_time t s"
  by (simp add: evict_expired_direct_def set_time_def evict_expired_keys_def Let_def)

lemma run_inv_touches: "touches K s s' \<Longrightarrow> run_inv s \<Longrightarrow> run_inv s'"
  by (simp add: touches_def tidy_def env_def run_inv_def)

lemma run_inv_fast:
  assumes "run_inv s"
  shows "run_inv (fst (get_direct key s))" "run_inv (fst (set_direct key v s))"
proof -
  let ?s = "s\<lparr>commands_processed := commands_processed s + 1\<rparr>"
  have inv: "run_inv ?s" using assms by (simp add: run_inv_def)
  have "touches {key} ?s (fst (get_direct key s))"
    by (auto simp: get_direct_def reads intro: touch)
  then show "run_inv (fst (get_direct key s))" using inv by (rule run_inv_touches)
  have "touches {key} ?s (fst (set_direct key v s))"
    by (auto simp: set_direct_def intro!: touch)
  then show "run_inv (fst (set_direct key v s))" using inv by (rule run_inv_touches)
qed

lemma run_inv_step: "exec_step it s s' \<Longrightarrow> run_inv s \<Longrightarrow> run_inv s'"
  by (induction rule: exec_step.induct)
    (simp_all add: run_inv_execute run_inv_fast run_inv_set_time evict_direct_set_time,
      simp_all add: run_inv_def update_time_readonly_def exec_inv_time set_simulation_start_epoch_def
        set_simulation_start_epoch_ms_def Let_def)

lemma run_inv_reachable: "reachable it s \<Longrightarrow> run_inv s"
proof (induction rule: reachable.induct)
  case start
  show ?case by (simp add: run_inv_def exec_new_def exec_inv_def)
qed (rule run_inv_step)



section \<open>\<open>MULTI\<close> and \<open>EXEC\<close>\<close>

lemma execute_all_queues:
  "in_transaction s \<Longrightarrow>
     execute_all it cs s =
       (s\<lparr>commands_processed := commands_processed s + length cs,
          queued_commands := queued_commands s @ cs\<rparr>, replicate (length cs) queued)"
  by (induction cs arbitrary: s) (simp_all add: execute_data_def Let_def count_command_def)

lemma watch_violated_cong:
  "data s = data t \<Longrightarrow> watched_keys s = watched_keys t \<Longrightarrow> watch_violated s = watch_violated t"
  by (simp add: watch_violated_def)

text \<open>
  C10. Between \<open>MULTI\<close> and \<open>EXEC\<close> every command is answered with \<open>QUEUED\<close> and nothing visible changes.
  \<open>EXEC\<close> then runs the queued commands in their order, exactly as if they had been sent one after
  the other, and returns their replies; if a watched key changed it runs none of them.
\<close>

theorem multi_exec_runs_queue:
  assumes "reachable it s" "\<not> in_transaction s"
  shows "let s1 = fst (execute it Multi s); (s2, rs) = execute_all it cs s1 in
    rs = replicate (length cs) queued \<and> live s2 = live s \<and>
    (let clean = s\<lparr>commands_processed := commands_processed s + length cs + 2,
                   watched_keys := fmempty\<rparr>
     in execute it Exec s2 =
          (if watch_violated s then (clean, BulkString None)
           else (fst (execute_all it cs clean), Array (Some (snd (execute_all it cs clean))))))"
proof -
  have q: "queued_commands s = []"
    using run_inv_reachable [OF assms(1)] assms(2) by (simp add: run_inv_def)
  let ?s1 = "fst (execute it Multi s)"
  have s1: "?s1 = s\<lparr>commands_processed := commands_processed s + 1, in_transaction := True,
      queued_commands := []\<rparr>"
    using assms(2) by (simp add: execute_multi_def count_command_def)
  let ?s2 = "s\<lparr>commands_processed := commands_processed s + 1 + length cs, in_transaction := True,
      queued_commands := cs\<rparr>"
  have s2: "execute_all it cs ?s1 = (?s2, replicate (length cs) queued)"
    unfolding s1 by (simp add: execute_all_queues)
  have w: "watch_violated (count_command ?s2) = watch_violated s"
    by (rule watch_violated_cong) simp_all
  have reset: "(count_command ?s2)\<lparr>in_transaction := False, queued_commands := [],
      watched_keys := fmempty\<rparr> = s\<lparr>commands_processed := commands_processed s + length cs + 2,
      watched_keys := fmempty\<rparr>"
    using assms(2) q by (simp add: count_command_def)
  have "execute it Exec ?s2 =
    (let clean = s\<lparr>commands_processed := commands_processed s + length cs + 2,
       watched_keys := fmempty\<rparr>
     in if watch_violated s then (clean, BulkString None)
        else (fst (execute_all it cs clean), Array (Some (snd (execute_all it cs clean)))))"
    unfolding execute.simps execute_exec_def w reset [symmetric]
    by (simp add: Let_def split_beta)
  then show ?thesis unfolding Let_def s2 by (simp del: execute.simps)
qed

theorem multi_exec_runs_queue_witness:
  "let it = sorted_list_of_fset; cs = [StringC (Incr ''k''), StringC (Get ''k'')];
       s2 = fst (execute_all it cs (fst (execute it Multi exec_new)))
   in snd (execute it Exec s2) = Array (Some [Integer 1, bulk ''1''])"
proof -
  let ?cs = "[StringC (Incr ''k''), StringC (Get ''k'')]"
  let ?it = "sorted_list_of_fset :: order"
  let ?clean = "exec_new\<lparr>commands_processed := 0 + 2 + 2, watched_keys := fmempty\<rparr>"
  have new: "\<not> in_transaction exec_new" "\<not> watch_violated exec_new" "commands_processed exec_new = 0"
    by (simp_all add: exec_new_def watch_violated_def)
  have "snd (execute_all ?it ?cs ?clean) = [Integer 1, bulk ''1'']"
    by (simp add: execute_data_def count_command_def exec_new_def incr_by_impl_def reads
        visible_def live_def is_expired_def purge_if_expired_def insert_data_def execute_get_def
        show_int_def show_nat.simps)
  with multi_exec_runs_queue [OF reachable.start new(1), of ?it ?cs] new(2,3) show ?thesis
    by (simp add: Let_def split_beta numeral_2_eq_2)
qed

section \<open>\<open>WATCH\<close>\<close>

lemma watched_lookup:
  "fmlookup (fold (\<lambda>k m. fmupd k (f k) m) keys m) k =
     (if k \<in> set keys then Some (f k) else fmlookup m k)"
  by (induction keys arbitrary: m) auto

text \<open>
  \<open>WATCH\<close> guards values: after a \<open>WATCH\<close> in state \<open>s\<close>, an \<open>EXEC\<close> in a later state \<open>t\<close> aborts, with
  the nil reply and nothing changed, exactly when some watched key holds a different value in
  \<open>t\<close> than it held in \<open>s\<close>. A key that was written and then restored, or whose expiry changed,
  does not abort it.
\<close>

theorem watch_compares_values:
  assumes "\<not> in_transaction s" "watched_keys s = fmempty" "in_transaction t"
    and "watched_keys t = watched_keys (fst (execute it (Watch keys) s))"
  shows "(snd (execute it Exec t) = BulkString None \<longleftrightarrow>
      \<not> list_all (\<lambda>k. value_option_eq (fmlookup (data t) k) (fmlookup (data s) k)) keys) \<and>
    (snd (execute it Exec t) = BulkString None \<longrightarrow> live (fst (execute it Exec t)) = live t)"
proof -
  have w: "fmlookup (watched_keys t) k = (if k \<in> set keys then Some (fmlookup (data s) k) else None)" for k
    using assms by (simp add: execute_watch_def watched_lookup)
  then have "fset (fmdom (watched_keys t)) = set keys" by (auto simp: fmlookup_dom_iff split: if_splits)
  then have "watch_violated (count_command t) \<longleftrightarrow>
      \<not> list_all (\<lambda>k. value_option_eq (fmlookup (data t) k) (fmlookup (data s) k)) keys"
    by (auto simp: watch_violated_def list_all_iff w)
  with assms(3) show ?thesis
    by (auto simp: execute_exec_def Let_def split_beta)
qed

theorem watch_compares_values_witness:
  "let it = sorted_list_of_fset;
       s = fst (set_direct ''k'' ''v'' exec_new);
       watching = fst (execute it (Watch [''k'']) s);
       restored = fst (set_direct ''k'' ''v'' (fst (set_direct ''k'' ''other'' watching)));
       t = fst (execute it Multi restored)
   in snd (execute it Exec t) \<noteq> BulkString None"
proof -
  let ?it = "sorted_list_of_fset :: order"
  let ?s = "fst (set_direct ''k'' ''v'' exec_new)"
  let ?watching = "fst (execute ?it (Watch [''k'']) ?s)"
  let ?restored = "fst (set_direct ''k'' ''v'' (fst (set_direct ''k'' ''other'' ?watching)))"
  let ?t = "fst (execute ?it Multi ?restored)"
  have "\<not> in_transaction ?s" "watched_keys ?s = fmempty" "in_transaction ?t"
      "watched_keys ?t = watched_keys ?watching"
      "fmlookup (data ?t) ''k'' = Some (String ''v'')" "fmlookup (data ?s) ''k'' = Some (String ''v'')"
    by (simp_all add: set_direct_def remove_expiry_def insert_data_def exec_new_def
        execute_watch_def execute_multi_def count_command_def)
  with watch_compares_values [of ?s ?t ?it "[''k'']"] show ?thesis
    by (simp add: Let_def del: execute.simps)
qed

end
