(* ===== verification/String_Laws.thy ===== *)
theory String_Laws
  imports String_Ops
begin

text \<open>
  What the string and bitmap commands do to the live view: \<open>SET\<close> with all its options against a
  specification on the entry of one key, counters, byte ranges and bits.
\<close>

section \<open>\<open>SET\<close>\<close>

text \<open>
  The specification computes deadlines in unbounded integers: the entry lives until its deadline,
  and a deadline that is not in the future leaves no entry.
\<close>

definition spec_deadline ::
  "int \<Rightarrow> int \<Rightarrow> i64 option \<Rightarrow> i64 option \<Rightarrow> i64 option \<Rightarrow> i64 option \<Rightarrow> bool \<Rightarrow> u64 option \<Rightarrow> int option" where
  "spec_deadline now epoch ex px exat pxat keepttl old =
     (case ex of Some n \<Rightarrow> Some (now + 1000 * n) | None \<Rightarrow>
      case px of Some n \<Rightarrow> Some (now + n) | None \<Rightarrow>
      case exat of Some n \<Rightarrow> Some (sat_i64 (sat_i64 (n * 1000) - epoch)) | None \<Rightarrow>
      case pxat of Some n \<Rightarrow> Some (sat_i64 (n - epoch)) | None \<Rightarrow>
      if keepttl then map_option uint old else None)"

definition entry_until :: "int \<Rightarrow> redis_value \<Rightarrow> int option \<Rightarrow> entry option" where
  "entry_until now v d =
     (case d of None \<Rightarrow> Some (v, None)
      | Some t \<Rightarrow> if t \<le> now then None else Some (v, Some (word_of_int t)))"

fun string_of_entry :: "entry option \<Rightarrow> bytes option" where
  "string_of_entry (Some (String b, _)) = Some b"
| "string_of_entry _ = None"

definition spec_checked ::
  "int \<Rightarrow> int \<Rightarrow> bytes \<Rightarrow> i64 option \<Rightarrow> i64 option \<Rightarrow> i64 option \<Rightarrow> i64 option \<Rightarrow> bool \<Rightarrow> bool \<Rightarrow> bool \<Rightarrow> bool
    \<Rightarrow> bytes option \<Rightarrow> entry option \<Rightarrow> entry option \<times> resp_value" where
  "spec_checked now epoch v ex px exat pxat nx xx get keepttl old e =
     (if nx \<and> e \<noteq> None then (e, BulkString old)
      else if xx \<and> e = None then (e, nil)
      else (entry_until now (String v)
              (spec_deadline now epoch ex px exat pxat keepttl (Option.bind e snd)),
            if get then BulkString old else ok))"

definition spec_set ::
  "int \<Rightarrow> int \<Rightarrow> bytes \<Rightarrow> i64 option \<Rightarrow> i64 option \<Rightarrow> i64 option \<Rightarrow> i64 option \<Rightarrow> bool \<Rightarrow> bool \<Rightarrow> bool \<Rightarrow> bool
    \<Rightarrow> entry option \<Rightarrow> entry option \<times> resp_value" where
  "spec_set now epoch v ex px exat pxat nx xx get keepttl e =
     (if set_invalid_expire ex px exat pxat
      then (e, err ''ERR invalid expire time in 'set' command'')
      else if get \<and> e \<noteq> None \<and> string_of_entry e = None then (e, WRONGTYPE)
      else spec_checked now epoch v ex px exat pxat nx xx get keepttl
             (if get then string_of_entry e else None) e)"

lemma uint_add_duration:
  "0 \<le> d \<Longrightarrow> uint now + d < 2 ^ 64 \<Longrightarrow> uint (now + word_of_int d :: u64) = uint now + d"
  using uint_ge_0 [of now] by (simp add: uint_word_ariths(1) uint_word_of_int mod_simps)

lemma live_deadline:
  assumes "fmlookup (data s) key = Some v" "0 \<le> d" "uint (current_time s) + d < 2 ^ 64"
  shows "live (insert_expiry key (current_time s + word_of_int d) s) key =
    entry_until (uint (current_time s)) v (Some (uint (current_time s) + d))"
  using assms uint_add_duration [of d "current_time s"]
  by (simp add: entry_until_def word_le_def)

lemma live_expire_relative:
  assumes "fmlookup (data s) key = Some v" "in_i64 rel" "uint (current_time s) < 2 ^ 63"
  shows "live (expire_relative key rel s) key =
    entry_until (uint (current_time s)) v (Some rel)"
proof (cases "rel \<le> 0")
  case True
  moreover have "0 \<le> uint (current_time s)" by simp
  ultimately have "rel \<le> uint (current_time s)" by (rule order_trans)
  with True show ?thesis by (simp add: expire_relative_def entry_until_def)
next
  case False
  with assms(2) have "uint (word_of_int rel :: u64) = rel"
    by (simp add: in_i64_def uint_word_of_int)
  with False assms(1) show ?thesis
    by (simp add: expire_relative_def entry_until_def word_le_def)
qed

lemma live_set_expiration:
  assumes d: "fmlookup (data s) key = Some v"
    and clock: "uint (current_time s) < 2 ^ 63"
    and valid: "\<not> set_invalid_expire ex px exat pxat"
    and px: "\<forall>n. px = Some n \<longrightarrow> in_i64 n"
  shows "live (set_expiration key ex px exat pxat keepttl s) key =
    entry_until (uint (current_time s)) v
      (spec_deadline (uint (current_time s)) (simulation_start_epoch_ms s) ex px exat pxat keepttl
        (fmlookup (expirations s) key))"
proof -
  let ?now = "uint (current_time s)"
  have ex: "live (insert_expiry key (after_secs s n) s) key = entry_until ?now v (Some (?now + 1000 * n))"
    if "ex = Some n" for n
    using live_deadline [OF d, of "n * 1000"] that valid clock
    by (simp add: after_secs_def set_invalid_expire_def quot_i64_def mult.commute)
  have px': "live (insert_expiry key (after_millis s n) s) key = entry_until ?now v (Some (?now + n))"
    if "px = Some n" for n
    using live_deadline [OF d, of n] that valid clock px
    by (simp add: after_millis_def set_invalid_expire_def in_i64_def)
  have keep: "live s key = entry_until ?now v (map_option uint (fmlookup (expirations s) key))"
    using d by (cases "fmlookup (expirations s) key")
      (simp_all add: live_def is_expired_def entry_until_def word_le_def)
  have clear: "live (remove_expiry key s) key = entry_until ?now v None"
    using d by (simp add: entry_until_def)
  show ?thesis
    using ex px' keep clear live_expire_relative [OF d _ clock]
    by (simp add: set_expiration_def spec_deadline_def relative_ms_def split: option.split
        del: live_remove_expiry live_insert_expiry)
qed

lemma expiry_at:
  "exec_inv s \<Longrightarrow> \<not> is_expired s key \<Longrightarrow> fmlookup (expirations s) key = Option.bind (live s key) snd"
  using purge_expiry_at [of s key] by (simp add: purge_if_expired_def)

lemma live_None_iff: "visible s key = None \<longleftrightarrow> live s key = None"
  by (simp add: visible_def)

lemma set_checked_spec:
  assumes inv: "exec_inv s" and clock: "uint (current_time s) < 2 ^ 63"
    and valid: "\<not> set_invalid_expire ex px exat pxat"
    and px: "\<forall>n. px = Some n \<longrightarrow> in_i64 n"
    and keep: "keepttl \<longrightarrow> \<not> is_expired s key"
  shows "(live (fst (set_checked key v ex px exat pxat nx xx get keepttl old s)) key,
      snd (set_checked key v ex px exat pxat nx xx get keepttl old s)) =
    spec_checked (uint (current_time s)) (simulation_start_epoch_ms s)
      v ex px exat pxat nx xx get keepttl old (live s key)"
proof -
  let ?s = "insert_data key (String v) s"
  have env: "current_time ?s = current_time s"
      "simulation_start_epoch_ms ?s = simulation_start_epoch_ms s"
      "expirations ?s = expirations s"
    by (simp_all add: insert_data_def)
  have same: "spec_deadline now epoch ex px exat pxat keepttl (fmlookup (expirations s) key)
      = spec_deadline now epoch ex px exat pxat keepttl (Option.bind (live s key) snd)" for now epoch
    using expiry_at [OF inv, of key] keep by (simp add: spec_deadline_def split: option.split)
  have "live (set_expiration key ex px exat pxat keepttl ?s) key =
    entry_until (uint (current_time s)) (String v)
      (spec_deadline (uint (current_time s)) (simulation_start_epoch_ms s) ex px exat pxat keepttl
        (Option.bind (live s key) snd))"
    using live_set_expiration [of ?s key "String v", OF _ _ valid px] clock by (simp add: env same)
  then show ?thesis
    by (cases "live s key") (simp_all add: set_checked_def key_exists live_None_iff spec_checked_def)
qed



section \<open>Counters\<close>

definition counter_at :: "executor \<Rightarrow> string \<Rightarrow> int \<Rightarrow> bool" where
  "counter_at s key n \<longleftrightarrow>
     (case visible s key of
        None \<Rightarrow> n = 0
      | Some (String b) \<Rightarrow> parse_i64 (utf8_lossy b) = Some n
      | Some _ \<Rightarrow> False)"

fun incr_all :: "string \<Rightarrow> i64 list \<Rightarrow> executor \<Rightarrow> executor \<times> resp_value list" where
  "incr_all key [] s = (s, [])"
| "incr_all key (i # is) s =
     (let (s1, r) = incr_by_impl key i s; (s2, rs) = incr_all key is s1 in (s2, r # rs))"

fun spec_incr :: "int \<Rightarrow> i64 list \<Rightarrow> int \<times> resp_value list" where
  "spec_incr n [] = (n, [])"
| "spec_incr n (i # is) =
     (if in_i64 (n + i) then map_prod id ((#) (Integer (n + i))) (spec_incr (n + i) is)
      else map_prod id ((#) (err ''ERR increment or decrement would overflow'')) (spec_incr n is))"

lemma visible_put [simp]:
  "visible (insert_data key v (purge_if_expired key s)) = (visible s)(key \<mapsto> v)"
  by (auto simp: visible_def live_insert_data fun_eq_iff)

lemma incr_step:
  assumes inv: "exec_inv s" and c: "counter_at s key n" and i: "in_i64 i"
  shows "let (s', r) = incr_by_impl key i s in
    exec_inv s' \<and> (\<forall>k. k \<noteq> key \<longrightarrow> live s' k = live s k) \<and>
    Option.bind (live s' key) snd = Option.bind (live s key) snd \<and>
    (if in_i64 (n + i) then counter_at s' key (n + i) \<and> r = Integer (n + i)
     else counter_at s' key n \<and> r = err ''ERR increment or decrement would overflow'')"
proof -
  let ?r = "incr_by_impl key i s"
  have frame: "exec_inv (fst ?r)" "\<forall>k. k \<noteq> key \<longrightarrow> live (fst ?r) k = live s k"
    using touches_string_writes(6) [of key s i] inv by (simp_all add: touches_def tidy_def)
  have "Option.bind (live (fst ?r) key) snd = Option.bind (live s key) snd \<and>
    (if in_i64 (n + i) then counter_at (fst ?r) key (n + i) \<and> snd ?r = Integer (n + i)
     else counter_at (fst ?r) key n \<and> snd ?r = err ''ERR increment or decrement would overflow'')"
    using inv c i
    by (auto simp: incr_by_impl_def reads counter_at_def parse_show_int live_put checked_add_def
        split: option.splits redis_value.splits)
  with frame show ?thesis by (simp add: split_beta)
qed

text \<open>
  A sequence of increments and decrements of a key that holds a counter replies with the
  running total, rejects exactly the steps that would leave the \<open>i64\<close> range and keeps the total
  on those, keeps the expiry of the key, and touches no other key. An absent key counts as 0.
\<close>

theorem incr_sequence:
  assumes "exec_inv s" "counter_at s key n" "list_all in_i64 is"
  shows "let (s', rs) = incr_all key is s; (total, replies) = spec_incr n is in
    rs = replies \<and> counter_at s' key total \<and>
    Option.bind (live s' key) snd = Option.bind (live s key) snd \<and>
    (\<forall>k. k \<noteq> key \<longrightarrow> live s' k = live s k)"
  using assms
proof (induction "is" arbitrary: s n)
  case (Cons i "is")
  let ?s = "fst (incr_by_impl key i s)"
  let ?n = "if in_i64 (n + i) then n + i else n"
  have step: "exec_inv ?s" "counter_at ?s key ?n" "\<forall>k. k \<noteq> key \<longrightarrow> live ?s k = live s k"
      "Option.bind (live ?s key) snd = Option.bind (live s key) snd"
      "snd (incr_by_impl key i s) =
        (if in_i64 (n + i) then Integer (n + i) else err ''ERR increment or decrement would overflow'')"
    using incr_step [OF Cons.prems(1,2), of i] Cons.prems(3) by (auto simp: split_beta split: if_splits)
  show ?case
    using Cons.IH [OF step(1,2)] Cons.prems(3) step(3-5)
    by (cases "in_i64 (n + i)") (simp_all add: split_beta Let_def)
qed simp

theorem incr_sequence_witness:
  "let (s', rs) = incr_all ''k'' [5, 9223372036854775807, - 7] exec_new in
   rs = [Integer 5, err ''ERR increment or decrement would overflow'', Integer (- 2)] \<and>
   counter_at s' ''k'' (- 2)"
proof -
  have "counter_at exec_new ''k'' 0" and "exec_inv exec_new"
    by (simp_all add: counter_at_def visible_def live_def exec_new_def exec_inv_def)
  with incr_sequence [of exec_new "''k''" 0 "[5, 9223372036854775807, - 7]"] show ?thesis
    by (simp add: split_beta in_i64_def Let_def)
qed

section \<open>Byte ranges\<close>

definition stored_bytes :: "executor \<Rightarrow> string \<Rightarrow> bytes option" where
  "stored_bytes s key =
     (case visible s key of None \<Rightarrow> Some [] | Some (String b) \<Rightarrow> Some b | Some _ \<Rightarrow> None)"

lemma overwrite_length: "length (overwrite b offset v) = max (length b) (offset + length v)"
  by (auto simp: overwrite_def Let_def copy_into_def vec_resize_def)

lemma overwrite_nth:
  assumes "i < length (overwrite b offset v)"
  shows "overwrite b offset v ! i =
    (if offset \<le> i \<and> i < offset + length v then v ! (i - offset)
     else if i < length b then b ! i else NUL)"
  using assms
  by (auto simp: overwrite_def Let_def copy_into_def vec_resize_def nth_append min_def)

lemma range_overwrite:
  assumes "v \<noteq> []"
  shows "range_bytes (overwrite b offset v) (int offset) (int (offset + length v) - 1) = v"
proof (rule nth_equalityI)
  let ?w = "overwrite b offset v"
  have pos: "0 < length v" using assms by simp
  then have eq: "range_bytes ?w (int offset) (int (offset + length v) - 1)
      = take (length v) (drop offset ?w)"
    by (simp add: range_bytes_def Let_def overwrite_length min_def max_def nat_diff_distrib
        nat_int_add)
  then show "length (range_bytes ?w (int offset) (int (offset + length v) - 1)) = length v"
    by (simp add: overwrite_length)
  show "range_bytes ?w (int offset) (int (offset + length v) - 1) ! i = v ! i"
    if "i < length (range_bytes ?w (int offset) (int (offset + length v) - 1))" for i
    using that unfolding eq by (simp add: overwrite_length overwrite_nth)
qed

lemma overwrite_empty: "overwrite [] offset v = copy_into (replicate (offset + length v) NUL) offset v"
  by (simp add: overwrite_def vec_resize_def copy_into_def)

text \<open>
  \<open>SETRANGE\<close> on a string or absent key stores the old bytes overwritten from the offset on,
  padded with zero bytes where the offset is past the end, replies with the new length, and
  keeps the expiry; \<open>GETRANGE\<close> of the written range then returns exactly the written bytes.
\<close>

theorem setrange_getrange:
  assumes "exec_inv s" "stored_bytes s key = Some b" "v \<noteq> []" "offset + length v \<le> 512 * 1024 * 1024"
  shows "let (s', r) = execute_setrange key offset v s; w = overwrite b offset v in
    live s' = (live s)(key \<mapsto> (String w, Option.bind (live s key) snd)) \<and>
    r = Integer (int (max (length b) (offset + length v))) \<and>
    (\<forall>i. i < length w \<longrightarrow> w ! i =
       (if offset \<le> i \<and> i < offset + length v then v ! (i - offset)
        else if i < length b then b ! i else NUL)) \<and>
    snd (execute_getrange key (int offset) (int (offset + length v) - 1) s') = bulk v"
proof -
  let ?w = "overwrite b offset v"
  let ?s = "insert_data key (String ?w) (purge_if_expired key s)"
  have "execute_setrange key offset v s = (?s, Integer (int (length ?w)))"
    using assms(2-4)
    by (auto simp: execute_setrange_def reads stored_bytes_def overwrite_empty
        split: option.splits redis_value.splits)
  moreover have "snd (execute_getrange key (int offset) (int (offset + length v) - 1) ?s) = bulk v"
    using range_overwrite [OF assms(3), of b offset] by (simp add: execute_getrange_def reads)
  ultimately show ?thesis
    using assms(1) by (simp add: live_put overwrite_length overwrite_nth)
qed

theorem setrange_getrange_witness:
  "let (s', r) = execute_setrange ''k'' 3 ''xyz'' exec_new in
   r = Integer 6 \<and> snd (execute_getrange ''k'' 3 5 s') = bulk ''xyz''"
proof -
  have "stored_bytes exec_new ''k'' = Some []" and "exec_inv exec_new"
    by (simp_all add: stored_bytes_def visible_def live_def exec_new_def exec_inv_def)
  with setrange_getrange [of exec_new "''k''" "[]" "''xyz''" 3] show ?thesis
    by (simp add: split_beta Let_def)
qed

section \<open>Bits\<close>

definition bit_pos :: "u64 \<Rightarrow> nat" where
  "bit_pos offset = 7 - unat offset mod 8"

lemma byte_word_inverse [simp]: "byte_word (word_byte w) = w"
proof -
  have "unat w < 2 ^ LENGTH(8)" by (rule unsigned_less)
  then show ?thesis by (simp add: byte_word_def word_byte_def)
qed

lemma bit_mask_eq: "bit_mask offset = 2 ^ bit_pos offset"
proof -
  define r where "r = unat offset mod 8"
  have "r < 8" by (simp add: r_def)
  then consider "r = 0" | "r = 1" | "r = 2" | "r = 3" | "r = 4" | "r = 5" | "r = 6" | "r = 7"
    by linarith
  then have "drop_bit r (0x80 :: 8 word) = 2 ^ (7 - r)" by cases simp_all
  then show ?thesis by (simp add: bit_mask_def bit_pos_def r_def unat_mod)
qed

lemma bit_of_byte_eq: "bit_of_byte c offset = (if bit (byte_word c) (bit_pos offset) then 1 else 0)"
  by (simp add: bit_of_byte_def bit_mask_eq and_exp_eq_0_iff_not_bit)

lemma bit_pos_less: "bit_pos offset < 8"
  by (simp add: bit_pos_def)

lemma bit_put_bit:
  "n < 8 \<Longrightarrow> bit (byte_word (put_bit c offset v)) n \<longleftrightarrow>
     (if n = bit_pos offset then v = 1 else bit (byte_word c) n)"
  using bit_pos_less [of offset]
  by (simp add: put_bit_def bit_mask_eq bit_simps)

definition bit_at :: "bytes \<Rightarrow> u64 \<Rightarrow> i64" where
  "bit_at b offset =
     (if byte_index offset \<ge> length b then 0 else bit_of_byte (b ! byte_index offset) offset)"

definition with_bit :: "bytes \<Rightarrow> u64 \<Rightarrow> nat \<Rightarrow> bytes" where
  "with_bit b offset v =
     (let i = byte_index offset; b' = (if length b < i + 1 then vec_resize b (i + 1) else b)
      in b'[i := put_bit (b' ! i) offset v])"

lemma same_bit:
  "offset = offset' \<longleftrightarrow> byte_index offset = byte_index offset' \<and> bit_pos offset = bit_pos offset'"
proof
  assume eq: "byte_index offset = byte_index offset' \<and> bit_pos offset = bit_pos offset'"
  then have "unat offset div 8 = unat offset' div 8" by (simp add: byte_index_def unat_div)
  moreover have "unat offset mod 8 = unat offset' mod 8"
  proof -
    have "unat offset mod 8 < 8" and "unat offset' mod 8 < 8" by simp_all
    with eq show ?thesis unfolding bit_pos_def by linarith
  qed
  ultimately have "unat offset = unat offset'" by (metis div_mult_mod_eq)
  then show "offset = offset'" by (simp add: word_unat_eq_iff)
qed simp

lemma byte_word_NUL: "bit (byte_word NUL) n \<longleftrightarrow> False"
  by (simp add: byte_word_def)

definition grown :: "bytes \<Rightarrow> usize \<Rightarrow> bytes" where
  "grown b n = (if length b < n then vec_resize b n else b)"

lemma grown_length: "length (grown b n) = max (length b) n"
  by (simp add: grown_def vec_resize_def)

lemma bit_at_grown: "bit_at (grown b n) offset = bit_at b offset"
  by (auto simp: bit_at_def grown_def vec_resize_def nth_append bit_of_byte_eq byte_word_NUL)

lemma with_bit_grown:
  "with_bit b offset v = (grown b (byte_index offset + 1))[byte_index offset :=
     put_bit (grown b (byte_index offset + 1) ! byte_index offset) offset v]"
  by (simp add: with_bit_def grown_def Let_def)

lemma bit_at_update:
  assumes "v \<le> 1" "byte_index offset < length b"
  shows "bit_at (b[byte_index offset := put_bit (b ! byte_index offset) offset v]) offset' =
    (if offset' = offset then int v else bit_at b offset')"
  using assms same_bit [of offset' offset] bit_pos_less [of offset']
  by (auto simp: bit_at_def bit_of_byte_eq bit_put_bit nth_list_update)

lemma bit_at_with_bit:
  "v \<le> 1 \<Longrightarrow>
     bit_at (with_bit b offset v) offset' = (if offset' = offset then int v else bit_at b offset')"
  by (simp add: with_bit_grown bit_at_update grown_length bit_at_grown)

lemma execute_setbit_eq:
  assumes "offset < MAX_BIT_OFFSET" "stored_bytes s key = Some b"
  shows "execute_setbit key offset v s =
    (insert_data key (String (with_bit b offset v)) (purge_if_expired key s), Integer (bit_at b offset))"
proof -
  let ?i = "byte_index offset"
  have old: "bit_of_byte (grown b (?i + 1) ! ?i) offset = bit_at b offset"
    using bit_at_grown [of b "?i + 1" offset] by (simp add: bit_at_def grown_length)
  have new: "grown [] n = replicate n NUL" "grown (replicate n NUL) n = replicate n NUL" for n
    by (simp_all add: grown_def vec_resize_def)
  have "execute_setbit key offset v s =
    (insert_data key (String ((grown b (?i + 1))[?i := put_bit (grown b (?i + 1) ! ?i) offset v]))
       (purge_if_expired key s), Integer (bit_of_byte (grown b (?i + 1) ! ?i) offset))"
    using assms new [of "?i + 1"]
    by (auto simp: execute_setbit_def reads stored_bytes_def grown_def [symmetric]
        split: option.splits redis_value.splits)
  then show ?thesis unfolding old with_bit_grown .
qed

lemma execute_getbit_eq:
  assumes "offset < MAX_BIT_OFFSET" "stored_bytes s key = Some b"
  shows "snd (execute_getbit key offset s) = Integer (bit_at b offset)"
  using assms
  by (auto simp: execute_getbit_def reads stored_bytes_def bit_at_def split: option.splits redis_value.splits)

text \<open>
  \<open>SETBIT\<close> on a string or absent key replies with the old bit and changes that bit only:
  \<open>GETBIT\<close> at the offset then returns the new bit, and at every other offset what it returned
  before.
\<close>

theorem setbit_getbit:
  assumes "exec_inv s" "stored_bytes s key = Some b" "offset < MAX_BIT_OFFSET" "v \<le> 1"
  shows "let (s', r) = execute_setbit key offset v s in
    r = snd (execute_getbit key offset s) \<and>
    snd (execute_getbit key offset s') = Integer (int v) \<and>
    (\<forall>offset'. offset' \<noteq> offset \<longrightarrow>
       snd (execute_getbit key offset' s') = snd (execute_getbit key offset' s)) \<and>
    Option.bind (live s' key) snd = Option.bind (live s key) snd"
proof -
  let ?s = "insert_data key (String (with_bit b offset v)) (purge_if_expired key s)"
  have new: "stored_bytes ?s key = Some (with_bit b offset v)" by (simp add: stored_bytes_def)
  have "snd (execute_getbit key offset' ?s) = snd (execute_getbit key offset' s)"
    if "offset' \<noteq> offset" for offset'
  proof (cases "offset' < MAX_BIT_OFFSET")
    case True
    with that assms show ?thesis
      by (simp add: execute_getbit_eq [OF _ new] execute_getbit_eq [OF _ assms(2)] bit_at_with_bit)
  qed (simp add: execute_getbit_def not_less)
  moreover have "snd (execute_getbit key offset ?s) = Integer (int v)"
    using execute_getbit_eq [OF assms(3) new] assms(4) by (simp add: bit_at_with_bit)
  ultimately show ?thesis
    using assms by (simp add: execute_setbit_eq execute_getbit_eq [OF assms(3,2)] live_put)
qed

theorem setbit_getbit_witness:
  "let (s', r) = execute_setbit ''k'' 11 1 exec_new in
   snd (execute_getbit ''k'' 11 s') = Integer 1 \<and>
   snd (execute_getbit ''k'' 12 s') = snd (execute_getbit ''k'' 12 exec_new)"
proof -
  have "stored_bytes exec_new ''k'' = Some []" and "exec_inv exec_new"
    by (simp_all add: stored_bytes_def visible_def live_def exec_new_def exec_inv_def)
  with setbit_getbit [of exec_new "''k''" "[]" 11 1] show ?thesis
    by (simp add: split_beta Let_def)
qed

section \<open>Several keys at once\<close>

lemma live_insert_pairs:
  "live (insert_pairs ps s) k =
     (case map_of (rev ps) k of
        None \<Rightarrow> live s k
      | Some v \<Rightarrow> if is_expired s k then None else Some (String v, fmlookup (expirations s) k))"
proof (induction ps s rule: insert_pairs.induct)
  case (2 key v ps s)
  have "expirations (insert_data key (String v) s) = expirations s" by (simp add: insert_data_def)
  with 2 show ?case
    by (auto simp: live_insert_data map_add_def split: option.splits)
qed simp

text \<open>
  \<open>MSET\<close>, \<open>BATCHSET\<close> and a successful \<open>MSETNX\<close> store the last value given for each key and leave
  the deadline of the key as it was: an existing expiry is kept, and a key that lingers after its
  deadline stays invisible although the reply is \<open>OK\<close>. \<open>MSETNX\<close> stores nothing if one of the keys
  exists.
\<close>

theorem mset_keeps_deadlines:
  assumes "exec_inv s"
  shows "(\<forall>k. live (fst (execute_mset ps s)) k =
      (case map_of (rev ps) k of
         None \<Rightarrow> live s k
       | Some v \<Rightarrow> if is_expired s k then None
                   else Some (String v, Option.bind (live s k) snd))) \<and>
    execute_batch_set ps s = execute_mset ps s \<and>
    execute_msetnx ps s =
      (if (\<exists>(k, v) \<in> set ps. live s k \<noteq> None) then (s, Integer 0)
       else (fst (execute_mset ps s), Integer 1))"
proof (intro conjI allI)
  show "live (fst (execute_mset ps s)) k =
      (case map_of (rev ps) k of
         None \<Rightarrow> live s k
       | Some v \<Rightarrow> if is_expired s k then None
                   else Some (String v, Option.bind (live s k) snd))" for k
    using expiry_at [OF assms, of k]
    by (auto simp: execute_mset_def live_insert_pairs split: option.split)
  show "execute_msetnx ps s =
      (if (\<exists>(k, v) \<in> set ps. live s k \<noteq> None) then (s, Integer 0)
       else (fst (execute_mset ps s), Integer 1))"
    by (simp add: execute_msetnx_def execute_mset_def list_ex_iff key_exists live_None_iff)
qed (simp add: execute_batch_set_def execute_mset_def)

theorem mset_keeps_deadlines_witness:
  "let s = fst (execute_set ''k'' ''v'' (Some 10) None None None False False False False exec_new)
   in live (fst (execute_mset [(''k'', ''w'')] s)) ''k'' = Some (String ''w'', Some 10000)"
proof -
  let ?s = "fst (execute_set ''k'' ''v'' (Some 10) None None None False False False False exec_new)"
  have s: "?s = exec_new\<lparr>data := fmupd ''k'' (String ''v'') fmempty,
      expirations := fmupd ''k'' 10000 fmempty\<rparr>"
    by (simp add: execute_set_def set_invalid_expire_def quot_i64_def set_checked_def Let_def
        set_expiration_def after_secs_def insert_expiry_def insert_data_def exec_new_def)
  have inv: "exec_inv ?s" unfolding s by (simp add: exec_inv_def exec_new_def)
  have "live ?s ''k'' = Some (String ''v'', Some 10000)" and "\<not> is_expired ?s ''k''"
    unfolding s by (simp_all add: live_def is_expired_def exec_new_def)
  with mset_keeps_deadlines [OF inv, of "[(''k'', ''w'')]"] show ?thesis
    by (simp add: Let_def)
qed

end
