(* ===== verification/Key_Laws.thy ===== *)
theory Key_Laws
  imports Executor String_Laws
begin

text \<open>
  What the key commands do to the live view: deadlines under the passage of time, \<open>TTL\<close>, \<open>PERSIST\<close>,
  \<open>RENAME\<close>, \<open>DEL\<close> and the fast paths.
\<close>

section \<open>Deadlines\<close>

lemma sint_small: "uint t < 2 ^ 63 \<Longrightarrow> sint (t :: u64) = uint t"
proof -
  assume "uint t < 2 ^ 63"
  moreover have "- (2 ^ 63) \<le> uint t" by (rule order_trans [OF _ uint_ge_0]) simp
  ultimately show ?thesis by (simp add: sint_uint signed_take_bit_int_eq_self)
qed

definition remaining :: "executor \<Rightarrow> virtual_time \<Rightarrow> int" where
  "remaining s t = uint t - uint (current_time s)"

lemma ttl_of_entry:
  assumes "live s key = Some (v, Some t)" "uint t + 999 < 2 ^ 63"
  shows "0 < remaining s t"
    and "snd (execute_ttl key s) = Integer ((remaining s t + 999) div 1000)"
    and "snd (execute_pttl key s) = Integer (remaining s t)"
proof -
  have exp: "fmlookup (expirations s) key = Some t" and "\<not> is_expired s key"
    using assms(1) by (auto simp: live_def split: if_splits)
  then have less: "uint (current_time s) < uint t"
    by (simp add: is_expired_def word_le_def not_le)
  then show pos: "0 < remaining s t" by (simp add: remaining_def)
  have sub: "sint t - sint (current_time s) = remaining s t"
    using less assms(2) by (simp add: sint_small remaining_def)
  have "remaining s t \<le> uint t" by (simp add: remaining_def)
  with pos assms(2) have wrap: "wrap_i64 (remaining s t) = remaining s t"
      "wrap_i64 (remaining s t + 999) = remaining s t + 999"
    by (simp_all add: wrap_i64_id in_i64_def)
  show "snd (execute_pttl key s) = Integer (remaining s t)"
    using assms(1) pos by (simp add: execute_pttl_def key_missing_iff exp sub wrap)
  show "snd (execute_ttl key s) = Integer ((remaining s t + 999) div 1000)"
    using assms(1) pos
    by (simp add: execute_ttl_def key_missing_iff exp sub wrap Let_def quot_i64_def)
qed

text \<open>The store at a later time: entries whose deadline has come are gone.\<close>

definition at_time :: "virtual_time \<Rightarrow> entry option \<Rightarrow> entry option" where
  "at_time t e =
     (case e of Some (v, Some d) \<Rightarrow> if d \<le> t then None else Some (v, Some d) | _ \<Rightarrow> e)"

lemma live_set_time:
  assumes "current_time s \<le> t"
  shows "live (set_time t s) key = at_time t (live s key)"
proof -
  have "live (set_time t s) key = live (s\<lparr>current_time := t\<rparr>) key" by (simp add: set_time_def)
  also have "\<dots> = at_time t (live s key)"
    using assms
    by (auto simp: live_def is_expired_def at_time_def split: option.splits)
  finally show ?thesis .
qed

lemma execute_expire_plain:
  assumes "live s key = Some (v, d)" "0 < n" "0 \<le> simulation_start_epoch_ms s"
    and bound: "simulation_start_epoch_ms s + uint (current_time s) + 1000 * n + 999 \<le> I64_MAX"
  shows "execute_expire key n False False False False s =
    (insert_expiry key (after_secs s n) s, Integer 1)"
proof -
  define now where "now = uint (current_time s)"
  have now: "0 \<le> now" by (simp add: now_def)
  let ?base = "simulation_start_epoch_ms s + now"
  have bound': "?base + 1000 * n + 999 \<le> I64_MAX" using bound by (simp add: now_def)
  have "sint (current_time s) = now"
    using assms(2,3) bound' unfolding now_def by (intro sint_small) simp
  moreover have base: "in_i64 ?base" and big: "in_i64 (I64_MAX - ?base)" and ms: "in_i64 (n * 1000)"
    using assms(2,3) bound' now by (simp_all add: in_i64_def)
  ultimately have "basetime_ms s = ?base" by (simp add: basetime_ms_def)
  moreover have "\<not> n > quot_i64 I64_MAX 1000" "\<not> n < quot_i64 I64_MIN 1000"
    using assms(2,3) bound' now by (simp_all add: quot_i64_def)
  moreover have "\<not> n * 1000 > I64_MAX - ?base" using bound' by simp
  ultimately show ?thesis
    using assms(1,2) big ms
    by (simp add: execute_expire_def Let_def key_missing_iff wrap_i64_id expire_flags_def)
qed

text \<open>
  \<open>EXPIRE\<close> on an existing key makes it live exactly until its deadline: at every later time \<open>t\<close>
  before the deadline the value is there, \<open>PTTL\<close> gives the milliseconds left and \<open>TTL\<close> the seconds
  left, rounded up; from the deadline on the key does not exist and \<open>TTL\<close> gives -2. The other
  keys are as without the command.
\<close>

theorem expire_deadline:
  assumes "live s key = Some (v, d)" "0 < n" "0 \<le> simulation_start_epoch_ms s"
    and "simulation_start_epoch_ms s + uint (current_time s) + 1000 * n + 999 \<le> I64_MAX"
    and "current_time s \<le> t"
  shows "let (s', r) = execute_expire key n False False False False s;
      deadline = uint (current_time s) + 1000 * n; s'' = set_time t s' in
    r = Integer 1 \<and> (\<forall>k. k \<noteq> key \<longrightarrow> live s'' k = at_time t (live s k)) \<and>
    (if uint t < deadline
     then live s'' key = Some (v, Some (word_of_int deadline)) \<and>
       snd (execute_pttl key s'') = Integer (deadline - uint t) \<and>
       snd (execute_ttl key s'') = Integer ((deadline - uint t + 999) div 1000)
     else live s'' key = None \<and> snd (execute_ttl key s'') = Integer (- 2))"
proof -
  let ?d = "uint (current_time s) + 1000 * n"
  let ?s = "insert_expiry key (after_secs s n) s"
  have d_def: "current_time s + 1000 * word_of_int n = after_secs s n" by (simp add: after_secs_def)
  have d: "uint (after_secs s n) = ?d"
    using uint_add_duration [of "n * 1000" "current_time s"] assms(2-4)
    by (simp add: after_secs_def mult.commute)
  have data: "fmlookup (data s) key = Some v"
    using assms(1) by (auto simp: live_def split: if_splits)
  have "live ?s key = Some (v, Some (after_secs s n))"
    using assms(2) data d by (simp add: word_le_def)
  moreover have time: "current_time ?s \<le> t" "current_time (set_time t ?s) = t"
    using assms(5) by (simp_all add: insert_expiry_def set_time_def evict_expired_keys_def Let_def)
  ultimately have key: "live (set_time t ?s) key =
      (if after_secs s n \<le> t then None else Some (v, Some (after_secs s n)))"
    by (simp add: live_set_time at_time_def)
  have others: "\<forall>k. k \<noteq> key \<longrightarrow> live (set_time t ?s) k = at_time t (live s k)"
    using time(1) by (simp add: live_set_time)
  show ?thesis
  proof (cases "uint t < ?d")
    case True
    then have l: "live (set_time t ?s) key = Some (v, Some (after_secs s n))"
      using key d by (simp add: word_le_def)
    have "uint (after_secs s n) + 999 < 2 ^ 63" using d assms(3,4) by simp
    from ttl_of_entry [OF l this] True l others d time(2) show ?thesis
      by (simp add: execute_expire_plain [OF assms(1-4)] remaining_def d_def Let_def)
  next
    case False
    then have "live (set_time t ?s) key = None" using key d by (simp add: word_le_def)
    with False others show ?thesis
      by (simp add: execute_expire_plain [OF assms(1-4)] execute_ttl_def key_missing_iff Let_def)
  qed
qed

theorem expire_deadline_witness:
  "let s = fst (set_direct ''k'' ''v'' exec_new);
       s' = fst (execute_expire ''k'' 10 False False False False s)
   in snd (execute_ttl ''k'' (set_time 8001 s')) = Integer 2 \<and>
      snd (execute_ttl ''k'' (set_time 10000 s')) = Integer (- 2)"
proof -
  let ?s = "fst (set_direct ''k'' ''v'' exec_new)"
  have s: "live ?s ''k'' = Some (String ''v'', None)" "simulation_start_epoch_ms ?s = 0" "current_time ?s = 0"
    by (simp_all add: set_direct_def) (simp_all add: remove_expiry_def insert_data_def exec_new_def)
  show ?thesis
    using expire_deadline [of ?s "''k''" "String ''v''" None 10 8001]
      expire_deadline [of ?s "''k''" "String ''v''" None 10 10000] s
    by (simp add: Let_def split_beta)
qed

section \<open>\<open>RENAME\<close>\<close>

lemma live_rename_to:
  assumes "live s src = Some (v, d)"
  shows "live (rename_to src dst s) = (live s)(src := None, dst := Some (v, d))"
proof -
  have e: "\<not> is_expired s src" "fmlookup (data s) src = Some v" "fmlookup (expirations s) src = d"
    using assms by (auto simp: live_def split: if_splits)
  have time: "current_time (insert_data dst v (remove_key src s)) = current_time s"
    by (simp add: insert_data_def remove_key_def)
  show ?thesis
  proof (cases d)
    case (Some t)
    with e have "\<not> t \<le> current_time s" by (simp add: is_expired_def)
    with e Some show ?thesis by (simp add: rename_to_def time live_insert_data)
  qed (use e in \<open>simp add: rename_to_def live_insert_data\<close>)
qed

text \<open>
  \<open>RENAME\<close> moves the value and the deadline of an existing key to the new name, replacing what
  was there, also when both names are the same; \<open>RENAMENX\<close> does so only if the new name is free.
  A missing source is an error and changes nothing.
\<close>

theorem rename_moves_entry:
  "(case live s src of
      Some e \<Rightarrow>
        live (fst (execute_rename src dst s)) = (live s)(src := None, dst := Some e) \<and>
        snd (execute_rename src dst s) = ok \<and>
        (case live s dst of
           None \<Rightarrow> live (fst (execute_renamenx src dst s)) = (live s)(src := None, dst := Some e) \<and>
                   snd (execute_renamenx src dst s) = Integer 1
         | Some _ \<Rightarrow> execute_renamenx src dst s = (s, Integer 0))
    | None \<Rightarrow>
        execute_rename src dst s = (s, err ''ERR no such key'') \<and>
        execute_renamenx src dst s = (s, err ''ERR no such key''))"
proof (cases "live s src")
  case (Some e)
  then show ?thesis
    using live_rename_to [of s src "fst e" "snd e" dst]
    by (cases "live s dst")
      (simp_all add: execute_rename_def execute_renamenx_def key_missing_iff key_exists live_None_iff)
qed (simp add: execute_rename_def execute_renamenx_def key_missing_iff)

section \<open>Fast paths\<close>

text \<open>
  Outside a transaction the fast paths are the plain commands: \<open>get_direct\<close> is \<open>GET\<close> and
  \<open>set_direct\<close> is \<open>SET\<close> without options, state and reply; \<open>execute_readonly\<close> answers the commands it
  supports as \<open>execute\<close> does, up to the wording of a type error of \<open>GET\<close>.
\<close>

theorem fast_paths_agree:
  assumes "\<not> in_transaction s"
  shows "get_direct key s = execute it (Data (StringC (Get key))) s \<and>
    set_direct key v s =
      execute it (Data (StringC (SetCmd key v None None None None False False False False))) s \<and>
    execute_readonly it (Data (KeyC (Exists ks))) s = snd (execute it (Data (KeyC (Exists ks))) s) \<and>
    execute_readonly it (Data (KeyC (Keys p))) s = snd (execute it (Data (KeyC (Keys p))) s) \<and>
    execute_readonly it (Data (ServerC (Ping m))) s = snd (execute it (Data (ServerC (Ping m))) s) \<and>
    execute_readonly it (Data (StringC (Get key))) s =
      (let r = snd (execute it (Data (StringC (Get key))) s)
       in if r = WRONGTYPE then err ''WRONGTYPE'' else r)"
proof -
  have "get_direct key s = execute it (Data (StringC (Get key))) s"
    using assms by (simp add: get_direct_def execute_data_def count_command_def execute_get_def)
  moreover have "set_direct key v s =
      execute it (Data (StringC (SetCmd key v None None None None False False False False))) s"
    using assms by (simp add: set_direct_def execute_data_def count_command_def execute_set_def
        set_invalid_expire_def set_checked_def set_expiration_def)
  moreover have "execute_readonly it (Data (ServerC (Ping m))) s
      = snd (execute it (Data (ServerC (Ping m))) s)"
    using assms by (cases m) (simp_all add: execute_data_def count_command_def)
  moreover have "execute_readonly it (Data (StringC (Get key))) s =
      (let r = snd (execute it (Data (StringC (Get key))) s)
       in if r = WRONGTYPE then err ''WRONGTYPE'' else r)"
    using assms
    by (auto simp: execute_data_def count_command_def execute_get_def get_value_def nil_def err_def
        Let_def split: option.split redis_value.split)
  ultimately show ?thesis
    using assms
    by (simp add: execute_data_def count_command_def execute_exists_def execute_keys_def
        contains_key_def)
qed

theorem fast_paths_agree_witness:
  "get_direct ''k'' exec_new = execute sorted_list_of_fset (Data (StringC (Get ''k''))) exec_new"
  using fast_paths_agree [of exec_new "''k''" sorted_list_of_fset "''v''" "[]" "''*''" None]
  by (simp add: exec_new_def)

end
