(* ===== verification/Collection_Laws.thy ===== *)
theory Collection_Laws
  imports Executor String_Laws
begin

text \<open>
  What the list, set and hash commands do to the live view: lists as deques and their ranges, the
  algebra of sets, and hashes as maps. An absent key counts as the empty collection, and a
  collection that becomes empty takes its key with it.
\<close>

definition put_or_drop :: "bool \<Rightarrow> redis_value \<Rightarrow> u64 option \<Rightarrow> entry option" where
  "put_or_drop gone v d = (if gone then None else Some (v, d))"

section \<open>Lists\<close>

definition stored_list :: "executor \<Rightarrow> string \<Rightarrow> bytes list option" where
  "stored_list s key =
     (case visible s key of None \<Rightarrow> Some [] | Some (List l) \<Rightarrow> Some l | Some _ \<Rightarrow> None)"

datatype deque_op = PushLeft "bytes list" | PushRight "bytes list" | PopLeft | PopRight

fun run_deque :: "string \<Rightarrow> deque_op \<Rightarrow> executor \<Rightarrow> reply" where
  "run_deque key (PushLeft vs) s = execute_lpush key vs s"
| "run_deque key (PushRight vs) s = execute_rpush key vs s"
| "run_deque key PopLeft s = execute_lpop key s"
| "run_deque key PopRight s = execute_rpop key s"

fun spec_deque :: "deque_op \<Rightarrow> bytes list \<Rightarrow> bytes list \<times> resp_value" where
  "spec_deque (PushLeft vs) l = (rev vs @ l, Integer (int (length l + length vs)))"
| "spec_deque (PushRight vs) l = (l @ vs, Integer (int (length l + length vs)))"
| "spec_deque PopLeft l = (case l of [] \<Rightarrow> ([], nil) | x # xs \<Rightarrow> (xs, bulk x))"
| "spec_deque PopRight l = (if l = [] then ([], nil) else (butlast l, bulk (last l)))"

fun op_ok :: "deque_op \<Rightarrow> bool" where
  "op_ok (PushLeft vs) \<longleftrightarrow> vs \<noteq> []"
| "op_ok (PushRight vs) \<longleftrightarrow> vs \<noteq> []"
| "op_ok _ \<longleftrightarrow> True"

fun run_ops :: "('op \<Rightarrow> 's \<Rightarrow> 's \<times> 'r) \<Rightarrow> 'op list \<Rightarrow> 's \<Rightarrow> 's \<times> 'r list" where
  "run_ops f [] s = (s, [])"
| "run_ops f (a # as) s = (let (s1, r) = f a s; (s2, rs) = run_ops f as s1 in (s2, r # rs))"

lemma stored_list_cases:
  assumes "stored_list s key = Some l"
  shows "visible s key = None \<and> l = [] \<or> visible s key = Some (List l)"
  using assms by (auto simp: stored_list_def split: option.splits redis_value.splits)

lemma push_with_eq:
  assumes "stored_list s key = Some l"
  shows "push_with f r key (purge_if_expired key s) =
    (insert_data key (List (f l)) (purge_if_expired key s), r (f l))"
  using stored_list_cases [OF assms] by (auto simp: push_with_def)

lemma pop_with_eq:
  assumes "exec_inv s" "stored_list s key = Some l" "f [] = ([], None)"
  shows "live (fst (pop_with f key s)) = (live s)(key :=
      put_or_drop (fst (f l) = []) (List (fst (f l))) (Option.bind (live s key) snd))"
    and "snd (pop_with f key s) = BulkString (snd (f l))"
proof -
  have "live (fst (pop_with f key s)) = (live s)(key :=
      put_or_drop (fst (f l) = []) (List (fst (f l))) (Option.bind (live s key) snd)) \<and>
    snd (pop_with f key s) = BulkString (snd (f l))"
    using stored_list_cases [OF assms(2)]
  proof
    assume v: "visible s key = None \<and> l = []"
    then have "live s key = None" by (simp add: live_None_iff)
    with v assms(3) show ?thesis
      by (simp add: pop_with_def reads put_or_drop_def drop_empty_list_def nil_def fun_upd_idem)
  next
    assume "visible s key = Some (List l)"
    then show ?thesis using assms(1)
      by (simp add: pop_with_def reads drop_empty_put put_or_drop_def live_put)
  qed
  then show "live (fst (pop_with f key s)) = (live s)(key :=
      put_or_drop (fst (f l) = []) (List (fst (f l))) (Option.bind (live s key) snd))"
    and "snd (pop_with f key s) = BulkString (snd (f l))" by simp_all
qed

lemma stored_list_live:
  "stored_list s key = Some l \<longleftrightarrow>
     (live s key = None \<and> l = []) \<or> (\<exists>d. live s key = Some (List l, d))"
  by (cases "live s key") (auto simp: stored_list_def visible_def split: redis_value.splits)

lemma run_deque_eq:
  assumes "exec_inv s" "stored_list s key = Some l" "op_ok a"
  shows "exec_inv (fst (run_deque key a s))"
    and "live (fst (run_deque key a s)) = (live s)(key :=
      put_or_drop (fst (spec_deque a l) = []) (List (fst (spec_deque a l))) (Option.bind (live s key) snd))"
    and "snd (run_deque key a s) = snd (spec_deque a l)"
proof -
  have "touches {key} s (fst (run_deque key a s))"
    using assms(3) by (cases a) (simp_all add: touches_push touches_list_writes)
  then show "exec_inv (fst (run_deque key a s))" using assms(1) by (simp add: touches_def tidy_def)
  show "live (fst (run_deque key a s)) = (live s)(key :=
      put_or_drop (fst (spec_deque a l) = []) (List (fst (spec_deque a l))) (Option.bind (live s key) snd))"
    using assms
    by (cases a)
      (auto simp: execute_lpush_def execute_rpush_def push_with_eq fold_lpush fold_rpush live_put
        put_or_drop_def execute_lpop_def execute_rpop_def pop_with_eq list_lpop_def list_rpop_def
        split: list.split)
  show "snd (run_deque key a s) = snd (spec_deque a l)"
    using assms
    by (cases a)
      (auto simp: execute_lpush_def execute_rpush_def push_with_eq fold_lpush fold_rpush
        list_len_def execute_lpop_def execute_rpop_def pop_with_eq list_lpop_def list_rpop_def nil_def
        split: list.split)
qed

text \<open>
  C38. On a key that holds a list or nothing, any sequence of \<open>LPUSH\<close>, \<open>RPUSH\<close>, \<open>LPOP\<close> and \<open>RPOP\<close> replies
  as a double-ended queue does and leaves its contents in the key, which exists exactly as long
  as the queue is not empty; other keys are not touched.
\<close>

theorem list_is_deque:
  assumes "exec_inv s" "stored_list s key = Some l" "list_all op_ok ops"
  shows "let (s', rs) = run_ops (run_deque key) ops s; (l', replies) = run_ops spec_deque ops l in
    rs = replies \<and> stored_list s' key = Some l' \<and> (live s' key = None \<longleftrightarrow> l' = []) \<and>
    (\<forall>k. k \<noteq> key \<longrightarrow> live s' k = live s k)"
  using assms
proof (induction ops arbitrary: s l)
  case Nil
  have "live s key \<noteq> Some (List [], d)" for d
    using visible_nonempty [OF Nil.prems(1), of key "List []"]
    by (auto simp: visible_def list_is_empty_def)
  with Nil show ?case by (auto simp: stored_list_live)
next
  case (Cons a ops)
  let ?s = "fst (run_deque key a s)" and ?l = "fst (spec_deque a l)"
  note step = run_deque_eq [OF Cons.prems(1,2), of a]
  have ok: "op_ok a" "list_all op_ok ops" using Cons.prems(3) by simp_all
  have stored: "stored_list ?s key = Some ?l"
    using step(2) [OF ok(1)] by (auto simp: stored_list_live put_or_drop_def)
  show ?case
    using Cons.IH [OF step(1) [OF ok(1)] stored ok(2)] step(2,3) [OF ok(1)]
    by (simp add: split_beta Let_def)
qed

theorem list_is_deque_witness:
  "let (s', rs) = run_ops (run_deque ''k'') [PushRight [''a'', ''b''], PushLeft [''c''], PopRight, PopLeft, PopLeft] exec_new
   in rs = [Integer 2, Integer 3, bulk ''b'', bulk ''c'', bulk ''a''] \<and> live s' ''k'' = None"
proof -
  let ?ops = "[PushRight [''a'', ''b''], PushLeft [''c''], PopRight, PopLeft, PopLeft]"
  have "stored_list exec_new ''k'' = Some []" "exec_inv exec_new"
    by (simp_all add: stored_list_def visible_def live_def exec_new_def exec_inv_def)
  with list_is_deque [of exec_new "''k''" "[]" ?ops] show ?thesis
    by (simp add: split_beta Let_def)
qed

text \<open>The positions a range selects, stated without clamping.\<close>

definition selected :: "bytes list \<Rightarrow> isize \<Rightarrow> isize \<Rightarrow> bytes list" where
  "selected l start stop = map ((!) l) (filter (in_range (length l) start stop) [0..<length l])"

text \<open>
  \<open>LRANGE\<close> returns the elements whose position lies between the two ends, where a negative end
  counts from the back, and \<open>LTRIM\<close> keeps exactly those elements, the deadline of the key with
  them, and removes the key if there are none.
\<close>

theorem lrange_ltrim:
  assumes "exec_inv s" "stored_list s key = Some l"
  shows "snd (execute_lrange key start stop s) = Array (Some (map bulk (selected l start stop))) \<and>
    snd (execute_ltrim key start stop s) = ok \<and>
    live (fst (execute_ltrim key start stop s)) = (live s)(key :=
      put_or_drop (selected l start stop = []) (List (selected l start stop))
        (Option.bind (live s key) snd))"
  using stored_list_cases [OF assms(2)]
proof
  have sel: "list_range l start stop = selected l start stop"
    by (simp add: list_range_spec selected_def)
  show ?thesis if "visible s key = Some (List l)"
    using that assms(1)
    by (simp add: execute_lrange_def execute_ltrim_def reads list_trim_range sel put_or_drop_def
        live_put list_is_empty_def)
  show ?thesis if v: "visible s key = None \<and> l = []"
  proof -
    have "live s key = None" using v by (simp add: live_None_iff)
    with v show ?thesis
      by (simp add: execute_lrange_def execute_ltrim_def reads selected_def put_or_drop_def
          fun_upd_idem)
  qed
qed

theorem lrange_ltrim_witness:
  "let s = fst (execute_rpush ''k'' [''a'', ''b'', ''c''] exec_new)
   in snd (execute_lrange ''k'' (- 2) 100 s) = Array (Some [bulk ''b'', bulk ''c''])"
proof -
  let ?s = "fst (execute_rpush ''k'' [''a'', ''b'', ''c''] exec_new)"
  have new: "exec_inv exec_new" "live exec_new ''k'' = None" "stored_list exec_new ''k'' = Some []"
    by (simp_all add: stored_list_def visible_def live_def exec_new_def exec_inv_def)
  have "exec_inv ?s" using touches_push(2) [of _ "''k''" exec_new] new(1) by (simp add: touches_def tidy_def)
  moreover have "live ?s ''k'' = Some (List [''a'', ''b'', ''c''], None)"
    using new by (simp add: execute_rpush_def push_with_eq list_rpush_def live_put)
  then have "stored_list ?s ''k'' = Some [''a'', ''b'', ''c'']" by (simp add: stored_list_live)
  ultimately show ?thesis
    using lrange_ltrim [of ?s "''k''" "[''a'', ''b'', ''c'']" "- 2" 100]
    by (simp add: selected_def in_range_def from_back_def upt_rec)
qed

section \<open>Sets\<close>

definition stored_set :: "executor \<Rightarrow> string \<Rightarrow> string fset option" where
  "stored_set s key =
     (case visible s key of None \<Rightarrow> Some {||} | Some (Set m) \<Rightarrow> Some m | Some _ \<Rightarrow> None)"

definition lossy_set :: "bytes list \<Rightarrow> string fset" where
  "lossy_set xs = fset_of_list (map utf8_lossy xs)"

lemma stored_set_cases:
  assumes "stored_set s key = Some m"
  shows "visible s key = None \<and> m = {||} \<or> visible s key = Some (Set m)"
  using assms by (auto simp: stored_set_def split: option.splits redis_value.splits)

lemma sadd_eq:
  assumes "exec_inv s" "stored_set s key = Some m"
  shows "live (fst (execute_sadd key xs s)) = (live s)(key \<mapsto>
      (Set (m |\<union>| lossy_set xs), Option.bind (live s key) snd)) \<and>
    snd (execute_sadd key xs s) = Integer (int (fcard (lossy_set xs |-| m)))"
proof -
  have "fcard (m |\<union>| lossy_set xs) = fcard m + fcard (lossy_set xs |-| m)"
  proof -
    have "m |\<union>| lossy_set xs = m |\<union>| (lossy_set xs |-| m)" by auto
    moreover have "fcard (m |\<union>| (lossy_set xs |-| m)) = fcard m + fcard (lossy_set xs |-| m)"
      by (rule fcard_funion_disjoint) auto
    ultimately show ?thesis by simp
  qed
  then show ?thesis
    using stored_set_cases [OF assms(2)] assms(1)
    by (auto simp: execute_sadd_def add_all_eq lossy_set_def Let_def live_put)
qed

lemma srem_eq:
  assumes "exec_inv s" "stored_set s key = Some m"
  shows "live (fst (execute_srem key xs s)) = (live s)(key :=
      put_or_drop (m |-| lossy_set xs = {||}) (Set (m |-| lossy_set xs)) (Option.bind (live s key) snd)) \<and>
    snd (execute_srem key xs s) = Integer (int (fcard (m |\<inter>| lossy_set xs)))"
  using stored_set_cases [OF assms(2)]
proof
  have "fcard m = fcard (m |-| lossy_set xs) + fcard (m |\<inter>| lossy_set xs)"
  proof -
    have "m = (m |-| lossy_set xs) |\<union>| (m |\<inter>| lossy_set xs)" by auto
    moreover have "fcard ((m |-| lossy_set xs) |\<union>| (m |\<inter>| lossy_set xs))
        = fcard (m |-| lossy_set xs) + fcard (m |\<inter>| lossy_set xs)"
      by (rule fcard_funion_disjoint) auto
    ultimately show ?thesis by simp
  qed
  then show ?thesis if "visible s key = Some (Set m)"
    using that assms(1)
    by (simp add: execute_srem_def reads remove_all_eq lossy_set_def drop_empty_set_put
        put_or_drop_def live_put)
  show ?thesis if v: "visible s key = None \<and> m = {||}"
  proof -
    have "live s key = None" using v by (simp add: live_None_iff)
    with v show ?thesis
      by (simp add: execute_srem_def reads drop_empty_set_def put_or_drop_def fun_upd_idem)
  qed
qed

text \<open>
  \<open>SADD\<close> adds and \<open>SREM\<close> removes the given members, counting those that were new or present;
  \<open>SCARD\<close> counts the set and \<open>SISMEMBER\<close> tests it. Members are compared after lossy UTF-8 decoding,
  so different byte strings can be one member.
\<close>

theorem set_algebra:
  assumes "exec_inv s" "stored_set s key = Some m"
  shows "live (fst (execute_sadd key xs s)) = (live s)(key \<mapsto>
      (Set (m |\<union>| lossy_set xs), Option.bind (live s key) snd)) \<and>
    snd (execute_sadd key xs s) = Integer (int (fcard (lossy_set xs |-| m))) \<and>
    live (fst (execute_srem key xs s)) = (live s)(key :=
      put_or_drop (m |-| lossy_set xs = {||}) (Set (m |-| lossy_set xs)) (Option.bind (live s key) snd)) \<and>
    snd (execute_srem key xs s) = Integer (int (fcard (m |\<inter>| lossy_set xs))) \<and>
    snd (execute_scard key s) = Integer (int (fcard m)) \<and>
    snd (execute_sismember key x s) = Integer (if utf8_lossy x |\<in>| m then 1 else 0)"
proof -
  have "snd (execute_scard key s) = Integer (int (fcard m)) \<and>
    snd (execute_sismember key x s) = Integer (if utf8_lossy x |\<in>| m then 1 else 0)"
    using stored_set_cases [OF assms(2)]
    by (auto simp: execute_scard_def execute_sismember_def reads set_len_def set_contains_def)
  with sadd_eq [OF assms, of xs] srem_eq [OF assms, of xs] show ?thesis by simp
qed

theorem set_algebra_witness:
  "let s = fst (execute_sadd ''k'' [[CHR 0xFF]] exec_new)
   in snd (execute_sismember ''k'' [CHR 0xFE] s) = Integer 1"
proof -
  let ?s = "fst (execute_sadd ''k'' [[CHR 0xFF]] exec_new)"
  have new: "exec_inv exec_new" "live exec_new ''k'' = None" "stored_set exec_new ''k'' = Some {||}"
    by (simp_all add: stored_set_def visible_def live_def exec_new_def exec_inv_def)
  have "exec_inv ?s" using touches_sadd [of _ "''k''" exec_new] new(1) by (simp add: touches_def tidy_def)
  moreover have "utf8_lossy [CHR 0xFF] = replacement" "utf8_lossy [CHR 0xFE] = replacement"
    by (simp_all add: utf8_lossy.simps [of "[_]"] utf8_step_def byte_at_def Let_def)
  moreover from this have "stored_set ?s ''k'' = Some {|replacement|}"
    using sadd_eq [OF new(1,3), of "[[CHR 0xFF]]"]
    by (simp add: stored_set_def visible_def lossy_set_def)
  ultimately show ?thesis
    using set_algebra [of ?s "''k''" "{|replacement|}" "[]" "[CHR 0xFE]"] by (simp add: Let_def)
qed

section \<open>Hashes\<close>

definition stored_hash :: "executor \<Rightarrow> string \<Rightarrow> redis_hash option" where
  "stored_hash s key =
     (case visible s key of None \<Rightarrow> Some fmempty | Some (Hash h) \<Rightarrow> Some h | Some _ \<Rightarrow> None)"

lemma stored_hash_cases:
  assumes "stored_hash s key = Some h"
  shows "visible s key = None \<and> h = fmempty \<or> visible s key = Some (Hash h)"
  using assms by (auto simp: stored_hash_def split: option.splits redis_value.splits)

lemma hget_eq:
  "stored_hash s key = Some h \<Longrightarrow> snd (execute_hget key f s) = BulkString (fmlookup h (utf8_lossy f))"
  using stored_hash_cases [of s key h]
  by (auto simp: execute_hget_def reads hash_get_def nil_def)

lemma hset_eq:
  assumes "exec_inv s" "stored_hash s key = Some h"
  shows "live (fst (execute_hset key ps s)) = (live s)(key \<mapsto>
      (Hash (fst (set_fields h ps 0)), Option.bind (live s key) snd)) \<and>
    snd (execute_hset key ps s) = Integer (snd (set_fields h ps 0))"
  using stored_hash_cases [OF assms(2)] assms(1)
  by (auto simp: execute_hset_def split_beta Let_def live_put)

lemma set_fields_count:
  "snd (set_fields h ps n) = n + int (fcard (fmdom (fst (set_fields h ps n)))) - int (fcard (fmdom h))"
  by (induction h ps n rule: set_fields.induct)
    (auto simp: hash_set_def hash_exists_def fcard_finsert_if)

lemma delete_fields_eq:
  "delete_fields h fs n =
     (fmdrop_fset (lossy_set fs) h,
      n + int (fcard (fmdom h)) - int (fcard (fmdom (fmdrop_fset (lossy_set fs) h))))"
proof (induction h fs n rule: delete_fields.induct)
  case (1 h n)
  show ?case by (simp add: lossy_set_def)
next
  case (2 h f fs n)
  let ?f = "utf8_lossy f"
  have split: "fmdrop_fset (lossy_set (f # fs)) h = fmdrop_fset (lossy_set fs) (fmdrop ?f h)"
    by (rule fmap_ext) (auto simp: lossy_set_def)
  have "int (fcard (fmdom (fmdrop ?f h))) =
      (if fmlookup h ?f = None then int (fcard (fmdom h)) else int (fcard (fmdom h)) - 1)"
  proof (cases "fmlookup h ?f")
    case (Some v)
    then have m: "?f |\<in>| fmdom h" by (simp add: fmlookup_dom_iff)
    then have "0 < fcard (fmdom h)" by (auto simp: fcard.rep_eq card_gt_0_iff)
    with m Some show ?thesis by (simp add: fcard_fminus_fsingleton)
  qed simp
  with 2 split show ?case by (auto simp: hash_delete_def Let_def)
qed

lemma stored_hash_live:
  "live s key = put_or_drop (h = fmempty) (Hash h) d \<Longrightarrow> stored_hash s key = Some h"
  by (auto simp: stored_hash_def visible_def put_or_drop_def split: if_splits)

lemma hdel_eq:
  assumes "exec_inv s" "stored_hash s key = Some h"
  shows "live (fst (execute_hdel key fs s)) key =
      put_or_drop (fst (delete_fields h fs 0) = fmempty) (Hash (fst (delete_fields h fs 0)))
        (Option.bind (live s key) snd) \<and>
    snd (execute_hdel key fs s) = Integer (snd (delete_fields h fs 0))"
  using stored_hash_cases [OF assms(2)]
proof
  assume "visible s key = Some (Hash h)"
  then show ?thesis using assms(1)
    by (simp add: execute_hdel_def reads drop_empty_hash_put put_or_drop_def live_put)
next
  assume v: "visible s key = None \<and> h = fmempty"
  then have "live s key = None" by (simp add: live_None_iff)
  with v show ?thesis
    by (simp add: execute_hdel_def reads drop_empty_hash_def put_or_drop_def delete_fields_eq
        fun_upd_idem)
qed

lemma hlen_eq: "stored_hash s key = Some h \<Longrightarrow> snd (execute_hlen key s) = Integer (int (hash_len h))"
  using stored_hash_cases [of s key h] by (auto simp: execute_hlen_def reads hash_len_def)

lemma hash_len_0: "hash_len h = 0 \<longleftrightarrow> h = fmempty"
proof
  assume "hash_len h = 0"
  then have "fmdom h = {||}" by (simp add: hash_len_def)
  then have "fmlookup h k = None" for k by (intro fmdom_notD) simp
  then show "h = fmempty" by (intro fmap_ext) simp
qed (simp add: hash_len_def)

text \<open>
  A hash is a map from fields to values: after \<open>HSET\<close>, \<open>HGET\<close> returns the last value given for a
  field and the old value for the fields not given; after \<open>HDEL\<close> it returns nil for the deleted
  fields only, and a hash without fields has no key. The replies count the fields that were new
  or that were removed.
\<close>

theorem hash_is_map:
  assumes "exec_inv s" "stored_hash s key = Some h" "ps \<noteq> []"
  shows "let (s', r) = execute_hset key ps s; (s'', q) = execute_hdel key fs s' in
    (\<forall>f. snd (execute_hget key f s') = BulkString
       (case map_of (rev (map (map_prod utf8_lossy id) ps)) (utf8_lossy f) of
          Some v \<Rightarrow> Some v | None \<Rightarrow> fmlookup h (utf8_lossy f))) \<and>
    (\<forall>f. snd (execute_hget key f s'') =
       (if utf8_lossy f |\<in>| lossy_set fs then nil else snd (execute_hget key f s'))) \<and>
    (\<exists>n. snd (execute_hlen key s') = Integer n \<and> r = Integer (n - int (hash_len h)) \<and>
       (\<exists>n'. snd (execute_hlen key s'') = Integer n' \<and> q = Integer (n - n') \<and>
          (live s'' key = None \<longleftrightarrow> n' = 0)))"
proof -
  let ?h = "fst (set_fields h ps 0)" and ?d = "Option.bind (live s key) snd"
  let ?s' = "fst (execute_hset key ps s)"
  let ?h' = "fst (delete_fields ?h fs 0)" and ?s'' = "fst (execute_hdel key fs ?s')"
  note hset = hset_eq [OF assms(1,2), of ps]
  have inv: "exec_inv ?s'" using touches_hset [OF assms(3)] assms(1) by (simp add: touches_def tidy_def)
  have live': "live ?s' key = Some (Hash ?h, ?d)" using hset by simp
  have st': "stored_hash ?s' key = Some ?h" using live' by (simp add: stored_hash_def visible_def)
  note hdel = hdel_eq [OF inv st', of fs]
  have st'': "stored_hash ?s'' key = Some ?h'" using hdel by (auto intro: stored_hash_live)
  have gone: "live ?s'' key = None \<longleftrightarrow> int (hash_len ?h') = 0"
    using hdel by (auto simp: put_or_drop_def hash_len_0 split: if_splits)
  have get': "snd (execute_hget key f ?s') = BulkString (fmlookup ?h (utf8_lossy f))" for f
    by (rule hget_eq [OF st'])
  have get'': "snd (execute_hget key f ?s'') =
      (if utf8_lossy f |\<in>| lossy_set fs then nil else snd (execute_hget key f ?s'))" for f
    using hget_eq [OF st'', of f] get' [of f] by (simp add: delete_fields_eq nil_def)
  have counts: "snd (execute_hset key ps s) = Integer (int (hash_len ?h) - int (hash_len h))"
      "snd (execute_hdel key fs ?s') = Integer (int (hash_len ?h) - int (hash_len ?h'))"
    using hset hdel by (simp_all add: set_fields_count [of h ps 0] delete_fields_eq hash_len_def)
  show ?thesis
    using get'' hlen_eq [OF st'] hlen_eq [OF st''] counts gone
    by (simp add: split_beta Let_def get' set_fields_lookup)
qed

theorem hash_is_map_witness:
  "let s' = fst (execute_hset ''k'' [(''f'', ''1''), (''g'', ''2''), (''f'', ''3'')] exec_new);
       s'' = fst (execute_hdel ''k'' [''g''] s')
   in snd (execute_hget ''k'' ''f'' s') = bulk ''3'' \<and> snd (execute_hget ''k'' ''g'' s'') = nil"
proof -
  have "exec_inv exec_new" "stored_hash exec_new ''k'' = Some fmempty"
    by (simp_all add: stored_hash_def visible_def live_def exec_new_def exec_inv_def)
  moreover have "ascii ''f''" "ascii ''g''" by (simp_all add: ascii_def)
  ultimately show ?thesis
    using hash_is_map [of exec_new "''k''" fmempty "[(''f'', ''1''), (''g'', ''2''), (''f'', ''3'')]" "[''g'']"]
    by (auto simp: split_beta Let_def lossy_set_def)
qed

end
