(* ===== verification/Skip_List_Links.thy ===== *)
theory Skip_List_Links
  imports Skip_List
begin

text \<open>
  The links a skip list should have, computed from the heights of its nodes alone, and how they
  change when a node is inserted or removed. Position 0 is the header, position \<open>p\<close> the \<open>p\<close>th node.
\<close>

section \<open>Neighbours at a level\<close>

definition next_pos :: "nat list \<Rightarrow> nat \<Rightarrow> nat \<Rightarrow> nat option" where
  "next_pos H i p = find (\<lambda>q. i < H ! q) [Suc p..<length H]"

definition pred_pos :: "nat list \<Rightarrow> nat \<Rightarrow> nat \<Rightarrow> nat" where
  "pred_pos H i k = last (filter (\<lambda>p. i < H ! p) [0..<k])"

definition is_pred :: "nat list \<Rightarrow> nat \<Rightarrow> nat \<Rightarrow> nat \<Rightarrow> bool" where
  "is_pred H i k p \<longleftrightarrow> p < k \<and> i < H ! p \<and> (\<forall>r. p < r \<and> r < k \<longrightarrow> H ! r \<le> i)"

definition link :: "usize list \<Rightarrow> nat list \<Rightarrow> nat \<Rightarrow> nat \<Rightarrow> skip_list_level" where
  "link ps H i p =
     (case next_pos H i p of
        Some q \<Rightarrow> \<lparr>forward = Some (ps ! q), span = q - p\<rparr>
      | None \<Rightarrow> \<lparr>forward = None, span = length ps - Suc p\<rparr>)"

lemma next_pos_SomeI:
  assumes "p < q" "q < length H" "i < H ! q" "\<And>r. p < r \<Longrightarrow> r < q \<Longrightarrow> H ! r \<le> i"
  shows "next_pos H i p = Some q"
  unfolding next_pos_def find_Some_iff
  using assms by (intro exI [of _ "q - Suc p"]) (auto simp: not_less)

lemma next_pos_NoneI: "(\<And>q. p < q \<Longrightarrow> q < length H \<Longrightarrow> H ! q \<le> i) \<Longrightarrow> next_pos H i p = None"
  unfolding next_pos_def find_None_iff by (auto simp: Suc_le_eq) (metis not_less)

lemma next_pos_cases:
  obtains (Some) q where "next_pos H i p = Some q" "p < q" "q < length H" "i < H ! q"
    "\<And>r. p < r \<Longrightarrow> r < q \<Longrightarrow> H ! r \<le> i"
  | (None) "next_pos H i p = None" "\<And>q. p < q \<Longrightarrow> q < length H \<Longrightarrow> H ! q \<le> i"
proof (cases "\<exists>q. p < q \<and> q < length H \<and> i < H ! q")
  case True
  define q where "q = (LEAST q. p < q \<and> q < length H \<and> i < H ! q)"
  have q: "p < q \<and> q < length H \<and> i < H ! q"
    unfolding q_def by (rule LeastI_ex [OF True])
  have "H ! r \<le> i" if "p < r" "r < q" for r
    using not_less_Least [of r "\<lambda>q. p < q \<and> q < length H \<and> i < H ! q"] that q
    by (auto simp: q_def not_less)
  with q show thesis
    by (intro that(1) [of q] next_pos_SomeI) auto
next
  case False
  then have "H ! q \<le> i" if "p < q" "q < length H" for q
    using that not_less by blast
  then show thesis
    by (intro that(2) next_pos_NoneI)
qed

lemma next_pos_bounds: "next_pos H i p = Some q \<Longrightarrow> p < q \<and> q < length H \<and> i < H ! q"
  by (cases rule: next_pos_cases [of H i p]) auto

lemma is_pred_unique: "is_pred H i k p \<Longrightarrow> is_pred H i k q \<Longrightarrow> p = q"
  unfolding is_pred_def by (metis leD linorder_neqE_nat)

lemma is_pred_exists:
  assumes "i < H ! 0" "0 < k"
  shows "is_pred H i k (pred_pos H i k)"
proof -
  define P where "P = filter (\<lambda>p. i < H ! p) [0..<k]"
  have "0 \<in> set P"
    using assms by (simp add: P_def)
  then have ne: "P \<noteq> []"
    by auto
  then have mem: "last P < k" "i < H ! last P"
    using last_in_set [OF ne] by (auto simp: P_def)
  have sorted: "sorted P"
    by (simp add: P_def sorted_wrt_filter)
  have "H ! r \<le> i" if "last P < r" "r < k" for r
  proof (rule ccontr)
    assume "\<not> H ! r \<le> i"
    then have "r \<in> set P"
      using that by (simp add: P_def)
    then have "r \<in> set (butlast P @ [last P])"
      using ne by simp
    moreover have "sorted (butlast P @ [last P])"
      using sorted ne by simp
    ultimately have "r \<le> last P"
      by (auto simp: sorted_append)
    then show False
      using that by simp
  qed
  with mem show ?thesis
    by (simp add: is_pred_def pred_pos_def P_def)
qed

lemma pred_pos_eq: "is_pred H i k p \<Longrightarrow> pred_pos H i k = p"
proof -
  assume p: "is_pred H i k p"
  have split: "[0..<k] = [0..<p] @ p # [Suc p..<k]"
    using p upt_add_eq_append [of 0 p "k - p"] by (simp add: is_pred_def upt_conv_Cons)
  have "filter (\<lambda>p. i < H ! p) [Suc p..<k] = []"
    using p by (auto simp: is_pred_def filter_empty_conv not_less)
  then show ?thesis
    using p unfolding pred_pos_def split by (simp add: is_pred_def)
qed

lemma pred_pos_cong:
  assumes "i < H ! 0" "0 < k" "\<And>p. p < k \<Longrightarrow> G ! p = H ! p"
  shows "pred_pos G i k = pred_pos H i k"
  using is_pred_exists [OF assms(1,2)] assms(3) by (intro pred_pos_eq) (auto simp: is_pred_def)

lemma pred_pos_bottom:
  assumes "0 < k" "\<And>p. p < k \<Longrightarrow> 0 < H ! p"
  shows "pred_pos H 0 k = k - 1"
  using assms by (intro pred_pos_eq) (auto simp: is_pred_def)

section \<open>Inserting a position\<close>

definition ins :: "nat \<Rightarrow> 'a \<Rightarrow> 'a list \<Rightarrow> 'a list" where
  "ins k x xs = take k xs @ x # drop k xs"

lemma length_ins [simp]: "length (ins k x xs) = Suc (length xs)"
  by (simp add: ins_def)

lemma ins_not_Nil [simp]: "ins k x xs \<noteq> []"
  by (simp add: ins_def)

lemma nth_ins: "k \<le> length xs \<Longrightarrow>
    ins k x xs ! p = (if p < k then xs ! p else if p = k then x else xs ! (p - 1))"
  by (auto simp: ins_def nth_append min_def nth_Cons' Suc_diff_Suc add.commute not_less)

lemma map_ins: "map f (ins k x xs) = ins k (f x) (map f xs)"
  by (simp add: ins_def take_map drop_map)

lemma set_ins [simp]: "set (ins k x xs) = insert x (set xs)"
  unfolding ins_def by (metis Un_insert_right append_take_drop_id list.simps(15) set_append)

lemma distinct_ins: "distinct (ins k x xs) \<longleftrightarrow> x \<notin> set xs \<and> distinct xs"
proof -
  have "distinct (take k xs @ drop k xs) \<longleftrightarrow> distinct xs" "set xs = set (take k xs) \<union> set (drop k xs)"
    by (simp, metis append_take_drop_id set_append)
  then show ?thesis
    unfolding ins_def distinct_append by auto
qed

lemma ins_split:
  assumes "k < length xs"
  shows "xs = ins k (xs ! k) (take k xs @ drop (Suc k) xs)"
  using assms by (simp add: ins_def id_take_nth_drop min_def)

lemma hd_ins: "0 < k \<Longrightarrow> xs \<noteq> [] \<Longrightarrow> ins k x xs ! 0 = xs ! 0"
  by (cases xs; cases k) (auto simp: ins_def)

text \<open>The links after the insertion of a node \<open>x\<close> of height \<open>h\<close> at position \<open>k\<close>.\<close>

lemma link_after:
  assumes "k \<le> p" "p < length H" "length ps = length H"
  shows "link (ins k x ps) (ins k h H) i (Suc p) = link ps H i p"
proof (cases rule: next_pos_cases [of H i p])
  case (Some q)
  then have "next_pos (ins k h H) i (Suc p) = Some (Suc q)"
    using assms by (intro next_pos_SomeI) (auto simp: nth_ins)
  then show ?thesis
    using Some assms by (simp add: link_def nth_ins)
next
  case None
  then have "next_pos (ins k h H) i (Suc p) = None"
    using assms by (intro next_pos_NoneI) (auto simp: nth_ins)
  then show ?thesis
    using None assms by (simp add: link_def)
qed

lemma link_before:
  assumes "p < q" "q < k" "i < H ! q" "k \<le> length H" "length ps = length H"
  shows "link (ins k x ps) (ins k h H) i p = link ps H i p"
proof (cases rule: next_pos_cases [of H i p])
  case (Some r)
  have "\<not> q < r"
    using Some(5) [OF assms(1)] assms(3) leD by blast
  then have "r < k"
    using assms(2) by simp
  then have "next_pos (ins k h H) i p = Some r"
    using Some assms(4,5) by (intro next_pos_SomeI) (auto simp: nth_ins)
  then show ?thesis
    using Some assms \<open>r < k\<close> by (simp add: link_def nth_ins)
next
  case None
  have "H ! q \<le> i"
    using assms(2,4) by (intro None(2) [OF assms(1)]) simp
  then show ?thesis
    using assms(3) by simp
qed

lemma link_pred_low:
  assumes "is_pred H i k p" "i < h" "k \<le> length H" "length ps = length H"
  shows "link (ins k x ps) (ins k h H) i p = \<lparr>forward = Some x, span = k - p\<rparr>"
proof -
  have "next_pos (ins k h H) i p = Some k"
    using assms by (intro next_pos_SomeI) (auto simp: nth_ins is_pred_def)
  then show ?thesis
    using assms by (simp add: link_def nth_ins)
qed

lemma next_pos_from_pred:
  assumes "is_pred H i k p" "k \<le> length H"
  obtains (Some) q where "next_pos H i p = Some q" "k \<le> q" "q < length H" "i < H ! q"
    "\<And>r. p < r \<Longrightarrow> r < q \<Longrightarrow> H ! r \<le> i"
  | (None) "next_pos H i p = None" "\<And>q. p < q \<Longrightarrow> q < length H \<Longrightarrow> H ! q \<le> i"
proof (cases rule: next_pos_cases [of H i p])
  case (Some q)
  moreover have "k \<le> q"
    using Some(2,4) assms(1) by (auto simp: is_pred_def not_less intro: ccontr)
  ultimately show thesis
    using that(1) by blast
next
  case None
  then show thesis
    using that(2) by blast
qed

lemma link_pred_high:
  assumes "is_pred H i k p" "h \<le> i" "k \<le> length H" "length ps = length H"
  shows "link (ins k x ps) (ins k h H) i p = (link ps H i p)\<lparr>span := span (link ps H i p) + 1\<rparr>"
proof (rule next_pos_from_pred [OF assms(1,3)])
  fix q
  assume q: "next_pos H i p = Some q" "k \<le> q" "q < length H" "i < H ! q"
    "\<And>r. p < r \<Longrightarrow> r < q \<Longrightarrow> H ! r \<le> i"
  have "p < k"
    using assms by (simp add: is_pred_def)
  then have "next_pos (ins k h H) i p = Some (Suc q)"
    using q assms by (intro next_pos_SomeI) (auto simp: nth_ins)
  then show ?thesis
    using q assms \<open>p < k\<close> by (simp add: link_def nth_ins)
next
  assume none: "next_pos H i p = None" "\<And>q. p < q \<Longrightarrow> q < length H \<Longrightarrow> H ! q \<le> i"
  have "p < k"
    using assms by (simp add: is_pred_def)
  then have "next_pos (ins k h H) i p = None"
    using none assms by (intro next_pos_NoneI) (auto simp: nth_ins)
  then show ?thesis
    using none assms \<open>p < k\<close> by (simp add: link_def)
qed

lemma link_new:
  assumes "is_pred H i k p" "k \<le> length H" "length ps = length H"
  shows "link (ins k x ps) (ins k h H) i k =
      \<lparr>forward = forward (link ps H i p), span = span (link ps H i p) - (k - 1 - p)\<rparr>"
    and "k - 1 - p \<le> span (link ps H i p)"
proof -
  have pk: "p < k"
    using assms by (simp add: is_pred_def)
  have "link (ins k x ps) (ins k h H) i k =
      \<lparr>forward = forward (link ps H i p), span = span (link ps H i p) - (k - 1 - p)\<rparr> \<and>
    k - 1 - p \<le> span (link ps H i p)"
  proof (rule next_pos_from_pred [OF assms(1,2)])
    fix q
    assume q: "next_pos H i p = Some q" "k \<le> q" "q < length H" "i < H ! q"
      "\<And>r. p < r \<Longrightarrow> r < q \<Longrightarrow> H ! r \<le> i"
    then have "next_pos (ins k h H) i k = Some (Suc q)"
      using assms pk by (intro next_pos_SomeI) (auto simp: nth_ins)
    then show ?thesis
      using q assms pk by (simp add: link_def nth_ins)
  next
    assume none: "next_pos H i p = None" "\<And>q. p < q \<Longrightarrow> q < length H \<Longrightarrow> H ! q \<le> i"
    then have "next_pos (ins k h H) i k = None"
      using assms pk by (intro next_pos_NoneI) (auto simp: nth_ins)
    then show ?thesis
      using none assms pk by (simp add: link_def)
  qed
  then show "link (ins k x ps) (ins k h H) i k =
      \<lparr>forward = forward (link ps H i p), span = span (link ps H i p) - (k - 1 - p)\<rparr>"
    and "k - 1 - p \<le> span (link ps H i p)"
    by auto
qed

end
