(* ===== verification/Skip_List_Laws.thy ===== *)
theory Skip_List_Laws
  imports Skip_List_Links
begin

text \<open>
  The arena represents a sequence: \<open>repr sl ps\<close> says that \<open>ps\<close> lists the nodes from the header on
  and that every link, span, back pointer and slot is the one that sequence asks for. Under it every
  operation of \<open>Skip_List\<close> returns, keeps the representation and acts on the sequence as a sorted
  list would.
\<close>

section \<open>What the arena shows of a node\<close>

definition height :: "skip_list \<Rightarrow> usize \<Rightarrow> nat" where
  "height sl x = (case get_node sl x of Some n \<Rightarrow> length (levels n) | None \<Rightarrow> 0)"

definition entry_of :: "skip_list \<Rightarrow> usize \<Rightarrow> (string \<times> f64) option" where
  "entry_of sl x = map_option (\<lambda>n. (sl_member n, sl_score n)) (get_node sl x)"

definition back_of :: "skip_list \<Rightarrow> usize \<Rightarrow> usize option option" where
  "back_of sl x = map_option backward (get_node sl x)"

text \<open>A step that only changes links.\<close>

definition relinks :: "skip_list \<Rightarrow> skip_list \<Rightarrow> bool" where
  "relinks sl sl' \<longleftrightarrow>
     height sl' = height sl \<and> entry_of sl' = entry_of sl \<and> back_of sl' = back_of sl \<and>
     length (nodes sl') = length (nodes sl) \<and> free_slots sl' = free_slots sl \<and> tail sl' = tail sl \<and>
     sl_level sl' = sl_level sl \<and> sl_length sl' = sl_length sl"

lemma relinks_refl [simp]: "relinks sl sl"
  by (simp add: relinks_def)

lemma relinks_trans [trans]: "relinks sl sl1 \<Longrightarrow> relinks sl1 sl2 \<Longrightarrow> relinks sl sl2"
  by (simp add: relinks_def)

lemma get_node_frame [simp]:
  "get_node (sl\<lparr>sl_level := a\<rparr>) = get_node sl" "get_node (sl\<lparr>sl_length := b\<rparr>) = get_node sl"
  "get_node (sl\<lparr>tail := c\<rparr>) = get_node sl" "get_node (sl\<lparr>rng_state := d\<rparr>) = get_node sl"
  by (simp_all add: get_node_def fun_eq_iff)

lemma observers_frame:
  assumes "get_node sl' = get_node sl"
  shows "get_level sl' = get_level sl" "height sl' = height sl" "entry_of sl' = entry_of sl"
    "back_of sl' = back_of sl"
  using assms by (simp_all add: get_level_def height_def entry_of_def back_of_def fun_eq_iff)

lemmas observers [simp] =
  observers_frame [OF get_node_frame(1)] observers_frame [OF get_node_frame(2)]
  observers_frame [OF get_node_frame(3)] observers_frame [OF get_node_frame(4)]

lemma get_level_height: "get_level sl x i \<noteq> None \<longleftrightarrow> i < height sl x"
  by (auto simp: get_level_def height_def split: option.splits Option.bind_split)

lemma get_node_put: "x < length (nodes sl) \<Longrightarrow>
    get_node (put_node x n sl) y = (if y = x then Some n else get_node sl y)"
  by (auto simp: get_node_def put_node_def)

lemma get_node_bound: "get_node sl x = Some n \<Longrightarrow> x < length (nodes sl)"
  by (auto simp: get_node_def split: if_splits)

lemma set_levelE:
  assumes "i < height sl x"
  obtains sl' where "set_level x i l sl = Some sl'" "relinks sl sl'"
    "\<And>y j. get_level sl' y j = (if y = x \<and> j = i then Some l else get_level sl y j)"
proof -
  obtain n where n: "get_node sl x = Some n" "i < length (levels n)"
    using assms by (auto simp: height_def split: option.splits)
  define sl' where "sl' = put_node x (n\<lparr>levels := (levels n)[i := l]\<rparr>) sl"
  have bound: "x < length (nodes sl)"
    using n(1) by (rule get_node_bound)
  have look: "get_node sl' y = (if y = x then Some (n\<lparr>levels := (levels n)[i := l]\<rparr>) else get_node sl y)" for y
    unfolding sl'_def by (rule get_node_put [OF bound])
  show thesis
  proof (rule that [of sl'])
    show "set_level x i l sl = Some sl'"
      using n by (simp add: set_level_def sl'_def)
    show "relinks sl sl'"
      using n by (auto simp: relinks_def height_def entry_of_def back_of_def look fun_eq_iff)
        (simp_all add: sl'_def put_node_def)
    show "get_level sl' y j = (if y = x \<and> j = i then Some l else get_level sl y j)" for y j
      using n by (auto simp: get_level_def look nth_list_update)
  qed
qed

lemma set_backwardE:
  assumes "entry_of sl x \<noteq> None"
  obtains sl' where "set_backward x b sl = Some sl'"
    "get_level sl' = get_level sl" "height sl' = height sl" "entry_of sl' = entry_of sl"
    "back_of sl' = (back_of sl)(x := Some b)"
    "length (nodes sl') = length (nodes sl)" "free_slots sl' = free_slots sl" "tail sl' = tail sl"
    "sl_level sl' = sl_level sl" "sl_length sl' = sl_length sl"
proof -
  obtain n where n: "get_node sl x = Some n"
    using assms by (auto simp: entry_of_def)
  define sl' where "sl' = put_node x (n\<lparr>backward := b\<rparr>) sl"
  have look: "get_node sl' y = (if y = x then Some (n\<lparr>backward := b\<rparr>) else get_node sl y)" for y
    unfolding sl'_def by (rule get_node_put [OF get_node_bound [OF n]])
  show thesis
    by (rule that [of sl'])
      (use n in \<open>auto simp: set_backward_def look height_def entry_of_def back_of_def get_level_def
        fun_eq_iff\<close>, simp_all add: sl'_def put_node_def)
qed

section \<open>The representation\<close>

definition links_ok :: "skip_list \<Rightarrow> usize list \<Rightarrow> bool" where
  "links_ok sl ps \<longleftrightarrow>
     (\<forall>p < length ps. \<forall>i < sl_level sl. i < height sl (ps ! p) \<longrightarrow>
        get_level sl (ps ! p) i = Some (link ps (map (height sl) ps) i p))"

definition slots_ok :: "skip_list \<Rightarrow> usize list \<Rightarrow> bool" where
  "slots_ok sl ps \<longleftrightarrow>
     ps \<noteq> [] \<and> ps ! 0 = 0 \<and> distinct ps \<and> (\<forall>x. entry_of sl x \<noteq> None \<longleftrightarrow> x \<in> set ps) \<and>
     set (free_slots sl) = {..<length (nodes sl)} - set ps \<and> distinct (free_slots sl)"

definition heights_ok :: "skip_list \<Rightarrow> usize list \<Rightarrow> bool" where
  "heights_ok sl ps \<longleftrightarrow>
     1 \<le> sl_level sl \<and> sl_level sl \<le> skiplist_maxlevel \<and> height sl 0 = skiplist_maxlevel \<and>
     (\<forall>p. 0 < p \<and> p < length ps \<longrightarrow> 1 \<le> height sl (ps ! p) \<and> height sl (ps ! p) \<le> sl_level sl) \<and>
     (\<forall>i l. sl_level sl \<le> i \<longrightarrow> get_level sl 0 i = Some l \<longrightarrow> forward l = None)"

definition ends_ok :: "skip_list \<Rightarrow> usize list \<Rightarrow> bool" where
  "ends_ok sl ps \<longleftrightarrow>
     sl_length sl = length ps - 1 \<and> tail sl = (if length ps = 1 then None else Some (last ps)) \<and>
     (\<forall>p. 0 < p \<and> p < length ps \<longrightarrow>
        back_of sl (ps ! p) = Some (if p = 1 then None else Some (ps ! (p - 1))))"

definition repr :: "skip_list \<Rightarrow> usize list \<Rightarrow> bool" where
  "repr sl ps \<longleftrightarrow> slots_ok sl ps \<and> heights_ok sl ps \<and> links_ok sl ps \<and> ends_ok sl ps"

text \<open>The sequence represented.\<close>

definition contents :: "skip_list \<Rightarrow> usize list \<Rightarrow> (string \<times> f64) list" where
  "contents sl ps = map (the \<circ> entry_of sl) (List.tl ps)"

lemma repr_new: "repr skiplist_new [0]"
proof -
  have node: "get_node skiplist_new x =
      (if x = 0 then Some \<lparr>sl_member = [], sl_score = 0,
         levels = replicate skiplist_maxlevel blank_level, backward = None\<rparr> else None)" for x
    by (simp add: get_node_def skiplist_new_def)
  have level: "get_level skiplist_new x i =
      (if x = 0 \<and> i < skiplist_maxlevel then Some blank_level else None)" for x i
    by (simp add: get_level_def node)
  have "next_pos [skiplist_maxlevel] i 0 = None" for i
    by (rule next_pos_NoneI) simp
  then have "links_ok skiplist_new [0]"
    by (simp add: links_ok_def level link_def height_def node blank_level_def)
  moreover have "slots_ok skiplist_new [0]"
    by (simp add: slots_ok_def entry_of_def node) (auto simp: skiplist_new_def)
  moreover have "heights_ok skiplist_new [0]"
    by (simp add: heights_ok_def level height_def node blank_level_def)
      (simp add: skiplist_new_def skiplist_maxlevel_def)
  moreover have "ends_ok skiplist_new [0]"
    by (simp add: ends_ok_def) (simp add: skiplist_new_def)
  ultimately show ?thesis
    by (simp add: repr_def)
qed

lemma contents_new: "contents skiplist_new [0] = []"
  by (simp add: contents_def)

section \<open>Search\<close>

text \<open>
  A test splits the sequence at \<open>k\<close> when it passes the nodes before position \<open>k\<close> and no other.
\<close>

definition splits_at :: "sl_test \<Rightarrow> skip_list \<Rightarrow> usize list \<Rightarrow> nat \<Rightarrow> bool" where
  "splits_at pass sl ps k \<longleftrightarrow>
     0 < k \<and> k \<le> length ps \<and> (\<forall>q. 0 < q \<and> q < length ps \<longrightarrow> pass sl (ps ! q) q = Some (q < k))"

lemma advance_stops:
  assumes r: "repr sl ps" and s: "splits_at pass sl ps k"
    and i: "i < sl_level sl" "i < height sl (ps ! p)" "p < k"
  shows "\<exists>p'. sl_advance sl pass i (ps ! p) p = Some (ps ! p', p') \<and>
    is_pred (map (height sl) ps) i k p'"
  using i
proof (induction "k - p" arbitrary: p rule: less_induct)
  case less
  define H where "H = map (height sl) ps"
  have H: "H ! q = height sl (ps ! q)" if "q < length ps" for q
    using that by (simp add: H_def)
  have k: "k \<le> length ps"
    using s by (simp add: splits_at_def)
  have level: "get_level sl (ps ! p) i = Some (link ps H i p)"
    using r less k by (simp add: repr_def links_ok_def H_def)
  show ?case
  proof (cases rule: next_pos_cases [of H i p])
    case (Some q)
    then have q: "q < length ps" "0 < q"
      by (auto simp: H_def)
    have l: "link ps H i p = \<lparr>forward = Some (ps ! q), span = q - p\<rparr>"
      using Some by (simp add: link_def)
    have pass: "pass sl (ps ! q) q = Some (q < k)"
      using s q by (simp add: splits_at_def)
    show ?thesis
    proof (cases "q < k")
      case True
      have "\<exists>p'. sl_advance sl pass i (ps ! q) q = Some (ps ! p', p') \<and>
          is_pred (map (height sl) ps) i k p'"
        using less.hyps [of q] less.prems True Some(2,4) H [OF q(1)] by simp
      then show ?thesis
        using Some(2) True pass by (subst sl_advance.simps) (simp add: level l)
    next
      case False
      have "H ! r \<le> i" if "p < r" "r < k" for r
        using Some(5) [of r] that False by simp
      then have "is_pred H i k p"
        using less.prems H [of p] k by (simp add: is_pred_def)
      then show ?thesis
        using Some(2) False pass unfolding H_def [symmetric]
        by (subst sl_advance.simps) (auto simp: level l)
    qed
  next
    case None
    then have "is_pred H i k p"
      using less.prems H k by (auto simp: is_pred_def H_def)
    then show ?thesis
      using None by (subst sl_advance.simps) (auto simp: level link_def H_def)
  qed
qed

lemma descend_stops:
  assumes r: "repr sl ps" and s: "splits_at pass sl ps k"
    and "n \<le> sl_level sl" "n \<le> height sl (ps ! p)" "p < k"
    and "length update = skiplist_maxlevel" "length rank = skiplist_maxlevel"
  shows "\<exists>p' u r. descend sl pass n (ps ! p) p update rank = Some (ps ! p', p', u, r) \<and>
    p' = (if n = 0 then p else pred_pos (map (height sl) ps) 0 k) \<and>
    length u = skiplist_maxlevel \<and> length r = skiplist_maxlevel \<and>
    (\<forall>i < n. u ! i = ps ! pred_pos (map (height sl) ps) i k \<and>
             r ! i = pred_pos (map (height sl) ps) i k) \<and>
    (\<forall>i. n \<le> i \<longrightarrow> u ! i = update ! i \<and> r ! i = rank ! i)"
  using assms(3-)
proof (induction n arbitrary: p update rank)
  case 0
  then show ?case
    by simp
next
  case (Suc n)
  define H where "H = map (height sl) ps"
  obtain q where q: "sl_advance sl pass n (ps ! p) p = Some (ps ! q, q)" "is_pred H n k q"
    using advance_stops [OF r s, of n p] Suc.prems unfolding H_def by auto
  have q': "pred_pos H n k = q" "q < k" "n < H ! q"
    using q(2) pred_pos_eq by (auto simp: is_pred_def)
  have "q < length ps"
    using q'(2) s by (simp add: splits_at_def)
  then have tall: "n \<le> height sl (ps ! q)"
    using q'(3) by (simp add: H_def)
  have n: "n < skiplist_maxlevel"
    using Suc.prems r by (simp add: repr_def heights_ok_def)
  obtain p' u r' where d: "descend sl pass n (ps ! q) q (update[n := ps ! q]) (rank[n := q]) =
      Some (ps ! p', p', u, r')" "p' = (if n = 0 then q else pred_pos H 0 k)"
    "length u = skiplist_maxlevel" "length r' = skiplist_maxlevel"
    "\<forall>i < n. u ! i = ps ! pred_pos H i k \<and> r' ! i = pred_pos H i k"
    "\<forall>i. n \<le> i \<longrightarrow> u ! i = update[n := ps ! q] ! i \<and> r' ! i = rank[n := q] ! i"
    using Suc.IH [of q "update[n := ps ! q]" "rank[n := q]"] Suc.prems tall q'(2)
    unfolding H_def by auto
  have "\<forall>i < Suc n. u ! i = ps ! pred_pos H i k \<and> r' ! i = pred_pos H i k"
    using d(5,6) q'(1) Suc.prems n by (auto simp: less_Suc_eq)
  moreover have "\<forall>i. Suc n \<le> i \<longrightarrow> u ! i = update ! i \<and> r' ! i = rank ! i"
    using d(6) by auto
  ultimately show ?case
    using q(1) d(1-4) q'(1) unfolding H_def [symmetric] by (auto split: if_splits)
qed

lemma heights_pos: "repr sl ps \<Longrightarrow> p < length ps \<Longrightarrow> 0 < height sl (ps ! p)"
  by (cases p) (auto simp: repr_def heights_ok_def slots_ok_def skiplist_maxlevel_def Suc_le_eq)

lemma bottom_pred:
  assumes "repr sl ps" "0 < k" "k \<le> length ps"
  shows "pred_pos (map (height sl) ps) 0 k = k - 1"
  using assms heights_pos [OF assms(1)] by (intro pred_pos_bottom) auto

text \<open>The arrays a search at position \<open>k\<close> should fill in.\<close>

definition preds_ok :: "skip_list \<Rightarrow> usize list \<Rightarrow> nat \<Rightarrow> usize list \<Rightarrow> nat list \<Rightarrow> bool" where
  "preds_ok sl ps k update rank \<longleftrightarrow>
     length update = skiplist_maxlevel \<and> length rank = skiplist_maxlevel \<and>
     (\<forall>i < sl_level sl. update ! i = ps ! pred_pos (map (height sl) ps) i k \<and>
                      rank ! i = pred_pos (map (height sl) ps) i k)"

lemma search_stops:
  assumes r: "repr sl ps" and s: "splits_at pass sl ps k"
  obtains update rank where "search sl pass = Some (ps ! (k - 1), k - 1, update, rank)"
    "preds_ok sl ps k update rank"
proof -
  have top: "0 < sl_level sl" "sl_level sl \<le> height sl (ps ! 0)" "ps ! 0 = 0" "0 < k"
    using r s by (auto simp: repr_def heights_ok_def slots_ok_def splits_at_def)
  show thesis
    using descend_stops [OF r s, of "sl_level sl" 0 "replicate skiplist_maxlevel 0"
        "replicate skiplist_maxlevel 0"] top bottom_pred [OF r, of k] s that
    by (auto simp: search_def preds_ok_def splits_at_def)
qed

lemma next_at_bottom_eq:
  assumes r: "repr sl ps" and "p < length ps"
  shows "next_at_bottom sl (ps ! p) =
      (if Suc p < length ps then Some (map_option (Pair (ps ! Suc p)) (get_node sl (ps ! Suc p)))
       else Some None)"
    and "get_level sl (ps ! p) 0 =
      Some (if Suc p < length ps then \<lparr>forward = Some (ps ! Suc p), span = 1\<rparr>
            else \<lparr>forward = None, span = 0\<rparr>)"
proof -
  define H where "H = map (height sl) ps"
  have pos: "0 < H ! q" if "q < length ps" for q
    using heights_pos [OF r that] that by (simp add: H_def)
  have level: "get_level sl (ps ! p) 0 = Some (link ps H 0 p)"
    using r assms(2) pos [of p] by (simp add: repr_def links_ok_def heights_ok_def H_def)
  have "next_pos H 0 p = (if Suc p < length ps then Some (Suc p) else None)"
    using assms(2) pos by (auto intro!: next_pos_SomeI next_pos_NoneI simp: H_def)
  then show level': "get_level sl (ps ! p) 0 =
      Some (if Suc p < length ps then \<lparr>forward = Some (ps ! Suc p), span = 1\<rparr>
            else \<lparr>forward = None, span = 0\<rparr>)"
    using level assms(2) by (simp add: link_def)
  show "next_at_bottom sl (ps ! p) =
      (if Suc p < length ps then Some (map_option (Pair (ps ! Suc p)) (get_node sl (ps ! Suc p)))
       else Some None)"
  proof (cases "Suc p < length ps")
    case True
    then have "ps ! Suc p \<in> set ps"
      by simp
    then obtain n where "get_node sl (ps ! Suc p) = Some n"
      using r by (auto simp: repr_def slots_ok_def entry_of_def)
    then show ?thesis
      using True by (simp add: next_at_bottom_def level')
  qed (simp add: next_at_bottom_def level')
qed

section \<open>The loops that relink\<close>

lemma raise_levels_eq:
  assumes "distinct is" "\<And>i. i \<in> set is \<Longrightarrow> i < height sl 0"
    "length update = skiplist_maxlevel" "length rank = skiplist_maxlevel"
    "\<And>i. i \<in> set is \<Longrightarrow> i < skiplist_maxlevel"
  shows "\<exists>u r sl'. raise_levels is update rank sl = Some (u, r, sl') \<and> relinks sl sl' \<and>
    length u = skiplist_maxlevel \<and> length r = skiplist_maxlevel \<and>
    (\<forall>i. u ! i = (if i \<in> set is then 0 else update ! i)) \<and>
    (\<forall>i. r ! i = (if i \<in> set is then 0 else rank ! i)) \<and>
    (\<forall>y j. get_level sl' y j =
       (if y = 0 \<and> j \<in> set is then map_option (\<lambda>l. l\<lparr>span := sl_length sl\<rparr>) (get_level sl y j)
        else get_level sl y j))"
  using assms
proof (induction "is" arbitrary: update rank sl)
  case Nil
  then show ?case
    by simp
next
  case (Cons i "is")
  have h: "i < height sl 0"
    using Cons.prems(2) by simp
  then obtain l where l: "get_level sl 0 i = Some l"
    using get_level_height [of sl 0 i] by auto
  obtain sl1 where sl1: "set_level 0 i (l\<lparr>span := sl_length sl\<rparr>) sl = Some sl1" "relinks sl sl1"
    "\<And>y j. get_level sl1 y j =
      (if y = 0 \<and> j = i then Some (l\<lparr>span := sl_length sl\<rparr>) else get_level sl y j)"
    using set_levelE [OF h] by metis
  have same: "height sl1 = height sl" "sl_length sl1 = sl_length sl"
    using sl1(2) by (simp_all add: relinks_def)
  obtain u r sl' where ih: "raise_levels is (update[i := 0]) (rank[i := 0]) sl1 = Some (u, r, sl')"
    "relinks sl1 sl'" "length u = skiplist_maxlevel" "length r = skiplist_maxlevel"
    "\<forall>j. u ! j = (if j \<in> set is then 0 else update[i := 0] ! j)"
    "\<forall>j. r ! j = (if j \<in> set is then 0 else rank[i := 0] ! j)"
    "\<forall>y j. get_level sl' y j =
       (if y = 0 \<and> j \<in> set is then map_option (\<lambda>l. l\<lparr>span := sl_length sl\<rparr>) (get_level sl1 y j)
        else get_level sl1 y j)"
    using Cons.IH [of sl1 "update[i := 0]" "rank[i := 0]"] Cons.prems same by auto
  have "i < length update" "i < length rank" "i \<notin> set is"
    using Cons.prems by auto
  then show ?case
    using ih sl1 l relinks_trans [OF sl1(2) ih(2)] by (auto simp: nth_list_update)
qed

lemma splice_in_eq:
  assumes "distinct is" "\<And>i. i \<in> set is \<Longrightarrow> get_level sl (update ! i) i = Some (old i)"
    "\<And>i. i \<in> set is \<Longrightarrow> i < height sl new_idx" "\<And>i. i \<in> set is \<Longrightarrow> update ! i \<noteq> new_idx"
  shows "\<exists>sl'. splice_in is new_idx update rank sl = Some sl' \<and> relinks sl sl' \<and>
    (\<forall>y j. get_level sl' y j =
       (if j \<in> set is \<and> y = new_idx
        then Some \<lparr>forward = forward (old j),
                   span = usize_sub (span (old j)) (usize_sub (rank ! 0) (rank ! j))\<rparr>
        else if j \<in> set is \<and> y = update ! j
        then Some \<lparr>forward = Some new_idx, span = usize_sub (rank ! 0) (rank ! j) + 1\<rparr>
        else get_level sl y j))"
  using assms
proof (induction "is" arbitrary: sl)
  case Nil
  then show ?case
    by simp
next
  case (Cons i "is")
  let ?new = "\<lparr>forward = forward (old i),
    span = usize_sub (span (old i)) (usize_sub (rank ! 0) (rank ! i))\<rparr>"
  let ?upd = "\<lparr>forward = Some new_idx, span = usize_sub (rank ! 0) (rank ! i) + 1\<rparr>"
  have l: "get_level sl (update ! i) i = Some (old i)" and ne: "update ! i \<noteq> new_idx"
    and h: "i < height sl new_idx"
    using Cons.prems by auto
  obtain sl1 where sl1: "set_level new_idx i ?new sl = Some sl1" "relinks sl sl1"
    "\<And>y j. get_level sl1 y j = (if y = new_idx \<and> j = i then Some ?new else get_level sl y j)"
    using set_levelE [OF h] by metis
  have "i < height sl1 (update ! i)"
    using l sl1(2) get_level_height [of sl "update ! i" i] by (simp add: relinks_def)
  then obtain sl2 where sl2: "set_level (update ! i) i ?upd sl1 = Some sl2" "relinks sl1 sl2"
    "\<And>y j. get_level sl2 y j = (if y = update ! i \<and> j = i then Some ?upd else get_level sl1 y j)"
    using set_levelE by metis
  have rl: "relinks sl sl2"
    by (rule relinks_trans [OF sl1(2) sl2(2)])
  have "get_level sl2 (update ! j) j = Some (old j)" if "j \<in> set is" for j
    using that Cons.prems(1,2) sl1(3) sl2(3) by auto
  then obtain sl' where ih: "splice_in is new_idx update rank sl2 = Some sl'" "relinks sl2 sl'"
    "\<And>y j. get_level sl' y j =
       (if j \<in> set is \<and> y = new_idx
        then Some \<lparr>forward = forward (old j),
                   span = usize_sub (span (old j)) (usize_sub (rank ! 0) (rank ! j))\<rparr>
        else if j \<in> set is \<and> y = update ! j
        then Some \<lparr>forward = Some new_idx, span = usize_sub (rank ! 0) (rank ! j) + 1\<rparr>
        else get_level sl2 y j)"
    using Cons.IH [of sl2] Cons.prems rl by (auto simp: relinks_def)
  have "i \<notin> set is"
    using Cons.prems by simp
  then show ?case
    using ih(1,3) l sl1(1,3) sl2(1,3) ne relinks_trans [OF rl ih(2)] by auto
qed

lemma widen_spans_eq:
  assumes "distinct is" "\<And>i. i \<in> set is \<Longrightarrow> i < height sl (update ! i)"
  shows "\<exists>sl'. widen_spans is update sl = Some sl' \<and> relinks sl sl' \<and>
    (\<forall>y j. get_level sl' y j =
       (if j \<in> set is \<and> y = update ! j then map_option (\<lambda>l. l\<lparr>span := span l + 1\<rparr>) (get_level sl y j)
        else get_level sl y j))"
  using assms
proof (induction "is" arbitrary: sl)
  case Nil
  then show ?case
    by simp
next
  case (Cons i "is")
  have h: "i < height sl (update ! i)"
    using Cons.prems by simp
  then obtain l where l: "get_level sl (update ! i) i = Some l"
    using get_level_height [of sl "update ! i" i] by auto
  obtain sl1 where sl1: "set_level (update ! i) i (l\<lparr>span := span l + 1\<rparr>) sl = Some sl1" "relinks sl sl1"
    "\<And>y j. get_level sl1 y j =
      (if y = update ! i \<and> j = i then Some (l\<lparr>span := span l + 1\<rparr>) else get_level sl y j)"
    using set_levelE [OF h] by metis
  obtain sl' where ih: "widen_spans is update sl1 = Some sl'" "relinks sl1 sl'"
    "\<And>y j. get_level sl' y j =
       (if j \<in> set is \<and> y = update ! j then map_option (\<lambda>l. l\<lparr>span := span l + 1\<rparr>) (get_level sl1 y j)
        else get_level sl1 y j)"
    using Cons.IH [of sl1] Cons.prems sl1(2) by (auto simp: relinks_def)
  have "i \<notin> set is"
    using Cons.prems by simp
  then show ?case
    using ih(1,3) l sl1(1,3) relinks_trans [OF sl1(2) ih(2)] by auto
qed

definition unlinked :: "skip_list_level \<Rightarrow> skip_list_level \<Rightarrow> usize \<Rightarrow> skip_list_level" where
  "unlinked l k idx =
     (if forward l = Some idx then \<lparr>forward = forward k, span = usize_sub (span l + span k) 1\<rparr>
      else l\<lparr>span := usize_sub (span l) 1\<rparr>)"

lemma splice_out_eq:
  assumes "distinct is" "\<And>i. i \<in> set is \<Longrightarrow> get_level sl (update ! i) i = Some (old i)"
    "\<And>i. i \<in> set is \<Longrightarrow> forward (old i) = Some idx \<Longrightarrow> get_level sl idx i = Some (gone i)"
    "\<And>i. i \<in> set is \<Longrightarrow> update ! i \<noteq> idx"
  shows "\<exists>sl'. splice_out is idx update sl = Some sl' \<and> relinks sl sl' \<and>
    (\<forall>y j. get_level sl' y j =
       (if j \<in> set is \<and> y = update ! j then Some (unlinked (old j) (gone j) idx)
        else get_level sl y j))"
  using assms
proof (induction "is" arbitrary: sl)
  case Nil
  then show ?case
    by simp
next
  case (Cons i "is")
  let ?upd = "unlinked (old i) (gone i) idx"
  have l: "get_level sl (update ! i) i = Some (old i)"
    using Cons.prems by simp
  then have h: "i < height sl (update ! i)"
    using get_level_height [of sl "update ! i" i] by simp
  obtain sl1 where sl1: "set_level (update ! i) i ?upd sl = Some sl1" "relinks sl sl1"
    "\<And>y j. get_level sl1 y j = (if y = update ! i \<and> j = i then Some ?upd else get_level sl y j)"
    using set_levelE [OF h] by metis
  have ni: "i \<notin> set is"
    using Cons.prems by simp
  have "get_level sl1 (update ! j) j = Some (old j)"
    "forward (old j) = Some idx \<Longrightarrow> get_level sl1 idx j = Some (gone j)" if "j \<in> set is" for j
    using that ni Cons.prems sl1(3) by auto
  then obtain sl' where ih: "splice_out is idx update sl1 = Some sl'" "relinks sl1 sl'"
    "\<And>y j. get_level sl' y j =
       (if j \<in> set is \<and> y = update ! j then Some (unlinked (old j) (gone j) idx)
        else get_level sl1 y j)"
    using Cons.IH [of sl1] Cons.prems by auto
  have "splice_out (i # is) idx update sl = splice_out is idx update sl1"
    using l sl1(1) Cons.prems(3) [of i]
    by (cases "forward (old i) = Some idx") (simp_all add: unlinked_def)
  then show ?case
    using ih(1,3) sl1(3) ni relinks_trans [OF sl1(2) ih(2)] by auto
qed

end
