(* ===== verification/Skip_List_Update.thy ===== *)
theory Skip_List_Update
  imports Skip_List_Laws
begin

text \<open>
  Insertion and deletion keep the representation of \<open>Skip_List_Laws\<close>: the new sequence is the old one
  with a node inserted at, or removed from, the position the search found.
\<close>

lemma usize_sub_le [simp]: "b \<le> a \<Longrightarrow> usize_sub a b = a - b"
  by (simp add: usize_sub_def)

definition linked :: "skip_list \<Rightarrow> nat \<Rightarrow> usize list \<Rightarrow> nat list \<Rightarrow> bool" where
  "linked sl L ps H \<longleftrightarrow>
     (\<forall>p < length ps. \<forall>i < L. i < H ! p \<longrightarrow> get_level sl (ps ! p) i = Some (link ps H i p))"

lemma links_ok_linked: "links_ok sl ps \<longleftrightarrow> linked sl (sl_level sl) ps (map (height sl) ps)"
  by (auto simp: links_ok_def linked_def)

section \<open>A new node\<close>

lemma draw_level_bounds: "level \<le> skiplist_maxlevel \<Longrightarrow>
    level \<le> fst (draw_level level x) \<and> fst (draw_level level x) \<le> skiplist_maxlevel"
proof (induction level x rule: draw_level.induct)
  case (1 level x)
  then show ?case
    by (subst (1 2) draw_level.simps) (auto simp: Let_def)
qed

text \<open>An allocation gives a fresh slot with a blank node of the drawn height.\<close>

lemma alloc_nodeE:
  assumes "slots_ok sl ps" "0 < k" "k \<le> length ps"
  obtains x sl' where "alloc_node member score h sl = Some (x, sl')" "x \<notin> set ps"
    "height sl' = (height sl)(x := h)" "entry_of sl' = (entry_of sl)(x := Some (member, score))"
    "back_of sl' = (back_of sl)(x := Some None)"
    "\<And>y j. y \<noteq> x \<Longrightarrow> get_level sl' y j = get_level sl y j"
    "tail sl' = tail sl" "sl_level sl' = sl_level sl" "sl_length sl' = sl_length sl"
    "slots_ok sl' (ins k x ps)"
proof -
  define n where "n = \<lparr>sl_member = member, sl_score = score, levels = replicate h blank_level,
    backward = None\<rparr>"
  obtain x sl' where a: "alloc_node member score h sl = Some (x, sl')" "x \<notin> set ps"
    and look: "\<And>y. get_node sl' y = (if y = x then Some n else get_node sl y)"
    and slots: "set (free_slots sl') = {..<length (nodes sl')} - insert x (set ps)"
      "distinct (free_slots sl')"
    and same: "tail sl' = tail sl" "sl_level sl' = sl_level sl" "sl_length sl' = sl_length sl"
  proof (cases "free_slots sl = []")
    case True
    have "length (nodes sl) \<notin> set ps"
      using assms(1) by (auto simp: slots_ok_def entry_of_def get_node_def split: if_splits)
    then show thesis
      using True assms(1)
      by (intro that [of "length (nodes sl)" "sl\<lparr>nodes := nodes sl @ [Some n]\<rparr>"])
        (auto simp: alloc_node_def n_def get_node_def nth_append slots_ok_def less_Suc_eq)
  next
    case False
    define idx where "idx = last (free_slots sl)"
    have split: "free_slots sl = butlast (free_slots sl) @ [idx]"
      using False by (simp add: idx_def)
    have d: "distinct (butlast (free_slots sl) @ [idx])"
      "set (butlast (free_slots sl) @ [idx]) = {..<length (nodes sl)} - set ps"
      using assms(1) unfolding slots_ok_def split [symmetric] by simp_all
    then have idx: "idx < length (nodes sl)" "idx \<notin> set ps"
      by auto
    have "set (butlast (free_slots sl)) = {..<length (nodes sl)} - insert idx (set ps)"
      using d by auto
    then show thesis
      using False d(1) idx
      by (intro that [of idx "put_node idx n (sl\<lparr>free_slots := butlast (free_slots sl)\<rparr>)"])
        (simp_all add: alloc_node_def n_def idx_def [symmetric] get_node_def put_node_def)
  qed
  have h0: "ins k x ps ! 0 = 0"
    using assms hd_ins [of k ps x] by (simp add: slots_ok_def)
  have "slots_ok sl' (ins k x ps)"
    using assms(1) slots a(2) h0
    by (auto simp: slots_ok_def distinct_ins entry_of_def look split: if_splits)
  then show thesis
    using a same
    by (intro that [of x sl'])
      (auto simp: height_def entry_of_def back_of_def get_level_def look n_def fun_eq_iff)
qed

section \<open>Insertion\<close>

text \<open>The arrays after the new levels are initialised: they agree with the search at all levels.\<close>

lemma raisedE:
  assumes hs: "heights_ok sl ps" and ps: "ps \<noteq> []" "ps ! 0 = 0"
    and lk: "linked sl (sl_level sl) ps H" and len: "sl_length sl = length ps - 1"
    and H: "H = map (height sl) ps" and k: "0 < k" "k \<le> length ps"
    and pr: "preds_ok sl ps k update rank" and h: "h \<le> skiplist_maxlevel"
  obtains u r sl' where
    "(if h > sl_level sl
      then do {(u, r, s) \<leftarrow> raise_levels [sl_level sl..<h] update rank sl; Some (u, r, s\<lparr>sl_level := h\<rparr>)}
      else Some (update, rank, sl)) = Some (u, r, sl')"
    "linked sl' (max h (sl_level sl)) ps H" "sl_level sl' = max h (sl_level sl)"
    "\<And>i. i < max h (sl_level sl) \<Longrightarrow> u ! i = ps ! pred_pos H i k \<and> r ! i = pred_pos H i k"
    "relinks sl (sl'\<lparr>sl_level := sl_level sl\<rparr>)"
    "\<And>y j. y \<noteq> 0 \<or> max h (sl_level sl) \<le> j \<Longrightarrow> get_level sl' y j = get_level sl y j"
proof (cases "h > sl_level sl")
  case True
  have h0: "height sl 0 = skiplist_maxlevel"
    using hs by (simp add: heights_ok_def)
  have low: "H ! p \<le> sl_level sl" if "0 < p" "p < length ps" for p
    using hs that by (simp add: heights_ok_def H)
  have pl: "length update = skiplist_maxlevel" "length rank = skiplist_maxlevel"
    using pr by (simp_all add: preds_ok_def)
  obtain u r s where s: "raise_levels [sl_level sl..<h] update rank sl = Some (u, r, s)" "relinks sl s"
    "\<forall>i. u ! i = (if i \<in> set [sl_level sl..<h] then 0 else update ! i)"
    "\<forall>i. r ! i = (if i \<in> set [sl_level sl..<h] then 0 else rank ! i)"
    "\<forall>y j. get_level s y j =
       (if y = 0 \<and> j \<in> set [sl_level sl..<h]
        then map_option (\<lambda>l. l\<lparr>span := sl_length sl\<rparr>) (get_level sl y j) else get_level sl y j)"
    using raise_levels_eq [of "[sl_level sl..<h]" sl update rank] h0 h pl by auto
  have above: "pred_pos H i k = 0" "next_pos H i 0 = None"
    if "sl_level sl \<le> i" "i < skiplist_maxlevel" for i
  proof -
    have "H ! p \<le> i" if "0 < p" "p < length ps" for p
      using low [OF that] \<open>sl_level sl \<le> i\<close> by simp
    then show "pred_pos H i k = 0" "next_pos H i 0 = None"
      using that k h0 ps by (auto intro!: pred_pos_eq next_pos_NoneI simp: is_pred_def H)
  qed
  have "get_level s (ps ! p) i = Some (link ps H i p)"
    if p: "p < length ps" "i < h" "i < H ! p" for p i
  proof (cases "i < sl_level sl")
    case True
    then show ?thesis
      using s(5) lk p by (simp add: linked_def)
  next
    case False
    then have "p = 0"
      using low [of p] p by (cases "p = 0") auto
    moreover obtain l where l: "get_level sl 0 i = Some l"
      using get_level_height [of sl 0 i] p h h0 by auto
    moreover have "forward l = None"
      using hs l False by (auto simp: heights_ok_def not_less)
    ultimately show ?thesis
      using s(5) p False above(2) [of i] h ps len by (simp add: link_def)
  qed
  then have "linked (s\<lparr>sl_level := h\<rparr>) (max h (sl_level sl)) ps H"
    using True by (simp add: linked_def max_def)
  moreover have "u ! i = ps ! pred_pos H i k \<and> r ! i = pred_pos H i k" if "i < h" for i
    using s(3,4) pr above(1) [of i] that h ps(2) by (auto simp: preds_ok_def H)
  moreover have "get_level s y j = get_level sl y j" if "y \<noteq> 0 \<or> h \<le> j" for y j
    using s(5) that by auto
  ultimately show thesis
    using True s(1,2) by (intro that [of u r "s\<lparr>sl_level := h\<rparr>"]) (auto simp: max_def relinks_def)
next
  case False
  then show thesis
    using pr lk by (intro that [of update rank sl]) (auto simp: preds_ok_def H max_def)
qed

text \<open>The two loops over the levels leave the links that the longer sequence asks for.\<close>

lemma spliced_linked:
  assumes lk: "linked sl L ps H" and lens: "length H = length ps" and d: "distinct (ins k x ps)"
    and k: "0 < k" "k \<le> length ps" and top: "\<And>i. i < L \<Longrightarrow> i < H ! 0" and bottom: "pred_pos H 0 k = k - 1"
    and u: "\<And>i. i < L \<Longrightarrow> u ! i = ps ! pred_pos H i k \<and> r ! i = pred_pos H i k" and h: "0 < h" "h \<le> L"
    and old: "\<And>i. i < L \<Longrightarrow> old i = link ps H i (pred_pos H i k)"
    and g: "\<And>y j. get_level sl' y j =
       (if j < h \<and> y = x
        then Some \<lparr>forward = forward (old j), span = usize_sub (span (old j)) (usize_sub (r ! 0) (r ! j))\<rparr>
        else if j < h \<and> y = u ! j
        then Some \<lparr>forward = Some x, span = usize_sub (r ! 0) (r ! j) + 1\<rparr>
        else if h \<le> j \<and> j < L \<and> y = u ! j then map_option (\<lambda>l. l\<lparr>span := span l + 1\<rparr>) (get_level sl y j)
        else get_level sl y j)"
  shows "linked sl' L (ins k x ps) (ins k h H)"
  unfolding linked_def
proof (intro allI impI)
  fix p i
  assume p: "p < length (ins k x ps)" and i: "i < L" "i < ins k h H ! p"
  define q where "q = pred_pos H i k"
  have pq: "is_pred H i k q"
    unfolding q_def by (rule is_pred_exists [OF top [OF i(1)] k(1)])
  then have qk: "q < k" "i < H ! q"
    by (simp_all add: is_pred_def)
  have ui: "u ! i = ps ! q" "r ! i = q" "r ! 0 = k - 1" "old i = link ps H i q"
    using u [OF i(1)] u [of 0] old [OF i(1)] h bottom by (auto simp: q_def)
  have xps: "x \<notin> set ps" "distinct ps"
    using d by (simp_all add: distinct_ins)
  have le: "p \<le> q" if "p < k"
    using that pq i(2) k lens unfolding is_pred_def by (auto simp: nth_ins) (meson leD leI)
  consider (pred) "p < k" "p = q" | (before) "p < k" "p < q" | (new) "p = k"
    | (after) p' where "p = Suc p'" "k \<le> p'" "p' < length ps"
  proof (cases p k rule: linorder_cases)
    case less
    then show thesis
      using le that(1,2) by (cases "p = q") auto
  next
    case greater
    then show thesis
      using p that(4) [of "p - 1"] by simp
  qed (use that(3) in simp)
  then show "get_level sl' (ins k x ps ! p) i = Some (link (ins k x ps) (ins k h H) i p)"
  proof cases
    case pred
    have l: "get_level sl (ps ! q) i = Some (link ps H i q)" and x: "ps ! q \<noteq> x"
      using lk i(1) qk k xps(1) nth_mem [of q ps] by (auto simp: linked_def)
    have "get_level sl' (ps ! q) i = Some (if i < h then \<lparr>forward = Some x, span = k - q\<rparr>
        else (link ps H i q)\<lparr>span := span (link ps H i q) + 1\<rparr>)"
      using x i(1) qk(1) by (simp add: g ui l Suc_diff_Suc)
    moreover have "link (ins k x ps) (ins k h H) i q = (if i < h then \<lparr>forward = Some x, span = k - q\<rparr>
        else (link ps H i q)\<lparr>span := span (link ps H i q) + 1\<rparr>)"
      using k(2) lens by (simp add: link_pred_low [OF pq] link_pred_high [OF pq])
    moreover have "ins k x ps ! p = ps ! q"
      using pred k by (simp add: nth_ins)
    ultimately show ?thesis
      using pred(2) by simp
  next
    case before
    then have l: "get_level sl (ps ! p) i = Some (link ps H i p)"
      using lk i k lens by (simp add: linked_def nth_ins)
    have "ps ! p \<noteq> x" "ps ! p \<noteq> ps ! q"
      using before qk k xps nth_mem [of p ps] by (auto simp: nth_eq_iff_index_eq)
    then have "get_level sl' (ps ! p) i = Some (link ps H i p)"
      by (simp add: g ui l)
    moreover have "ins k x ps ! p = ps ! p"
      using before k by (simp add: nth_ins)
    ultimately show ?thesis
      using k lens by (simp add: link_before [OF before(2) qk(1,2)])
  next
    case new
    then have "i < h"
      using i k lens by (simp add: nth_ins)
    then have "get_level sl' x i = Some \<lparr>forward = forward (link ps H i q),
        span = usize_sub (span (link ps H i q)) (usize_sub (k - 1) q)\<rparr>"
      by (simp add: g ui)
    moreover have "ins k x ps ! p = x"
      using new k by (simp add: nth_ins)
    moreover have "q \<le> k - 1"
      using qk(1) by simp
    moreover have "k - 1 - q \<le> span (link ps H i q)"
      by (rule link_new(2) [OF pq]) (simp_all add: k lens)
    ultimately show ?thesis
      using new k lens by (simp add: link_new(1) [OF pq])
  next
    case after
    then have l: "get_level sl (ps ! p') i = Some (link ps H i p')"
      using lk i k lens by (simp add: linked_def nth_ins)
    have "ps ! p' \<noteq> x" "ps ! p' \<noteq> ps ! q"
      using after qk k xps nth_mem [of p' ps] by (auto simp: nth_eq_iff_index_eq)
    then have "get_level sl' (ps ! p') i = Some (link ps H i p')"
      by (simp add: g ui l)
    moreover have "ins k x ps ! p = ps ! p'"
      using after k by (simp add: nth_ins)
    ultimately show ?thesis
      using after lens by (simp add: link_after)
  qed
qed

lemma splice_stepE:
  assumes lk: "linked sl L ps H" and sl: "slots_ok sl (ins k x ps)" "L = sl_level sl"
    and H: "H = map (height sl) ps" and x: "height sl x = h"
    and k: "0 < k" "k \<le> length ps" and top: "\<And>i. i < L \<Longrightarrow> i < H ! 0" and bottom: "pred_pos H 0 k = k - 1"
    and u: "\<And>i. i < L \<Longrightarrow> u ! i = ps ! pred_pos H i k \<and> r ! i = pred_pos H i k" and h: "0 < h" "h \<le> L"
  obtains sl1 sl2 where "splice_in [0..<h] x u r sl = Some sl1" "sl_level sl1 = L"
    "widen_spans [h..<L] u sl1 = Some sl2" "relinks sl sl2"
    "linked sl2 L (ins k x ps) (ins k h H)"
    "\<And>y j. L \<le> j \<Longrightarrow> get_level sl2 y j = get_level sl y j"
proof -
  define old where "old i = link ps H i (pred_pos H i k)" for i
  have d: "x \<notin> set ps" "distinct ps"
    using sl by (auto simp: slots_ok_def distinct_ins)
  have old: "get_level sl (u ! i) i = Some (old i)" "u ! i \<noteq> x" "i < height sl (u ! i)" if "i < L" for i
  proof -
    have "is_pred H i k (pred_pos H i k)"
      by (rule is_pred_exists [OF top [OF that] k(1)])
    then show "get_level sl (u ! i) i = Some (old i)" "u ! i \<noteq> x" "i < height sl (u ! i)"
      using u [OF that] lk that k d(1) by (auto simp: is_pred_def linked_def old_def H)
  qed
  obtain sl1 where sl1: "splice_in [0..<h] x u r sl = Some sl1" "relinks sl sl1"
    "\<forall>y j. get_level sl1 y j =
       (if j \<in> set [0..<h] \<and> y = x
        then Some \<lparr>forward = forward (old j), span = usize_sub (span (old j)) (usize_sub (r ! 0) (r ! j))\<rparr>
        else if j \<in> set [0..<h] \<and> y = u ! j
        then Some \<lparr>forward = Some x, span = usize_sub (r ! 0) (r ! j) + 1\<rparr>
        else get_level sl y j)"
    using splice_in_eq [of "[0..<h]" sl u old x r] old h x by auto
  have same: "height sl1 = height sl"
    using sl1(2) by (simp add: relinks_def)
  obtain sl2 where sl2: "widen_spans [h..<L] u sl1 = Some sl2" "relinks sl1 sl2"
    "\<forall>y j. get_level sl2 y j =
       (if j \<in> set [h..<L] \<and> y = u ! j then map_option (\<lambda>l. l\<lparr>span := span l + 1\<rparr>) (get_level sl1 y j)
        else get_level sl1 y j)"
    using widen_spans_eq [of "[h..<L]" sl1 u] old(3) same by auto
  have g: "get_level sl2 y j =
       (if j < h \<and> y = x
        then Some \<lparr>forward = forward (old j), span = usize_sub (span (old j)) (usize_sub (r ! 0) (r ! j))\<rparr>
        else if j < h \<and> y = u ! j
        then Some \<lparr>forward = Some x, span = usize_sub (r ! 0) (r ! j) + 1\<rparr>
        else if h \<le> j \<and> j < L \<and> y = u ! j then map_option (\<lambda>l. l\<lparr>span := span l + 1\<rparr>) (get_level sl y j)
        else get_level sl y j)" for y j
    by (cases "j < h") (simp_all add: sl2(3) sl1(3))
  have "linked sl2 L (ins k x ps) (ins k h H)"
    by (rule spliced_linked [OF lk _ _ k top bottom u h old_def g])
      (use sl in \<open>simp_all add: H slots_ok_def\<close>)
  moreover have "get_level sl2 y j = get_level sl y j" if "L \<le> j" for y j
    using that h by (simp add: g)
  moreover have "sl_level sl1 = L"
    using sl1(2) sl(2) by (simp add: relinks_def)
  ultimately show thesis
    using sl1(1) sl2(1) relinks_trans [OF sl1(2) sl2(2)] by (intro that [of sl1 sl2])
qed

text \<open>Back pointers, tail and length after the insertion.\<close>

lemma insert_endsE:
  assumes e: "ends_ok sl ps" and s5: "back_of s5 = (back_of sl)(x := Some None)" "tail s5 = tail sl"
      "sl_length s5 = sl_length sl" "get_level s5 x 0 = Some l"
    and l: "forward l = (if k < length ps then Some (ps ! k) else None)"
    and sl: "slots_ok s5 (ins k x ps)" and k: "0 < k" "k \<le> length ps"
    and b: "b = (if k = 1 then None else Some (ps ! (k - 1)))"
  obtains s7 where
    "do {s6 \<leftarrow> set_backward x b s5;
         l \<leftarrow> get_level s6 x 0;
         s7 \<leftarrow> (case forward l of
                 Some fwd \<Rightarrow> set_backward fwd (Some x) s6
               | None \<Rightarrow> Some (s6\<lparr>tail := Some x\<rparr>));
         Some (s7\<lparr>sl_length := sl_length s7 + 1\<rparr>)} = Some s7"
    "get_level s7 = get_level s5" "height s7 = height s5" "entry_of s7 = entry_of s5"
    "length (nodes s7) = length (nodes s5)" "free_slots s7 = free_slots s5"
    "sl_level s7 = sl_level s5" "ends_ok s7 (ins k x ps)"
proof -
  have d: "x \<notin> set ps" "distinct ps" and live: "\<And>y. y \<in> insert x (set ps) \<Longrightarrow> entry_of s5 y \<noteq> None"
    using sl by (auto simp: slots_ok_def distinct_ins)
  obtain s6 where s6: "set_backward x b s5 = Some s6" "get_level s6 = get_level s5" "height s6 = height s5"
    "entry_of s6 = entry_of s5" "back_of s6 = (back_of s5)(x := Some b)"
    "length (nodes s6) = length (nodes s5)" "free_slots s6 = free_slots s5" "tail s6 = tail s5"
    "sl_level s6 = sl_level s5" "sl_length s6 = sl_length s5"
    by (rule set_backwardE [OF live [of x], of b]) auto
  have bk: "back_of sl (ps ! p) = Some (if p = 1 then None else Some (ps ! (p - 1)))"
    if "0 < p" "p < length ps" for p
    using e that by (simp add: ends_ok_def)
  have len: "sl_length sl = length ps - 1" "ps \<noteq> []"
    using e k by (auto simp: ends_ok_def)
  have neq: "ps ! p \<noteq> x" if "p < length ps" for p
    using d(1) nth_mem [OF that] by auto
  show thesis
  proof (cases "k < length ps")
    case True
    have nn: "entry_of s6 (ps ! k) \<noteq> None"
      using live [of "ps ! k"] True s6(4) by simp
    obtain s7 where s7: "set_backward (ps ! k) (Some x) s6 = Some s7" "get_level s7 = get_level s6"
      "height s7 = height s6" "entry_of s7 = entry_of s6" "back_of s7 = (back_of s6)(ps ! k := Some (Some x))"
      "length (nodes s7) = length (nodes s6)" "free_slots s7 = free_slots s6" "tail s7 = tail s6"
      "sl_level s7 = sl_level s6" "sl_length s7 = sl_length s6"
      by (rule set_backwardE [OF nn, of "Some x"]) auto
    have "last (ins k x ps) = last ps" "length ps \<noteq> 1"
      using True k by (auto simp: ins_def)
    moreover have "back_of s7 (ins k x ps ! p) = Some (if p = 1 then None else Some (ins k x ps ! (p - 1)))"
      if pos: "0 < p" "p < Suc (length ps)" for p
    proof (cases p k rule: linorder_cases)
      case less
      then have "ps ! p \<noteq> x" "ps ! p \<noteq> ps ! k"
        using neq d(2) True by (simp_all add: nth_eq_iff_index_eq)
      then show ?thesis
        using less bk [OF pos(1)] k True by (simp add: nth_ins s7 s6 s5)
    next
      case equal
      have "x \<noteq> ps ! k"
        using neq [OF True] by simp
      then show ?thesis
        using equal k True by (simp add: nth_ins s7 s6 s5 b)
    next
      case greater
      then obtain q where q: "p = Suc q" "k \<le> q" "q < length ps" "0 < q"
        using k pos by (cases p) auto
      show ?thesis
        using q bk [of q] neq [of q] d(2) k True
        by (cases "q = k") (simp_all add: nth_ins s7 s6 s5 nth_eq_iff_index_eq)
    qed
    ultimately have "ends_ok (s7\<lparr>sl_length := sl_length s7 + 1\<rparr>) (ins k x ps)"
      using e len k by (simp add: ends_ok_def s7 s6 s5)
    then show thesis
      using True s6 s7 s5 l by (intro that [of "s7\<lparr>sl_length := sl_length s7 + 1\<rparr>"]) simp_all
  next
    case False
    then have kl: "k = length ps"
      using k by simp
    have "last (ins k x ps) = x"
      by (simp add: ins_def kl)
    moreover have "back_of s6 (ins k x ps ! p) = Some (if p = 1 then None else Some (ins k x ps ! (p - 1)))"
      if "0 < p" "p < Suc (length ps)" for p
      using that kl neq [of p] bk [of p] by (cases "p = k") (auto simp: nth_ins s6 s5 b)
    ultimately have "ends_ok (s6\<lparr>tail := Some x, sl_length := sl_length s6 + 1\<rparr>) (ins k x ps)"
      using len by (simp add: ends_ok_def s6 s5)
    then show thesis
      using False s6 s5 l by (intro that [of "s6\<lparr>tail := Some x, sl_length := sl_length s6 + 1\<rparr>"]) simp_all
  qed
qed

lemma update_zero_iff:
  assumes "distinct ps" "ps ! 0 = 0" "p < length ps"
  shows "ps ! p = 0 \<longleftrightarrow> p = 0"
  using assms nth_eq_iff_index_eq [OF assms(1), of p 0] by (cases ps) auto

text \<open>The state before the links are spliced.\<close>

lemma allocatedE:
  assumes r: "repr sl ps" and k: "0 < k" "k \<le> length ps" and pr: "preds_ok sl ps k update rank"
    and H: "H = map (height sl) ps"
  obtains h s1 x s2 u ra s3 where "random_level sl = (h, s1)"
    "alloc_node member score h s1 = Some (x, s2)"
    "(if h > sl_level s2
      then do {(u, r, s) \<leftarrow> raise_levels [sl_level s2..<h] update rank s2; Some (u, r, s\<lparr>sl_level := h\<rparr>)}
      else Some (update, rank, s2)) = Some (u, ra, s3)"
    "x \<notin> set ps" "1 \<le> h" "h \<le> sl_level s3" "sl_level sl \<le> sl_level s3" "sl_level s3 \<le> skiplist_maxlevel"
    "linked s3 (sl_level s3) ps H" "slots_ok s3 (ins k x ps)"
    "\<And>i. i < sl_level s3 \<Longrightarrow> u ! i = ps ! pred_pos H i k \<and> ra ! i = pred_pos H i k"
    "height s3 = (height sl)(x := h)" "entry_of s3 = (entry_of sl)(x := Some (member, score))"
    "back_of s3 = (back_of sl)(x := Some None)" "tail s3 = tail sl" "sl_length s3 = sl_length sl"
    "\<And>j. sl_level s3 \<le> j \<Longrightarrow> get_level s3 0 j = get_level sl 0 j"
proof -
  have sl: "slots_ok sl ps" "heights_ok sl ps" "linked sl (sl_level sl) ps H" "ends_ok sl ps"
    using r by (simp_all add: repr_def links_ok_linked H)
  obtain h rng where draw: "draw_level 1 (rng_state sl) = (h, rng)"
    by (cases "draw_level 1 (rng_state sl)")
  have h: "1 \<le> h" "h \<le> skiplist_maxlevel"
    using draw_level_bounds [of 1 "rng_state sl"] unfolding draw by (simp_all add: skiplist_maxlevel_def)
  define s1 where "s1 = sl\<lparr>rng_state := rng\<rparr>"
  have rl: "random_level sl = (h, s1)"
    using draw by (simp add: random_level_def s1_def)
  have "slots_ok s1 ps"
    using sl(1) by (simp add: slots_ok_def s1_def)
  from alloc_nodeE [OF this k, of member score h] obtain x s2 where
    s2: "alloc_node member score h s1 = Some (x, s2)" "x \<notin> set ps"
      "height s2 = (height s1)(x := h)" "entry_of s2 = (entry_of s1)(x := Some (member, score))"
      "back_of s2 = (back_of s1)(x := Some None)"
      "\<And>y j. y \<noteq> x \<Longrightarrow> get_level s2 y j = get_level s1 y j"
      "tail s2 = tail s1" "sl_level s2 = sl_level s1" "sl_length s2 = sl_length s1"
      "slots_ok s2 (ins k x ps)"
    by metis
  have neq: "ps ! p \<noteq> x" if "p < length ps" for p
    using s2(2) nth_mem [OF that] by auto
  have ps: "ps \<noteq> []" "ps ! 0 = 0" "x \<noteq> 0"
    using sl(1) neq [of 0] by (auto simp: slots_ok_def)
  have H2: "H = map (height s2) ps"
    using s2(2) by (auto simp: H s2(3) s1_def)
  have hs: "heights_ok s2 ps"
    using sl(2) ps(3) neq s2(6) by (simp add: heights_ok_def s2(3,8) s1_def)
  have lk: "linked s2 (sl_level s2) ps H"
    using sl(3) neq by (simp add: linked_def s2(6,8) s1_def)
  have prs: "preds_ok s2 ps k update rank"
    using pr by (simp add: preds_ok_def H2 [symmetric] s2(8) s1_def H [symmetric])
  have len: "sl_length s2 = length ps - 1"
    using sl(4) by (simp add: s2(9) s1_def ends_ok_def)
  obtain u ra s3 where s3:
    "(if h > sl_level s2
      then do {(u, r, s) \<leftarrow> raise_levels [sl_level s2..<h] update rank s2; Some (u, r, s\<lparr>sl_level := h\<rparr>)}
      else Some (update, rank, s2)) = Some (u, ra, s3)"
    "linked s3 (max h (sl_level s2)) ps H" "sl_level s3 = max h (sl_level s2)"
    "\<And>i. i < max h (sl_level s2) \<Longrightarrow> u ! i = ps ! pred_pos H i k \<and> ra ! i = pred_pos H i k"
    "relinks s2 (s3\<lparr>sl_level := sl_level s2\<rparr>)"
    "\<And>y j. y \<noteq> 0 \<or> max h (sl_level s2) \<le> j \<Longrightarrow> get_level s3 y j = get_level s2 y j"
    by (rule raisedE [OF hs ps(1,2) lk len H2 k prs h(2)]) blast
  have bounds: "h \<le> sl_level s3" "sl_level sl \<le> sl_level s3" "sl_level s3 \<le> skiplist_maxlevel"
    using s3(3) h(2) sl(2) by (auto simp: s2(8) s1_def heights_ok_def)
  have same: "height s3 = (height sl)(x := h)" "entry_of s3 = (entry_of sl)(x := Some (member, score))"
    "back_of s3 = (back_of sl)(x := Some None)" "tail s3 = tail sl" "sl_length s3 = sl_length sl"
    using s3(5) by (simp_all add: relinks_def s2(3-5,7,9) s1_def)
  have slots: "slots_ok s3 (ins k x ps)"
    using s2(10) s3(5) by (simp add: relinks_def slots_ok_def)
  have high: "get_level s3 0 j = get_level sl 0 j" if "sl_level s3 \<le> j" for j
    using that s3(6) [of 0 j] s2(6) [of 0 j] ps(3) by (simp add: s3(3) s1_def)
  show thesis
    by (rule that [OF rl s2(1) s3(1) s2(2) h(1) bounds _ slots _ same high]) (use s3(2-4) in simp_all)
qed

lemma new_bottom_link:
  assumes r: "repr sl ps" and k: "0 < k" "k \<le> length ps" and H: "H = map (height sl) ps"
    and lk: "linked s5 L (ins k x ps) (ins k h H)" and h: "0 < h" "h \<le> L"
    and l: "l = link (ins k x ps) (ins k h H) 0 k"
  shows "get_level s5 x 0 = Some l" "forward l = (if k < length ps then Some (ps ! k) else None)"
proof -
  have len: "length H = length ps"
    by (simp add: H)
  have "get_level s5 (ins k x ps ! k) 0 = Some (link (ins k x ps) (ins k h H) 0 k)"
    using lk [unfolded linked_def, rule_format, of k 0] h k by (simp add: nth_ins len)
  then show "get_level s5 x 0 = Some l"
    using k by (simp add: nth_ins l)
  have pos: "0 < H ! p" if "p < length ps" for p
    using heights_pos [OF r that] that by (simp add: H)
  then have "is_pred H 0 k (k - 1)"
    using k by (auto simp: is_pred_def)
  then have "forward l = forward (link ps H 0 (k - 1))"
    using k by (simp add: l len link_new(1))
  moreover have "get_level sl (ps ! (k - 1)) 0 = Some (link ps H 0 (k - 1))"
    using r k pos [of "k - 1"] by (simp add: repr_def links_ok_linked linked_def heights_ok_def H)
  ultimately show "forward l = (if k < length ps then Some (ps ! k) else None)"
    using next_at_bottom_eq(2) [OF r, of "k - 1"] k by (cases "k < length ps") auto
qed

lemma heights_insert:
  assumes hs: "heights_ok sl ps" and s7: "height s7 = (height sl)(x := h)" "x \<noteq> 0"
    and h: "1 \<le> h" "h \<le> sl_level s7" "sl_level sl \<le> sl_level s7" "sl_level s7 \<le> skiplist_maxlevel"
    and high: "\<And>j. sl_level s7 \<le> j \<Longrightarrow> get_level s7 0 j = get_level sl 0 j" and k: "0 < k" "k \<le> length ps"
  shows "heights_ok s7 (ins k x ps)"
proof -
  have old: "1 \<le> height s7 (ps ! p) \<and> height s7 (ps ! p) \<le> sl_level s7" if "0 < p" "p < length ps" for p
    using hs h that by (auto simp: heights_ok_def s7 intro: le_trans)
  have "1 \<le> height s7 (ins k x ps ! p) \<and> height s7 (ins k x ps ! p) \<le> sl_level s7"
    if "0 < p" "p < Suc (length ps)" for p
    using that k h old [of p] old [of "p - 1"] s7(1)
    by (cases p k rule: linorder_cases) (simp_all add: nth_ins)
  moreover have "forward l = None" if "sl_level s7 \<le> i" "get_level s7 0 i = Some l" for i l
    using hs le_trans [OF h(3) that(1)] high [OF that(1)] that(2) by (auto simp: heights_ok_def)
  ultimately show ?thesis
    using hs h s7 by (simp add: heights_ok_def)
qed

lemma insert_internalE:
  assumes r: "repr sl ps" and k: "0 < k" "k \<le> length ps" and pr: "preds_ok sl ps k update rank"
  obtains x sl' where "insert_internal member score update rank sl = Some sl'" "x \<notin> set ps"
    "repr sl' (ins k x ps)" "entry_of sl' = (entry_of sl)(x := Some (member, score))"
proof -
  define H where "H = map (height sl) ps"
  have sl: "slots_ok sl ps" "heights_ok sl ps" "ends_ok sl ps"
    using r by (simp_all add: repr_def)
  obtain h s1 x s2 u ra s3 where a: "random_level sl = (h, s1)"
    "alloc_node member score h s1 = Some (x, s2)"
    "(if h > sl_level s2
      then do {(u, r, s) \<leftarrow> raise_levels [sl_level s2..<h] update rank s2; Some (u, r, s\<lparr>sl_level := h\<rparr>)}
      else Some (update, rank, s2)) = Some (u, ra, s3)"
    and x: "x \<notin> set ps" and h: "1 \<le> h" "h \<le> sl_level s3" "sl_level sl \<le> sl_level s3"
      "sl_level s3 \<le> skiplist_maxlevel"
    and s3: "linked s3 (sl_level s3) ps H" "slots_ok s3 (ins k x ps)"
      "\<And>i. i < sl_level s3 \<Longrightarrow> u ! i = ps ! pred_pos H i k \<and> ra ! i = pred_pos H i k"
      "height s3 = (height sl)(x := h)" "entry_of s3 = (entry_of sl)(x := Some (member, score))"
      "back_of s3 = (back_of sl)(x := Some None)" "tail s3 = tail sl" "sl_length s3 = sl_length sl"
      "\<And>j. sl_level s3 \<le> j \<Longrightarrow> get_level s3 0 j = get_level sl 0 j"
    by (rule allocatedE [OF r k pr H_def]) blast
  have neq: "ps ! p \<noteq> x" if "p < length ps" for p
    using x nth_mem [OF that] by auto
  have ps: "ps \<noteq> []" "ps ! 0 = 0" "distinct ps" "x \<noteq> 0"
    using sl(1) neq [of 0] by (auto simp: slots_ok_def)
  have H3: "H = map (height s3) ps"
    using x by (auto simp: H_def s3(4))
  have H': "map (height s3) (ins k x ps) = ins k h H"
    unfolding map_ins H3 [symmetric] by (simp add: s3(4))
  have top: "i < H ! 0" if "i < sl_level s3" for i
    using that h(4) sl(2) ps by (simp add: H_def heights_ok_def)
  have bottom: "pred_pos H 0 k = k - 1"
    unfolding H_def by (rule bottom_pred [OF r k])
  have u0: "u ! 0 = ps ! (k - 1)"
    using s3(3) [of 0] h bottom by simp
  obtain s4 s5 where s4: "splice_in [0..<h] x u ra s3 = Some s4" "sl_level s4 = sl_level s3"
    and s5: "widen_spans [h..<sl_level s3] u s4 = Some s5" "relinks s3 s5"
      "linked s5 (sl_level s3) (ins k x ps) (ins k h H)"
      "\<And>y j. sl_level s3 \<le> j \<Longrightarrow> get_level s5 y j = get_level s3 y j"
    by (rule splice_stepE [OF s3(1,2) refl H3 _ k top bottom s3(3) _ h(2)]) (use h s3(4) in auto)
  have keep: "height s5 = height s3" "entry_of s5 = entry_of s3" "back_of s5 = back_of s3"
    "length (nodes s5) = length (nodes s3)" "free_slots s5 = free_slots s3" "tail s5 = tail s3"
    "sl_level s5 = sl_level s3" "sl_length s5 = sl_length s3"
    using s5(2) by (simp_all add: relinks_def)
  have slots5: "slots_ok s5 (ins k x ps)"
    using s3(2) by (simp add: slots_ok_def keep)
  define l where "l = link (ins k x ps) (ins k h H) 0 k"
  have l: "get_level s5 x 0 = Some l" "forward l = (if k < length ps then Some (ps ! k) else None)"
    using new_bottom_link [OF r k H_def s5(3), of l] h by (auto simp: l_def)
  obtain s7 where s7: "do {s6 \<leftarrow> set_backward x (if u ! 0 = 0 then None else Some (u ! 0)) s5;
         l \<leftarrow> get_level s6 x 0;
         s7 \<leftarrow> (case forward l of
                 Some fwd \<Rightarrow> set_backward fwd (Some x) s6
               | None \<Rightarrow> Some (s6\<lparr>tail := Some x\<rparr>));
         Some (s7\<lparr>sl_length := sl_length s7 + 1\<rparr>)} = Some s7"
    "get_level s7 = get_level s5" "height s7 = height s5" "entry_of s7 = entry_of s5"
    "length (nodes s7) = length (nodes s5)" "free_slots s7 = free_slots s5"
    "sl_level s7 = sl_level s5" "ends_ok s7 (ins k x ps)"
    by (rule insert_endsE [OF sl(3) _ _ _ l slots5 k, of "if u ! 0 = 0 then None else Some (u ! 0)"])
      (use update_zero_iff [OF ps(3,2), of "k - 1"] k in \<open>auto simp: keep s3 u0\<close>)
  have "links_ok s7 (ins k x ps)"
    using s5(3) by (simp add: links_ok_linked linked_def s7 keep H')
  moreover have "slots_ok s7 (ins k x ps)"
    using slots5 by (simp add: slots_ok_def s7)
  moreover have "heights_ok s7 (ins k x ps)"
    using heights_insert [OF sl(2), of s7 x h k] h k x ps s5(4) s3(4,9) s7(2,3,7) keep by simp
  moreover have "insert_internal member score update rank sl = Some s7"
    unfolding insert_internal_def Let_def a(1) split_conv a(2) bind.bind_lunit a(3)
    using s7(1) by (simp add: s4 s5(1))
  ultimately show thesis
    using that [of s7 x] x s7(4,8) keep(2) s3(5) by (simp add: repr_def)
qed

section \<open>Deletion\<close>

lemma forward_link_in:
  assumes "forward (link ps H i p) = Some y" "length H = length ps"
  shows "y \<in> set ps"
  using assms next_pos_bounds [of H i p] by (auto simp: link_def split: option.splits)

lemma unspliced_linked:
  assumes lk: "linked sl L (ins k x ps) (ins k h H)" and lens: "length H = length ps"
    and d: "x \<notin> set ps" "distinct ps" and k: "0 < k" "k \<le> length ps"
    and top: "\<And>i. i < L \<Longrightarrow> i < H ! 0" and h: "h \<le> L"
    and u: "\<And>i. i < L \<Longrightarrow> u ! i = ps ! pred_pos H i k"
    and old: "\<And>i. i < L \<Longrightarrow> old i = link (ins k x ps) (ins k h H) i (pred_pos H i k)"
    and gone: "\<And>i. i < h \<Longrightarrow> gone i = link (ins k x ps) (ins k h H) i k"
    and g: "\<And>y j. get_level sl' y j =
       (if j < L \<and> y = u ! j then Some (unlinked (old j) (gone j) x) else get_level sl y j)"
  shows "linked sl' L ps H"
  unfolding linked_def
proof (intro allI impI)
  fix p i
  assume p: "p < length ps" and i: "i < L" "i < H ! p"
  define q where "q = pred_pos H i k"
  have pq: "is_pred H i k q"
    unfolding q_def by (rule is_pred_exists [OF top [OF i(1)] k(1)])
  then have qk: "q < k" "i < H ! q"
    by (simp_all add: is_pred_def)
  have ui: "u ! i = ps ! q" "old i = link (ins k x ps) (ins k h H) i q"
    using u [OF i(1)] old [OF i(1)] by (simp_all add: q_def)
  define l where "l = link ps H i q"
  have le: "p \<le> q" if "p < k"
    using that pq i(2) unfolding is_pred_def by (meson leD leI)
  show "get_level sl' (ps ! p) i = Some (link ps H i p)"
  proof (cases "p = q")
    case True
    have sp: "k - 1 - q \<le> span l"
      unfolding l_def by (rule link_new(2) [OF pq]) (simp_all add: k lens)
    have "unlinked (old i) (gone i) x = l"
    proof (cases "i < h")
      case True
      then have "old i = \<lparr>forward = Some x, span = k - q\<rparr>"
        "gone i = \<lparr>forward = forward l, span = span l - (k - 1 - q)\<rparr>"
        using k lens ui gone by (simp_all add: link_pred_low [OF pq] link_new(1) [OF pq] l_def)
      moreover have "k - q + (span l - (k - 1 - q)) = span l + 1"
        using sp qk(1) by simp
      ultimately show ?thesis
        by (simp add: unlinked_def)
    next
      case False
      then have "old i = l\<lparr>span := span l + 1\<rparr>"
        using k lens ui by (simp add: link_pred_high [OF pq] l_def)
      moreover have "forward l \<noteq> Some x"
        using forward_link_in [of ps H i q x] lens d(1) by (auto simp: l_def)
      ultimately show ?thesis
        by (simp add: unlinked_def)
    qed
    then show ?thesis
      using True i(1) by (simp add: g ui l_def)
  next
    case False
    define p' where "p' = (if p < k then p else Suc p)"
    have "ins k x ps ! p' = ps ! p" "ins k h H ! p' = H ! p" "p' < Suc (length ps)"
      using k lens p by (auto simp: p'_def nth_ins)
    then have "get_level sl (ps ! p) i = Some (link (ins k x ps) (ins k h H) i p')"
      using lk [unfolded linked_def, rule_format, of p' i] i by simp
    moreover have "link (ins k x ps) (ins k h H) i p' = link ps H i p"
    proof (cases "p < k")
      case True
      then have "p < q"
        using le False by simp
      then show ?thesis
        using True k(2) lens by (simp add: p'_def link_before [OF _ qk])
    next
      case False
      then show ?thesis
        using p lens by (simp add: p'_def link_after)
    qed
    moreover have "ps ! p \<noteq> ps ! q"
      using False d(2) p qk k by (simp add: nth_eq_iff_index_eq)
    ultimately show ?thesis
      by (simp add: g ui)
  qed
qed

lemma trim_levelE:
  assumes "1 \<le> n" "\<And>i. i < n \<Longrightarrow> i < height sl 0"
  shows "\<exists>m. trim_level sl n = Some m \<and> 1 \<le> m \<and> m \<le> n \<and>
    (\<forall>i l. m \<le> i \<and> i < n \<longrightarrow> get_level sl 0 i = Some l \<longrightarrow> forward l = None)"
  using assms
proof (induction sl n rule: trim_level.induct)
  case (1 sl n)
  obtain l where l: "get_level sl 0 (Suc n) = Some l"
    using 1(3) [of "Suc n"] get_level_height [of sl 0 "Suc n"] by auto
  show ?case
  proof (cases "forward l = None")
    case True
    obtain m where m: "trim_level sl (Suc n) = Some m" "1 \<le> m" "m \<le> Suc n"
      "\<forall>i l. m \<le> i \<and> i < Suc n \<longrightarrow> get_level sl 0 i = Some l \<longrightarrow> forward l = None"
      using 1(1) [OF l] True 1(3) by auto
    then have "\<forall>i k. m \<le> i \<and> i < Suc (Suc n) \<longrightarrow> get_level sl 0 i = Some k \<longrightarrow> forward k = None"
      using l True by (auto simp: less_Suc_eq)
    then show ?thesis
      using m(1-3) l True by auto
  next
    case False
    then show ?thesis
      using l by auto
  qed
qed auto

lemma free_nodeE:
  assumes "x < length (nodes sl)"
  obtains sl' where "free_node x sl = Some sl'" "height sl' = (height sl)(x := 0)"
    "entry_of sl' = (entry_of sl)(x := None)" "\<And>y. y \<noteq> x \<Longrightarrow> back_of sl' y = back_of sl y"
    "\<And>y j. y \<noteq> x \<Longrightarrow> get_level sl' y j = get_level sl y j"
    "length (nodes sl') = length (nodes sl)" "free_slots sl' = free_slots sl @ [x]" "tail sl' = tail sl"
    "sl_level sl' = sl_level sl" "sl_length sl' = sl_length sl"
proof -
  define sl' where "sl' = sl\<lparr>nodes := (nodes sl)[x := None], free_slots := free_slots sl @ [x]\<rparr>"
  have look: "get_node sl' y = (if y = x then None else get_node sl y)" for y
    by (simp add: get_node_def sl'_def)
  show thesis
    by (rule that [of sl'])
      (use assms in \<open>auto simp: free_node_def look height_def entry_of_def back_of_def get_level_def
        fun_eq_iff\<close>, simp_all add: sl'_def)
qed

text \<open>The unlinking loop, and the back pointers and tail after it.\<close>

lemma unspliceE:
  assumes r: "repr sl (ins k x ps)" and k: "0 < k" "k \<le> length ps"
    and pr: "preds_ok sl (ins k x ps) k update rank" and H: "H = map (height sl) ps"
  obtains s1 where "splice_out [0..<sl_level sl] x update sl = Some s1" "relinks sl s1"
    "linked s1 (sl_level sl) ps H" "get_level s1 x 0 = get_level sl x 0"
    "\<And>y j. sl_level sl \<le> j \<Longrightarrow> get_level s1 y j = get_level sl y j"
proof -
  define L where "L = sl_level sl"
  define h where "h = height sl x"
  define old where "old i = link (ins k x ps) (ins k h H) i (pred_pos H i k)" for i
  define gone where "gone i = link (ins k x ps) (ins k h H) i k" for i
  have sl: "slots_ok sl (ins k x ps)" "heights_ok sl (ins k x ps)" "linked sl L (ins k x ps) (ins k h H)"
    using r by (simp_all add: repr_def links_ok_linked L_def h_def H map_ins)
  have d: "x \<notin> set ps" "distinct ps" and lens: "length H = length ps"
    using sl(1) by (auto simp: slots_ok_def distinct_ins H)
  have ps0: "ps \<noteq> []"
    using k by auto
  then have "ps ! 0 = 0"
    using sl(1) hd_ins [OF k(1) ps0, of x] by (simp add: slots_ok_def)
  have top: "i < H ! 0" if "i < L" for i
    using that sl(2) ps0 \<open>ps ! 0 = 0\<close> by (simp add: H heights_ok_def L_def)
  have h: "h \<le> L" "0 < h"
    using sl(2) k heights_pos [OF r, of k] by (auto simp: heights_ok_def h_def L_def nth_ins dest!: spec [of _ k])
  have u: "update ! i = ps ! pred_pos H i k" if "i < L" for i
  proof -
    have "is_pred H i k (pred_pos H i k)"
      by (rule is_pred_exists [OF top [OF that] k(1)])
    moreover have "pred_pos (ins k h H) i k = pred_pos H i k"
      by (rule pred_pos_cong [OF top [OF that] k(1)]) (use k lens in \<open>simp add: nth_ins\<close>)
    ultimately show ?thesis
      using pr that k by (simp add: preds_ok_def map_ins L_def h_def [symmetric] H [symmetric] nth_ins is_pred_def)
  qed
  have at: "get_level sl (update ! i) i = Some (old i)" "update ! i \<noteq> x"  if "i < L" for i
  proof -
    have q: "pred_pos H i k < k" "i < H ! pred_pos H i k"
      using is_pred_exists [OF top [OF that] k(1)] by (simp_all add: is_pred_def)
    then show "get_level sl (update ! i) i = Some (old i)"
      using sl(3) [unfolded linked_def, rule_format, of "pred_pos H i k" i] that k lens
      by (simp add: u nth_ins old_def)
    show "update ! i \<noteq> x"
      using q k d(1) nth_mem [of "pred_pos H i k" ps] by (auto simp: u that)
  qed
  have low: "i < h" if "i < L" "forward (old i) = Some x" for i
  proof (rule ccontr)
    assume "\<not> i < h"
    then have "old i = (link ps H i (pred_pos H i k))\<lparr>span := span (link ps H i (pred_pos H i k)) + 1\<rparr>"
      unfolding old_def using is_pred_exists [OF top [OF that(1)] k(1)] k lens
      by (intro link_pred_high) auto
    then show False
      using that(2) forward_link_in [of ps H i "pred_pos H i k" x] lens d(1) by simp
  qed
  have gone: "get_level sl x i = Some (gone i)" if "i < h" for i
    using sl(3) [unfolded linked_def, rule_format, of k i] that h k lens by (simp add: nth_ins gone_def)
  obtain s1 where s1: "splice_out [0..<L] x update sl = Some s1" "relinks sl s1"
    "\<forall>y j. get_level s1 y j = (if j \<in> set [0..<L] \<and> y = update ! j
       then Some (unlinked (old j) (gone j) x) else get_level sl y j)"
    using splice_out_eq [of "[0..<L]" sl update old x gone] at low gone by auto
  have "linked s1 L ps H"
    by (rule unspliced_linked [OF sl(3) lens d k top h(1) u old_def gone_def]) (use s1(3) in simp_all)
  moreover have "get_level s1 x 0 = get_level sl x 0"
    using s1(3) at(2) [of 0] h by auto
  ultimately show thesis
    using s1 by (intro that [of s1]) (auto simp: L_def)
qed

lemma delete_endsE:
  assumes e: "ends_ok sl (ins k x ps)" and s1: "back_of s1 = back_of sl" "tail s1 = tail sl"
      "sl_length s1 = sl_length sl" "get_level s1 x 0 = Some l"
    and l: "forward l = (if k < length ps then Some (ps ! k) else None)"
    and sl: "slots_ok s1 (ins k x ps)" and k: "0 < k" "k \<le> length ps"
  obtains n s2 where "get_node s1 x = Some n"
    "(case forward l of
        Some fwd \<Rightarrow> set_backward fwd (backward n) s1
      | None \<Rightarrow> Some (s1\<lparr>tail := backward n\<rparr>)) = Some s2"
    "get_level s2 = get_level s1" "height s2 = height s1" "entry_of s2 = entry_of s1"
    "length (nodes s2) = length (nodes s1)" "free_slots s2 = free_slots s1"
    "sl_level s2 = sl_level s1" "sl_length s2 = length ps"
    "tail s2 = (if length ps = 1 then None else Some (last ps))"
    "\<And>p. 0 < p \<Longrightarrow> p < length ps \<Longrightarrow>
       back_of s2 (ps ! p) = Some (if p = 1 then None else Some (ps ! (p - 1)))"
proof -
  have d: "x \<notin> set ps" "distinct ps" and live: "\<And>y. y \<in> insert x (set ps) \<Longrightarrow> entry_of s1 y \<noteq> None"
    using sl by (auto simp: slots_ok_def distinct_ins)
  obtain n where n: "get_node s1 x = Some n"
    using live [of x] by (auto simp: entry_of_def)
  have bk: "back_of s1 (ins k x ps ! p) = Some (if p = 1 then None else Some (ins k x ps ! (p - 1)))"
    if "0 < p" "p < Suc (length ps)" for p
    using e that by (simp add: ends_ok_def s1)
  have bn: "backward n = (if k = 1 then None else Some (ps ! (k - 1)))"
    using bk [of k] k n by (simp add: nth_ins back_of_def)
  have len: "sl_length s1 = length ps"
    using e by (simp add: ends_ok_def s1)
  show thesis
  proof (cases "k < length ps")
    case True
    have nn: "entry_of s1 (ps ! k) \<noteq> None"
      using live [of "ps ! k"] True by simp
    obtain s2 where s2: "set_backward (ps ! k) (backward n) s1 = Some s2" "get_level s2 = get_level s1"
      "height s2 = height s1" "entry_of s2 = entry_of s1"
      "back_of s2 = (back_of s1)(ps ! k := Some (backward n))"
      "length (nodes s2) = length (nodes s1)" "free_slots s2 = free_slots s1" "tail s2 = tail s1"
      "sl_level s2 = sl_level s1" "sl_length s2 = sl_length s1"
      by (rule set_backwardE [OF nn, of "backward n"]) auto
    have "back_of s2 (ps ! p) = Some (if p = 1 then None else Some (ps ! (p - 1)))"
      if pos: "0 < p" "p < length ps" for p
    proof (cases p k rule: linorder_cases)
      case less
      then show ?thesis
        using bk [of p] pos d(2) True k by (simp add: s2 nth_ins nth_eq_iff_index_eq)
    next
      case equal
      then show ?thesis
        by (simp add: s2 bn)
    next
      case greater
      then show ?thesis
        using bk [of "Suc p"] pos d(2) True k by (simp add: s2 nth_ins nth_eq_iff_index_eq)
    qed
    moreover have "tail s2 = (if length ps = 1 then None else Some (last ps))"
      using e True k by (auto simp: ends_ok_def s2 s1 ins_def)
    ultimately show thesis
      using True n l len s2 by (intro that [of n s2]) simp_all
  next
    case False
    then have kl: "k = length ps" "ps \<noteq> []"
      using k by auto
    have "back_of s1 (ps ! p) = Some (if p = 1 then None else Some (ps ! (p - 1)))"
      if pos: "0 < p" "p < length ps" for p
      using bk [of p] pos kl by (simp add: nth_ins)
    then show thesis
      using False n l len bn kl by (intro that [of n "s1\<lparr>tail := backward n\<rparr>"])
        (simp_all add: last_conv_nth)
  qed
qed

lemma heights_trimmed:
  assumes lk: "linked s L ps H" and hs: "\<And>p. 0 < p \<Longrightarrow> p < length ps \<Longrightarrow> H ! p \<le> L" and ps: "ps ! 0 = 0"
    and top: "\<And>i. i < L \<Longrightarrow> i < H ! 0" and lens: "length H = length ps"
    and m: "\<And>i l. m \<le> i \<Longrightarrow> i < L \<Longrightarrow> get_level s 0 i = Some l \<Longrightarrow> forward l = None"
    and p: "0 < p" "p < length ps"
  shows "H ! p \<le> m"
proof (rule ccontr)
  assume gt: "\<not> H ! p \<le> m"
  then have L: "m < L"
    using hs [OF p] by simp
  have "get_level s 0 m = Some (link ps H m 0)"
    using lk [unfolded linked_def, rule_format, of 0 m] L top p ps by (cases ps) simp_all
  then have "forward (link ps H m 0) = None"
    using m [of m] L by simp
  then have "next_pos H m 0 = None"
    by (cases "next_pos H m 0") (auto simp: link_def)
  then show False
    using gt p lens by (cases rule: next_pos_cases [of H m 0]) auto
qed

lemma ins_facts:
  assumes "slots_ok sl (ins k x ps)" "0 < k" "k \<le> length ps"
  shows "x \<notin> set ps" "distinct ps" "ps \<noteq> []" "ps ! 0 = 0" "x \<noteq> 0"
    "\<And>p. p < length ps \<Longrightarrow> ps ! p \<noteq> x"
proof -
  show d: "x \<notin> set ps" "distinct ps" and ps0: "ps \<noteq> []"
    using assms by (auto simp: slots_ok_def distinct_ins)
  show "ps ! 0 = 0"
    using assms(1) hd_ins [OF assms(2) ps0, of x] by (simp add: slots_ok_def)
  show neq: "ps ! p \<noteq> x" if "p < length ps" for p
    using d(1) nth_mem [OF that] by auto
  show "x \<noteq> 0"
    using neq [of 0] ps0 \<open>ps ! 0 = 0\<close> by auto
qed

text \<open>Everything but the freed slot and the level.\<close>

lemma unlinkE:
  assumes r: "repr sl (ins k x ps)" and k: "0 < k" "k \<le> length ps"
    and pr: "preds_ok sl (ins k x ps) k update rank"
  obtains s1 l n s2 where "splice_out [0..<sl_level sl] x update sl = Some s1"
    "get_level s1 x 0 = Some l" "get_node s1 x = Some n"
    "(case forward l of
        Some fwd \<Rightarrow> set_backward fwd (backward n) s1
      | None \<Rightarrow> Some (s1\<lparr>tail := backward n\<rparr>)) = Some s2"
    "linked s2 (sl_level sl) ps (map (height sl) ps)" "height s2 = height sl" "entry_of s2 = entry_of sl"
    "length (nodes s2) = length (nodes sl)" "free_slots s2 = free_slots sl"
    "sl_level s2 = sl_level sl" "sl_length s2 = length ps"
    "tail s2 = (if length ps = 1 then None else Some (last ps))"
    "\<And>p. 0 < p \<Longrightarrow> p < length ps \<Longrightarrow>
       back_of s2 (ps ! p) = Some (if p = 1 then None else Some (ps ! (p - 1)))"
    "\<And>y j. sl_level sl \<le> j \<Longrightarrow> get_level s2 y j = get_level sl y j"
proof -
  obtain s1 where s1: "splice_out [0..<sl_level sl] x update sl = Some s1" "relinks sl s1"
    "linked s1 (sl_level sl) ps (map (height sl) ps)" "get_level s1 x 0 = get_level sl x 0"
    "\<And>y j. sl_level sl \<le> j \<Longrightarrow> get_level s1 y j = get_level sl y j"
    by (rule unspliceE [OF r k pr refl]) blast
  have keep: "height s1 = height sl" "entry_of s1 = entry_of sl" "back_of s1 = back_of sl"
    "length (nodes s1) = length (nodes sl)" "free_slots s1 = free_slots sl" "tail s1 = tail sl"
    "sl_level s1 = sl_level sl" "sl_length s1 = sl_length sl"
    using s1(2) by (simp_all add: relinks_def)
  obtain l where l: "get_level s1 x 0 = Some l" "forward l = (if k < length ps then Some (ps ! k) else None)"
    using next_at_bottom_eq(2) [OF r, of k] k s1(4) by (auto simp: nth_ins)
  have slots1: "slots_ok s1 (ins k x ps)" and e: "ends_ok sl (ins k x ps)"
    using r by (simp_all add: repr_def slots_ok_def keep)
  obtain n s2 where n: "get_node s1 x = Some n"
    and s2: "(case forward l of
        Some fwd \<Rightarrow> set_backward fwd (backward n) s1
      | None \<Rightarrow> Some (s1\<lparr>tail := backward n\<rparr>)) = Some s2"
    "get_level s2 = get_level s1" "height s2 = height s1" "entry_of s2 = entry_of s1"
    "length (nodes s2) = length (nodes s1)" "free_slots s2 = free_slots s1"
    "sl_level s2 = sl_level s1" "sl_length s2 = length ps"
    "tail s2 = (if length ps = 1 then None else Some (last ps))"
    "\<And>p. 0 < p \<Longrightarrow> p < length ps \<Longrightarrow>
       back_of s2 (ps ! p) = Some (if p = 1 then None else Some (ps ! (p - 1)))"
    by (rule delete_endsE [OF e keep(3,6,8) l slots1 k]) blast
  have "linked s2 (sl_level sl) ps (map (height sl) ps)"
    using s1(3) by (simp add: linked_def s2(2))
  then show thesis
    by (intro that [OF s1(1) l(1) n s2(1)] s2(8-10)) (simp_all add: keep s2 s1(5))
qed

lemma deleted_heights:
  assumes r: "repr sl (ins k x ps)" and k: "0 < k" "k \<le> length ps"
    and s2: "linked s2 (sl_level sl) ps (map (height sl) ps)"
      "\<And>y j. sl_level sl \<le> j \<Longrightarrow> get_level s2 y j = get_level sl y j"
    and m: "m \<le> sl_level sl"
      "\<forall>i l. m \<le> i \<and> i < sl_level sl \<longrightarrow> get_level s2 0 i = Some l \<longrightarrow> forward l = None"
  shows "0 < p \<Longrightarrow> p < length ps \<Longrightarrow> 1 \<le> height sl (ps ! p) \<and> height sl (ps ! p) \<le> m"
    and "m \<le> i \<Longrightarrow> get_level s2 0 i = Some l \<Longrightarrow> forward l = None"
proof -
  have sl: "slots_ok sl (ins k x ps)" "heights_ok sl (ins k x ps)"
    using r by (simp_all add: repr_def)
  note f = ins_facts [OF sl(1) k]
  have old: "1 \<le> height sl (ps ! q) \<and> height sl (ps ! q) \<le> sl_level sl" if "0 < q" "q < length ps" for q
  proof -
    define q' where "q' = (if q < k then q else Suc q)"
    have "ins k x ps ! q' = ps ! q" "0 < q'" "q' < Suc (length ps)"
      using k that by (auto simp: q'_def nth_ins)
    then show ?thesis
      using sl(2) by (metis heights_ok_def length_ins)
  qed
  show "1 \<le> height sl (ps ! p) \<and> height sl (ps ! p) \<le> m" if p: "0 < p" "p < length ps"
    using heights_trimmed [OF s2(1) _ f(4), of m p] old p sl(2) f(3,4) m(2)
    by (simp add: heights_ok_def)
  show "forward l = None" if "m \<le> i" "get_level s2 0 i = Some l"
  proof (cases "i < sl_level sl")
    case False
    then have "get_level sl 0 i = Some l" "sl_level sl \<le> i"
      using that(2) s2(2) [of i 0] by simp_all
    then show ?thesis
      using sl(2) unfolding heights_ok_def by blast
  qed (use m(2) that in blast)
qed

lemma delete_nodeE:
  assumes r: "repr sl (ins k x ps)" and k: "0 < k" "k \<le> length ps"
    and pr: "preds_ok sl (ins k x ps) k update rank"
  obtains sl' where "delete_node x update sl = Some sl'" "repr sl' ps"
    "entry_of sl' = (entry_of sl)(x := None)"
proof -
  define H where "H = map (height sl) ps"
  have sl: "slots_ok sl (ins k x ps)" "heights_ok sl (ins k x ps)"
    using r by (simp_all add: repr_def)
  note f = ins_facts [OF sl(1) k]
  obtain s1 l n s2 where s1: "splice_out [0..<sl_level sl] x update sl = Some s1"
      "get_level s1 x 0 = Some l" "get_node s1 x = Some n"
    "(case forward l of
        Some fwd \<Rightarrow> set_backward fwd (backward n) s1
      | None \<Rightarrow> Some (s1\<lparr>tail := backward n\<rparr>)) = Some s2"
    and s2: "linked s2 (sl_level sl) ps (map (height sl) ps)" "height s2 = height sl" "entry_of s2 = entry_of sl"
    "length (nodes s2) = length (nodes sl)" "free_slots s2 = free_slots sl"
    "sl_level s2 = sl_level sl" "sl_length s2 = length ps"
    "tail s2 = (if length ps = 1 then None else Some (last ps))"
    "\<And>p. 0 < p \<Longrightarrow> p < length ps \<Longrightarrow>
       back_of s2 (ps ! p) = Some (if p = 1 then None else Some (ps ! (p - 1)))"
    "\<And>y j. sl_level sl \<le> j \<Longrightarrow> get_level s2 y j = get_level sl y j"
    by (rule unlinkE [OF r k pr]) blast
  have lv: "1 \<le> sl_level sl" "sl_level sl \<le> skiplist_maxlevel" "height sl 0 = skiplist_maxlevel"
    using sl(2) by (simp_all add: heights_ok_def)
  have "\<exists>m. trim_level s2 (sl_level s2) = Some m \<and> 1 \<le> m \<and> m \<le> sl_level s2 \<and>
    (\<forall>i l. m \<le> i \<and> i < sl_level s2 \<longrightarrow> get_level s2 0 i = Some l \<longrightarrow> forward l = None)"
    by (rule trim_levelE) (use lv in \<open>simp_all add: s2\<close>)
  then obtain m where m: "trim_level s2 (sl_level sl) = Some m" "1 \<le> m" "m \<le> sl_level sl"
    "\<forall>i l. m \<le> i \<and> i < sl_level sl \<longrightarrow> get_level s2 0 i = Some l \<longrightarrow> forward l = None"
    by (auto simp: s2(6))
  have xl: "x < length (nodes (s2\<lparr>sl_level := m\<rparr>))"
    using sl(1) by (auto simp: slots_ok_def entry_of_def get_node_def s2(4) dest!: spec [of _ x] split: if_splits)
  obtain s3 where s3: "free_node x (s2\<lparr>sl_level := m\<rparr>) = Some s3" "height s3 = (height sl)(x := 0)"
    "entry_of s3 = (entry_of sl)(x := None)" "\<And>y. y \<noteq> x \<Longrightarrow> back_of s3 y = back_of s2 y"
    "\<And>y j. y \<noteq> x \<Longrightarrow> get_level s3 y j = get_level s2 y j"
    "length (nodes s3) = length (nodes sl)" "free_slots s3 = free_slots sl @ [x]" "tail s3 = tail s2"
    "sl_level s3 = m" "sl_length s3 = length ps"
    by (rule free_nodeE [OF xl]) (auto simp: s2)
  define s4 where "s4 = s3\<lparr>sl_length := usize_sub (sl_length s3) 1\<rparr>"
  have H4: "map (height s4) ps = H"
    using f(1) by (auto simp: H_def s4_def s3)
  have "slots_ok s4 ps"
    using sl(1) f(1-5) xl by (auto simp: slots_ok_def s4_def s3 s2)
  moreover have "links_ok s4 ps"
    using s2(1) m(3) f(6) unfolding links_ok_linked H4 by (simp add: linked_def H_def s4_def s3)
  moreover have "heights_ok s4 ps"
    using deleted_heights [OF r k s2(1,10) m(3,4)] m(2,3) lv f(5,6) by (simp add: heights_ok_def s4_def s3)
  moreover have "ends_ok s4 ps"
    using f(3,6) s2(8,9) by (simp add: ends_ok_def s4_def s3 Suc_le_eq)
  moreover have "delete_node x update sl = Some s4"
    using s1 m(1) s3(1) by (simp add: delete_node_def s4_def s2(6))
  ultimately show thesis
    by (intro that [of s4]) (auto simp: repr_def s4_def s3)
qed

end
