(* ===== verification/Skip_List_Refine.thy ===== *)
theory Skip_List_Refine
  imports Skip_List_Update
begin

text \<open>
  The public operations of the skip list against a list of \<open>(member, score)\<close> pairs in the order of
  \<open>compare\<close>: \<open>shows_list sl xs\<close> says that the arena holds exactly the list \<open>xs\<close>.
\<close>

section \<open>The order of the entries\<close>

definition entry_lt :: "string \<times> f64 \<Rightarrow> string \<times> f64 \<Rightarrow> bool" where
  "entry_lt a b \<longleftrightarrow> sl_compare (snd a) (fst a) (snd b) (fst b) = Less"

definition no_nan :: "string \<times> f64 \<Rightarrow> bool" where
  "no_nan e \<longleftrightarrow> \<not> f64_is_nan (snd e)"

definition ordered :: "(string \<times> f64) list \<Rightarrow> bool" where
  "ordered xs \<longleftrightarrow> sorted_wrt entry_lt xs \<and> list_all no_nan xs"

lemma entry_lt_iff:
  assumes "no_nan a" "no_nan b"
  shows "entry_lt a b \<longleftrightarrow>
    f64_num (snd a) < f64_num (snd b) \<or> f64_num (snd a) = f64_num (snd b) \<and> fst a < fst b"
  using assms by (auto simp: entry_lt_def no_nan_def sl_compare_def f64_partial_cmp_def then_with_def
      str_cmp_def)

lemma entry_lt_irrefl [simp]: "\<not> entry_lt a a"
  by (cases "f64_is_nan (snd a)")
    (auto simp: entry_lt_def sl_compare_def f64_partial_cmp_def then_with_def str_cmp_def)

lemma entry_lt_trans: "no_nan a \<Longrightarrow> no_nan b \<Longrightarrow> no_nan c \<Longrightarrow> entry_lt a b \<Longrightarrow> entry_lt b c \<Longrightarrow> entry_lt a c"
  by (auto simp: entry_lt_iff)

lemma entry_lt_total:
  "no_nan a \<Longrightarrow> no_nan b \<Longrightarrow> fst a \<noteq> fst b \<Longrightarrow> entry_lt a b \<or> entry_lt b a"
  by (auto simp: entry_lt_iff)

lemma pass_rank_eq: "pass_rank score member = pass_before score member"
proof (intro ext)
  fix sl fwd r
  have "\<not> (sl_compare s m score member = Equal \<and> m < member)" for s m
    by (auto simp: sl_compare_def then_with_def str_cmp_def split: if_splits)
  then show "pass_rank score member sl fwd r = pass_before score member sl fwd r"
    by (cases "get_node sl fwd") (auto simp: pass_rank_def pass_before_def Let_def)
qed

section \<open>The list that is represented\<close>

definition shows_list :: "skip_list \<Rightarrow> (string \<times> f64) list \<Rightarrow> bool" where
  "shows_list sl xs \<longleftrightarrow> (\<exists>ps. repr sl ps \<and> contents sl ps = xs)"

lemma shows_new: "shows_list skiplist_new []"
  using repr_new contents_new unfolding shows_list_def by blast

lemma repr_nonempty: "repr sl ps \<Longrightarrow> ps \<noteq> []"
  by (simp add: repr_def slots_ok_def)

lemma repr_length: "repr sl ps \<Longrightarrow> length ps = Suc (length (contents sl ps)) \<and> sl_length sl = length (contents sl ps)"
  using repr_nonempty by (auto simp: repr_def ends_ok_def contents_def)

lemma shows_length: "shows_list sl xs \<Longrightarrow> sl_length sl = length xs"
  using repr_length unfolding shows_list_def by blast

lemma repr_entry:
  assumes "repr sl ps" "0 < p" "p < length ps"
  obtains n where "get_node sl (ps ! p) = Some n"
    "(sl_member n, sl_score n) = contents sl ps ! (p - 1)"
proof -
  have "ps ! p \<in> set ps"
    using assms by simp
  then obtain n where n: "get_node sl (ps ! p) = Some n"
    using assms(1) by (auto simp: repr_def slots_ok_def entry_of_def)
  moreover have "contents sl ps ! (p - 1) = the (entry_of sl (ps ! p))"
    using assms by (cases ps) (auto simp: contents_def nth_Cons')
  ultimately show thesis
    using that by (simp add: entry_of_def)
qed

section \<open>Where a search stops\<close>

definition rank_of :: "string \<times> f64 \<Rightarrow> (string \<times> f64) list \<Rightarrow> nat" where
  "rank_of e xs = length (takeWhile (\<lambda>x. entry_lt x e) xs)"

lemma ordered_prefix:
  assumes "ordered xs" "no_nan e" "q < length xs"
  shows "entry_lt (xs ! q) e \<longleftrightarrow> q < rank_of e xs"
proof
  assume "q < rank_of e xs"
  then show "entry_lt (xs ! q) e"
    unfolding rank_of_def by (metis nth_mem set_takeWhileD takeWhile_nth)
next
  assume lt: "entry_lt (xs ! q) e"
  show "q < rank_of e xs"
  proof (rule ccontr)
    assume "\<not> q < rank_of e xs"
    then have k: "rank_of e xs \<le> q"
      by simp
    then have "\<not> entry_lt (xs ! rank_of e xs) e"
      using assms(3) unfolding rank_of_def by (intro nth_length_takeWhile) simp
    moreover have "entry_lt (xs ! rank_of e xs) e"
    proof (cases "rank_of e xs = q")
      case False
      then have "entry_lt (xs ! rank_of e xs) (xs ! q)"
        using k assms by (simp add: ordered_def sorted_wrt_iff_nth_less)
      then show ?thesis
        using lt assms k by (intro entry_lt_trans [of "xs ! rank_of e xs" "xs ! q" e])
          (auto simp: ordered_def list_all_length)
    qed (use lt in simp)
    ultimately show False
      by simp
  qed
qed

lemma before_splits:
  assumes r: "repr sl ps" and o: "ordered (contents sl ps)" and e: "no_nan (member, score)"
  shows "splits_at (pass_before score member) sl ps (Suc (rank_of (member, score) (contents sl ps)))"
  unfolding splits_at_def
proof (intro conjI allI impI)
  show "Suc (rank_of (member, score) (contents sl ps)) \<le> length ps"
    using repr_length [OF r] length_takeWhile_le by (auto simp: rank_of_def)
  fix q
  assume q: "0 < q \<and> q < length ps"
  then obtain n where n: "get_node sl (ps ! q) = Some n"
    "(sl_member n, sl_score n) = contents sl ps ! (q - 1)"
    using repr_entry [OF r] by metis
  have "entry_lt (sl_member n, sl_score n) (member, score) \<longleftrightarrow>
      q - 1 < rank_of (member, score) (contents sl ps)"
    using ordered_prefix [OF o e, of "q - 1"] n(2) q repr_length [OF r] by auto
  then show "pass_before score member sl (ps ! q) q =
      Some (q < Suc (rank_of (member, score) (contents sl ps)))"
    using n(1) q by (auto simp: pass_before_def entry_lt_def)
qed simp

lemma count_splits:
  assumes "repr sl ps" "start < sl_length sl"
  shows "splits_at (pass_count start) sl ps (Suc start)"
  using assms repr_length [OF assms(1)] by (auto simp: splits_at_def pass_count_def)

text \<open>The element after the stop.\<close>

lemma candidate_eq [consumes 2, case_names none some]:
  assumes r: "repr sl ps" and k: "k \<le> length (contents sl ps)"
  obtains (none) "k = length (contents sl ps)" "next_at_bottom sl (ps ! k) = Some None"
  | (some) n where "k < length (contents sl ps)" "next_at_bottom sl (ps ! k) = Some (Some (ps ! Suc k, n))"
      "(sl_member n, sl_score n) = contents sl ps ! k"
proof (cases "k < length (contents sl ps)")
  case True
  then obtain n where "get_node sl (ps ! Suc k) = Some n"
    "(sl_member n, sl_score n) = contents sl ps ! k"
    using repr_entry [OF r, of "Suc k"] repr_length [OF r] by auto
  then show thesis
    using True some next_at_bottom_eq(1) [OF r, of k] repr_length [OF r] by auto
next
  case False
  then show thesis
    using none k next_at_bottom_eq(1) [OF r, of k] repr_length [OF r] by auto
qed

section \<open>Reading\<close>

lemma bottom_step [consumes 3, case_names stop step]:
  assumes r: "repr sl ps" and p: "p < length ps" "get_level sl (ps ! p) 0 = Some l"
  obtains (stop) "forward l = None" "drop p (contents sl ps) = []"
  | (step) m l' where "Suc p < length ps" "forward l = Some (ps ! Suc p)" "get_node sl (ps ! Suc p) = Some m"
      "get_level sl (ps ! Suc p) 0 = Some l'"
      "drop p (contents sl ps) = (sl_member m, sl_score m) # drop (Suc p) (contents sl ps)"
proof (cases "Suc p < length ps")
  case True
  then have l: "forward l = Some (ps ! Suc p)"
    using p next_at_bottom_eq(2) [OF r p(1)] by auto
  obtain m where m: "get_node sl (ps ! Suc p) = Some m"
    "(sl_member m, sl_score m) = contents sl ps ! p"
    using repr_entry [OF r, of "Suc p"] True by auto
  obtain l' where "get_level sl (ps ! Suc p) 0 = Some l'"
    using next_at_bottom_eq(2) [OF r True] by simp
  moreover have "drop p (contents sl ps) = contents sl ps ! p # drop (Suc p) (contents sl ps)"
    using True repr_length [OF r] by (simp add: Cons_nth_drop_Suc)
  ultimately show thesis
    using step [OF True l m(1)] m(2) by simp
next
  case False
  then show thesis
    using stop p next_at_bottom_eq(2) [OF r p(1)] repr_length [OF r] by auto
qed

lemma collect_eq:
  assumes r: "repr sl ps" and "p < length ps" "get_level sl (ps ! p) 0 = Some l"
  shows "collect sl n (forward l) = Some (take n (drop p (contents sl ps)))"
  using assms(2,3)
proof (induction n arbitrary: p l)
  case (Suc n)
  show ?case
    by (rule bottom_step [OF r Suc.prems]) (use Suc.IH in auto)
qed simp

lemma iterate_eq:
  assumes r: "repr sl ps" and "p < length ps" "get_level sl (ps ! p) 0 = Some l"
  shows "iterate sl (forward l) = Some (drop p (contents sl ps))"
  using assms(2,3)
proof (induction "length ps - p" arbitrary: p l rule: less_induct)
  case less
  show ?case
    using r less.prems
  proof (cases rule: bottom_step)
    case stop
    then show ?thesis
      by (subst iterate.simps) simp
  next
    case (step m l')
    then have "iterate sl (forward l') = Some (drop (Suc p) (contents sl ps))"
      using less.hyps [of "Suc p" l'] by simp
    then show ?thesis
      using step by (subst iterate.simps) simp
  qed
qed

lemma iter_eq: "shows_list sl xs \<Longrightarrow> skiplist_iter sl = Some xs"
proof -
  assume "shows_list sl xs"
  then obtain ps where r: "repr sl ps" "contents sl ps = xs"
    by (auto simp: shows_list_def)
  have ps: "0 < length ps" "ps ! 0 = 0"
    using r(1) by (auto simp: repr_def slots_ok_def)
  obtain l where l: "get_level sl (ps ! 0) 0 = Some l"
    using next_at_bottom_eq(2) [OF r(1) ps(1)] by simp
  then show ?thesis
    using iterate_eq [OF r(1) ps(1) l] r(2) ps(2) by (simp add: skiplist_iter_def)
qed

lemma range_eq:
  assumes "shows_list sl xs"
  shows "skiplist_range start end0 sl =
    Some (if start > end0 then [] else take (Suc end0 - start) (drop start xs))"
proof (cases "start > end0 \<or> start \<ge> length xs")
  case True
  then show ?thesis
    using shows_length [OF assms] by (auto simp: skiplist_range_def)
next
  case False
  obtain ps where r: "repr sl ps" "contents sl ps = xs"
    using assms by (auto simp: shows_list_def)
  have start: "start < sl_length sl"
    using False shows_length [OF assms] by simp
  obtain u ra where "search sl (pass_count start) = Some (ps ! start, start, u, ra)"
    by (rule search_stops [OF r(1) count_splits [OF r(1) start]]) simp
  moreover have p: "start < length ps"
    using start repr_length [OF r(1)] by simp
  moreover obtain l where l: "get_level sl (ps ! start) 0 = Some l"
    using next_at_bottom_eq(2) [OF r(1) p] by simp
  moreover have "take (min end0 (length xs - 1) + 1 - start) (drop start xs) = take (Suc end0 - start) (drop start xs)"
    using False by (auto simp: min_def)
  ultimately show ?thesis
    using False collect_eq [OF r(1) p l] r(2) shows_length [OF assms]
    by (simp add: skiplist_range_def Let_def)
qed

lemma rev_range_eq:
  assumes "shows_list sl xs"
  shows "skiplist_rev_range start end0 sl =
    Some (if start > end0 then [] else take (Suc end0 - start) (drop start (rev xs)))"
proof (cases "start > end0 \<or> start \<ge> length xs")
  case True
  then show ?thesis
    using shows_length [OF assms] by (auto simp: skiplist_rev_range_def)
next
  case False
  define n e where "n = length xs" and "e = min end0 (n - 1)"
  have e: "start \<le> e" "e < n"
    using False by (auto simp: e_def n_def)
  have "drop (n - 1 - e) (take (n - start) xs) = take (Suc (n - 1 - start) - (n - 1 - e)) (drop (n - 1 - e) xs)"
    using e by (simp add: drop_take Suc_diff_Suc)
  moreover have "take (Suc end0 - start) (drop start (rev xs)) = take (Suc e - start) (drop start (rev xs))"
    using e by (auto simp: e_def n_def min_def)
  moreover have "take (Suc e - start) (drop start (rev xs)) = rev (drop (n - 1 - e) (take (n - start) xs))"
    using e by (cases "start = 0") (auto simp: drop_rev take_rev n_def min_def algebra_simps)
  moreover have "skiplist_range (n - 1 - e) (n - 1 - start) sl =
      Some (take (Suc (n - 1 - start) - (n - 1 - e)) (drop (n - 1 - e) xs))"
    using e by (simp add: range_eq [OF assms])
  moreover have "skiplist_rev_range start end0 sl =
      map_option rev (skiplist_range (n - 1 - e) (n - 1 - start) sl)"
    using False shows_length [OF assms] by (simp add: skiplist_rev_range_def Let_def n_def e_def)
  ultimately show ?thesis
    using False by simp
qed

lemma get_by_rank_eq:
  assumes "shows_list sl xs"
  shows "get_by_rank i sl = Some (if i < length xs then Some (xs ! i) else None)"
proof (cases "i < length xs")
  case True
  obtain ps where r: "repr sl ps" "contents sl ps = xs"
    using assms by (auto simp: shows_list_def)
  have i: "i < sl_length sl"
    using True shows_length [OF assms] by simp
  obtain u ra where "search sl (pass_count i) = Some (ps ! i, i, u, ra)"
    by (rule search_stops [OF r(1) count_splits [OF r(1) i]]) simp
  then show ?thesis
    using True i r(2)
    by (cases rule: candidate_eq [OF r(1), of i]) (auto simp: get_by_rank_def)
next
  case False
  then show ?thesis
    using shows_length [OF assms] by (simp add: get_by_rank_def)
qed

lemma rank_eq:
  assumes s: "shows_list sl xs" and o: "ordered xs" and e: "no_nan (member, score)"
  shows "skiplist_rank member score sl =
    (let k = rank_of (member, score) xs in
     Some (if k < length xs \<and> fst (xs ! k) = member \<and> abs_diff_below_epsilon (snd (xs ! k)) score
           then Some k else None))"
proof -
  obtain ps where r: "repr sl ps" "contents sl ps = xs"
    using s by (auto simp: shows_list_def)
  define k where "k = rank_of (member, score) xs"
  have k: "k \<le> length (contents sl ps)"
    unfolding k_def r(2) rank_of_def by (rule length_takeWhile_le)
  have st: "splits_at (pass_before score member) sl ps (Suc k)"
    using before_splits [OF r(1) _ e] o unfolding k_def r(2) by simp
  obtain u ra where "search sl (pass_rank score member) = Some (ps ! k, k, u, ra)"
    unfolding pass_rank_eq by (rule search_stops [OF r(1) st]) simp
  then show ?thesis
    unfolding k_def [symmetric]
    by (cases rule: candidate_eq [OF r(1) k])
      (auto simp: skiplist_rank_def Let_def r(2) [symmetric] prod_eq_iff)
qed

section \<open>Updating\<close>

lemma contents_ins:
  assumes "x \<notin> set ps" "0 < k" "k \<le> length ps" "entry_of sl' = (entry_of sl)(x := Some e)"
  shows "contents sl' (ins k x ps) = ins (k - 1) e (contents sl ps)"
proof -
  obtain a as where ps: "ps = a # as"
    using assms by (cases ps) auto
  obtain j where k: "k = Suc j"
    using assms(2) by (cases k) auto
  have "map (the \<circ> entry_of sl') as = map (the \<circ> entry_of sl) as"
    using assms(1,4) by (auto simp: ps)
  moreover have "ins (Suc j) x (a # as) = a # ins j x as"
    by (simp add: ins_def)
  ultimately show ?thesis
    by (simp add: contents_def ps k map_ins del: map_eq_conv) (simp add: assms(4))
qed

lemma contents_del:
  assumes "x \<notin> set ps" "0 < k" "k \<le> length ps" "entry_of sl' = (entry_of sl)(x := None)"
  shows "contents sl (ins k x ps) = ins (k - 1) (the (entry_of sl x)) (contents sl' ps)"
proof -
  obtain a as where ps: "ps = a # as"
    using assms by (cases ps) auto
  obtain j where k: "k = Suc j"
    using assms(2) by (cases k) auto
  have "map (the \<circ> entry_of sl') as = map (the \<circ> entry_of sl) as"
    using assms(1,4) by (auto simp: ps)
  moreover have "ins (Suc j) x (a # as) = a # ins j x as"
    by (simp add: ins_def)
  ultimately show ?thesis
    by (simp add: contents_def ps k map_ins del: map_eq_conv)
qed

lemma insert_new_eq:
  assumes s: "shows_list sl xs" and o: "ordered xs" and e: "no_nan (member, score)"
    and new: "member \<notin> fst ` set xs"
  shows "\<exists>sl'. skiplist_insert member score sl = Some (sl', True) \<and>
    shows_list sl' (ins (rank_of (member, score) xs) (member, score) xs)"
proof -
  obtain ps where r: "repr sl ps" "contents sl ps = xs"
    using s by (auto simp: shows_list_def)
  define k where "k = rank_of (member, score) xs"
  have k: "k \<le> length (contents sl ps)"
    unfolding k_def r(2) rank_of_def by (rule length_takeWhile_le)
  have k': "0 < Suc k" "Suc k \<le> length ps"
    using k repr_length [OF r(1)] by simp_all
  have st: "splits_at (pass_before score member) sl ps (Suc k)"
    using before_splits [OF r(1) _ e] o unfolding k_def r(2) by simp
  obtain u ra where f: "search sl (pass_before score member) = Some (ps ! k, k, u, ra)"
      "preds_ok sl ps (Suc k) u ra"
    by (rule search_stops [OF r(1) st]) simp
  obtain x sl' where i: "insert_internal member score u ra sl = Some sl'" "x \<notin> set ps"
    "repr sl' (ins (Suc k) x ps)" "entry_of sl' = (entry_of sl)(x := Some (member, score))"
    by (rule insert_internalE [OF r(1) k' f(2)])
  have "sl_member n \<noteq> member" if "(sl_member n, sl_score n) = xs ! k" "k < length xs" for n
    using new nth_mem [OF that(2)] that(1) by (metis fst_conv image_eqI)
  then have "skiplist_insert member score sl = Some (sl', True)"
    by (cases rule: candidate_eq [OF r(1) k]) (auto simp: skiplist_insert_def f i r(2))
  moreover have "contents sl' (ins (Suc k) x ps) = ins k (member, score) xs"
    using contents_ins [OF i(2) k' i(4)] r(2) by simp
  ultimately show ?thesis
    using i(3) unfolding shows_list_def k_def [symmetric] by blast
qed

lemma remove_eq:
  assumes s: "shows_list sl xs" and o: "ordered xs" and e: "no_nan (member, score)"
    and k: "k = rank_of (member, score) xs"
  shows "if k < length xs \<and> fst (xs ! k) = member \<and> abs_diff_below_epsilon (snd (xs ! k)) score
    then \<exists>sl'. remove_with_score member score sl = Some (sl', True) \<and>
           shows_list sl' (take k xs @ drop (Suc k) xs)
    else remove_with_score member score sl = Some (sl, False)"
proof -
  obtain ps where r: "repr sl ps" "contents sl ps = xs"
    using s by (auto simp: shows_list_def)
  have kl: "k \<le> length (contents sl ps)"
    unfolding k r(2) rank_of_def by (rule length_takeWhile_le)
  have st: "splits_at (pass_before score member) sl ps (Suc k)"
    using before_splits [OF r(1) _ e] o unfolding k r(2) by simp
  obtain u ra where f: "search sl (pass_before score member) = Some (ps ! k, k, u, ra)"
      "preds_ok sl ps (Suc k) u ra"
    by (rule search_stops [OF r(1) st]) simp
  show ?thesis
    using r(1) kl
  proof (cases rule: candidate_eq)
    case none
    then show ?thesis
      by (simp add: remove_with_score_def f r(2))
  next
    case (some n)
    define x qs where "x = ps ! Suc k" and "qs = take (Suc k) ps @ drop (Suc (Suc k)) ps"
    have len: "Suc k < length ps"
      using some repr_length [OF r(1)] by simp
    then have ps: "ps = ins (Suc k) x qs" and qs: "0 < Suc k" "Suc k \<le> length qs"
      using ins_split [OF len] by (auto simp: x_def qs_def)
    obtain sl' where d: "delete_node x u sl = Some sl'" "repr sl' qs" "entry_of sl' = (entry_of sl)(x := None)"
      using delete_nodeE [of sl "Suc k" x qs u ra] r(1) f(2) qs unfolding ps [symmetric] by blast
    have "x \<notin> set qs"
      using r(1) by (simp add: ps repr_def slots_ok_def distinct_ins)
    then have "xs = ins k (the (entry_of sl x)) (contents sl' qs)"
      using contents_del [OF _ qs d(3)] r(2) ps by simp
    moreover have "length (contents sl' qs) = length xs - 1"
      using calculation by simp
    ultimately have "contents sl' qs = take k xs @ drop (Suc k) xs"
      using some(1) r(2) by (auto simp: ins_def min_def)
    then show ?thesis
      using some d r(2) unfolding x_def
      by (auto simp: remove_with_score_def f shows_list_def prod_eq_iff)
  qed
qed

end
