(* ===== verification/Text_Lib.thy ===== *)
theory Text_Lib
  imports Prelude
begin

text \<open>
  The string functions of the standard library that the sources use on text: \<open>trim\<close>,
  \<open>split_whitespace\<close>, \<open>join\<close>, the ASCII case mappings. \<open>to_uppercase\<close> and \<open>to_lowercase\<close> follow the
  Unicode tables; they are arguments \<open>up\<close> and \<open>dn\<close> of the definitions that call them, and
  \<open>ascii_case up dn\<close> says that on ASCII text they are the ASCII mappings.
\<close>

section \<open>Case\<close>

definition lower_char :: "char \<Rightarrow> char" where
  "lower_char c = (let n = of_char c :: nat in if 65 \<le> n \<and> n \<le> 90 then char_of (n + 32) else c)"

definition upper_char :: "char \<Rightarrow> char" where
  "upper_char c = (let n = of_char c :: nat in if 97 \<le> n \<and> n \<le> 122 then char_of (n - 32) else c)"

definition ascii_case :: "(string \<Rightarrow> string) \<Rightarrow> (string \<Rightarrow> string) \<Rightarrow> bool" where
  "ascii_case up dn \<longleftrightarrow> (\<forall>s. ascii s \<longrightarrow> up s = map upper_char s \<and> dn s = map lower_char s)"

lemma ascii_caseD: "ascii_case up dn \<Longrightarrow> ascii s \<Longrightarrow> up s = map upper_char s"
  "ascii_case up dn \<Longrightarrow> ascii s \<Longrightarrow> dn s = map lower_char s"
  by (simp_all add: ascii_case_def)

lemma upper_lower_char: "upper_char (lower_char c) = upper_char c"
proof -
  have "(of_char c :: nat) < 256"
    by (simp add: of_char_def)
  then show ?thesis
    by (auto simp: upper_char_def lower_char_def Let_def)
qed

lemma ascii_case_example: "ascii_case (map upper_char) (map lower_char)"
  by (simp add: ascii_case_def)

section \<open>Trimming\<close>

text \<open>The UTF-8 encodings of the characters with the Unicode property \<open>White_Space\<close>.\<close>

definition white_space :: "string list" where
  "white_space =
     map (\<lambda>n. [char_of n]) [9::nat, 10, 11, 12, 13, 32] @
     [map char_of [0xC2, 0x85 :: nat], map char_of [0xC2, 0xA0 :: nat], map char_of [0xE1, 0x9A, 0x80 :: nat]] @
     map (\<lambda>n. map char_of [0xE2, 0x80, n :: nat]) ([0x80..<0x8B] @ [0xA8, 0xA9, 0xAF]) @
     [map char_of [0xE2, 0x81, 0x9F :: nat], map char_of [0xE3, 0x80, 0x80 :: nat]]"

definition strip_one :: "string list \<Rightarrow> string \<Rightarrow> string option" where
  "strip_one ws s =
     map_option (\<lambda>w. drop (length w) s) (find (\<lambda>w. w \<noteq> [] \<and> take (length w) s = w) ws)"

lemma strip_one_shorter: "strip_one ws s = Some r \<Longrightarrow> length r < length s"
  by (auto simp: strip_one_def find_Some_iff) (metis diff_less length_greater_0_conv take_eq_Nil)

function trim_left :: "string list \<Rightarrow> string \<Rightarrow> string" where
  "trim_left ws s = (case strip_one ws s of Some r \<Rightarrow> trim_left ws r | None \<Rightarrow> s)"
  by auto

termination
  by (relation "measure (\<lambda>(_, s). length s)") (auto dest: strip_one_shorter)

declare trim_left.simps [simp del]

definition trim :: "string \<Rightarrow> string" where
  "trim s = rev (trim_left (map rev white_space) (rev (trim_left white_space s)))"


section \<open>Words\<close>

text \<open>\<open>split_whitespace\<close>: no encoding of a white-space character starts inside another character.\<close>

function words_from :: "string \<Rightarrow> string \<Rightarrow> string list" where
  "words_from acc s =
     (if s = [] then (if acc = [] then [] else [rev acc])
      else case strip_one white_space s of
             Some r \<Rightarrow> (if acc = [] then [] else [rev acc]) @ words_from [] r
           | None \<Rightarrow> words_from (hd s # acc) (List.tl s))"
  by auto

termination
  by (relation "measure (\<lambda>(_, s). length s)") (auto dest: strip_one_shorter)

declare words_from.simps [simp del]

definition split_whitespace :: "string \<Rightarrow> string list" where
  "split_whitespace s = words_from [] s"

fun join :: "string \<Rightarrow> string list \<Rightarrow> string" where
  "join sep [] = []"
| "join sep [x] = x"
| "join sep (x # y # xs) = x @ sep @ join sep (y # xs)"

fun strip_prefix :: "string \<Rightarrow> string \<Rightarrow> string option" where
  "strip_prefix [] s = Some s"
| "strip_prefix (p # ps) (c # cs) = (if p = c then strip_prefix ps cs else None)"
| "strip_prefix (p # ps) [] = None"

text \<open>Text in single quotes.\<close>

definition quoted :: "string \<Rightarrow> string" where
  "quoted s = [CHR 0x27] @ s @ [CHR 0x27]"

text \<open>A lower-case hexadecimal digit, as \<open>{:x}\<close> prints it.\<close>

definition hex_digit :: "nat \<Rightarrow> char" where
  "hex_digit d = (if d < 10 then char_of (48 + d) else char_of (87 + d))"

section \<open>Unsigned numbers\<close>

text \<open>
  \<open>parse::<u64>\<close> and the other unsigned types, with the text of their errors. The characters are read
  from the left, and the first one that is no digit or makes the number too large ends the loop.
\<close>

fun unsigned_digits :: "nat \<Rightarrow> nat \<Rightarrow> string \<Rightarrow> string + nat" where
  "unsigned_digits limit acc [] = Inr acc"
| "unsigned_digits limit acc (c # cs) =
     (case digit_val c of
        None \<Rightarrow> Inl ''invalid digit found in string''
      | Some d \<Rightarrow> if limit \<le> 10 * acc + d then Inl ''number too large to fit in target type''
                  else unsigned_digits limit (10 * acc + d) cs)"

definition parse_unsigned :: "nat \<Rightarrow> string \<Rightarrow> string + nat" where
  "parse_unsigned limit s =
     (if s = [] then Inl ''cannot parse integer from empty string''
      else if s = ''+'' then Inl ''invalid digit found in string''
      else unsigned_digits limit 0 (if hd s = CHR ''+'' then List.tl s else s))"

lemma unsigned_digits_bound: "unsigned_digits limit acc s = Inr n \<Longrightarrow> acc < limit \<Longrightarrow> n < limit"
  by (induction limit acc s rule: unsigned_digits.induct) (auto split: option.splits if_splits)

lemma parse_unsigned_bound: "parse_unsigned limit s = Inr n \<Longrightarrow> 0 < limit \<Longrightarrow> n < limit"
  by (auto simp: parse_unsigned_def split: if_splits dest: unsigned_digits_bound)

lemma parse_digits_le: "parse_digits acc s = Some n \<Longrightarrow> acc \<le> n"
  by (induction s arbitrary: acc) (fastforce split: option.splits)+

lemma unsigned_digits_parse: "parse_digits acc s = Some n \<Longrightarrow> n < limit \<Longrightarrow> unsigned_digits limit acc s = Inr n"
  by (induction s arbitrary: acc) (fastforce dest: parse_digits_le split: option.splits)+

lemma parse_unsigned_show: "n < limit \<Longrightarrow> parse_unsigned limit (show_nat n) = Inr n"
proof -
  assume n: "n < limit"
  obtain d cs where d: "d < 10" "show_nat n = digit_char d # cs"
    using show_nat_hd by blast
  have "show_nat n \<noteq> ''+''" "hd (show_nat n) \<noteq> CHR ''+''"
    using d digit_char_not_sign(2) [OF d(1)] by auto
  then show ?thesis
    using unsigned_digits_parse [OF parse_show_nat n] by (simp add: parse_unsigned_def)
qed

section \<open>Printable text\<close>

text \<open>Text of visible ASCII characters only: it is neither trimmed nor split.\<close>

definition visible_char :: "char \<Rightarrow> bool" where
  "visible_char c \<longleftrightarrow> (let n = of_char c :: nat in 33 \<le> n \<and> n < 127)"

definition printable :: "string \<Rightarrow> bool" where
  "printable s \<longleftrightarrow> list_all visible_char s"

lemma printable_simps [simp]:
  "printable []" "printable (c # s) \<longleftrightarrow> visible_char c \<and> printable s"
  "printable (s @ t) \<longleftrightarrow> printable s \<and> printable t" "printable (rev s) \<longleftrightarrow> printable s"
  by (simp_all add: printable_def)

lemma printable_ascii: "printable s \<Longrightarrow> ascii s"
  by (auto simp: printable_def ascii_def visible_char_def Let_def list_all_iff)

lemma white_space_invisible:
  "list_all (\<lambda>w. w \<noteq> [] \<and> \<not> visible_char (hd w) \<and> \<not> visible_char (last w)) white_space"
  by (simp add: white_space_def visible_char_def upt_rec_numeral)

lemma strip_one_visible:
  assumes "list_all (\<lambda>w. w \<noteq> [] \<and> \<not> visible_char (hd w)) ws" "visible_char c"
  shows "strip_one ws (c # s) = None"
proof -
  have "take (length w) (c # s) \<noteq> w" if "w \<in> set ws" for w
  proof -
    have "w \<noteq> []" "\<not> visible_char (hd w)"
      using assms(1) that by (auto simp: list_all_iff)
    then show ?thesis
      using assms(2) by (cases w) auto
  qed
  then show ?thesis
    by (auto simp: strip_one_def find_None_iff)
qed

lemma strip_white_visible:
  assumes "visible_char c"
  shows "strip_one white_space (c # s) = None" "strip_one (map rev white_space) (c # s) = None"
  using white_space_invisible assms
  by (auto intro!: strip_one_visible simp: list_all_iff hd_rev)

lemma trim_visible:
  assumes "s \<noteq> []" "visible_char (hd s)" "visible_char (last s)"
  shows "trim s = s"
proof -
  have "trim_left ws t = t" if "\<And>c s. visible_char c \<Longrightarrow> strip_one ws (c # s) = None" "t \<noteq> []" "visible_char (hd t)" for ws t
    using that by (cases t) (simp_all add: trim_left.simps)
  then show ?thesis
    using assms by (simp add: trim_def strip_white_visible hd_rev)
qed

lemma trim_Nil [simp]: "trim [] = []"
proof -
  have "strip_one ws [] = None" for ws
    by (auto simp: strip_one_def find_None_iff)
  then show ?thesis
    by (simp add: trim_def trim_left.simps)
qed

lemma trim_printable [simp]: "printable s \<Longrightarrow> trim s = s"
  by (cases "s = []") (simp_all add: trim_visible printable_def list_all_iff)

lemma words_from_printable:
  "printable w \<Longrightarrow> words_from acc (w @ s) = words_from (rev w @ acc) s"
proof (induction w arbitrary: acc)
  case (Cons c w)
  then show ?case
    by (subst words_from.simps) (simp add: strip_white_visible)
qed simp

lemma strip_one_space: "strip_one white_space (CHR '' '' # s) = Some s"
  by (simp add: strip_one_def white_space_def char_of_eq_iff eq_commute [of "CHR '' ''" "char_of _"])

lemma split_join:
  "list_all (\<lambda>w. w \<noteq> [] \<and> printable w) ws \<Longrightarrow> split_whitespace (join '' '' ws) = ws"
proof (induction ws rule: induct_list012)
  case (2 w)
  then show ?case
    using words_from_printable [of w "[]" "[]"] by (simp add: split_whitespace_def words_from.simps)
next
  case (3 x y zs)
  have "words_from [] (x @ CHR '' '' # join '' '' (y # zs)) = words_from (rev x) (CHR '' '' # join '' '' (y # zs))"
    using words_from_printable [of x "[]"] "3.prems" by simp
  also have "\<dots> = x # words_from [] (join '' '' (y # zs))"
    using "3.prems" by (subst words_from.simps) (simp add: strip_one_space)
  finally show ?case
    using 3 by (simp add: split_whitespace_def)
qed (simp add: split_whitespace_def words_from.simps)

section \<open>Little-endian numbers\<close>

fun to_le :: "nat \<Rightarrow> nat \<Rightarrow> bytes" where
  "to_le 0 v = []"
| "to_le (Suc n) v = char_of (v mod 256) # to_le n (v div 256)"

fun from_le :: "bytes \<Rightarrow> nat" where
  "from_le [] = 0"
| "from_le (c # cs) = of_char c + 256 * from_le cs"

lemma length_to_le [simp]: "length (to_le n v) = n"
  by (induction n arbitrary: v) simp_all

lemma from_to_le [simp]: "from_le (to_le n v) = v mod 256 ^ n"
proof (induction n arbitrary: v)
  case (Suc n)
  have "v mod 256 + 256 * (v div 256 mod 256 ^ n) = v mod (256 * 256 ^ n)"
    by (simp add: mod_mult2_eq)
  then show ?case
    by (simp add: Suc)
qed simp

end
