(* ===== verification/Float64_Text.thy ===== *)
theory Float64_Text
  imports Float64 Text_Lib
begin

text \<open>
  \<open>f64\<close> values as text: \<open>str::parse::<f64>\<close> accepts the documented grammar and rounds the exact decimal
  to the nearest value, ties to even; \<open>to_string\<close> writes the shortest decimal that parses back,
  without an exponent.
\<close>

section \<open>Rounding a fraction\<close>

fun bit_len :: "nat \<Rightarrow> nat" where
  "bit_len n = (if n = 0 then 0 else Suc (bit_len (n div 2)))"

declare bit_len.simps [simp del]

definition round_half_even :: "nat \<Rightarrow> nat \<Rightarrow> nat" where
  "round_half_even n d =
     (let q = n div d; r = n mod d
      in if 2 * r > d \<or> 2 * r = d \<and> odd q then q + 1 else q)"

text \<open>
  \<open>n / d\<close> for positive \<open>n\<close>: the exponent of the last place is that of a 53-bit significand, and never
  below \<open>-1074\<close>. Exponent and significand are added, so that a significand that rounds up to \<open>2 ^ 53\<close>
  carries into the exponent, up to infinity.
\<close>

definition floor_log2 :: "nat \<Rightarrow> nat \<Rightarrow> int" where
  "floor_log2 n d =
     (let k = int (bit_len n) - int (bit_len d)
      in if (if 0 \<le> k then d * 2 ^ nat k \<le> n else d \<le> n * 2 ^ nat (- k)) then k else k - 1)"

definition f64_of_ratio :: "nat \<Rightarrow> nat \<Rightarrow> f64" where
  "f64_of_ratio n d =
     (if n = 0 then 0
      else let e = max (-1074) (floor_log2 n d - 52);
               m = (if 0 \<le> e then round_half_even n (d * 2 ^ nat e)
                    else round_half_even (n * 2 ^ nat (- e)) d);
               b = nat (e + 1074) * 2 ^ 52 + m
           in word_of_nat (min b 0x7FF0000000000000))"

definition f64_of_decimal :: "nat \<Rightarrow> int \<Rightarrow> f64" where
  "f64_of_decimal m e =
     (if 0 \<le> e then f64_of_ratio (m * 10 ^ nat e) 1 else f64_of_ratio m (10 ^ nat (- e)))"

definition f64_neg :: "f64 \<Rightarrow> f64" where
  "f64_neg x = xor x 0x8000000000000000"

section \<open>Parsing\<close>

definition is_digit :: "char \<Rightarrow> bool" where
  "is_digit c \<longleftrightarrow> digit_val c \<noteq> None"

definition take_sign :: "string \<Rightarrow> bool \<times> string" where
  "take_sign s =
     (case s of
        CHR ''-'' # r \<Rightarrow> (True, r)
      | CHR ''+'' # r \<Rightarrow> (False, r)
      | _ \<Rightarrow> (False, s))"

definition parse_exponent :: "string \<Rightarrow> int option" where
  "parse_exponent s =
     (case s of
        [] \<Rightarrow> Some 0
      | c # r \<Rightarrow>
          if lower_char c = CHR ''e''
          then let (neg, ds) = take_sign r
               in if ds = [] then None
                  else map_option (\<lambda>n. if neg then - int n else int n) (parse_digits 0 ds)
          else None)"

definition parse_number :: "string \<Rightarrow> f64 option" where
  "parse_number s =
     (let ip = takeWhile is_digit s; r = dropWhile is_digit s;
          (fp, r') = (case r of
                        CHR ''.'' # t \<Rightarrow> (takeWhile is_digit t, dropWhile is_digit t)
                      | _ \<Rightarrow> ([], r))
      in if ip = [] \<and> fp = [] then None
         else case (parse_digits 0 (ip @ fp), parse_exponent r') of
                (Some m, Some e) \<Rightarrow> Some (f64_of_decimal m (e - int (length fp)))
              | _ \<Rightarrow> None)"

definition parse_f64 :: "string \<Rightarrow> f64 option" where
  "parse_f64 s =
     (let (neg, r) = take_sign s; w = map lower_char r;
          v = (if w = ''inf'' \<or> w = ''infinity'' then Some 0x7FF0000000000000
               else if w = ''nan'' then Some 0x7FF8000000000000
               else parse_number r)
      in map_option (\<lambda>x. if neg then f64_neg x else x) v)"

section \<open>Printing\<close>

text \<open>The largest \<open>k\<close> with \<open>10 ^ k \<le> n / d\<close>; the smallest positive \<open>f64\<close> is above \<open>10 ^ -324\<close>.\<close>

definition floor_log10 :: "nat \<Rightarrow> nat \<Rightarrow> int" where
  "floor_log10 n d =
     (if d \<le> n then int (length (show_nat (n div d))) - 1
      else case find (\<lambda>j. d \<le> n * 10 ^ j) [1..<400] of Some j \<Rightarrow> - int j | None \<Rightarrow> -400)"

text \<open>
  The decimals of \<open>k\<close> digits on both sides of \<open>x\<close>; those that read back as \<open>x\<close> are candidates, the
  nearer one wins, and the upper one when both are equally near.
\<close>

definition decimal_of_length :: "f64 \<Rightarrow> nat \<Rightarrow> (nat \<times> int) option" where
  "decimal_of_length x k =
     (let n = f64_magnitude x; d = 2 ^ 1074; t = floor_log10 n d - int k + 1;
          (a, b) = (if 0 \<le> t then (n, d * 10 ^ nat t) else (n * 10 ^ nat (- t), d));
          lo = a div b; r = a mod b;
          lo_ok = (f64_of_decimal lo t = x); hi_ok = (f64_of_decimal (lo + 1) t = x)
      in if hi_ok \<and> (\<not> lo_ok \<or> b \<le> 2 * r) then Some (lo + 1, t)
         else if lo_ok then Some (lo, t) else None)"

definition shortest_decimal :: "f64 \<Rightarrow> nat \<times> int" where
  "shortest_decimal x =
     (case find (\<lambda>k. decimal_of_length x k \<noteq> None) [1..<18] of
        Some k \<Rightarrow> the (decimal_of_length x k)
      | None \<Rightarrow> (0, 0))"

definition show_decimal :: "nat \<Rightarrow> int \<Rightarrow> string" where
  "show_decimal m e =
     (let s = show_nat m; k = nat (- e)
      in if 0 \<le> e then s @ replicate (nat e) (CHR ''0'')
         else if k < length s then take (length s - k) s @ ''.'' @ drop (length s - k) s
         else ''0.'' @ replicate (k - length s) (CHR ''0'') @ s)"

definition show_f64 :: "f64 \<Rightarrow> string" where
  "show_f64 x =
     (if f64_is_nan x then ''NaN''
      else let a = and x 0x7FFFFFFFFFFFFFFF;
               s = (if a = 0 then ''0'' else if a = 0x7FF0000000000000 then ''inf''
                    else case shortest_decimal a of (m, e) \<Rightarrow> show_decimal m e)
           in if bit x 63 then ''-'' @ s else s)"

end
