(* ===== verification/Sorted_Set.thy ===== *)
theory Sorted_Set
  imports Collections Skip_List_Refine Float64_Text
begin

text \<open>
  The sorted set (\<open>src/redis/data/sorted_set.rs\<close>): a map from members to scores and a skip list of
  the same pairs in score order. As in \<open>Skip_List\<close>, \<open>None\<close> is a panic or a loop that does not end.
  \<open>zset_ok\<close> says that both parts hold the same pairs, with finite scores; every operation keeps it and
  then acts as the same operation on the ordered list of the pairs.
\<close>

section \<open>Operations\<close>

definition zset_new :: redis_sorted_set where
  "zset_new = \<lparr>zset_members = fmempty, zset_skiplist = skiplist_new\<rparr>"

definition zset_add :: "redis_sorted_set \<Rightarrow> bytes \<Rightarrow> f64 \<Rightarrow> (redis_sorted_set \<times> bool) option" where
  "zset_add z member score =
     (let key = utf8_lossy member in
      case fmlookup (zset_members z) key of
        Some old_score \<Rightarrow>
          if abs_diff_below_epsilon old_score score then Some (z, False)
          else do {(l1, _) \<leftarrow> remove_with_score key old_score (zset_skiplist z);
                   (l2, _) \<leftarrow> skiplist_insert key score l1;
                   Some (\<lparr>zset_members = fmupd key score (zset_members z), zset_skiplist = l2\<rparr>, False)}
      | None \<Rightarrow>
          do {(l, _) \<leftarrow> skiplist_insert key score (zset_skiplist z);
              Some (\<lparr>zset_members = fmupd key score (zset_members z), zset_skiplist = l\<rparr>, True)})"

definition zset_remove :: "redis_sorted_set \<Rightarrow> bytes \<Rightarrow> (redis_sorted_set \<times> bool) option" where
  "zset_remove z member =
     (let key = utf8_lossy member in
      case fmlookup (zset_members z) key of
        Some score \<Rightarrow>
          do {(l, _) \<leftarrow> remove_with_score key score (zset_skiplist z);
              Some (\<lparr>zset_members = fmdrop key (zset_members z), zset_skiplist = l\<rparr>, True)}
      | None \<Rightarrow> Some (z, False))"

definition zset_score :: "redis_sorted_set \<Rightarrow> bytes \<Rightarrow> f64 option" where
  "zset_score z member = fmlookup (zset_members z) (utf8_lossy member)"

definition zset_rank :: "redis_sorted_set \<Rightarrow> bytes \<Rightarrow> nat option option" where
  "zset_rank z member =
     (let key = utf8_lossy member in
      case fmlookup (zset_members z) key of
        None \<Rightarrow> Some None
      | Some score \<Rightarrow> skiplist_rank key score (zset_skiplist z))"

definition zset_range :: "redis_sorted_set \<Rightarrow> isize \<Rightarrow> isize \<Rightarrow> (bytes \<times> f64) list option" where
  "zset_range z start0 stop0 =
     (let len = int (sl_length (zset_skiplist z));
          start = norm_start len start0; stop = norm_stop len stop0
      in if len = 0 \<or> start > stop \<or> start \<ge> len then Some []
         else skiplist_range (nat start) (nat stop) (zset_skiplist z))"

definition zset_rev_range :: "redis_sorted_set \<Rightarrow> isize \<Rightarrow> isize \<Rightarrow> (bytes \<times> f64) list option" where
  "zset_rev_range z start0 stop0 =
     (let len = int (sl_length (zset_skiplist z));
          start = norm_start len start0; stop = norm_stop len stop0
      in if len = 0 \<or> start > stop \<or> start \<ge> len then Some []
         else skiplist_rev_range (nat start) (nat stop) (zset_skiplist z))"

definition zset_skiplist_len :: "redis_sorted_set \<Rightarrow> usize" where
  "zset_skiplist_len z = sl_length (zset_skiplist z)"

definition zset_is_empty :: "redis_sorted_set \<Rightarrow> bool" where
  "zset_is_empty z \<longleftrightarrow> zset_members z = fmempty"

definition zset_iter :: "redis_sorted_set \<Rightarrow> (string \<times> f64) list option" where
  "zset_iter z = skiplist_iter (zset_skiplist z)"

text \<open>\<open>is_sorted\<close>: the loop over \<open>iter()\<close> with the previous score and member.\<close>

fun sorted_from :: "f64 \<Rightarrow> string \<Rightarrow> (string \<times> f64) list \<Rightarrow> bool" where
  "sorted_from prev_score prev_member [] = True"
| "sorted_from prev_score prev_member ((member, score) # rest) =
     (if f64_lt score prev_score \<or> f64_eq score prev_score \<and> member < prev_member then False
      else sorted_from score member rest)"

definition zset_is_sorted :: "redis_sorted_set \<Rightarrow> bool option" where
  "zset_is_sorted z = map_option (sorted_from 0xFFF0000000000000 []) (zset_iter z)"

text \<open>\<open>verify_invariants\<close>, the checks of a debug build.\<close>

definition zset_invariants :: "redis_sorted_set \<Rightarrow> bool" where
  "zset_invariants z \<longleftrightarrow>
     zset_len z = sl_length (zset_skiplist z) \<and>
     fBall (fmdom (zset_members z))
       (\<lambda>m. \<exists>r. skiplist_rank m (the (fmlookup (zset_members z) m)) (zset_skiplist z) = Some (Some r))"

section \<open>Score bounds\<close>

definition parse_score_bound :: "string \<Rightarrow> string + f64 \<times> bool" where
  "parse_score_bound s0 =
     (let s = trim s0 in
      if s = ''-inf'' then Inr (0xFFF0000000000000, False)
      else if s = ''+inf'' \<or> s = ''inf'' then Inr (0x7FF0000000000000, False)
      else let (exclusive, num) = (case s of CHR ''('' # r \<Rightarrow> (True, r) | _ \<Rightarrow> (False, s))
           in case parse_f64 num of
                Some score \<Rightarrow> Inr (score, exclusive)
              | None \<Rightarrow> Inl ''ERR min or max is not a float'')"

definition in_bounds :: "f64 \<times> bool \<Rightarrow> f64 \<times> bool \<Rightarrow> f64 \<Rightarrow> bool" where
  "in_bounds lo hi score \<longleftrightarrow>
     (if snd lo then f64_lt (fst lo) score else f64_le (fst lo) score) \<and>
     (if snd hi then f64_lt score (fst hi) else f64_le score (fst hi))"

definition count_in_range :: "redis_sorted_set \<Rightarrow> string \<Rightarrow> string \<Rightarrow> (string + usize) option" where
  "count_in_range z min0 max0 =
     (case parse_score_bound min0 of
        Inl e \<Rightarrow> Some (Inl e)
      | Inr lo \<Rightarrow>
          (case parse_score_bound max0 of
             Inl e \<Rightarrow> Some (Inl e)
           | Inr hi \<Rightarrow>
               do {xs \<leftarrow> zset_iter z; Some (Inr (length (filter (\<lambda>(_, s). in_bounds lo hi s) xs)))}))"

definition range_by_score ::
  "redis_sorted_set \<Rightarrow> string \<Rightarrow> string \<Rightarrow> bool \<Rightarrow> (isize \<times> usize) option \<Rightarrow>
   (string + (string \<times> f64 option) list) option" where
  "range_by_score z min0 max0 with_scores limit =
     (case parse_score_bound min0 of
        Inl e \<Rightarrow> Some (Inl e)
      | Inr lo \<Rightarrow>
          (case parse_score_bound max0 of
             Inl e \<Rightarrow> Some (Inl e)
           | Inr hi \<Rightarrow>
               do {xs \<leftarrow> zset_iter z;
                   let results = map (\<lambda>(m, s). (m, if with_scores then Some s else None))
                                   (filter (\<lambda>(_, s). in_bounds lo hi s) xs)
                   in Some (Inr (case limit of
                                   None \<Rightarrow> results
                                 | Some (offset, count) \<Rightarrow>
                                     take count (drop (nat (max offset 0)) results)))}))"

section \<open>The two parts agree\<close>

definition zset_list :: "redis_sorted_set \<Rightarrow> (string \<times> f64) list \<Rightarrow> bool" where
  "zset_list z xs \<longleftrightarrow>
     shows_list (zset_skiplist z) xs \<and> ordered xs \<and> distinct (map fst xs) \<and>
     map_of xs = fmlookup (zset_members z) \<and> list_all (f64_is_finite \<circ> snd) xs"

definition zset_ok :: "redis_sorted_set \<Rightarrow> bool" where
  "zset_ok z \<longleftrightarrow> (\<exists>xs. zset_list z xs)"

lemma zset_ok_new: "zset_list zset_new []"
  by (simp add: zset_list_def zset_new_def shows_new ordered_def fun_eq_iff)

lemma zset_iter_eq: "zset_list z xs \<Longrightarrow> zset_iter z = Some xs"
  by (simp add: zset_list_def zset_iter_def iter_eq)

lemma zset_list_unique: "zset_list z xs \<Longrightarrow> zset_list z ys \<Longrightarrow> xs = ys"
  using zset_iter_eq [of z xs] zset_iter_eq [of z ys] by simp

text \<open>A pair of the list is found at its place.\<close>

lemma rank_of_nth:
  assumes "ordered xs" "i < length xs"
  shows "rank_of (xs ! i) xs = i"
proof -
  have e: "no_nan (xs ! i)"
    using assms by (simp add: ordered_def list_all_length)
  have "j < rank_of (xs ! i) xs \<longleftrightarrow> j < i" if "j < length xs" for j
  proof -
    have "entry_lt (xs ! j) (xs ! i) \<longleftrightarrow> j < i"
      using assms that entry_lt_irrefl [of "xs ! i"] entry_lt_trans [of "xs ! i" "xs ! j" "xs ! i"]
      by (cases i j rule: linorder_cases)
        (auto simp: ordered_def sorted_wrt_iff_nth_less list_all_length)
    then show ?thesis
      using ordered_prefix [OF assms(1) e that] by simp
  qed
  moreover have "rank_of (xs ! i) xs \<le> length xs"
    unfolding rank_of_def by (rule length_takeWhile_le)
  ultimately show ?thesis
    using assms(2) by (metis leD le_neq_implies_less linorder_neqE_nat order_refl)
qed

lemma zset_member:
  assumes z: "zset_list z xs" and m: "fmlookup (zset_members z) key = Some score"
  obtains i where "i < length xs" "xs ! i = (key, score)" "rank_of (key, score) xs = i"
    "f64_is_finite score" "no_nan (key, score)"
proof -
  have "(key, score) \<in> set xs"
    using z m by (metis map_of_SomeD zset_list_def)
  then obtain i where i: "i < length xs" "xs ! i = (key, score)"
    by (auto simp: in_set_conv_nth)
  moreover have "f64_is_finite score"
    using z i by (auto simp: zset_list_def list_all_length)
  moreover have "rank_of (key, score) xs = i"
    using rank_of_nth [of xs i] z i by (simp add: zset_list_def)
  ultimately show thesis
    using that by (simp add: no_nan_def)
qed

section \<open>Updates\<close>

lemma map_of_ins:
  assumes "fst e \<notin> fst ` set xs"
  shows "map_of (ins k e xs) = (map_of xs)(fst e \<mapsto> snd e)"
proof -
  have split: "map_of xs = map_of (drop k xs) ++ map_of (take k xs)"
    by (metis append_take_drop_id map_of_append)
  have "map_of (take k xs) (fst e) = None"
    using assms in_set_takeD by (force simp: map_of_eq_None_iff)
  then show ?thesis
    unfolding split ins_def by (cases e) (auto simp: map_add_def fun_eq_iff split: option.splits)
qed

lemma ordered_ins:
  assumes o: "ordered xs" and e: "no_nan e" and new: "fst e \<notin> fst ` set xs"
  shows "ordered (ins (rank_of e xs) e xs)"
proof -
  define k where "k = rank_of e xs"
  have above: "entry_lt e y" if y: "y \<in> set (drop k xs)" for y
  proof -
    obtain j where j: "j < length xs" "k \<le> j" "y = xs ! j"
      using y by (auto simp: in_set_conv_nth) (metis add.commute add_less_imp_less_right
          le_add2 less_diff_conv nth_drop le_add_diff_inverse2)
    then have "\<not> entry_lt y e"
      using ordered_prefix [OF o e j(1)] by (simp add: k_def)
    moreover have y: "y \<in> set xs"
      using j by simp
    moreover have "fst y \<noteq> fst e"
      using y new by (metis image_eqI)
    moreover have "no_nan y"
      using y o by (auto simp: ordered_def list_all_iff)
    ultimately show ?thesis
      using entry_lt_total [of y e] e by auto
  qed
  have below: "entry_lt y e" if "y \<in> set (take k xs)" for y
    using that by (auto simp: k_def rank_of_def takeWhile_eq_take [symmetric] dest: set_takeWhileD)
  have "sorted_wrt entry_lt (take k xs)" "sorted_wrt entry_lt (drop k xs)"
    "\<forall>x\<in>set (take k xs). \<forall>y\<in>set (drop k xs). entry_lt x y"
    using o sorted_wrt_append [of entry_lt "take k xs" "drop k xs"] by (simp_all add: ordered_def)
  moreover have "list_all no_nan (take k xs)" "list_all no_nan (drop k xs)"
    using o by (auto simp: ordered_def list_all_iff dest: in_set_takeD in_set_dropD)
  ultimately show ?thesis
    using e above below unfolding k_def [symmetric] by (simp add: ordered_def ins_def sorted_wrt_append)
qed

lemma dropped_list:
  assumes "distinct (map fst xs)" "k < length xs" "xs ! k = (key, score)" "ordered xs"
    and ys: "ys = take k xs @ drop (Suc k) xs"
  shows "map_of ys = (map_of xs)(key := None)" "distinct (map fst ys)" "ordered ys" "key \<notin> fst ` set ys"
    "set ys \<subseteq> set xs"
proof -
  have xs: "xs = ins k (key, score) ys"
    using ins_split [OF assms(2)] assms(3) ys by simp
  then have "distinct (map fst (ins k (key, score) ys))"
    using assms(1) by simp
  then show d: "distinct (map fst ys)" "key \<notin> fst ` set ys"
    by (simp_all add: map_ins distinct_ins)
  show "map_of ys = (map_of xs)(key := None)"
    using d(2) by (subst xs) (auto simp: map_of_ins fun_eq_iff map_of_eq_None_iff)
  have "sorted_wrt entry_lt (take k xs @ drop k xs)" "drop k xs = xs ! k # drop (Suc k) xs"
    using assms(4) Cons_nth_drop_Suc [OF assms(2)] by (simp_all add: ordered_def)
  then show "ordered ys"
    using assms(4) unfolding ys
    by (auto simp: ordered_def sorted_wrt_append list_all_iff dest: in_set_takeD in_set_dropD)
  show "set ys \<subseteq> set xs"
    by (auto simp: ys dest: in_set_takeD in_set_dropD)
qed

lemma zset_insertE:
  assumes l: "shows_list l xs" "ordered xs" "distinct (map fst xs)" "list_all (f64_is_finite \<circ> snd) xs"
    and m: "map_of xs = fmlookup m" "fmlookup m key = None" and f: "f64_is_finite score"
  obtains l' where "skiplist_insert key score l = Some (l', True)"
    "zset_list \<lparr>zset_members = fmupd key score m, zset_skiplist = l'\<rparr>
       (ins (rank_of (key, score) xs) (key, score) xs)"
proof -
  have e: "no_nan (key, score)" and new: "key \<notin> fst ` set xs"
    using f m by (auto simp: no_nan_def) (metis map_of_eq_None_iff fst_conv image_eqI option.simps(3))
  then obtain l' where "skiplist_insert key score l = Some (l', True)"
    "shows_list l' (ins (rank_of (key, score) xs) (key, score) xs)"
    using insert_new_eq [OF l(1,2) e] by blast
  then show thesis
    using l m new f e ordered_ins [OF l(2) e]
    by (intro that [of l'])
      (auto simp: zset_list_def map_of_ins map_ins distinct_ins list_all_iff fun_eq_iff)
qed

lemma zset_deleteE:
  assumes z: "zset_list z xs" and m: "fmlookup (zset_members z) key = Some score"
    and k: "k = rank_of (key, score) xs" and ys: "ys = take k xs @ drop (Suc k) xs"
  obtains l' where "remove_with_score key score (zset_skiplist z) = Some (l', True)"
    "zset_list \<lparr>zset_members = fmdrop key (zset_members z), zset_skiplist = l'\<rparr> ys"
proof -
  obtain i where i: "i < length xs" "xs ! i = (key, score)" "rank_of (key, score) xs = i"
    "f64_is_finite score" "no_nan (key, score)"
    by (rule zset_member [OF z m])
  have z': "shows_list (zset_skiplist z) xs" "ordered xs" "distinct (map fst xs)"
    "map_of xs = fmlookup (zset_members z)" "list_all (f64_is_finite \<circ> snd) xs"
    using z by (simp_all add: zset_list_def)
  have d: "map_of ys = (map_of xs)(key := None)" "distinct (map fst ys)" "ordered ys" "set ys \<subseteq> set xs"
    using dropped_list [OF z'(3) _ _ z'(2) ys, of key score] i k by simp_all
  obtain l' where l: "remove_with_score key score (zset_skiplist z) = Some (l', True)" "shows_list l' ys"
    using remove_eq [OF z'(1,2) i(5) k] i k ys by auto
  moreover have "list_all (f64_is_finite \<circ> snd) ys"
    using z'(5) d(4) by (auto simp: list_all_iff)
  moreover have "map_of ys = fmlookup (fmdrop key (zset_members z))"
    by (auto simp: d(1) z'(4) fun_eq_iff)
  ultimately show thesis
    using d that by (simp add: zset_list_def)
qed

section \<open>The operations on the ordered list\<close>

text \<open>The list after \<open>add\<close>: an old pair of the member goes, the new one is put in its place.\<close>

definition list_without :: "string \<Rightarrow> (string \<times> f64) list \<Rightarrow> (string \<times> f64) list" where
  "list_without key xs = filter (\<lambda>(m, _). m \<noteq> key) xs"

definition list_with :: "string \<Rightarrow> f64 \<Rightarrow> (string \<times> f64) list \<Rightarrow> (string \<times> f64) list" where
  "list_with key score xs =
     (let ys = list_without key xs in ins (rank_of (key, score) ys) (key, score) ys)"

lemma list_without_absent: "key \<notin> fst ` set xs \<Longrightarrow> list_without key xs = xs"
  unfolding list_without_def by (rule filter_True) (auto simp: image_iff)

lemma list_without_nth:
  assumes "distinct (map fst xs)" "k < length xs" "xs ! k = (key, score)" "ordered xs"
  shows "list_without key xs = take k xs @ drop (Suc k) xs"
proof -
  have nk: "key \<notin> fst ` set (take k xs @ drop (Suc k) xs)"
    by (rule dropped_list(4) [OF assms refl])
  have "xs = take k xs @ (key, score) # drop (Suc k) xs"
    using id_take_nth_drop [OF assms(2)] assms(3) by simp
  then have "list_without key xs = list_without key (take k xs @ (key, score) # drop (Suc k) xs)"
    by (rule arg_cong)
  also have "\<dots> = list_without key (take k xs @ drop (Suc k) xs)"
    by (simp add: list_without_def)
  also have "\<dots> = take k xs @ drop (Suc k) xs"
    by (rule list_without_absent [OF nk])
  finally show ?thesis .
qed

lemma zset_add_eq:
  assumes z: "zset_list z xs" and f: "f64_is_finite score" and key: "key = utf8_lossy member"
  shows "case fmlookup (zset_members z) key of
      Some old \<Rightarrow>
        if abs_diff_below_epsilon old score then zset_add z member score = Some (z, False)
        else \<exists>z'. zset_add z member score = Some (z', False) \<and> zset_list z' (list_with key score xs) \<and>
               zset_members z' = fmupd key score (zset_members z)
    | None \<Rightarrow>
        \<exists>z'. zset_add z member score = Some (z', True) \<and> zset_list z' (list_with key score xs) \<and>
             zset_members z' = fmupd key score (zset_members z)"
proof (cases "fmlookup (zset_members z) key")
  case None
  have l: "shows_list (zset_skiplist z) xs" "ordered xs" "distinct (map fst xs)"
    "list_all (f64_is_finite \<circ> snd) xs" "map_of xs = fmlookup (zset_members z)"
    using z by (simp_all add: zset_list_def)
  have "list_without key xs = xs"
    using l(5) None by (intro list_without_absent) (simp flip: map_of_eq_None_iff)
  moreover obtain l' where "skiplist_insert key score (zset_skiplist z) = Some (l', True)"
    "zset_list \<lparr>zset_members = fmupd key score (zset_members z), zset_skiplist = l'\<rparr>
       (ins (rank_of (key, score) xs) (key, score) xs)"
    by (rule zset_insertE [OF l None f])
  ultimately show ?thesis
    using None by (simp add: zset_add_def key [symmetric] list_with_def)
next
  case (Some old)
  obtain i where i: "i < length xs" "xs ! i = (key, old)" "rank_of (key, old) xs = i"
    by (rule zset_member [OF z Some])
  have z': "distinct (map fst xs)" "ordered xs"
    using z by (simp_all add: zset_list_def)
  have ys: "list_without key xs = take i xs @ drop (Suc i) xs"
    by (rule list_without_nth [OF z'(1) i(1,2) z'(2)])
  obtain l1 where l1: "remove_with_score key old (zset_skiplist z) = Some (l1, True)"
    "zset_list \<lparr>zset_members = fmdrop key (zset_members z), zset_skiplist = l1\<rparr> (list_without key xs)"
    by (rule zset_deleteE [OF z Some i(3) [symmetric] ys])
  have l: "shows_list l1 (list_without key xs)" "ordered (list_without key xs)"
    "distinct (map fst (list_without key xs))" "list_all (f64_is_finite \<circ> snd) (list_without key xs)"
    "map_of (list_without key xs) = fmlookup (fmdrop key (zset_members z))"
    "fmlookup (fmdrop key (zset_members z)) key = None"
    using l1(2) by (simp_all add: zset_list_def)
  obtain l2 where l2: "skiplist_insert key score l1 = Some (l2, True)"
    "zset_list \<lparr>zset_members = fmupd key score (fmdrop key (zset_members z)), zset_skiplist = l2\<rparr>
       (list_with key score xs)"
    unfolding list_with_def Let_def by (rule zset_insertE [OF l f])
  have "fmupd key score (fmdrop key (zset_members z)) = fmupd key score (zset_members z)"
    by (rule fmap_ext) simp
  then show ?thesis
    using Some l1(1) l2 by (simp add: zset_add_def key [symmetric])
qed

lemma zset_remove_eq:
  assumes z: "zset_list z xs" and key: "key = utf8_lossy member"
  shows "\<exists>z'. zset_remove z member = Some (z', key |\<in>| fmdom (zset_members z)) \<and>
    zset_list z' (list_without key xs) \<and> zset_members z' = fmdrop key (zset_members z)"
proof (cases "fmlookup (zset_members z) key")
  case None
  have "list_without key xs = xs"
    using z None by (intro list_without_absent) (simp add: zset_list_def flip: map_of_eq_None_iff)
  moreover have "fmdrop key (zset_members z) = zset_members z"
    using None by (intro fmap_ext) auto
  ultimately show ?thesis
    using z None by (simp add: zset_remove_def key [symmetric] fmdom_notI)
next
  case (Some score)
  obtain i where i: "i < length xs" "xs ! i = (key, score)" "rank_of (key, score) xs = i"
    by (rule zset_member [OF z Some])
  have z': "distinct (map fst xs)" "ordered xs"
    using z by (simp_all add: zset_list_def)
  obtain l where "remove_with_score key score (zset_skiplist z) = Some (l, True)"
    "zset_list \<lparr>zset_members = fmdrop key (zset_members z), zset_skiplist = l\<rparr> (list_without key xs)"
    by (rule zset_deleteE [OF z Some i(3) [symmetric] list_without_nth [OF z'(1) i(1,2) z'(2)]])
  then show ?thesis
    using Some by (simp add: zset_remove_def key [symmetric] fmdomI)
qed

lemma zset_rank_eq:
  assumes z: "zset_list z xs"
  shows "zset_rank z member =
    Some (case fmlookup (zset_members z) (utf8_lossy member) of
            Some score \<Rightarrow> Some (rank_of (utf8_lossy member, score) xs) | None \<Rightarrow> None)"
proof (cases "fmlookup (zset_members z) (utf8_lossy member)")
  case (Some score)
  obtain i where "i < length xs" "xs ! i = (utf8_lossy member, score)"
    "rank_of (utf8_lossy member, score) xs = i" "f64_is_finite score" "no_nan (utf8_lossy member, score)"
    by (rule zset_member [OF z Some])
  then show ?thesis
    using Some z rank_eq [of "zset_skiplist z" xs "utf8_lossy member" score]
    by (simp add: zset_rank_def zset_list_def Let_def)
qed (simp add: zset_rank_def)

lemma zset_len_eq: "zset_list z xs \<Longrightarrow> zset_len z = length xs"
proof -
  assume z: "zset_list z xs"
  have "fset (fmdom (zset_members z)) = fst ` set xs"
    using z by (simp add: zset_list_def fmdom.rep_eq flip: dom_map_of_conv_image_fst)
  then show ?thesis
    using z distinct_card [of "map fst xs"] by (simp add: zset_list_def zset_len_def fcard.rep_eq)
qed

lemma zset_range_eq:
  assumes z: "zset_list z xs"
  shows "zset_range z start stop =
      Some (map (\<lambda>i. xs ! i) (filter (in_range (length xs) start stop) [0..<length xs]))"
    and "zset_rev_range z start stop =
      Some (map (\<lambda>i. rev xs ! i) (filter (in_range (length xs) start stop) [0..<length xs]))"
proof -
  define s e where "s = norm_start (int (length xs)) start" and "e = norm_stop (int (length xs)) stop"
  have sl: "shows_list (zset_skiplist z) xs"
    using z by (simp add: zset_list_def)
  have s: "0 \<le> s"
    by (simp add: s_def norm_start_def)
  have "zset_range z start stop =
      Some (if s > e \<or> s \<ge> int (length xs) then [] else take (nat (e - s + 1)) (drop (nat s) xs))"
    using s by (auto simp: zset_range_def Let_def shows_length [OF sl] range_eq [OF sl] s_def [symmetric]
        e_def [symmetric] nat_diff_distrib Suc_nat_eq_nat_zadd1 simp flip: Suc_diff_le intro!: arg_cong2 [where f = take])
  then show "zset_range z start stop =
      Some (map (\<lambda>i. xs ! i) (filter (in_range (length xs) start stop) [0..<length xs]))"
    using clamped_slice [OF refl s_def e_def] by simp
  have "zset_rev_range z start stop =
      Some (if s > e \<or> s \<ge> int (length (rev xs)) then [] else take (nat (e - s + 1)) (drop (nat s) (rev xs)))"
    using s by (auto simp: zset_rev_range_def Let_def shows_length [OF sl] rev_range_eq [OF sl] s_def [symmetric]
        e_def [symmetric] nat_diff_distrib Suc_nat_eq_nat_zadd1 simp flip: Suc_diff_le intro!: arg_cong2 [where f = take])
  then show "zset_rev_range z start stop =
      Some (map (\<lambda>i. rev xs ! i) (filter (in_range (length xs) start stop) [0..<length xs]))"
    using clamped_slice [of "int (length (rev xs))" "rev xs" s start e stop] s_def e_def by simp
qed

section \<open>Sequences of operations\<close>

datatype zset_op = Add bytes f64 | Remove bytes

fun zset_step :: "zset_op \<Rightarrow> redis_sorted_set \<Rightarrow> redis_sorted_set option" where
  "zset_step (Add member score) z = map_option fst (zset_add z member score)"
| "zset_step (Remove member) z = map_option fst (zset_remove z member)"

fun zset_run :: "zset_op list \<Rightarrow> redis_sorted_set \<Rightarrow> redis_sorted_set option" where
  "zset_run [] z = Some z"
| "zset_run (op # ops) z = do {z' \<leftarrow> zset_step op z; zset_run ops z'}"

fun finite_op :: "zset_op \<Rightarrow> bool" where
  "finite_op (Add member score) = f64_is_finite score"
| "finite_op (Remove member) = True"

text \<open>The same operations on the ordered list alone.\<close>

fun list_step :: "zset_op \<Rightarrow> (string \<times> f64) list \<Rightarrow> (string \<times> f64) list" where
  "list_step (Add member score) xs =
     (case map_of xs (utf8_lossy member) of
        Some old \<Rightarrow> if abs_diff_below_epsilon old score then xs else list_with (utf8_lossy member) score xs
      | None \<Rightarrow> list_with (utf8_lossy member) score xs)"
| "list_step (Remove member) xs = list_without (utf8_lossy member) xs"

lemma zset_step_list:
  assumes z: "zset_list z xs" and op: "finite_op op"
  shows "\<exists>z'. zset_step op z = Some z' \<and> zset_list z' (list_step op xs)"
proof (cases op)
  case (Add member score)
  have m: "map_of xs = fmlookup (zset_members z)"
    using z by (simp add: zset_list_def)
  show ?thesis
    using zset_add_eq [OF z _ refl, of score member] z op
    by (auto simp: Add m split: option.splits if_splits)
next
  case (Remove member)
  then show ?thesis
    using zset_remove_eq [OF z refl, of member] by auto
qed

lemma zset_run_list:
  assumes "zset_list z xs" "list_all finite_op ops"
  shows "\<exists>z'. zset_run ops z = Some z' \<and> zset_list z' (fold list_step ops xs)"
  using assms
proof (induction ops arbitrary: z xs)
  case (Cons op ops)
  then show ?case
    using zset_step_list [of z xs op] by fastforce
qed simp

text \<open>What the list form gives for each reading operation.\<close>

lemma zset_reads:
  assumes z: "zset_list z xs"
  shows "zset_iter z = Some xs" "zset_len z = length xs"
    "zset_score z member = map_of xs (utf8_lossy member)"
    "zset_rank z member =
       Some (map_option (\<lambda>score. rank_of (utf8_lossy member, score) xs) (map_of xs (utf8_lossy member)))"
    "ordered xs" "distinct (map fst xs)"
  using z zset_iter_eq [OF z] zset_len_eq [OF z] zset_rank_eq [OF z, of member]
  by (auto simp: zset_list_def zset_score_def split: option.splits)

lemma sorted_from_ordered:
  assumes "ordered ((m, s) # xs)"
  shows "sorted_from s m xs"
  using assms
proof (induction xs arbitrary: m s)
  case (Cons x xs)
  obtain m' s' where x: "x = (m', s')"
    by (cases x)
  have n: "no_nan (m, s)" "no_nan (m', s')"
    using Cons.prems by (simp_all add: x ordered_def)
  then have "\<not> (f64_lt s' s \<or> f64_eq s' s \<and> m' < m)"
    using Cons.prems entry_lt_iff [OF n]
    by (auto simp: x ordered_def f64_lt_def f64_eq_def f64_partial_cmp_def no_nan_def split: if_splits)
  then show ?case
    using Cons by (simp add: x ordered_def)
qed simp

lemma above_minus_infinity:
  "f64_is_finite s \<Longrightarrow> \<not> f64_lt s 0xFFF0000000000000 \<and> \<not> f64_eq s 0xFFF0000000000000"
  using minus_infinity_least [of s] by (auto simp: f64_lt_def f64_eq_def f64_partial_cmp_def split: if_splits)

lemma zset_sorted_check:
  assumes z: "zset_list z xs"
  shows "zset_is_sorted z = Some True"
proof (cases xs)
  case Nil
  then show ?thesis
    using zset_iter_eq [OF z] by (simp add: zset_is_sorted_def)
next
  case (Cons x ys)
  have "f64_is_finite (snd x)" "ordered (x # ys)"
    using z by (auto simp: zset_list_def Cons)
  then show ?thesis
    using zset_iter_eq [OF z] sorted_from_ordered [of "fst x" "snd x" ys]
      above_minus_infinity [of "snd x"]
    by (cases x) (simp add: zset_is_sorted_def Cons)
qed

lemma zset_invariants_hold:
  assumes z: "zset_list z xs"
  shows "zset_invariants z"
proof -
  have "skiplist_rank m (the (fmlookup (zset_members z) m)) (zset_skiplist z) = Some (Some (rank_of (m, s) xs))"
    if m: "fmlookup (zset_members z) m = Some s" for m s
  proof -
    obtain i where "i < length xs" "xs ! i = (m, s)" "rank_of (m, s) xs = i" "f64_is_finite s" "no_nan (m, s)"
      by (rule zset_member [OF z m])
    then show ?thesis
      using rank_eq [of "zset_skiplist z" xs m s] z m by (simp add: zset_list_def Let_def)
  qed
  then show ?thesis
    using zset_len_eq [OF z] z shows_length [of "zset_skiplist z" xs]
    by (fastforce simp: zset_invariants_def zset_list_def fmlookup_dom_iff)
qed

section \<open>Properties\<close>

text \<open>
  C8. After any sequence of additions with finite scores and of removals, no step panics or loops, and
  the sorted set holds what the same sequence leaves in a plain list kept in score order (an addition
  within \<open>f64::EPSILON\<close> of the old score is ignored): iteration, length, score, rank and both ranges
  are those of the list.
\<close>

theorem sorted_set_refines_list:
  assumes "list_all finite_op ops" and "xs = fold list_step ops []"
  shows "\<exists>z. zset_run ops zset_new = Some z \<and>
    zset_iter z = Some xs \<and> zset_len z = length xs \<and>
    (\<forall>m. zset_score z m = map_of xs (utf8_lossy m)) \<and>
    (\<forall>m. zset_rank z m =
       Some (map_option (\<lambda>s. rank_of (utf8_lossy m, s) xs) (map_of xs (utf8_lossy m)))) \<and>
    (\<forall>a b. zset_range z a b =
       Some (map (\<lambda>i. xs ! i) (filter (in_range (length xs) a b) [0..<length xs]))) \<and>
    (\<forall>a b. zset_rev_range z a b =
       Some (map (\<lambda>i. rev xs ! i) (filter (in_range (length xs) a b) [0..<length xs])))"
proof -
  obtain z where z: "zset_run ops zset_new = Some z" "zset_list z xs"
    using zset_run_list [OF zset_ok_new assms(1)] assms(2) by blast
  then show ?thesis
    using zset_reads [OF z(2)] zset_range_eq [OF z(2)] by blast
qed

theorem sorted_set_refines_list_witness:
  "\<exists>z. zset_run [Add ''b'' 0, Add ''a'' 0, Remove ''b''] zset_new = Some z \<and>
    zset_iter z = Some [(''a'', 0)]"
proof -
  have "fold list_step [Add ''b'' 0, Add ''a'' 0, Remove ''b''] [] = [(''a'', 0)]"
    by (simp add: utf8_lossy_ascii ascii_def list_with_def list_without_def ins_def rank_of_def
        entry_lt_def sl_compare_def f64_partial_cmp_def f64_is_nan_def then_with_def str_cmp_def)
  then show ?thesis
    using sorted_set_refines_list [of "[Add ''b'' 0, Add ''a'' 0, Remove ''b'']" "[(''a'', 0)]"] by auto
qed

text \<open>
  After such a sequence both halves of the sorted set agree, as the debug-build check
  \<open>verify_invariants\<close> demands, \<open>is_sorted\<close> holds, members are distinct and the pairs are strictly ordered
  by score and then by member.
\<close>

theorem sorted_set_invariants:
  assumes "list_all finite_op ops"
  shows "\<exists>z xs. zset_run ops zset_new = Some z \<and> zset_iter z = Some xs \<and> zset_invariants z \<and>
    zset_is_sorted z = Some True \<and> sorted_wrt entry_lt xs \<and> distinct (map fst xs)"
proof -
  obtain z xs where z: "zset_run ops zset_new = Some z" "zset_list z xs"
    using zset_run_list [OF zset_ok_new assms] by blast
  have "sorted_wrt entry_lt xs"
    using zset_reads(5) [OF z(2)] by (simp add: ordered_def)
  then show ?thesis
    using z zset_reads [OF z(2)] zset_invariants_hold [OF z(2)] zset_sorted_check [OF z(2)] by blast
qed

theorem sorted_set_invariants_witness:
  "\<exists>z xs. zset_run [Add ''b'' 0, Add ''a'' 0x3FF0000000000000] zset_new = Some z \<and>
    zset_iter z = Some xs \<and> zset_invariants z \<and> zset_is_sorted z = Some True"
proof -
  have "f64_is_finite 0x3FF0000000000000"
    by (simp add: f64_is_finite_def)
  then show ?thesis
    using sorted_set_invariants [of "[Add ''b'' 0, Add ''a'' 0x3FF0000000000000]"] by auto
qed

text \<open>
  C3. An infinite score cannot be removed: \<open>inf - inf\<close> is NaN, so \<open>remove_with_score\<close> never accepts the
  entry it finds. After a new member is added with an infinite score and removed again, the map is
  as before but iteration still yields the member.
\<close>

theorem infinite_score_not_removed:
  assumes z: "zset_list z xs" and m: "zset_score z member = None"
    and s: "\<not> f64_is_finite score" "\<not> f64_is_nan score" and e: "e = (utf8_lossy member, score)"
  shows "\<exists>z'. zset_run [Add member score, Remove member] z = Some z' \<and>
    zset_members z' = zset_members z \<and> zset_iter z' = Some (ins (rank_of e xs) e xs)"
proof -
  define ys where "ys = ins (rank_of e xs) e xs"
  have n: "no_nan e" "fst e \<notin> fst ` set xs" and l: "shows_list (zset_skiplist z) xs" "ordered xs"
    using z m s by (auto simp: zset_list_def zset_score_def no_nan_def e map_of_eq_None_iff [symmetric])
  obtain l' where l': "skiplist_insert (utf8_lossy member) score (zset_skiplist z) = Some (l', True)"
    "shows_list l' ys"
    using insert_new_eq [OF l, of "utf8_lossy member" score] n by (auto simp: e ys_def)
  have "remove_with_score (utf8_lossy member) score l' = Some (l', False)"
    using remove_eq [OF l'(2), of "utf8_lossy member" score] ordered_ins [OF l(2) n] n(1) s(1)
    by (auto simp: ys_def e abs_diff_below_epsilon_def split: if_splits)
  moreover have "fmdrop (utf8_lossy member) (fmupd (utf8_lossy member) score (zset_members z)) = zset_members z"
    using m by (intro fmap_ext) (simp add: zset_score_def)
  ultimately show ?thesis
    using m l' iter_eq [OF l'(2)]
    by (simp add: zset_add_def zset_remove_def zset_score_def zset_iter_def ys_def)
qed

theorem infinite_score_not_removed_witness:
  "\<exists>z'. zset_run [Add ''a'' 0x7FF0000000000000, Remove ''a''] zset_new = Some z' \<and>
    zset_members z' = fmempty \<and> zset_iter z' = Some [(''a'', 0x7FF0000000000000)]"
  using infinite_score_not_removed [OF zset_ok_new, of "''a''" "0x7FF0000000000000" "(''a'', 0x7FF0000000000000)"]
  by (simp add: zset_score_def zset_new_def f64_is_finite_def f64_is_nan_def utf8_lossy_ascii ascii_def
      rank_of_def ins_def)

end
