(* ===== verification/Zset_Ops.thy ===== *)
theory Zset_Ops
  imports Executor_Core Sorted_Set
begin

text \<open>
  The sorted-set commands (\<open>src/redis/executor/sorted_set_ops.rs\<close>). A command returns \<open>None\<close> where the
  sorted set under it would panic; \<open>zset_commands_safe\<close> shows that it does not as long as every sorted
  set of the store is consistent and the scores given to \<open>ZADD\<close> are finite.
\<close>

section \<open>Operations\<close>

datatype zset_command =
    ZAdd string "(f64 \<times> bytes) list" bool bool bool bool bool
  | ZRem string "bytes list"
  | ZRange string isize isize bool
  | ZRevRange string isize isize bool
  | ZScore string bytes
  | ZRank string bytes
  | ZCard string
  | ZCount string string string
  | ZRangeByScore string string string bool "(isize \<times> usize) option"

text \<open>The loop of the fast path and of the path with flags.\<close>

fun zadd_plain :: "redis_sorted_set \<Rightarrow> (f64 \<times> bytes) list \<Rightarrow> i64 \<Rightarrow> (redis_sorted_set \<times> i64) option" where
  "zadd_plain z [] added = Some (z, added)"
| "zadd_plain z ((score, member) # pairs) added =
     do {(z', fresh) \<leftarrow> zset_add z member score;
         zadd_plain z' pairs (if fresh then added + 1 else added)}"

definition zadd_skips :: "bool \<Rightarrow> bool \<Rightarrow> bool \<Rightarrow> bool \<Rightarrow> f64 option \<Rightarrow> f64 \<Rightarrow> bool" where
  "zadd_skips nx xx gt lt current score \<longleftrightarrow>
     nx \<and> current \<noteq> None \<or> xx \<and> current = None \<or>
     gt \<and> (case current of Some cs \<Rightarrow> f64_le score cs | None \<Rightarrow> False) \<or>
     lt \<and> (case current of Some cs \<Rightarrow> f64_le cs score | None \<Rightarrow> False)"

definition score_differs :: "f64 option \<Rightarrow> f64 \<Rightarrow> bool" where
  "score_differs current score \<longleftrightarrow> (case current of Some cs \<Rightarrow> \<not> f64_eq cs score | None \<Rightarrow> True)"

fun zadd_flags ::
  "bool \<Rightarrow> bool \<Rightarrow> bool \<Rightarrow> bool \<Rightarrow> redis_sorted_set \<Rightarrow> (f64 \<times> bytes) list \<Rightarrow> i64 \<Rightarrow> i64 \<Rightarrow>
   (redis_sorted_set \<times> i64 \<times> i64) option" where
  "zadd_flags nx xx gt lt z [] added changed = Some (z, added, changed)"
| "zadd_flags nx xx gt lt z ((score, member) # pairs) added changed =
     (let current = zset_score z member in
      if zadd_skips nx xx gt lt current score then zadd_flags nx xx gt lt z pairs added changed
      else do {(z', fresh) \<leftarrow> zset_add z member score;
               if fresh then zadd_flags nx xx gt lt z' pairs (added + 1) (changed + 1)
               else if score_differs current score then zadd_flags nx xx gt lt z' pairs added (changed + 1)
               else zadd_flags nx xx gt lt z' pairs added changed})"

definition execute_zadd ::
  "string \<Rightarrow> (f64 \<times> bytes) list \<Rightarrow> bool \<Rightarrow> bool \<Rightarrow> bool \<Rightarrow> bool \<Rightarrow> bool \<Rightarrow> executor \<Rightarrow> reply option" where
  "execute_zadd key pairs nx xx gt lt ch s =
     (let s1 = purge_if_expired key s;
          v = (case fmlookup (data s1) key of Some v \<Rightarrow> v | None \<Rightarrow> SortedSet zset_new);
          s2 = insert_data key v s1
      in case v of
           SortedSet z \<Rightarrow>
             if \<not> nx \<and> \<not> xx \<and> \<not> gt \<and> \<not> lt \<and> \<not> ch
             then do {(z', added) \<leftarrow> zadd_plain z pairs 0;
                      Some (insert_data key (SortedSet z') s2, Integer added)}
             else do {(z', added, changed) \<leftarrow> zadd_flags nx xx gt lt z pairs 0 0;
                      Some (insert_data key (SortedSet z') s2, Integer (if ch then changed else added))}
         | _ \<Rightarrow> Some (s2, WRONGTYPE))"

fun zrem_all :: "redis_sorted_set \<Rightarrow> bytes list \<Rightarrow> i64 \<Rightarrow> (redis_sorted_set \<times> i64) option" where
  "zrem_all z [] removed = Some (z, removed)"
| "zrem_all z (member # members) removed =
     do {(z', hit) \<leftarrow> zset_remove z member; zrem_all z' members (if hit then removed + 1 else removed)}"

definition drop_empty_zset :: "string \<Rightarrow> executor \<Rightarrow> executor" where
  "drop_empty_zset key s =
     (case fmlookup (data s) key of
        Some (SortedSet z) \<Rightarrow> if zset_len z = 0 then remove_key key s else s
      | _ \<Rightarrow> s)"

definition execute_zrem :: "string \<Rightarrow> bytes list \<Rightarrow> executor \<Rightarrow> reply option" where
  "execute_zrem key members s =
     (let (s', v) = get_value key s in
      do {(s'', r) \<leftarrow>
            (case v of
               Some (SortedSet z) \<Rightarrow>
                 do {(z', removed) \<leftarrow> zrem_all z members 0;
                     Some (insert_data key (SortedSet z') s', Integer removed)}
             | Some _ \<Rightarrow> Some (s', WRONGTYPE)
             | None \<Rightarrow> Some (s', Integer 0));
          Some (drop_empty_zset key s'', r)})"

text \<open>The body shared by the two range commands.\<close>

definition range_reply :: "bool \<Rightarrow> (bytes \<times> f64) list \<Rightarrow> resp_value" where
  "range_reply with_scores xs =
     Array (Some (concat (map (\<lambda>(m, s). if with_scores then [bulk m, bulk (show_f64 s)] else [bulk m]) xs)))"

definition execute_zrange :: "string \<Rightarrow> isize \<Rightarrow> isize \<Rightarrow> bool \<Rightarrow> executor \<Rightarrow> reply option" where
  "execute_zrange key start stop with_scores s =
     (let (s', v) = get_value key s in
      case v of
        Some (SortedSet z) \<Rightarrow> do {xs \<leftarrow> zset_range z start stop; Some (s', range_reply with_scores xs)}
      | Some _ \<Rightarrow> Some (s', WRONGTYPE)
      | None \<Rightarrow> Some (s', Array (Some [])))"

definition execute_zrevrange :: "string \<Rightarrow> isize \<Rightarrow> isize \<Rightarrow> bool \<Rightarrow> executor \<Rightarrow> reply option" where
  "execute_zrevrange key start stop with_scores s =
     (let (s', v) = get_value key s in
      case v of
        Some (SortedSet z) \<Rightarrow> do {xs \<leftarrow> zset_rev_range z start stop; Some (s', range_reply with_scores xs)}
      | Some _ \<Rightarrow> Some (s', WRONGTYPE)
      | None \<Rightarrow> Some (s', Array (Some [])))"

definition execute_zscore :: "string \<Rightarrow> bytes \<Rightarrow> executor \<Rightarrow> reply option" where
  "execute_zscore key member s =
     (let (s', v) = get_value key s in
      Some (s', case v of
                  Some (SortedSet z) \<Rightarrow>
                    (case zset_score z member of Some score \<Rightarrow> bulk (show_f64 score) | None \<Rightarrow> nil)
                | Some _ \<Rightarrow> WRONGTYPE
                | None \<Rightarrow> nil))"

definition execute_zrank :: "string \<Rightarrow> bytes \<Rightarrow> executor \<Rightarrow> reply option" where
  "execute_zrank key member s =
     (let (s', v) = get_value key s in
      case v of
        Some (SortedSet z) \<Rightarrow>
          do {r \<leftarrow> zset_rank z member;
              Some (s', case r of Some rank \<Rightarrow> Integer (int rank) | None \<Rightarrow> nil)}
      | Some _ \<Rightarrow> Some (s', WRONGTYPE)
      | None \<Rightarrow> Some (s', nil))"

definition execute_zcard :: "string \<Rightarrow> executor \<Rightarrow> reply option" where
  "execute_zcard key s =
     (let (s', v) = get_value key s in
      Some (s', case v of
                  Some (SortedSet z) \<Rightarrow> Integer (int (zset_len z))
                | Some _ \<Rightarrow> WRONGTYPE
                | None \<Rightarrow> Integer 0))"

definition execute_zcount :: "string \<Rightarrow> string \<Rightarrow> string \<Rightarrow> executor \<Rightarrow> reply option" where
  "execute_zcount key lo hi s =
     (let (s', v) = get_value key s in
      case v of
        Some (SortedSet z) \<Rightarrow>
          do {r \<leftarrow> count_in_range z lo hi;
              Some (s', case r of Inr n \<Rightarrow> Integer (int n) | Inl e \<Rightarrow> err e)}
      | Some _ \<Rightarrow> Some (s', WRONGTYPE)
      | None \<Rightarrow> Some (s', Integer 0))"

definition execute_zrangebyscore ::
  "string \<Rightarrow> string \<Rightarrow> string \<Rightarrow> bool \<Rightarrow> (isize \<times> usize) option \<Rightarrow> executor \<Rightarrow> reply option" where
  "execute_zrangebyscore key lo hi with_scores limit s =
     (let (s', v) = get_value key s in
      case v of
        Some (SortedSet z) \<Rightarrow>
          do {r \<leftarrow> range_by_score z lo hi with_scores limit;
              Some (s', case r of
                          Inr xs \<Rightarrow>
                            Array (Some (concat (map (\<lambda>(m, sc).
                              bulk m # (case sc of Some x \<Rightarrow> [bulk (show_f64 x)] | None \<Rightarrow> [])) xs)))
                        | Inl e \<Rightarrow> err e)}
      | Some _ \<Rightarrow> Some (s', WRONGTYPE)
      | None \<Rightarrow> Some (s', Array (Some [])))"

fun run_zset :: "zset_command \<Rightarrow> executor \<Rightarrow> reply option" where
  "run_zset (ZAdd key pairs nx xx gt lt ch) = execute_zadd key pairs nx xx gt lt ch"
| "run_zset (ZRem key members) = execute_zrem key members"
| "run_zset (ZRange key start stop ws) = execute_zrange key start stop ws"
| "run_zset (ZRevRange key start stop ws) = execute_zrevrange key start stop ws"
| "run_zset (ZScore key member) = execute_zscore key member"
| "run_zset (ZRank key member) = execute_zrank key member"
| "run_zset (ZCard key) = execute_zcard key"
| "run_zset (ZCount key lo hi) = execute_zcount key lo hi"
| "run_zset (ZRangeByScore key lo hi ws limit) = execute_zrangebyscore key lo hi ws limit"

section \<open>Keys and reads\<close>

fun zset_key :: "zset_command \<Rightarrow> string" where
  "zset_key (ZAdd key _ _ _ _ _ _) = key"
| "zset_key (ZRem key _) = key"
| "zset_key (ZRange key _ _ _) = key"
| "zset_key (ZRevRange key _ _ _) = key"
| "zset_key (ZScore key _) = key"
| "zset_key (ZRank key _) = key"
| "zset_key (ZCard key) = key"
| "zset_key (ZCount key _ _) = key"
| "zset_key (ZRangeByScore key _ _ _ _) = key"

fun zset_read_only :: "zset_command \<Rightarrow> bool" where
  "zset_read_only (ZAdd _ _ _ _ _ _ _) = False"
| "zset_read_only (ZRem _ _) = False"
| "zset_read_only _ = True"

section \<open>No command panics\<close>

definition zsets_ok :: "executor \<Rightarrow> bool" where
  "zsets_ok s \<longleftrightarrow> (\<forall>k z. fmlookup (data s) k = Some (SortedSet z) \<longrightarrow> zset_ok z)"

fun finite_scores :: "zset_command \<Rightarrow> bool" where
  "finite_scores (ZAdd _ pairs _ _ _ _ _) = list_all (f64_is_finite \<circ> fst) pairs"
| "finite_scores _ = True"

lemma zset_ok_new' [simp]: "zset_ok zset_new"
  using zset_ok_new zset_ok_def by blast

lemma zset_add_ok:
  assumes "zset_ok z" "f64_is_finite score"
  obtains z' fresh where "zset_add z member score = Some (z', fresh)" "zset_ok z'"
proof -
  obtain xs where z: "zset_list z xs"
    using assms(1) by (auto simp: zset_ok_def)
  show thesis
    using zset_add_eq [OF z assms(2) refl, of member] that assms(1)
    by (auto simp: zset_ok_def split: option.splits if_splits)
qed

lemma zset_remove_ok:
  assumes "zset_ok z"
  obtains z' hit where "zset_remove z member = Some (z', hit)" "zset_ok z'"
proof -
  obtain xs where z: "zset_list z xs"
    using assms by (auto simp: zset_ok_def)
  show thesis
    using zset_remove_eq [OF z refl, of member] that by (auto simp: zset_ok_def)
qed

lemma zadd_plain_ok:
  "zset_ok z \<Longrightarrow> list_all (f64_is_finite \<circ> fst) pairs \<Longrightarrow>
    \<exists>z' n. zadd_plain z pairs added = Some (z', n) \<and> zset_ok z'"
proof (induction pairs arbitrary: z added)
  case (Cons p pairs)
  obtain score member where p: "p = (score, member)"
    by (cases p)
  obtain z' fresh where "zset_add z member score = Some (z', fresh)" "zset_ok z'"
    using Cons.prems zset_add_ok [of z score member] by (auto simp: p)
  then show ?case
    using Cons by (simp add: p)
qed simp

lemma zadd_flags_ok:
  "zset_ok z \<Longrightarrow> list_all (f64_is_finite \<circ> fst) pairs \<Longrightarrow>
    \<exists>z' n c. zadd_flags nx xx gt lt z pairs added changed = Some (z', n, c) \<and> zset_ok z'"
proof (induction pairs arbitrary: z added changed)
  case (Cons p pairs)
  obtain score member where p: "p = (score, member)"
    by (cases p)
  obtain z' fresh where "zset_add z member score = Some (z', fresh)" "zset_ok z'"
    using Cons.prems zset_add_ok [of z score member] by (auto simp: p)
  then show ?case
    using Cons by (simp add: p Let_def)
qed simp

lemma zrem_all_ok: "zset_ok z \<Longrightarrow> \<exists>z' n. zrem_all z members removed = Some (z', n) \<and> zset_ok z'"
proof (induction members arbitrary: z removed)
  case (Cons member members)
  obtain z' hit where "zset_remove z member = Some (z', hit)" "zset_ok z'"
    using Cons.prems zset_remove_ok [of z member] by metis
  then show ?case
    using Cons by simp
qed simp

text \<open>How the statements the commands are made of keep the sorted sets.\<close>

lemma zsets_ok_remove_key [simp]: "zsets_ok s \<Longrightarrow> zsets_ok (remove_key key s)"
  by (auto simp: zsets_ok_def remove_key_def)

lemma zsets_ok_purge [simp]: "zsets_ok s \<Longrightarrow> zsets_ok (purge_if_expired key s)"
  by (simp add: purge_if_expired_def)

lemma zsets_ok_insert: "zsets_ok s \<Longrightarrow> (\<And>z. v = SortedSet z \<Longrightarrow> zset_ok z) \<Longrightarrow> zsets_ok (insert_data key v s)"
  by (simp add: zsets_ok_def insert_data_def)

lemma zsets_ok_drop [simp]: "zsets_ok s \<Longrightarrow> zsets_ok (drop_empty_zset key s)"
  by (auto simp: drop_empty_zset_def split: option.splits redis_value.splits)

lemma zsets_ok_visible: "zsets_ok s \<Longrightarrow> visible s key = Some (SortedSet z) \<Longrightarrow> zset_ok z"
  by (auto simp: zsets_ok_def visible_def live_def split: if_splits)

lemma live_drop_empty_zset: "k \<noteq> key \<Longrightarrow> live (drop_empty_zset key s) k = live s k"
  by (auto simp: drop_empty_zset_def split: option.splits redis_value.splits)

lemma env_drop_empty_zset [simp]: "env (drop_empty_zset key s) = env s"
  by (auto simp: drop_empty_zset_def split: option.splits redis_value.splits)

definition safe_step :: "string \<Rightarrow> executor \<Rightarrow> reply option \<Rightarrow> bool" where
  "safe_step key s r \<longleftrightarrow>
     (case r of
        None \<Rightarrow> False
      | Some (s', _) \<Rightarrow> zsets_ok s' \<and> (\<forall>k. k \<noteq> key \<longrightarrow> live s' k = live s k) \<and> env s' = env s)"

lemma zadd_safe:
  assumes "zsets_ok s" "list_all (f64_is_finite \<circ> fst) pairs"
  shows "safe_step key s (execute_zadd key pairs nx xx gt lt ch s)"
proof -
  define v where "v = (case visible s key of Some v \<Rightarrow> v | None \<Rightarrow> SortedSet zset_new)"
  have ok: "zset_ok z" if "v = SortedSet z" for z
    using that zsets_ok_visible [OF assms(1)] by (auto simp: v_def split: option.splits)
  have put: "zsets_ok (insert_data key (SortedSet w) (insert_data key v (purge_if_expired key s)))"
    if "zset_ok w" for w
    using assms(1) ok that by (intro zsets_ok_insert) auto
  show ?thesis
  proof (cases "\<exists>z. v = SortedSet z")
    case True
    then obtain z where z: "v = SortedSet z" "zset_ok z"
      using ok by blast
    then show ?thesis
      using zadd_plain_ok [OF z(2) assms(2), of 0] zadd_flags_ok [OF z(2) assms(2), of nx xx gt lt 0 0] put
      by (auto simp: execute_zadd_def Let_def v_def [symmetric] safe_step_def live_insert_data)
  next
    case False
    moreover have "zsets_ok (insert_data key v (purge_if_expired key s))"
      using assms(1) ok by (intro zsets_ok_insert) auto
    ultimately show ?thesis
      by (cases v) (auto simp: execute_zadd_def Let_def v_def [symmetric] safe_step_def live_insert_data)
  qed
qed

lemma zrem_safe:
  assumes "zsets_ok s"
  shows "safe_step key s (execute_zrem key members s)"
proof -
  have stay: "safe_step key s (Some (drop_empty_zset key (purge_if_expired key s), r))" for r
    using assms by (simp add: safe_step_def live_drop_empty_zset)
  have put: "safe_step key s
      (Some (drop_empty_zset key (insert_data key (SortedSet z) (purge_if_expired key s)), r))"
    if "zset_ok z" for z r
    using assms that
    by (auto simp: safe_step_def live_drop_empty_zset live_insert_data intro!: zsets_ok_drop zsets_ok_insert)
  show ?thesis
  proof (cases "\<exists>z. visible s key = Some (SortedSet z)")
    case True
    then obtain z where z: "visible s key = Some (SortedSet z)"
      by blast
    obtain z' n where "zrem_all z members 0 = Some (z', n)" "zset_ok z'"
      using zrem_all_ok [OF zsets_ok_visible [OF assms z], of members 0] by blast
    then show ?thesis
      using put z by (simp add: execute_zrem_def get_value_eq)
  next
    case False
    then show ?thesis
      using stay by (auto simp: execute_zrem_def get_value_eq split: option.splits redis_value.splits)
  qed
qed

lemma zset_read_eq:
  assumes "zsets_ok s" "zset_read_only c"
  shows "\<exists>r. run_zset c s = Some (purge_if_expired (zset_key c) s, r)"
proof -
  note reads = execute_zrange_def execute_zrevrange_def execute_zscore_def execute_zrank_def
    execute_zcard_def execute_zcount_def execute_zrangebyscore_def get_value_eq
  show ?thesis
  proof (cases "\<exists>z. visible s (zset_key c) = Some (SortedSet z)")
    case True
    then obtain z where v: "visible s (zset_key c) = Some (SortedSet z)"
      by blast
    obtain xs where z: "zset_list z xs"
      using zsets_ok_visible [OF assms(1) v] by (auto simp: zset_ok_def)
    show ?thesis
      using assms(2) v zset_iter_eq [OF z] zset_rank_eq [OF z] zset_range_eq [OF z]
      by (cases c) (simp_all add: reads count_in_range_def range_by_score_def Let_def split: sum.split)
  next
    case False
    then show ?thesis
      using assms(2) by (cases c) (auto simp: reads split: option.splits redis_value.splits)
  qed
qed

section \<open>The commands on the ordered list\<close>

text \<open>The key holds the sorted set of the pairs \<open>xs\<close>; no key is the empty one.\<close>

definition zset_at :: "executor \<Rightarrow> string \<Rightarrow> (string \<times> f64) list \<Rightarrow> bool" where
  "zset_at s key xs \<longleftrightarrow>
     (case visible s key of
        None \<Rightarrow> xs = []
      | Some (SortedSet z) \<Rightarrow> zset_list z xs
      | Some _ \<Rightarrow> False)"

lemma zset_at_cases [consumes 1, case_names none some]:
  assumes "zset_at s key xs"
  obtains "visible s key = None" "xs = []" | z where "visible s key = Some (SortedSet z)" "zset_list z xs"
  using assms by (auto simp: zset_at_def split: option.splits redis_value.splits)

lemma length_list_without:
  "distinct (map fst xs) \<Longrightarrow>
    length (list_without key xs) + (if map_of xs key = None then 0 else 1) = length xs"
proof (induction xs)
  case (Cons x xs)
  show ?case
  proof (cases "fst x = key")
    case True
    then have "list_without key xs = xs" "map_of xs key = None"
      using Cons.prems by (auto intro!: list_without_absent simp: map_of_eq_None_iff)
    then show ?thesis
      using True by (cases x) (simp add: list_without_def)
  next
    case False
    then show ?thesis
      using Cons by (cases x) (simp add: list_without_def)
  qed
qed (simp add: list_without_def)

lemma length_list_with:
  assumes "distinct (map fst xs)"
  shows "length (list_with key score xs) = length xs + (if map_of xs key = None then 1 else 0)"
  using length_list_without [OF assms, of key] by (auto simp: list_with_def Let_def split: if_splits)

lemma zadd_plain_list:
  assumes "zset_list z xs" "list_all (f64_is_finite \<circ> fst) pairs"
    "xs' = fold (\<lambda>(score, member). list_step (Add member score)) pairs xs"
  shows "\<exists>z'. zadd_plain z pairs added = Some (z', added + int (length xs') - int (length xs)) \<and>
    zset_list z' xs'"
  using assms
proof (induction pairs arbitrary: z xs added)
  case (Cons p pairs)
  obtain score member where p: "p = (score, member)"
    by (cases p)
  define ys where "ys = list_step (Add member score) xs"
  have m: "map_of xs = fmlookup (zset_members z)" "distinct (map fst xs)"
    using Cons.prems(1) by (simp_all add: zset_list_def)
  obtain z' fresh where z': "zset_add z member score = Some (z', fresh)" "zset_list z' ys"
    "int (length ys) = int (length xs) + (if fresh then 1 else 0)"
    using zset_add_eq [OF Cons.prems(1) _ refl, of score member] Cons.prems length_list_with [OF m(2)]
    by (auto simp: ys_def p m(1) split: option.splits if_splits)
  then show ?case
    using Cons.IH [OF z'(2), of "if fresh then added + 1 else added"] Cons.prems
    by (auto simp: p ys_def)
qed simp

lemma zrem_all_list:
  assumes "zset_list z xs" "xs' = fold (\<lambda>m. list_without (utf8_lossy m)) members xs"
  shows "\<exists>z'. zrem_all z members removed = Some (z', removed + int (length xs) - int (length xs')) \<and>
    zset_list z' xs'"
  using assms
proof (induction members arbitrary: z xs removed)
  case (Cons member members)
  define ys where "ys = list_without (utf8_lossy member) xs"
  obtain z' hit where z': "zset_remove z member = Some (z', hit)" "zset_list z' ys"
    "hit = (utf8_lossy member |\<in>| fmdom (zset_members z))" "zset_members z' = fmdrop (utf8_lossy member) (zset_members z)"
    using zset_remove_eq [OF Cons.prems(1) refl, of member] by (auto simp: ys_def)
  have "int (length xs) = int (length ys) + (if hit then 1 else 0)"
    using length_list_without [of xs "utf8_lossy member"] Cons.prems(1) z'(3)
    by (auto simp: zset_list_def ys_def fmlookup_dom_iff split: if_splits)
  then show ?case
    using Cons.IH [OF z'(2), of "if hit then removed + 1 else removed"] Cons.prems z'(1)
    by (auto simp: ys_def)
qed simp

lemma visible_insert_purged: "visible (insert_data key v (purge_if_expired key s)) key = Some v"
  by (simp add: visible_def live_insert_data)

lemma zset_at_put: "zset_list z xs \<Longrightarrow> zset_at (insert_data key (SortedSet z) (purge_if_expired key s)) key xs"
  by (simp add: zset_at_def visible_insert_purged)

lemma zset_at_drop:
  assumes "zset_list z xs"
  shows "zset_at (drop_empty_zset key (insert_data key (SortedSet z) (purge_if_expired key s))) key xs"
    and "xs = [] \<Longrightarrow> live (drop_empty_zset key (insert_data key (SortedSet z) (purge_if_expired key s))) key = None"
  using assms zset_len_eq [OF assms] zset_at_put [OF assms]
  by (auto simp: drop_empty_zset_def zset_at_def visible_def)

text \<open>
  \<open>ZADD\<close> without flags and \<open>ZREM\<close> act on the list of pairs in score order: \<open>ZADD\<close> adds or moves every
  given pair and answers how many members are new, \<open>ZREM\<close> takes the given members out and answers how
  many were there, and a sorted set that becomes empty is removed with its key.
\<close>

theorem zadd_zrem_refine:
  assumes at: "zset_at s key xs" and f: "list_all (f64_is_finite \<circ> fst) pairs"
    and ys: "ys = fold (\<lambda>(score, member). list_step (Add member score)) pairs xs"
    and zs: "zs = fold (\<lambda>m. list_without (utf8_lossy m)) members xs"
  shows "(\<exists>s'. execute_zadd key pairs False False False False False s =
           Some (s', Integer (int (length ys) - int (length xs))) \<and> zset_at s' key ys) \<and>
    (\<exists>s'. execute_zrem key members s = Some (s', Integer (int (length xs) - int (length zs))) \<and>
           zset_at s' key zs \<and> (zs = [] \<longrightarrow> live s' key = None))"
proof
  show "\<exists>s'. execute_zadd key pairs False False False False False s =
      Some (s', Integer (int (length ys) - int (length xs))) \<and> zset_at s' key ys"
    using at
  proof (cases rule: zset_at_cases)
    case none
    then show ?thesis
      using zadd_plain_list [OF zset_ok_new f, of ys 0] ys zset_at_put
      by (auto simp: execute_zadd_def Let_def)
  next
    case (some z)
    then show ?thesis
      using zadd_plain_list [OF some(2) f ys, of 0] zset_at_put by (auto simp: execute_zadd_def Let_def)
  qed
  show "\<exists>s'. execute_zrem key members s = Some (s', Integer (int (length xs) - int (length zs))) \<and>
      zset_at s' key zs \<and> (zs = [] \<longrightarrow> live s' key = None)"
    using at
  proof (cases rule: zset_at_cases)
    case none
    have "zs = []"
      unfolding zs none(2) by (induction members) (simp_all add: list_without_def)
    then show ?thesis
      using none by (auto simp: execute_zrem_def get_value_eq drop_empty_zset_def zset_at_def visible_def)
  next
    case (some z)
    then show ?thesis
      using zrem_all_list [OF some(2) zs, of 0] zset_at_drop by (auto simp: execute_zrem_def get_value_eq)
  qed
qed

theorem zadd_zrem_refine_witness:
  "\<exists>s'. execute_zadd ''k'' [(0, ''a'')] False False False False False exec_new = Some (s', Integer 1) \<and>
    zset_at s' ''k'' [(''a'', 0)]"
proof -
  have "list_step (Add ''a'' 0) [] = [(''a'', 0)]"
    by (simp add: utf8_lossy_ascii ascii_def list_with_def list_without_def ins_def rank_of_def)
  moreover have "zset_at exec_new ''k'' []"
    by (simp add: zset_at_def visible_def live_def exec_new_def is_expired_def)
  ultimately show ?thesis
    using zadd_zrem_refine [where s = exec_new and key = "''k''" and xs = "[]" and pairs = "[(0, ''a'')]"
        and members = "[]", OF _ _ refl refl] by simp
qed

text \<open>
  Every reading command answers from the list of pairs in score order: ranges by position select the
  positions between the two ends, \<open>ZRANK\<close> is the number of pairs before the member's, \<open>ZCARD\<close> the number of
  pairs, and \<open>ZCOUNT\<close> and \<open>ZRANGEBYSCORE\<close> select the scores within the bounds.
\<close>

theorem zset_queries:
  assumes at: "zset_at s key xs" and lo: "parse_score_bound lo = Inr l" and hi: "parse_score_bound hi = Inr h"
  shows "map_option snd (execute_zrange key a b ws s) =
      Some (range_reply ws (map (\<lambda>i. xs ! i) (filter (in_range (length xs) a b) [0..<length xs]))) \<and>
    map_option snd (execute_zrevrange key a b ws s) =
      Some (range_reply ws (map (\<lambda>i. rev xs ! i) (filter (in_range (length xs) a b) [0..<length xs]))) \<and>
    map_option snd (execute_zscore key m s) =
      Some (case map_of xs (utf8_lossy m) of Some x \<Rightarrow> bulk (show_f64 x) | None \<Rightarrow> nil) \<and>
    map_option snd (execute_zrank key m s) =
      Some (case map_of xs (utf8_lossy m) of
              Some x \<Rightarrow> Integer (int (rank_of (utf8_lossy m, x) xs)) | None \<Rightarrow> nil) \<and>
    map_option snd (execute_zcard key s) = Some (Integer (int (length xs))) \<and>
    map_option snd (execute_zcount key lo hi s) =
      Some (Integer (int (length (filter (in_bounds l h \<circ> snd) xs)))) \<and>
    map_option snd (execute_zrangebyscore key lo hi False None s) =
      Some (range_reply False (filter (in_bounds l h \<circ> snd) xs))"
  using at
proof (cases rule: zset_at_cases)
  case none
  then show ?thesis
    by (simp add: execute_zrange_def execute_zrevrange_def execute_zscore_def execute_zrank_def
        execute_zcard_def execute_zcount_def execute_zrangebyscore_def get_value_eq range_reply_def)
next
  case (some z)
  have f: "filter (\<lambda>(_, s). in_bounds l h s) xs = filter (in_bounds l h \<circ> snd) xs"
    by (rule filter_cong) auto
  have "concat (map (\<lambda>(m, sc). bulk m # (case sc of Some x \<Rightarrow> [bulk (show_f64 x)] | None \<Rightarrow> []))
      (map (\<lambda>(m, s). (m, None)) ys)) = concat (map (\<lambda>(m, s). [bulk m]) ys)" for ys :: "(string \<times> f64) list"
    by (induction ys) auto
  then show ?thesis
    using some zset_reads [OF some(2)] zset_range_eq [OF some(2)] lo hi
    by (simp add: execute_zrange_def execute_zrevrange_def execute_zscore_def execute_zrank_def
        execute_zcard_def execute_zcount_def execute_zrangebyscore_def get_value_eq range_reply_def
        count_in_range_def range_by_score_def Let_def f zset_score_def split: option.splits)
qed

theorem zset_queries_witness:
  "map_option snd (execute_zcard ''k'' exec_new) = Some (Integer 0) \<and>
   map_option snd (execute_zcount ''k'' ''-inf'' ''inf'' exec_new) = Some (Integer 0)"
proof -
  have "parse_score_bound ''-inf'' = Inr (0xFFF0000000000000, False)"
    "parse_score_bound ''inf'' = Inr (0x7FF0000000000000, False)"
    by code_simp+
  moreover have "zset_at exec_new ''k'' []"
    by (simp add: zset_at_def visible_def live_def exec_new_def is_expired_def)
  ultimately show ?thesis
    using zset_queries [of exec_new "''k''" "[]" "''-inf''" _ "''inf''"] by simp
qed

text \<open>
  As long as every sorted set of the store is consistent and \<open>ZADD\<close> is given finite scores, no
  sorted-set command panics or loops; it leaves every sorted set consistent, changes no other key
  and no part of the state beside the data, and a read-only one changes no key at all.
\<close>

theorem zset_commands_safe:
  assumes ok: "zsets_ok s" and f: "finite_scores c"
  shows "\<exists>s' r. run_zset c s = Some (s', r) \<and> zsets_ok s' \<and>
    (\<forall>k. k \<noteq> zset_key c \<longrightarrow> live s' k = live s k) \<and> env s' = env s \<and>
    (zset_read_only c \<longrightarrow> live s' = live s)"
proof (cases "zset_read_only c")
  case True
  then show ?thesis
    using zset_read_eq [OF ok True] ok by auto
next
  case False
  then have "safe_step (zset_key c) s (run_zset c s)"
    using zadd_safe [OF ok] zrem_safe [OF ok] f by (cases c) auto
  then show ?thesis
    using False by (auto simp: safe_step_def split: option.splits)
qed

theorem zset_commands_safe_witness:
  "\<exists>s' r. run_zset (ZAdd ''k'' [(0, ''a'')] True False False False True) exec_new = Some (s', r) \<and> zsets_ok s'"
proof -
  have "zsets_ok exec_new"
    by (simp add: zsets_ok_def exec_new_def)
  then show ?thesis
    using zset_commands_safe [of exec_new "ZAdd ''k'' [(0, ''a'')] True False False False True"] by auto
qed

text \<open>
  C8. \<open>ZADD\<close> with \<open>XX\<close> on a missing key stores an empty sorted set: the key then exists, although the
  invariant of the executor rules out empty collections.
\<close>

theorem zadd_xx_stores_empty_zset:
  assumes "live s key = None"
  shows "\<exists>s'. execute_zadd key pairs nx True gt lt ch s = Some (s', Integer 0) \<and>
    visible s' key = Some (SortedSet zset_new) \<and> \<not> exec_inv s'"
proof -
  have "zadd_flags nx True gt lt zset_new pairs 0 0 = Some (zset_new, 0, 0)"
    by (induction pairs) (auto simp: Let_def zadd_skips_def zset_score_def zset_new_def)
  moreover have "visible s key = None"
    using assms by (simp add: visible_def)
  moreover have "\<not> exec_inv (insert_data key (SortedSet zset_new) t)" for t
    by (auto simp: exec_inv_def zset_new_def zset_len_def intro!: exI [of _ key])
  ultimately show ?thesis
    by (simp add: execute_zadd_def Let_def visible_insert_purged)
qed

theorem zadd_xx_stores_empty_zset_witness:
  "\<exists>s'. execute_zadd ''k'' [(0, ''a'')] False True False False False exec_new = Some (s', Integer 0) \<and>
    visible s' ''k'' = Some (SortedSet zset_new)"
  using zadd_xx_stores_empty_zset [of exec_new "''k''" "[(0, ''a'')]" False False False False]
  by (auto simp: live_def exec_new_def is_expired_def)

end
