(* ===== verification/Acl_Patterns.thy ===== *)
theory Acl_Patterns
  imports Prelude
begin

text \<open>
  Key patterns of the access control lists (\<open>src/security/acl/patterns.rs\<close>). The matcher is a loop
  with two cursors that goes back to the last \<open>*\<close> on a mismatch; it is shown to accept exactly the
  texts of the pattern's language.
\<close>

section \<open>Patterns\<close>

record key_pattern =
  kp_pattern :: string
  kp_read :: bool
  kp_write :: bool

definition key_pattern_new :: "string \<Rightarrow> key_pattern" where
  "key_pattern_new p = \<lparr>kp_pattern = p, kp_read = True, kp_write = True\<rparr>"

definition key_pattern_read_only :: "string \<Rightarrow> key_pattern" where
  "key_pattern_read_only p = \<lparr>kp_pattern = p, kp_read = True, kp_write = False\<rparr>"

definition key_pattern_write_only :: "string \<Rightarrow> key_pattern" where
  "key_pattern_write_only p = \<lparr>kp_pattern = p, kp_read = False, kp_write = True\<rparr>"

text \<open>\<open>str::chars\<close>: the encodings of the characters of a valid UTF-8 string, in order.\<close>

function utf8_chars :: "bytes \<Rightarrow> bytes list" where
  "utf8_chars s =
     (if s = [] then []
      else let n = max 1 (snd (utf8_step s)) in take n s # utf8_chars (drop n s))"
  by auto

termination
  by (relation "measure length") (auto simp: Let_def)

declare utf8_chars.simps [simp del]

abbreviation star :: bytes where "star \<equiv> ''*''"
abbreviation question :: bytes where "question \<equiv> ''?''"

text \<open>
  The loop \<open>while t < text.len()\<close> of \<open>glob_match_impl\<close>; \<open>back\<close> holds \<open>star_p\<close> and \<open>star_t\<close>, which are
  always set together.
\<close>

function glob_loop :: "bytes list \<Rightarrow> bytes list \<Rightarrow> nat \<Rightarrow> nat \<Rightarrow> (nat \<times> nat) option \<Rightarrow> nat option" where
  "glob_loop pat str p t mark =
     (if t < length str
      then if p < length pat \<and> pat ! p = question then glob_loop pat str (p + 1) (t + 1) mark
           else if p < length pat \<and> pat ! p = star then glob_loop pat str (p + 1) t (Some (p, t))
           else if p < length pat \<and> pat ! p = str ! t then glob_loop pat str (p + 1) (t + 1) mark
           else (case mark of
                   Some (sp, st) \<Rightarrow> glob_loop pat str (sp + 1) (st + 1) (Some (sp, st + 1))
                 | None \<Rightarrow> None)
      else Some p)"
  by auto

termination
  by (relation "measures
      [\<lambda>(pat, str, p, t, mark). case mark of Some (sp, st) \<Rightarrow> if p \<le> sp then 1 else 0 | None \<Rightarrow> 0,
       \<lambda>(pat, str, p, t, mark). case mark of Some (sp, st) \<Rightarrow> length pat - sp | None \<Rightarrow> length pat + 1,
       \<lambda>(pat, str, p, t, mark). case mark of Some (sp, st) \<Rightarrow> length str - st | None \<Rightarrow> 0,
       \<lambda>(pat, str, p, t, mark). length str - t,
       \<lambda>(pat, str, p, t, mark). length pat - p]")
    (auto split: option.splits)

declare glob_loop.simps [simp del]

fun skip_stars :: "bytes list \<Rightarrow> bytes list" where
  "skip_stars (c # cs) = (if c = star then skip_stars cs else c # cs)"
| "skip_stars [] = []"

definition glob_match_impl :: "bytes list \<Rightarrow> bytes list \<Rightarrow> bool" where
  "glob_match_impl pat str =
     (case glob_loop pat str 0 0 None of
        None \<Rightarrow> False
      | Some p \<Rightarrow> skip_stars (drop p pat) = [])"

definition acl_glob_match :: "string \<Rightarrow> string \<Rightarrow> bool" where
  "acl_glob_match pat str = glob_match_impl (utf8_chars pat) (utf8_chars str)"

definition pattern_matches :: "key_pattern \<Rightarrow> string \<Rightarrow> bool" where
  "pattern_matches kp key = acl_glob_match (kp_pattern kp) key"

record key_patterns =
  kps_allow_all :: bool
  kps_patterns :: "key_pattern list"

definition key_patterns_allow_all :: key_patterns where
  "key_patterns_allow_all = \<lparr>kps_allow_all = True, kps_patterns = []\<rparr>"

definition key_patterns_deny_all :: key_patterns where
  "key_patterns_deny_all = \<lparr>kps_allow_all = False, kps_patterns = []\<rparr>"

definition add_pattern :: "key_pattern \<Rightarrow> key_patterns \<Rightarrow> key_patterns" where
  "add_pattern p ks = ks\<lparr>kps_patterns := kps_patterns ks @ [p]\<rparr>"

definition is_key_permitted :: "key_patterns \<Rightarrow> string \<Rightarrow> bool" where
  "is_key_permitted ks key \<longleftrightarrow> kps_allow_all ks \<or> list_ex (\<lambda>p. pattern_matches p key) (kps_patterns ks)"

definition key_patterns_reset :: "key_patterns \<Rightarrow> key_patterns" where
  "key_patterns_reset ks = ks\<lparr>kps_allow_all := False, kps_patterns := []\<rparr>"

section \<open>The language of a pattern\<close>

inductive in_glob :: "bytes list \<Rightarrow> bytes list \<Rightarrow> bool" where
  glob_end: "in_glob [] []"
| glob_star: "in_glob ps ts \<Longrightarrow> in_glob (star # ps) (us @ ts)"
| glob_any: "in_glob ps ts \<Longrightarrow> in_glob (question # ps) (c # ts)"
| glob_char: "in_glob ps ts \<Longrightarrow> c \<noteq> star \<Longrightarrow> in_glob (c # ps) (c # ts)"

inductive_cases in_glob_NilE: "in_glob [] ts"
inductive_cases in_glob_ConsE: "in_glob (p # ps) ts"

lemma in_glob_Nil [simp]: "in_glob [] ts \<longleftrightarrow> ts = []"
  by (auto elim: in_glob_NilE intro: glob_end)

lemma in_glob_star: "in_glob (star # ps) ts \<longleftrightarrow> (\<exists>k \<le> length ts. in_glob ps (drop k ts))"
proof
  assume "in_glob (star # ps) ts"
  then obtain us vs where "ts = us @ vs" "in_glob ps vs"
    by (auto elim!: in_glob_ConsE)
  then show "\<exists>k \<le> length ts. in_glob ps (drop k ts)"
    by (intro exI [of _ "length us"]) simp
next
  assume "\<exists>k \<le> length ts. in_glob ps (drop k ts)"
  then show "in_glob (star # ps) ts"
    by (metis append_take_drop_id glob_star)
qed

lemma in_glob_other:
  "p \<noteq> star \<Longrightarrow> in_glob (p # ps) ts \<longleftrightarrow> (\<exists>c us. ts = c # us \<and> (p = question \<or> p = c) \<and> in_glob ps us)"
  by (auto elim!: in_glob_ConsE intro: glob_any glob_char)

lemma in_glob_empty: "in_glob ps [] \<longleftrightarrow> skip_stars ps = []"
  by (induction ps rule: skip_stars.induct) (auto simp: in_glob_star in_glob_other)

lemma in_glob_star_later:
  assumes "in_glob (star # ps) (drop j ts)" "i \<le> j" "j \<le> length ts"
  shows "in_glob (star # ps) (drop i ts)"
proof -
  obtain k where k: "k \<le> length ts - j" "in_glob ps (drop (k + j) ts)"
    using assms(1) by (auto simp: in_glob_star)
  then show ?thesis
    unfolding in_glob_star using assms(2,3) by (intro exI [of _ "k + j - i"]) (simp add: add.commute)
qed

text \<open>The part of a pattern between two cursors that has no \<open>*\<close> uses up one character each.\<close>

lemma in_glob_fixed:
  assumes "in_glob ps ts" "\<forall>c \<in> set (take k ps). c \<noteq> star" "k \<le> length ps"
  shows "k \<le> length ts \<and> in_glob (drop k ps) (drop k ts)"
  using assms
proof (induction k arbitrary: ps ts)
  case (Suc k)
  then obtain p qs where ps: "ps = p # qs" "p \<noteq> star"
    by (cases ps) auto
  then obtain c us where "ts = c # us" "in_glob qs us"
    using Suc.prems(1) by (auto simp: in_glob_other)
  then show ?case
    using Suc ps by simp
qed simp

text \<open>What is still open at the last \<open>*\<close>: the matches that start later than the one being tried.\<close>

definition later :: "bytes list \<Rightarrow> bytes list \<Rightarrow> (nat \<times> nat) option \<Rightarrow> bool" where
  "later pat str mark =
     (case mark of
        None \<Rightarrow> False
      | Some (sp, st) \<Rightarrow> \<exists>j. st < j \<and> j \<le> length str \<and> in_glob (drop (sp + 1) pat) (drop j str))"

definition mark_ok :: "bytes list \<Rightarrow> bytes list \<Rightarrow> nat \<Rightarrow> nat \<Rightarrow> (nat \<times> nat) option \<Rightarrow> bool" where
  "mark_ok pat str p t mark \<longleftrightarrow>
     p \<le> length pat \<and> t \<le> length str \<and>
     (case mark of
        None \<Rightarrow> True
      | Some (sp, st) \<Rightarrow> sp < p \<and> st + (p - (sp + 1)) = t \<and>
          (\<forall>c \<in> set (take (p - (sp + 1)) (drop (sp + 1) pat)). c \<noteq> star))"

lemma later_fixed:
  assumes "mark_ok pat str p t mark" "later pat str mark"
  shows "\<exists>j. t < j \<and> j \<le> length str \<and> in_glob (drop p pat) (drop j str)"
proof -
  obtain sp st where m: "mark = Some (sp, st)"
    using assms(2) by (auto simp: later_def split: option.splits)
  define k where "k = p - (sp + 1)"
  have k: "sp < p" "p \<le> length pat" "st + k = t" "\<forall>c \<in> set (take k (drop (sp + 1) pat)). c \<noteq> star"
    using assms(1) by (simp_all add: mark_ok_def m k_def)
  obtain j where j: "st < j" "j \<le> length str" "in_glob (drop (sp + 1) pat) (drop j str)"
    using assms(2) by (auto simp: later_def m)
  have "k \<le> length (drop j str) \<and> in_glob (drop k (drop (sp + 1) pat)) (drop k (drop j str))"
    using k by (intro in_glob_fixed [OF j(3)]) (auto simp: k_def)
  moreover have "k + (sp + 1) = p"
    using k by (simp add: k_def)
  ultimately show ?thesis
    using j k by (intro exI [of _ "k + j"]) auto
qed

lemma take_snoc_nth: "n < length xs \<Longrightarrow> set (take (Suc n) xs) = insert (xs ! n) (set (take n xs))"
  by (simp add: take_Suc_conv_app_nth)

lemma mark_ok_step:
  assumes "mark_ok pat str p t mark" "p < length pat" "t < length str" "pat ! p \<noteq> star"
  shows "mark_ok pat str (p + 1) (t + 1) mark"
proof (cases mark)
  case (Some m)
  obtain sp st where m: "m = (sp, st)"
    by (cases m)
  define k where "k = p - (sp + 1)"
  have k: "sp < p" "st + k = t" "\<forall>c \<in> set (take k (drop (sp + 1) pat)). c \<noteq> star" "p + 1 - (sp + 1) = Suc k"
    "drop (sp + 1) pat ! k = pat ! p" "k < length (drop (sp + 1) pat)"
    using assms by (auto simp: mark_ok_def Some m k_def)
  then have "\<forall>c \<in> set (take (Suc k) (drop (sp + 1) pat)). c \<noteq> star"
    using assms(4) by (simp only: take_snoc_nth) auto
  then show ?thesis
    using assms k by (simp add: mark_ok_def Some m)
qed (use assms in \<open>simp add: mark_ok_def\<close>)

lemma later_star:
  assumes "p < length pat" "pat ! p = star" "t \<le> length str"
  shows "in_glob (drop (p + 1) pat) (drop t str) \<or> later pat str (Some (p, t)) \<longleftrightarrow>
    in_glob (drop p pat) (drop t str)"
proof -
  have "in_glob (drop p pat) (drop t str) \<longleftrightarrow>
      (\<exists>k \<le> length str - t. in_glob (drop (p + 1) pat) (drop (k + t) str))"
    using assms(1,2) by (simp add: Cons_nth_drop_Suc [symmetric] in_glob_star)
  also have "\<dots> \<longleftrightarrow> (\<exists>j. t \<le> j \<and> j \<le> length str \<and> in_glob (drop (p + 1) pat) (drop j str))"
    using assms(3) by (metis add.commute le_add1 le_add_diff_inverse le_diff_conv2)
  finally show ?thesis
    unfolding later_def option.case prod.case using assms(3) by (metis le_neq_implies_less less_imp_le order_refl)
qed

lemma later_next:
  assumes "st < length str"
  shows "in_glob (drop (sp + 1) pat) (drop (st + 1) str) \<or> later pat str (Some (sp, st + 1)) \<longleftrightarrow>
    later pat str (Some (sp, st))"
  unfolding later_def option.case prod.case using assms
  by (metis Suc_eq_plus1 Suc_leI Suc_lessD le_neq_implies_less lessI)

lemma glob_loop_correct:
  assumes "mark_ok pat str p t mark"
  shows "(case glob_loop pat str p t mark of None \<Rightarrow> False | Some q \<Rightarrow> skip_stars (drop q pat) = []) \<longleftrightarrow>
    in_glob (drop p pat) (drop t str) \<or> later pat str mark"
  using assms
proof (induction pat str p t mark rule: glob_loop.induct)
  case (1 pat str p t mark)
  show ?case
  proof (cases "t < length str")
    case False
    then have t: "t = length str"
      using "1.prems" by (simp add: mark_ok_def)
    then have "\<not> later pat str mark"
      using later_fixed [OF "1.prems"] by auto
    then show ?thesis
      using t by (subst glob_loop.simps) (simp add: in_glob_empty)
  next
    case True
    have str: "drop t str = str ! t # drop (t + 1) str"
      using True by (simp add: Cons_nth_drop_Suc)
    have pat: "drop p pat = pat ! p # drop (p + 1) pat" if "p < length pat"
      using that by (simp add: Cons_nth_drop_Suc)
    consider (any) "p < length pat" "pat ! p = question"
      | (star) "p < length pat" "pat ! p = star"
      | (char) "p < length pat" "pat ! p \<noteq> question" "pat ! p \<noteq> star" "pat ! p = str ! t"
      | (fail) "p < length pat \<longrightarrow> pat ! p \<noteq> question \<and> pat ! p \<noteq> star \<and> pat ! p \<noteq> str ! t"
      by blast
    then show ?thesis
    proof cases
      case any
      then have "mark_ok pat str (p + 1) (t + 1) mark"
        using mark_ok_step [OF "1.prems" _ True] by simp
      then show ?thesis
        using 1(1) any True str pat by (subst glob_loop.simps) (simp add: in_glob_other)
    next
      case char
      then have "mark_ok pat str (p + 1) (t + 1) mark"
        using mark_ok_step [OF "1.prems" _ True] by simp
      then show ?thesis
        using 1(3) char True str pat by (subst glob_loop.simps) (simp add: in_glob_other)
    next
      case star
      have "mark_ok pat str (p + 1) t (Some (p, t))"
        using star True by (simp add: mark_ok_def)
      then have "(case glob_loop pat str (p + 1) t (Some (p, t)) of
            None \<Rightarrow> False | Some q \<Rightarrow> skip_stars (drop q pat) = []) \<longleftrightarrow>
          in_glob (drop (p + 1) pat) (drop t str) \<or> later pat str (Some (p, t))"
        using 1(2) star True by simp
      also have "\<dots> \<longleftrightarrow> in_glob (drop p pat) (drop t str)"
        using star True by (intro later_star) simp_all
      also have "\<dots> \<longleftrightarrow> in_glob (drop p pat) (drop t str) \<or> later pat str mark"
        using later_fixed [OF "1.prems"] in_glob_star_later [of "drop (p + 1) pat" _ str t]
        unfolding pat [OF star(1)] star(2) by auto
      finally show ?thesis
        using star True by (subst glob_loop.simps) simp
    next
      case fail
      have f: "\<not> (p < length pat \<and> pat ! p = question)" "\<not> (p < length pat \<and> pat ! p = star)"
        "\<not> (p < length pat \<and> pat ! p = str ! t)"
        using fail by auto
      have no: "\<not> in_glob (drop p pat) (drop t str)"
        using fail pat by (cases "p < length pat") (auto simp: str in_glob_other)
      show ?thesis
      proof (cases mark)
        case None
        then show ?thesis
          using no by (subst glob_loop.simps)
            (simp only: True f if_True if_False option.case simp_thms later_def)
      next
        case (Some m)
        obtain sp st where m: "m = (sp, st)"
          by (cases m)
        have st: "sp < p" "st \<le> t" "p \<le> length pat"
          using "1.prems" by (auto simp: mark_ok_def Some m)
        then have "mark_ok pat str (sp + 1) (st + 1) (Some (sp, st + 1))"
          using True by (simp add: mark_ok_def)
        then have "(case glob_loop pat str (sp + 1) (st + 1) (Some (sp, st + 1)) of
              None \<Rightarrow> False | Some q \<Rightarrow> skip_stars (drop q pat) = []) \<longleftrightarrow>
            in_glob (drop (sp + 1) pat) (drop (st + 1) str) \<or> later pat str (Some (sp, st + 1))"
          using 1(4) [OF True f Some m [symmetric]] by simp
        also have "\<dots> \<longleftrightarrow> later pat str mark"
          unfolding Some m using st(2) True by (intro later_next) simp
        finally show ?thesis
          using no by (subst glob_loop.simps) (simp only: True f Some m if_True if_False option.case prod.case simp_thms)
      qed
    qed
  qed
qed

lemma glob_match_impl_iff: "glob_match_impl pat str \<longleftrightarrow> in_glob pat str"
  using glob_loop_correct [of pat str 0 0 None]
  by (simp add: glob_match_impl_def mark_ok_def later_def)

text \<open>
  The key pattern matcher, a loop that goes back to the last \<open>*\<close> on a mismatch, always ends and
  accepts a key exactly if the key is in the language of the pattern: \<open>*\<close> stands for any text, \<open>?\<close> for
  any one character, and every other character for itself.
\<close>

theorem acl_glob_language: "acl_glob_match pat key \<longleftrightarrow> in_glob (utf8_chars pat) (utf8_chars key)"
  by (simp add: acl_glob_match_def glob_match_impl_iff)

end
