(* ===== verification/Acl_User.thy ===== *)
theory Acl_User
  imports Acl_Patterns Text_Lib Collections
begin

text \<open>
  Users of the access control lists (\<open>src/security/acl/user.rs\<close>): command categories, the permissions
  of a user and the operations on them. \<open>sha256\<close> stands for the digest of the crate \<open>sha2\<close>; \<open>it\<close> and \<open>itc\<close>
  are the iteration orders of the hash sets of names and of categories.
\<close>

section \<open>Categories\<close>

datatype command_category =
    CatRead | CatWrite | CatAdmin | CatDangerous | CatKeyspace | CatString | CatList | CatSet | CatHash
  | CatSortedSet | CatConnection | CatServer | CatScripting | CatTransaction | CatPubSub | CatSlow | CatFast
  | CatBitmap | CatHyperloglog | CatGeo | CatStream | CatAll

text \<open>A linear order on categories, so that the sorted enumeration of a set of them exists.\<close>

fun category_index :: "command_category \<Rightarrow> nat" where
  "category_index CatRead = 0" | "category_index CatWrite = 1" | "category_index CatAdmin = 2"
| "category_index CatDangerous = 3" | "category_index CatKeyspace = 4" | "category_index CatString = 5"
| "category_index CatList = 6" | "category_index CatSet = 7" | "category_index CatHash = 8"
| "category_index CatSortedSet = 9" | "category_index CatConnection = 10" | "category_index CatServer = 11"
| "category_index CatScripting = 12" | "category_index CatTransaction = 13" | "category_index CatPubSub = 14"
| "category_index CatSlow = 15" | "category_index CatFast = 16" | "category_index CatBitmap = 17"
| "category_index CatHyperloglog = 18" | "category_index CatGeo = 19" | "category_index CatStream = 20"
| "category_index CatAll = 21"

lemma category_index_inj: "category_index a = category_index b \<longleftrightarrow> a = b"
  by (cases a; cases b) simp_all

instantiation command_category :: linorder
begin

definition less_eq_command_category :: "command_category \<Rightarrow> command_category \<Rightarrow> bool" where
  "a \<le> b \<longleftrightarrow> category_index a \<le> category_index b"

definition less_command_category :: "command_category \<Rightarrow> command_category \<Rightarrow> bool" where
  "a < b \<longleftrightarrow> category_index a < category_index b"

instance
  by standard (auto simp: less_eq_command_category_def less_command_category_def simp flip: category_index_inj)

end

fun category_commands :: "command_category \<Rightarrow> string list" where
  "category_commands CatRead =
     [''GET'', ''MGET'', ''HGET'', ''HGETALL'', ''HKEYS'', ''HVALS'', ''HLEN'',
      ''HEXISTS'', ''LRANGE'', ''LINDEX'', ''LLEN'', ''SMEMBERS'', ''SISMEMBER'',
      ''SCARD'', ''ZRANGE'', ''ZREVRANGE'', ''ZSCORE'', ''ZRANK'', ''ZCARD'', ''ZCOUNT'',
      ''ZRANGEBYSCORE'', ''STRLEN'', ''EXISTS'', ''TYPE'', ''TTL'', ''PTTL'', ''SCAN'',
      ''HSCAN'', ''ZSCAN'', ''KEYS'', ''DBSIZE'', ''INFO'']"
| "category_commands CatWrite =
     [''SET'', ''SETEX'', ''PSETEX'', ''SETNX'', ''MSET'', ''APPEND'', ''GETSET'',
      ''INCR'', ''DECR'', ''INCRBY'', ''DECRBY'', ''LPUSH'', ''RPUSH'', ''LPOP'', ''RPOP'',
      ''LSET'', ''LTRIM'', ''RPOPLPUSH'', ''LMOVE'', ''HSET'', ''HDEL'', ''HINCRBY'',
      ''SADD'', ''SREM'', ''ZADD'', ''ZREM'', ''DEL'', ''EXPIRE'', ''PEXPIRE'',
      ''EXPIREAT'', ''PEXPIREAT'', ''PERSIST'']"
| "category_commands CatAdmin =
     [''CONFIG'', ''DEBUG'', ''SHUTDOWN'', ''SLAVEOF'', ''REPLICAOF'', ''BGREWRITEAOF'',
      ''BGSAVE'', ''SAVE'', ''LASTSAVE'']"
| "category_commands CatDangerous = [''FLUSHALL'', ''FLUSHDB'', ''DEBUG'', ''SHUTDOWN'']"
| "category_commands CatKeyspace =
     [''KEYS'', ''SCAN'', ''HSCAN'', ''ZSCAN'', ''DEL'', ''EXISTS'', ''TYPE'', ''EXPIRE'',
      ''PEXPIRE'', ''EXPIREAT'', ''PEXPIREAT'', ''TTL'', ''PTTL'', ''PERSIST'']"
| "category_commands CatString =
     [''GET'', ''SET'', ''SETEX'', ''PSETEX'', ''SETNX'', ''MGET'', ''MSET'', ''APPEND'',
      ''GETSET'', ''STRLEN'', ''GETRANGE'', ''INCR'', ''DECR'', ''INCRBY'', ''DECRBY'']"
| "category_commands CatList =
     [''LPUSH'', ''RPUSH'', ''LPOP'', ''RPOP'', ''LRANGE'', ''LINDEX'', ''LLEN'', ''LSET'',
      ''LTRIM'', ''RPOPLPUSH'', ''LMOVE'']"
| "category_commands CatSet = [''SADD'', ''SREM'', ''SMEMBERS'', ''SISMEMBER'', ''SCARD'']"
| "category_commands CatHash =
     [''HSET'', ''HGET'', ''HDEL'', ''HGETALL'', ''HKEYS'', ''HVALS'', ''HLEN'',
      ''HEXISTS'', ''HINCRBY'', ''HSCAN'']"
| "category_commands CatSortedSet =
     [''ZADD'', ''ZREM'', ''ZSCORE'', ''ZRANK'', ''ZRANGE'', ''ZREVRANGE'', ''ZCARD'',
      ''ZCOUNT'', ''ZRANGEBYSCORE'', ''ZSCAN'']"
| "category_commands CatConnection =
     [''AUTH'', ''PING'', ''ECHO'', ''SELECT'', ''QUIT'', ''CLIENT'']"
| "category_commands CatServer = [''INFO'', ''DBSIZE'', ''TIME'', ''COMMAND'']"
| "category_commands CatScripting = [''EVAL'', ''EVALSHA'', ''SCRIPT'']"
| "category_commands CatTransaction = [''MULTI'', ''EXEC'', ''DISCARD'', ''WATCH'', ''UNWATCH'']"
| "category_commands CatPubSub =
     [''PUBLISH'', ''SUBSCRIBE'', ''UNSUBSCRIBE'', ''PSUBSCRIBE'', ''PUNSUBSCRIBE'',
      ''PUBSUB'', ''SPUBLISH'', ''SSUBSCRIBE'', ''SUNSUBSCRIBE'']"
| "category_commands CatSlow = []"
| "category_commands CatFast = []"
| "category_commands CatBitmap =
     [''BITCOUNT'', ''BITFIELD'', ''BITOP'', ''BITPOS'', ''GETBIT'', ''SETBIT'']"
| "category_commands CatHyperloglog = [''PFADD'', ''PFCOUNT'', ''PFMERGE'']"
| "category_commands CatGeo =
     [''GEOADD'', ''GEODIST'', ''GEOHASH'', ''GEOPOS'', ''GEORADIUS'', ''GEOSEARCH'']"
| "category_commands CatStream =
     [''XADD'', ''XLEN'', ''XRANGE'', ''XREVRANGE'', ''XREAD'', ''XINFO'', ''XTRIM'',
      ''XDEL'', ''XACK'', ''XCLAIM'', ''XPENDING'', ''XGROUP'']"
| "category_commands CatAll = []"

text \<open>The names \<open>from_str\<close> knows, after an optional \<open>@\<close>, in lower case.\<close>

definition category_names :: "(string \<times> command_category) list" where
  "category_names =
     [(''read'', CatRead), (''write'', CatWrite), (''admin'', CatAdmin),
      (''dangerous'', CatDangerous), (''keyspace'', CatKeyspace), (''string'', CatString),
      (''list'', CatList), (''set'', CatSet), (''hash'', CatHash), (''sortedset'', CatSortedSet),
      (''zset'', CatSortedSet), (''connection'', CatConnection), (''server'', CatServer),
      (''scripting'', CatScripting), (''transaction'', CatTransaction), (''pubsub'', CatPubSub),
      (''slow'', CatSlow), (''fast'', CatFast), (''bitmap'', CatBitmap),
      (''hyperloglog'', CatHyperloglog), (''geo'', CatGeo), (''stream'', CatStream),
      (''all'', CatAll), (''allcommands'', CatAll)]"

definition category_from_str :: "(string \<Rightarrow> string) \<Rightarrow> string \<Rightarrow> command_category option" where
  "category_from_str dn s =
     map_of category_names (dn (case strip_prefix ''@'' s of Some r \<Rightarrow> r | None \<Rightarrow> s))"

fun format_category_name :: "command_category \<Rightarrow> string" where
  "format_category_name CatRead = ''read''"
| "format_category_name CatWrite = ''write''"
| "format_category_name CatAdmin = ''admin''"
| "format_category_name CatDangerous = ''dangerous''"
| "format_category_name CatKeyspace = ''keyspace''"
| "format_category_name CatString = ''string''"
| "format_category_name CatList = ''list''"
| "format_category_name CatSet = ''set''"
| "format_category_name CatHash = ''hash''"
| "format_category_name CatSortedSet = ''sortedset''"
| "format_category_name CatConnection = ''connection''"
| "format_category_name CatServer = ''server''"
| "format_category_name CatScripting = ''scripting''"
| "format_category_name CatTransaction = ''transaction''"
| "format_category_name CatPubSub = ''pubsub''"
| "format_category_name CatSlow = ''slow''"
| "format_category_name CatFast = ''fast''"
| "format_category_name CatBitmap = ''bitmap''"
| "format_category_name CatHyperloglog = ''hyperloglog''"
| "format_category_name CatGeo = ''geo''"
| "format_category_name CatStream = ''stream''"
| "format_category_name CatAll = ''all''"

section \<open>Command permissions\<close>

record command_permissions =
  cp_allow_all :: bool
  cp_denied :: "string fset"
  cp_allowed :: "string fset"
  cp_categories :: "command_category fset"
  cp_denied_categories :: "command_category fset"

definition permissions_allow_all :: command_permissions where
  "permissions_allow_all =
     \<lparr>cp_allow_all = True, cp_denied = {||}, cp_allowed = {||}, cp_categories = {||},
      cp_denied_categories = {||}\<rparr>"

definition permissions_deny_all :: command_permissions where
  "permissions_deny_all =
     \<lparr>cp_allow_all = False, cp_denied = {||}, cp_allowed = {||}, cp_categories = {||},
      cp_denied_categories = {||}\<rparr>"

definition add_category :: "command_category \<Rightarrow> command_permissions \<Rightarrow> command_permissions" where
  "add_category cat c = c\<lparr>cp_categories := finsert cat (cp_categories c)\<rparr>"

definition remove_category :: "command_category \<Rightarrow> command_permissions \<Rightarrow> command_permissions" where
  "remove_category cat c =
     c\<lparr>cp_categories := cp_categories c |-| {|cat|},
       cp_denied_categories := finsert cat (cp_denied_categories c)\<rparr>"

definition allow_command :: "(string \<Rightarrow> string) \<Rightarrow> string \<Rightarrow> command_permissions \<Rightarrow> command_permissions" where
  "allow_command up command c =
     (let cmd = up command
      in c\<lparr>cp_denied := cp_denied c |-| {|cmd|}, cp_allowed := finsert cmd (cp_allowed c)\<rparr>)"

definition deny_command :: "(string \<Rightarrow> string) \<Rightarrow> string \<Rightarrow> command_permissions \<Rightarrow> command_permissions" where
  "deny_command up command c =
     (let cmd = up command
      in c\<lparr>cp_allowed := cp_allowed c |-| {|cmd|}, cp_denied := finsert cmd (cp_denied c)\<rparr>)"

text \<open>The two loops over categories return on the first hit, whatever the order.\<close>

definition is_command_permitted :: "(string \<Rightarrow> string) \<Rightarrow> command_permissions \<Rightarrow> string \<Rightarrow> bool" where
  "is_command_permitted up c command =
     (let cmd = up command in
      if cmd |\<in>| cp_denied c then False
      else if cmd |\<in>| cp_allowed c then True
      else if fBex (cp_denied_categories c) (\<lambda>cat. cmd \<in> set (category_commands cat)) then False
      else if fBex (cp_categories c) (\<lambda>cat. cat = CatAll \<or> cmd \<in> set (category_commands cat)) then True
      else cp_allow_all c)"

section \<open>Users\<close>

record acl_user =
  user_name :: string
  password_hashes :: "string list"
  user_enabled :: bool
  user_commands :: command_permissions
  user_keys :: key_patterns
  nopass :: bool

definition acl_user_new :: "string \<Rightarrow> acl_user" where
  "acl_user_new name =
     \<lparr>user_name = name, password_hashes = [], user_enabled = False, user_commands = permissions_deny_all,
      user_keys = key_patterns_deny_all, nopass = False\<rparr>"

definition acl_default_user :: acl_user where
  "acl_default_user =
     \<lparr>user_name = ''default'', password_hashes = [], user_enabled = True,
      user_commands = permissions_allow_all, user_keys = key_patterns_allow_all, nopass = True\<rparr>"

text \<open>\<open>hex::encode\<close>, two lower-case digits per byte, and \<open>hash_password\<close>.\<close>

definition hex_encode :: "bytes \<Rightarrow> string" where
  "hex_encode bs =
     concat (map (\<lambda>c. let n = of_char c :: nat in [hex_digit (n div 16), hex_digit (n mod 16)]) bs)"

definition hash_password :: "(bytes \<Rightarrow> bytes) \<Rightarrow> string \<Rightarrow> string" where
  "hash_password sha256 password = hex_encode (sha256 password)"

definition add_password_hash :: "string \<Rightarrow> acl_user \<Rightarrow> acl_user" where
  "add_password_hash h u =
     (if h \<in> set (password_hashes u) then u else u\<lparr>password_hashes := password_hashes u @ [h]\<rparr>)"

definition add_password :: "(bytes \<Rightarrow> bytes) \<Rightarrow> string \<Rightarrow> acl_user \<Rightarrow> acl_user" where
  "add_password sha256 password u =
     (let h = hash_password sha256 password
      in if h \<in> set (password_hashes u) then u else u\<lparr>password_hashes := password_hashes u @ [h]\<rparr>)"

definition remove_password :: "(bytes \<Rightarrow> bytes) \<Rightarrow> string \<Rightarrow> acl_user \<Rightarrow> acl_user" where
  "remove_password sha256 password u =
     (let h = hash_password sha256 password
      in u\<lparr>password_hashes := filter (\<lambda>x. x \<noteq> h) (password_hashes u)\<rparr>)"

definition clear_passwords :: "acl_user \<Rightarrow> acl_user" where
  "clear_passwords u = u\<lparr>password_hashes := []\<rparr>"

definition verify_password :: "acl_user \<Rightarrow> string \<Rightarrow> bool" where
  "verify_password u h \<longleftrightarrow> nopass u \<or> h \<in> set (password_hashes u)"

definition has_unrestricted_keys :: "acl_user \<Rightarrow> bool" where
  "has_unrestricted_keys u = kps_allow_all (user_keys u)"

definition acl_user_reset :: "acl_user \<Rightarrow> acl_user" where
  "acl_user_reset u =
     u\<lparr>password_hashes := [], user_enabled := False, user_commands := permissions_deny_all,
       user_keys := key_patterns_deny_all, nopass := False\<rparr>"

text \<open>The words of \<open>to_acl_string\<close>, which joins them with spaces.\<close>

definition denial_words ::
  "(string \<Rightarrow> string) \<Rightarrow> order \<Rightarrow> (command_category fset \<Rightarrow> command_category list) \<Rightarrow> command_permissions \<Rightarrow>
   string list" where
  "denial_words dn it itc c =
     map (\<lambda>cat. ''-@'' @ format_category_name cat) (itc (cp_denied_categories c)) @
     map (\<lambda>cmd. ''-'' @ dn cmd) (it (cp_denied c))"

definition acl_words ::
  "(string \<Rightarrow> string) \<Rightarrow> order \<Rightarrow> (command_category fset \<Rightarrow> command_category list) \<Rightarrow> acl_user \<Rightarrow>
   string list" where
  "acl_words dn it itc u =
     [if user_enabled u then ''on'' else ''off''] @
     (if nopass u then [''nopass''] else []) @
     map (\<lambda>h. ''#'' @ h) (password_hashes u) @
     [''sanitize-payload''] @
     (if kps_allow_all (user_keys u) then [''~*'']
      else map (\<lambda>p. ''~'' @ kp_pattern p) (kps_patterns (user_keys u))) @
     [''&*''] @
     (let c = user_commands u
      in if cp_allow_all c then [''+@all''] @ denial_words dn it itc c
         else [''-@all''] @
              map (\<lambda>cat. ''+@'' @ format_category_name cat) (itc (cp_categories c)) @
              map (\<lambda>cmd. ''+'' @ dn cmd) (it (cp_allowed c)) @
              denial_words dn it itc c)"

definition to_acl_string ::
  "(string \<Rightarrow> string) \<Rightarrow> order \<Rightarrow> (command_category fset \<Rightarrow> command_category list) \<Rightarrow> acl_user \<Rightarrow> string" where
  "to_acl_string dn it itc u = join '' '' ((''user '' @ user_name u) # acl_words dn it itc u)"

end
