(* ===== verification/Acl_Manager.thy ===== *)
theory Acl_Manager
  imports Acl_User Float64
begin

text \<open>
  The access control manager: users, authentication, the check of a command, the denial log
  (\<open>src/security/acl/mod.rs\<close>), the rules of \<open>ACL SETUSER\<close> and the other \<open>ACL\<close> commands
  (\<open>commands.rs\<close>) and the lines of an ACL file (\<open>file.rs\<close>). A \<open>Result\<close> is a sum, \<open>Inl\<close> the error.
\<close>

section \<open>Errors and the denial log\<close>

datatype acl_error =
    AuthFailed
  | UserDisabled
  | CommandNotPermitted string string
  | KeyNotPermitted string string
  | UserNotFound string
  | UserAlreadyExists string
  | InvalidRule string string
  | NotAuthenticated

fun acl_error_text :: "(string \<Rightarrow> string) \<Rightarrow> acl_error \<Rightarrow> string" where
  "acl_error_text dn AuthFailed = ''WRONGPASS invalid username-password pair or user is disabled.''"
| "acl_error_text dn UserDisabled = ''NOPERM user is disabled''"
| "acl_error_text dn (CommandNotPermitted command _) =
     ''NOPERM this user has no permissions to run the '' @ [CHR 0x27] @ dn command @ [CHR 0x27] @ '' command''"
| "acl_error_text dn (KeyNotPermitted _ _) =
     ''NOPERM this user has no permissions to access one of the keys used as arguments''"
| "acl_error_text dn (UserNotFound username) = ''ERR User '' @ username @ '' not found''"
| "acl_error_text dn (UserAlreadyExists username) = ''ERR User '' @ username @ '' already exists''"
| "acl_error_text dn (InvalidRule rule reason) =
     ''ERR Error in ACL SETUSER modifier '' @ [CHR 0x27] @ rule @ [CHR 0x27] @ '': '' @ reason"
| "acl_error_text dn NotAuthenticated = ''NOAUTH Authentication required''"

datatype acl_log_reason = LogCommand | LogKey | LogChannel | LogAuth

fun log_reason_text :: "acl_log_reason \<Rightarrow> string" where
  "log_reason_text LogCommand = ''command''"
| "log_reason_text LogKey = ''key''"
| "log_reason_text LogChannel = ''channel''"
| "log_reason_text LogAuth = ''auth''"

record acl_log_entry =
  entry_id :: u64
  log_count :: u64
  log_reason :: acl_log_reason
  log_context :: string
  log_object :: string
  log_username :: string
  client_info :: string
  timestamp_created :: f64
  timestamp_last_updated :: f64

text \<open>\<open>AclLogAggKey\<close>: user, reason, object, context.\<close>

type_synonym acl_log_key = "string \<times> acl_log_reason \<times> string \<times> string"

definition log_key :: "acl_log_entry \<Rightarrow> acl_log_key" where
  "log_key e = (log_username e, log_reason e, log_object e, log_context e)"

record acl_log_store =
  log_entries :: "acl_log_entry list"
  agg_index :: "(acl_log_key, usize) fmap"
  next_entry_id :: u64
  max_entries :: usize

definition acl_log_new :: acl_log_store where
  "acl_log_new = \<lparr>log_entries = [], agg_index = fmempty, next_entry_id = 0, max_entries = 128\<rparr>"

definition saturating_inc :: "u64 \<Rightarrow> u64" where
  "saturating_inc n = (if n = - 1 then n else n + 1)"

definition record_denial ::
  "f64 \<Rightarrow> string \<Rightarrow> acl_log_reason \<Rightarrow> string \<Rightarrow> string \<Rightarrow> string \<Rightarrow> acl_log_store \<Rightarrow> acl_log_store" where
  "record_denial now username reason obj ctx info l =
     (let key = (username, reason, obj, ctx) in
      case fmlookup (agg_index l) key of
        Some idx \<Rightarrow>
          if idx < length (log_entries l)
          then let e = log_entries l ! idx
               in l\<lparr>log_entries := (log_entries l)[idx :=
                      e\<lparr>log_count := saturating_inc (log_count e), timestamp_last_updated := now\<rparr>]\<rparr>
          else l
      | None \<Rightarrow>
          let e = \<lparr>entry_id = next_entry_id l, log_count = 1, log_reason = reason, log_context = ctx,
                   log_object = obj, log_username = username, client_info = info,
                   timestamp_created = now, timestamp_last_updated = now\<rparr>;
              l1 = l\<lparr>next_entry_id := saturating_inc (next_entry_id l)\<rparr>;
              l2 = (if length (log_entries l1) \<ge> max_entries l1
                    then l1\<lparr>log_entries := List.tl (log_entries l1),
                            agg_index := fmmap (\<lambda>v. v - 1)
                              (fmdrop (log_key (hd (log_entries l1))) (agg_index l1))\<rparr>
                    else l1)
          in l2\<lparr>agg_index := fmupd key (length (log_entries l2)) (agg_index l2),
                log_entries := log_entries l2 @ [e]\<rparr>)"

definition get_log :: "usize option \<Rightarrow> acl_log_store \<Rightarrow> acl_log_entry list" where
  "get_log count l =
     (case count of Some n \<Rightarrow> take n (rev (log_entries l)) | None \<Rightarrow> rev (log_entries l))"

definition acl_log_reset :: "acl_log_store \<Rightarrow> acl_log_store" where
  "acl_log_reset l = l\<lparr>log_entries := [], agg_index := fmempty\<rparr>"

definition acl_log_invariants :: "acl_log_store \<Rightarrow> bool" where
  "acl_log_invariants l \<longleftrightarrow>
     length (log_entries l) \<le> max_entries l \<and>
     fcard (fmdom (agg_index l)) \<le> length (log_entries l) \<and>
     fmpred (\<lambda>_ idx. idx < length (log_entries l)) (agg_index l)"

section \<open>The manager\<close>

record acl_manager =
  acl_users :: "(string, acl_user) fmap"
  require_auth :: bool
  acl_log :: acl_log_store

definition acl_manager_new :: acl_manager where
  "acl_manager_new =
     \<lparr>acl_users = fmupd ''default'' acl_default_user fmempty, require_auth = False, acl_log = acl_log_new\<rparr>"

definition acl_manager_new_with_auth :: acl_manager where
  "acl_manager_new_with_auth = acl_manager_new\<lparr>require_auth := True\<rparr>"

definition set_require_auth :: "bool \<Rightarrow> acl_manager \<Rightarrow> acl_manager" where
  "set_require_auth b m = m\<lparr>require_auth := b\<rparr>"

definition authenticate :: "(bytes \<Rightarrow> bytes) \<Rightarrow> acl_manager \<Rightarrow> string \<Rightarrow> string \<Rightarrow> acl_error + acl_user" where
  "authenticate sha256 m username password =
     (case fmlookup (acl_users m) username of
        None \<Rightarrow> Inl AuthFailed
      | Some user \<Rightarrow>
          if \<not> user_enabled user then Inl AuthFailed
          else if \<not> verify_password user (hash_password sha256 password) then Inl AuthFailed
          else Inr user)"

text \<open>The loop over the keys stops at the first key that is not permitted.\<close>

fun check_keys :: "acl_user \<Rightarrow> string list \<Rightarrow> acl_error + unit" where
  "check_keys user [] = Inr ()"
| "check_keys user (key # keys) =
     (if \<not> is_key_permitted (user_keys user) key then Inl (KeyNotPermitted key (user_name user))
      else check_keys user keys)"

definition check_command ::
  "(string \<Rightarrow> string) \<Rightarrow> acl_manager \<Rightarrow> acl_user option \<Rightarrow> string \<Rightarrow> string list \<Rightarrow> acl_error + unit" where
  "check_command up m user command keys =
     (case user of
        None \<Rightarrow> if require_auth m then Inl NotAuthenticated else Inr ()
      | Some u \<Rightarrow>
          if \<not> user_enabled u then Inl UserDisabled
          else let cmd_upper = up command
               in if \<not> is_command_permitted up (user_commands u) cmd_upper
                  then Inl (CommandNotPermitted cmd_upper (user_name u))
                  else check_keys u keys)"

definition is_ascii_hexdigit :: "char \<Rightarrow> bool" where
  "is_ascii_hexdigit c \<longleftrightarrow>
     (let n = of_char c :: nat in 48 \<le> n \<and> n \<le> 57 \<or> 65 \<le> n \<and> n \<le> 70 \<or> 97 \<le> n \<and> n \<le> 102)"

definition valid_hash :: "string \<Rightarrow> bool" where
  "valid_hash h \<longleftrightarrow> length h = 64 \<and> list_all is_ascii_hexdigit h"

text \<open>\<open>verify_invariants\<close>: the four invariants, in the order of the source.\<close>

definition acl_invariants :: "acl_manager \<Rightarrow> bool" where
  "acl_invariants m \<longleftrightarrow>
     fmlookup (acl_users m) ''default'' \<noteq> None \<and>
     user_enabled (the (fmlookup (acl_users m) ''default'')) \<and>
     fmpred (\<lambda>_ u. list_all valid_hash (password_hashes u)) (acl_users m) \<and>
     fmpred (\<lambda>name _. name \<noteq> []) (acl_users m)"

definition set_user :: "acl_user \<Rightarrow> acl_manager \<Rightarrow> acl_manager" where
  "set_user u m = m\<lparr>acl_users := fmupd (user_name u) u (acl_users m)\<rparr>"

definition get_user :: "acl_manager \<Rightarrow> string \<Rightarrow> acl_user option" where
  "get_user m username = fmlookup (acl_users m) username"

definition del_user :: "string \<Rightarrow> acl_manager \<Rightarrow> string + acl_manager \<times> bool" where
  "del_user username m =
     (if username = ''default''
      then Inl (''ERR The '' @ [CHR 0x27] @ ''default'' @ [CHR 0x27] @ '' user cannot be removed'')
      else Inr (m\<lparr>acl_users := fmdrop username (acl_users m)\<rparr>, fmlookup (acl_users m) username \<noteq> None))"

definition acl_default :: "acl_manager \<Rightarrow> acl_user option" where
  "acl_default m = fmlookup (acl_users m) ''default''"

definition list_users :: "order \<Rightarrow> acl_manager \<Rightarrow> acl_user list" where
  "list_users it m = map (\<lambda>k. the (fmlookup (acl_users m) k)) (it (fmdom (acl_users m)))"

section \<open>Rules\<close>

definition rule_error :: "string \<Rightarrow> string \<Rightarrow> acl_error + 'a" where
  "rule_error rule reason = Inl (InvalidRule rule reason)"

definition on_commands :: "(command_permissions \<Rightarrow> command_permissions) \<Rightarrow> acl_user \<Rightarrow> acl_user" where
  "on_commands f u = u\<lparr>user_commands := f (user_commands u)\<rparr>"

definition on_keys :: "(key_patterns \<Rightarrow> key_patterns) \<Rightarrow> acl_user \<Rightarrow> acl_user" where
  "on_keys f u = u\<lparr>user_keys := f (user_keys u)\<rparr>"

text \<open>The arms of \<open>match rule\<close> for whole words.\<close>

definition word_rule :: "string \<Rightarrow> (acl_user \<Rightarrow> acl_user) option" where
  "word_rule rule =
     (if rule = ''on'' then Some (\<lambda>u. u\<lparr>user_enabled := True\<rparr>)
      else if rule = ''off'' then Some (\<lambda>u. u\<lparr>user_enabled := False\<rparr>)
      else if rule = ''nopass'' then Some (\<lambda>u. u\<lparr>nopass := True\<rparr>)
      else if rule = ''resetpass'' then Some (\<lambda>u. u\<lparr>password_hashes := [], nopass := False\<rparr>)
      else if rule = ''allcommands'' \<or> rule = ''+@all''
      then Some (on_commands (\<lambda>c. c\<lparr>cp_allow_all := True, cp_categories := finsert CatAll (cp_categories c)\<rparr>))
      else if rule = ''nocommands'' \<or> rule = ''-@all''
      then Some (on_commands (\<lambda>c. c\<lparr>cp_allow_all := False, cp_categories := {||}, cp_allowed := {||}\<rparr>))
      else if rule = ''allkeys'' \<or> rule = ''~*'' then Some (on_keys (\<lambda>k. k\<lparr>kps_allow_all := True\<rparr>))
      else if rule = ''resetkeys'' then Some (on_keys key_patterns_reset)
      else if rule = ''allchannels'' \<or> rule = ''&*'' then Some id
      else if rule = ''resetchannels'' then Some id
      else if rule = ''reset'' then Some acl_user_reset
      else if rule = ''sanitize-payload'' \<or> rule = ''skip-sanitize-payload'' then Some id
      else None)"

text \<open>Rules that start with \<open>+\<close> and \<open>-\<close>, after that character.\<close>

definition plus_rule ::
  "(string \<Rightarrow> string) \<Rightarrow> (string \<Rightarrow> string) \<Rightarrow> string \<Rightarrow> string \<Rightarrow> acl_user \<Rightarrow> acl_error + acl_user" where
  "plus_rule up dn rule rest u =
     (case strip_prefix ''@'' rest of
        Some cat \<Rightarrow>
          (case category_from_str dn cat of
             Some category \<Rightarrow> Inr (on_commands (add_category category) u)
           | None \<Rightarrow> rule_error rule (''unknown category: '' @ cat))
      | None \<Rightarrow>
          if CHR ''|'' \<in> set rest
          then Inr (on_commands (\<lambda>c. c\<lparr>cp_allowed := finsert (up rest) (cp_allowed c)\<rparr>) u)
          else Inr (on_commands (allow_command up rest) u))"

definition minus_rule ::
  "(string \<Rightarrow> string) \<Rightarrow> (string \<Rightarrow> string) \<Rightarrow> string \<Rightarrow> string \<Rightarrow> acl_user \<Rightarrow> acl_error + acl_user" where
  "minus_rule up dn rule rest u =
     (case strip_prefix ''@'' rest of
        Some cat \<Rightarrow>
          (case category_from_str dn cat of
             Some category \<Rightarrow> Inr (on_commands (remove_category category) u)
           | None \<Rightarrow> rule_error rule (''unknown category: '' @ cat))
      | None \<Rightarrow>
          if CHR ''|'' \<in> set rest
          then Inr (on_commands (\<lambda>c. c\<lparr>cp_denied := finsert (up rest) (cp_denied c)\<rparr>) u)
          else Inr (on_commands (deny_command up rest) u))"

definition percent_rule :: "string \<Rightarrow> string \<Rightarrow> acl_user \<Rightarrow> acl_error + acl_user" where
  "percent_rule rule rest u =
     (case strip_prefix ''R~'' rest of
        Some p \<Rightarrow> Inr (on_keys (add_pattern (key_pattern_read_only p)) u)
      | None \<Rightarrow>
          (case strip_prefix ''W~'' rest of
             Some p \<Rightarrow> Inr (on_keys (add_pattern (key_pattern_write_only p)) u)
           | None \<Rightarrow>
               (case strip_prefix ''RW~'' rest of
                  Some p \<Rightarrow> Inr (on_keys (add_pattern (key_pattern_new p)) u)
                | None \<Rightarrow> rule_error rule ''invalid key permission format'')))"

definition prefix_rule ::
  "(bytes \<Rightarrow> bytes) \<Rightarrow> (string \<Rightarrow> string) \<Rightarrow> (string \<Rightarrow> string) \<Rightarrow> string \<Rightarrow> acl_user \<Rightarrow> acl_error + acl_user" where
  "prefix_rule sha256 up dn rule u =
     (case rule of
        [] \<Rightarrow> rule_error rule ''unrecognized rule''
      | c # rest \<Rightarrow>
          if c = CHR ''>'' then Inr (add_password sha256 rest u)
          else if c = CHR ''<'' then Inr (remove_password sha256 rest u)
          else if c = CHR ''#''
          then if valid_hash rest then Inr (add_password_hash rest u)
               else rule_error (''#'' @ rest) ''Syntax error in ACL SETUSER modifier''
          else if c = CHR ''!''
          then Inr (u\<lparr>password_hashes := filter (\<lambda>h. h \<noteq> rest) (password_hashes u)\<rparr>)
          else if c = CHR ''+'' then plus_rule up dn rule rest u
          else if c = CHR ''-'' then minus_rule up dn rule rest u
          else if c = CHR ''~'' then Inr (on_keys (add_pattern (key_pattern_new rest)) u)
          else if c = CHR ''&'' then Inr u
          else if c = CHR ''%'' then percent_rule rule rest u
          else rule_error rule ''unrecognized rule'')"

definition apply_rule ::
  "(bytes \<Rightarrow> bytes) \<Rightarrow> (string \<Rightarrow> string) \<Rightarrow> (string \<Rightarrow> string) \<Rightarrow> string \<Rightarrow> acl_user \<Rightarrow> acl_error + acl_user" where
  "apply_rule sha256 up dn rule0 u =
     (let rule = trim rule0
      in case word_rule rule of Some f \<Rightarrow> Inr (f u) | None \<Rightarrow> prefix_rule sha256 up dn rule u)"

fun apply_rules ::
  "(bytes \<Rightarrow> bytes) \<Rightarrow> (string \<Rightarrow> string) \<Rightarrow> (string \<Rightarrow> string) \<Rightarrow> string list \<Rightarrow> acl_user \<Rightarrow> acl_error + acl_user" where
  "apply_rules sha256 up dn [] u = Inr u"
| "apply_rules sha256 up dn (rule # rules) u =
     (case apply_rule sha256 up dn rule u of
        Inl e \<Rightarrow> Inl e | Inr u' \<Rightarrow> apply_rules sha256 up dn rules u')"

section \<open>Commands\<close>

definition handle_auth :: "(bytes \<Rightarrow> bytes) \<Rightarrow> acl_manager \<Rightarrow> string list \<Rightarrow> acl_error + acl_user" where
  "handle_auth sha256 m args =
     (case args of
        [p] \<Rightarrow> authenticate sha256 m ''default'' p
      | [u, p] \<Rightarrow> authenticate sha256 m u p
      | _ \<Rightarrow> Inl (InvalidRule ''AUTH'' ''wrong number of arguments''))"

definition handle_whoami :: "acl_user option \<Rightarrow> string" where
  "handle_whoami user = (case user of Some u \<Rightarrow> user_name u | None \<Rightarrow> ''default'')"

definition handle_list ::
  "(string \<Rightarrow> string) \<Rightarrow> order \<Rightarrow> (command_category fset \<Rightarrow> command_category list) \<Rightarrow> acl_manager \<Rightarrow> string list" where
  "handle_list dn it itc m = map (to_acl_string dn it itc) (sort_key user_name (list_users it m))"

definition handle_users :: "order \<Rightarrow> acl_manager \<Rightarrow> string list" where
  "handle_users it m = sort (it (fmdom (acl_users m)))"

definition handle_setuser ::
  "(bytes \<Rightarrow> bytes) \<Rightarrow> (string \<Rightarrow> string) \<Rightarrow> (string \<Rightarrow> string) \<Rightarrow> string \<Rightarrow> string list \<Rightarrow> acl_manager \<Rightarrow>
   acl_error + acl_manager" where
  "handle_setuser sha256 up dn username rules m =
     (if CHR '' '' \<in> set username \<or> CHR 0x00 \<in> set username
      then Inl (InvalidRule ''SETUSER''
             (''Usernames can'' @ [CHR 0x27] @ ''t contain spaces or null characters''))
      else let user = (case get_user m username of Some u \<Rightarrow> u | None \<Rightarrow> acl_user_new username)
           in case apply_rules sha256 up dn rules user of
                Inl e \<Rightarrow> Inl e | Inr u \<Rightarrow> Inr (set_user u m))"

text \<open>\<open>DELUSER\<close>: the users before a refused one are already gone.\<close>

fun deluser_loop :: "string list \<Rightarrow> usize \<Rightarrow> acl_manager \<Rightarrow> acl_manager \<times> (string + usize)" where
  "deluser_loop [] deleted m = (m, Inr deleted)"
| "deluser_loop (u # us) deleted m =
     (case del_user u m of
        Inl e \<Rightarrow> (m, Inl e)
      | Inr (m', hit) \<Rightarrow> deluser_loop us (if hit then deleted + 1 else deleted) m')"

definition handle_deluser :: "string list \<Rightarrow> acl_manager \<Rightarrow> acl_manager \<times> (string + usize)" where
  "handle_deluser usernames m = deluser_loop usernames 0 m"

definition all_categories :: "string list" where
  "all_categories =
     [''keyspace'', ''read'', ''write'', ''set'', ''sortedset'', ''list'', ''hash'', ''string'', ''bitmap'',
      ''hyperloglog'', ''geo'', ''stream'', ''pubsub'', ''admin'', ''fast'', ''slow'', ''dangerous'',
      ''connection'', ''transaction'', ''scripting'', ''server'']"

definition handle_cat :: "(string \<Rightarrow> string) \<Rightarrow> string option \<Rightarrow> acl_error + string list" where
  "handle_cat dn category =
     (case category of
        None \<Rightarrow> Inr all_categories
      | Some cat \<Rightarrow>
          (case category_from_str dn cat of
             None \<Rightarrow> Inl (InvalidRule cat ''unknown category'')
           | Some c \<Rightarrow> Inr (map dn (category_commands c))))"

fun even_positions :: "'a list \<Rightarrow> 'a list" where
  "even_positions (x # y # xs) = x # even_positions xs"
| "even_positions xs = xs"

definition extract_dryrun_keys :: "string \<Rightarrow> string list \<Rightarrow> string list" where
  "extract_dryrun_keys command args =
     (if command \<in> {''MSET'', ''MSETNX''} then even_positions args
      else if command \<in> {''DEL'', ''UNLINK'', ''EXISTS'', ''MGET'', ''WATCH''} then args
      else if command \<in> {''RENAME'', ''RENAMENX'', ''RPOPLPUSH'', ''LMOVE''} then take 2 args
      else take 1 args)"

definition handle_dryrun ::
  "(string \<Rightarrow> string) \<Rightarrow> (string \<Rightarrow> string) \<Rightarrow> acl_manager \<Rightarrow> string \<Rightarrow> string \<Rightarrow> string list \<Rightarrow> string + unit" where
  "handle_dryrun up dn m username command args =
     (case get_user m username of
        None \<Rightarrow> Inl (''ERR User '' @ quoted username @ '' not found'')
      | Some user \<Rightarrow>
          let denied = ''This user has no permissions to run the '' @ quoted (dn command) @ '' command''
          in if \<not> user_enabled user then Inl denied
             else if \<not> is_command_permitted up (user_commands user) (up command) then Inl denied
             else if args \<noteq> [] \<and> \<not> kps_allow_all (user_keys user)
             then (case find (\<lambda>k. \<not> is_key_permitted (user_keys user) k) (extract_dryrun_keys (up command) args) of
                     Some key \<Rightarrow> Inl (''This user has no permissions to access the '' @ quoted key @ '' key'')
                   | None \<Rightarrow> Inr ())
             else Inr ())"

definition handle_log :: "acl_manager \<Rightarrow> usize option \<Rightarrow> acl_log_entry list" where
  "handle_log m count = get_log count (acl_log m)"

definition handle_log_reset :: "acl_manager \<Rightarrow> acl_manager" where
  "handle_log_reset m = m\<lparr>acl_log := acl_log_reset (acl_log m)\<rparr>"

text \<open>\<open>GENPASS\<close>: the seed is the time in nanoseconds, a \<open>u128\<close>.\<close>

fun genpass_bytes :: "nat \<Rightarrow> 128 word \<Rightarrow> string" where
  "genpass_bytes 0 st = []"
| "genpass_bytes (Suc n) st =
     (let st' = st * 6364136223846793005 + 1; b = unat (and (drop_bit 33 st') 0xFF)
      in [hex_digit (b div 16), hex_digit (b mod 16)] @ genpass_bytes n st')"

definition handle_genpass :: "128 word \<Rightarrow> nat option \<Rightarrow> string + string" where
  "handle_genpass seed bits =
     (if bits \<noteq> None \<and> (the bits = 0 \<or> the bits > 4096)
      then Inl ''ERR ACL GENPASS argument must be the number of bits for the output password, a positive number up to 4096''
      else Inr (genpass_bytes (((case bits of Some b \<Rightarrow> b | None \<Rightarrow> 256) + 7) div 8) seed))"

section \<open>\<open>ACL GETUSER\<close>\<close>

record acl_getuser_info =
  gu_flags :: "string list"
  gu_passwords :: "string list"
  gu_commands :: string
  gu_keys :: string
  gu_channels :: string

definition format_flags :: "acl_user \<Rightarrow> string" where
  "format_flags u =
     join '' '' ([if user_enabled u then ''on'' else ''off''] @ (if nopass u then [''nopass''] else []) @
       (if cp_allow_all (user_commands u) then [''allcommands''] else []) @
       (if kps_allow_all (user_keys u) then [''allkeys''] else []))"

definition format_passwords :: "acl_user \<Rightarrow> string" where
  "format_passwords u =
     (if password_hashes u = [] then ''(empty)'' else join '' '' (map (\<lambda>h. ''#'' @ h) (password_hashes u)))"

fun format_category_name_cmd :: "command_category \<Rightarrow> string" where
  "format_category_name_cmd CatRead = ''read''"
| "format_category_name_cmd CatWrite = ''write''"
| "format_category_name_cmd CatAdmin = ''admin''"
| "format_category_name_cmd CatDangerous = ''dangerous''"
| "format_category_name_cmd CatKeyspace = ''keyspace''"
| "format_category_name_cmd CatString = ''string''"
| "format_category_name_cmd CatList = ''list''"
| "format_category_name_cmd CatSet = ''set''"
| "format_category_name_cmd CatHash = ''hash''"
| "format_category_name_cmd CatSortedSet = ''sortedset''"
| "format_category_name_cmd CatConnection = ''connection''"
| "format_category_name_cmd CatServer = ''server''"
| "format_category_name_cmd CatScripting = ''scripting''"
| "format_category_name_cmd CatTransaction = ''transaction''"
| "format_category_name_cmd CatPubSub = ''pubsub''"
| "format_category_name_cmd CatSlow = ''slow''"
| "format_category_name_cmd CatFast = ''fast''"
| "format_category_name_cmd CatBitmap = ''bitmap''"
| "format_category_name_cmd CatHyperloglog = ''hyperloglog''"
| "format_category_name_cmd CatGeo = ''geo''"
| "format_category_name_cmd CatStream = ''stream''"
| "format_category_name_cmd CatAll = ''all''"

definition format_commands ::
  "(string \<Rightarrow> string) \<Rightarrow> order \<Rightarrow> (command_category fset \<Rightarrow> command_category list) \<Rightarrow> acl_user \<Rightarrow> string" where
  "format_commands dn it itc u =
     (let c = user_commands u;
          parts = (if cp_allow_all c then [''+@all''] else []) @
                  map (\<lambda>cat. ''+@'' @ format_category_name_cmd cat) (itc (cp_categories c)) @
                  map (\<lambda>cat. ''-@'' @ format_category_name_cmd cat) (itc (cp_denied_categories c)) @
                  map (\<lambda>cmd. ''+'' @ dn cmd) (it (cp_allowed c)) @
                  map (\<lambda>cmd. ''-'' @ dn cmd) (it (cp_denied c))
      in if parts = [] then ''-@all'' else join '' '' parts)"

definition format_keys :: "acl_user \<Rightarrow> string" where
  "format_keys u =
     (if kps_allow_all (user_keys u) then ''~*''
      else if kps_patterns (user_keys u) = [] then ''(empty)''
      else join '' '' (map (\<lambda>p. ''~'' @ kp_pattern p) (kps_patterns (user_keys u))))"

definition handle_getuser ::
  "(string \<Rightarrow> string) \<Rightarrow> order \<Rightarrow> (command_category fset \<Rightarrow> command_category list) \<Rightarrow> acl_manager \<Rightarrow> string \<Rightarrow>
   acl_getuser_info option" where
  "handle_getuser dn it itc m username =
     map_option (\<lambda>u.
       \<lparr>gu_flags = [if user_enabled u then ''on'' else ''off''] @ (if nopass u then [''nopass''] else []),
        gu_passwords = map (\<lambda>h. ''#'' @ h) (password_hashes u),
        gu_commands = format_commands dn it itc u, gu_keys = format_keys u, gu_channels = ''&*''\<rparr>)
     (get_user m username)"

section \<open>ACL files\<close>

text \<open>
  The errors of the loader that are not errors of reading the file. A file is its bytes; \<open>lines\<close>
  splits them the way \<open>BufRead::lines\<close> does: at each newline, without a carriage return before it
  and without a last empty piece.
\<close>

datatype acl_file_error =
    ParseError string nat string string
  | RuleError string nat acl_error

fun acl_file_error_text :: "(string \<Rightarrow> string) \<Rightarrow> acl_file_error \<Rightarrow> string" where
  "acl_file_error_text dn (ParseError path line_number line reason) =
     ''Parse error in ACL file '' @ quoted path @ '' line '' @ show_nat line_number @ '': '' @ reason @
     '' (line: '' @ quoted line @ '')''"
| "acl_file_error_text dn (RuleError path line_number e) =
     ''ACL rule error in '' @ quoted path @ '' line '' @ show_nat line_number @ '': '' @ acl_error_text dn e"

definition newline :: char where
  "newline = CHR 0x0A"

definition chomp_cr :: "string \<Rightarrow> string" where
  "chomp_cr l = (if l \<noteq> [] \<and> last l = CHR 0x0D then butlast l else l)"

fun split_lines :: "string \<Rightarrow> bytes \<Rightarrow> string list" where
  "split_lines acc [] = (if acc = [] then [] else [acc])"
| "split_lines acc (c # cs) =
     (if c = newline then chomp_cr acc # split_lines [] cs else split_lines (acc @ [c]) cs)"

definition file_lines :: "bytes \<Rightarrow> string list" where
  "file_lines content = split_lines [] content"

definition parse_user_line ::
  "(bytes \<Rightarrow> bytes) \<Rightarrow> (string \<Rightarrow> string) \<Rightarrow> (string \<Rightarrow> string) \<Rightarrow> string \<Rightarrow> string \<Rightarrow> nat \<Rightarrow> acl_file_error + acl_user" where
  "parse_user_line sha256 up dn line path line_number =
     (let parts = split_whitespace line in
      if parts = [] \<or> dn (parts ! 0) \<noteq> ''user''
      then Inl (ParseError path line_number line (''Line must start with '' @ quoted ''user''))
      else if length parts < 2
      then Inl (ParseError path line_number line (''Missing username after '' @ quoted ''user''))
      else (case apply_rules sha256 up dn (drop 2 parts) (acl_user_new (parts ! 1)) of
              Inl e \<Rightarrow> Inl (RuleError path line_number e)
            | Inr u \<Rightarrow> Inr u))"

fun load_lines ::
  "(bytes \<Rightarrow> bytes) \<Rightarrow> (string \<Rightarrow> string) \<Rightarrow> (string \<Rightarrow> string) \<Rightarrow> string \<Rightarrow> nat \<Rightarrow> string list \<Rightarrow> acl_user list \<Rightarrow>
   acl_file_error + acl_user list" where
  "load_lines sha256 up dn path n [] users = Inr users"
| "load_lines sha256 up dn path n (line # rest) users =
     (let trimmed = trim line in
      if trimmed = [] \<or> hd trimmed = CHR ''#'' then load_lines sha256 up dn path (n + 1) rest users
      else (case parse_user_line sha256 up dn trimmed path n of
              Inl e \<Rightarrow> Inl e
            | Inr u \<Rightarrow> load_lines sha256 up dn path (n + 1) rest (users @ [u])))"

definition load_acl_file ::
  "(bytes \<Rightarrow> bytes) \<Rightarrow> (string \<Rightarrow> string) \<Rightarrow> (string \<Rightarrow> string) \<Rightarrow> string \<Rightarrow> bytes \<Rightarrow> acl_file_error + acl_user list" where
  "load_acl_file sha256 up dn path content = load_lines sha256 up dn path 1 (file_lines content) []"

definition writeln :: "string \<Rightarrow> bytes" where
  "writeln l = l @ [newline]"

definition save_acl_file ::
  "(string \<Rightarrow> string) \<Rightarrow> order \<Rightarrow> (command_category fset \<Rightarrow> command_category list) \<Rightarrow> acl_user list \<Rightarrow> bytes" where
  "save_acl_file dn it itc users =
     writeln ''# Redis ACL file'' @ writeln ''# Generated by redis-rust'' @ writeln [] @
     concat (map (\<lambda>u. writeln (to_acl_string dn it itc u)) users)"

end
