(* ===== verification/Acl_Laws.thy ===== *)
theory Acl_Laws
  imports Acl_Manager
begin

text \<open>
  Laws of access control: the denial log is an aggregated bounded queue, the rules of \<open>ACL SETUSER\<close>
  decide what \<open>check_command\<close> answers, authentication accepts the passwords that were set, and an ACL
  file that was saved loads users that are allowed and refused the same things.
\<close>

section \<open>The denial log\<close>

text \<open>
  The log as a queue of counters: a denial that is known counts up, a new one goes to the end and
  pushes out the oldest when the queue is full.
\<close>

definition tally :: "usize \<Rightarrow> acl_log_key \<Rightarrow> (acl_log_key \<times> u64) list \<Rightarrow> (acl_log_key \<times> u64) list" where
  "tally cap k xs =
     (if k \<in> fst ` set xs then map (\<lambda>(k', n). (k', if k' = k then saturating_inc n else n)) xs
      else (if cap \<le> length xs then List.tl xs else xs) @ [(k, 1)])"

definition log_counts :: "acl_log_store \<Rightarrow> (acl_log_key \<times> u64) list" where
  "log_counts l = map (\<lambda>e. (log_key e, log_count e)) (log_entries l)"

definition log_ok :: "acl_log_store \<Rightarrow> bool" where
  "log_ok l \<longleftrightarrow>
     distinct (map log_key (log_entries l)) \<and> length (log_entries l) \<le> max_entries l \<and> 0 < max_entries l \<and>
     (\<forall>k i. fmlookup (agg_index l) k = Some i \<longleftrightarrow> i < length (log_entries l) \<and> log_key (log_entries l ! i) = k)"

lemma log_okD:
  assumes "log_ok l"
  shows "distinct (map log_key (log_entries l))" "length (log_entries l) \<le> max_entries l" "0 < max_entries l"
    "\<And>k i. fmlookup (agg_index l) k = Some i \<longleftrightarrow> i < length (log_entries l) \<and> log_key (log_entries l ! i) = k"
  using assms by (auto simp: log_ok_def)

lemma log_ok_new: "log_ok acl_log_new"
  by (simp add: log_ok_def acl_log_new_def)

lemma log_ok_invariants:
  assumes "log_ok l"
  shows "acl_log_invariants l"
proof -
  have "fmdom (agg_index l) |\<subseteq>| fset_of_list (map log_key (log_entries l))"
  proof (rule fsubsetI)
    fix k assume "k |\<in>| fmdom (agg_index l)"
    then obtain i where "fmlookup (agg_index l) k = Some i"
      by (rule fmdomE)
    then have "i < length (log_entries l)" "log_key (log_entries l ! i) = k"
      using log_okD(4) [OF assms] by simp_all
    then show "k |\<in>| fset_of_list (map log_key (log_entries l))"
      by (auto simp: fset_of_list_elem)
  qed
  then have "fcard (fmdom (agg_index l)) \<le> fcard (fset_of_list (map log_key (log_entries l)))"
    by (rule fcard_mono)
  also have "\<dots> \<le> length (log_entries l)"
    by (metis card_length fcard.rep_eq fset_of_list.rep_eq length_map)
  finally show ?thesis
    using log_okD [OF assms] by (auto simp: acl_log_invariants_def fmpred_iff)
qed

text \<open>The two branches of \<open>record_denial\<close>: a known denial, and a new one.\<close>

lemma record_known:
  assumes ok: "log_ok l" and i: "i < length (log_entries l)" "log_key (log_entries l ! i) = (u, r, obj, ctx)"
  defines "e \<equiv> log_entries l ! i"
  shows "record_denial now u r obj ctx info l =
    l\<lparr>log_entries := (log_entries l)[i := e\<lparr>log_count := saturating_inc (log_count e), timestamp_last_updated := now\<rparr>]\<rparr>"
proof -
  have "fmlookup (agg_index l) (u, r, obj, ctx) = Some i"
    using log_okD(4) [OF ok] i by simp
  then show ?thesis
    using i by (simp add: record_denial_def e_def Let_def)
qed

lemma unknown_key:
  assumes "log_ok l" "k \<notin> log_key ` set (log_entries l)"
  shows "fmlookup (agg_index l) k = None"
proof (cases "fmlookup (agg_index l) k")
  case (Some i)
  then show ?thesis
    using log_okD(4) [OF assms(1), of k i] assms(2) by auto
qed

definition evict :: "acl_log_store \<Rightarrow> acl_log_store" where
  "evict l = (if max_entries l \<le> length (log_entries l)
     then l\<lparr>log_entries := List.tl (log_entries l),
            agg_index := fmmap (\<lambda>v. v - 1) (fmdrop (log_key (hd (log_entries l))) (agg_index l))\<rparr>
     else l)"

lemma log_ok_evict:
  assumes "log_ok l"
  shows "log_ok (evict l)" "length (log_entries (evict l)) < max_entries (evict l)"
    "log_entries (evict l) = (if max_entries l \<le> length (log_entries l) then List.tl (log_entries l) else log_entries l)"
proof -
  note ok = log_okD [OF assms]
  show "length (log_entries (evict l)) < max_entries (evict l)"
    using ok(2,3) by (auto simp: evict_def)
  show "log_entries (evict l) = (if max_entries l \<le> length (log_entries l) then List.tl (log_entries l) else log_entries l)"
    by (simp add: evict_def)
  show "log_ok (evict l)"
  proof (cases "max_entries l \<le> length (log_entries l)")
    case False
    then show ?thesis
      using assms by (simp add: evict_def)
  next
    case True
    then obtain e es where es: "log_entries l = e # es"
      using ok(3) by (cases "log_entries l") auto
    have idx: "fmlookup (agg_index l) k = Some i \<longleftrightarrow> i < Suc (length es) \<and> log_key ((e # es) ! i) = k" for k i
      using ok(4) [of k i] es by simp
    have "map_option (\<lambda>v. v - 1) (fmlookup (agg_index l) k) = Some i \<longleftrightarrow> i < length es \<and> log_key (es ! i) = k"
      if k: "k \<noteq> log_key e" for k i
    proof -
      have "fmlookup (agg_index l) k \<noteq> Some 0"
        using idx [of k 0] k by simp
      then have "map_option (\<lambda>v. v - 1) (fmlookup (agg_index l) k) = Some i \<longleftrightarrow>
          fmlookup (agg_index l) k = Some (Suc i)"
        by (cases "fmlookup (agg_index l) k") auto
      then show ?thesis
        by (simp add: idx)
    qed
    moreover have "log_key (es ! i) \<noteq> log_key e" if "i < length es" for i
      using ok(1) es nth_mem [OF that] by (metis distinct.simps(2) imageI list.set_map list.simps(9))
    ultimately show ?thesis
      using True ok(1,2,3) es by (auto simp: evict_def log_ok_def fmlookup_drop)
  qed
qed

lemma record_new:
  assumes "log_ok l" "(u, r, obj, ctx) \<notin> log_key ` set (log_entries l)"
  defines "l2 \<equiv> evict (l\<lparr>next_entry_id := saturating_inc (next_entry_id l)\<rparr>)"
  shows "record_denial now u r obj ctx info l = l2\<lparr>
    agg_index := fmupd (u, r, obj, ctx) (length (log_entries l2)) (agg_index l2),
    log_entries := log_entries l2 @ [\<lparr>entry_id = next_entry_id l, log_count = 1, log_reason = r,
      log_context = ctx, log_object = obj, log_username = u, client_info = info,
      timestamp_created = now, timestamp_last_updated = now\<rparr>]\<rparr>"
  using unknown_key [OF assms(1,2)] by (simp add: record_denial_def l2_def evict_def Let_def)

lemma log_ok_append:
  assumes "log_ok l" "log_key e \<notin> log_key ` set (log_entries l)" "length (log_entries l) < max_entries l"
  shows "log_ok (l\<lparr>agg_index := fmupd (log_key e) (length (log_entries l)) (agg_index l),
    log_entries := log_entries l @ [e]\<rparr>)"
proof -
  note ok = log_okD [OF assms(1)]
  have "log_key (log_entries l ! i) \<noteq> log_key e" if "i < length (log_entries l)" for i
    using assms(2) nth_mem [OF that] by (metis imageI)
  then show ?thesis
    using ok assms(2,3) by (auto simp: log_ok_def nth_append image_iff)
qed

lemma record_denial_step:
  assumes ok: "log_ok l"
  shows "log_ok (record_denial now u r obj ctx info l) \<and>
    max_entries (record_denial now u r obj ctx info l) = max_entries l \<and>
    log_counts (record_denial now u r obj ctx info l) = tally (max_entries l) (u, r, obj, ctx) (log_counts l)"
proof (cases "(u, r, obj, ctx) \<in> log_key ` set (log_entries l)")
  case True
  then obtain i where i: "i < length (log_entries l)" "log_key (log_entries l ! i) = (u, r, obj, ctx)"
    by (auto simp: in_set_conv_nth)
  define e where "e = log_entries l ! i"
  define e' where "e' = e\<lparr>log_count := saturating_inc (log_count e), timestamp_last_updated := now\<rparr>"
  have keys: "map log_key ((log_entries l)[i := e']) = map log_key (log_entries l)"
    by (simp add: map_update e'_def e_def log_key_def) (metis i(1) length_map list_update_id log_key_def nth_map)
  then have key_at: "log_key ((log_entries l)[i := e'] ! j) = log_key (log_entries l ! j)" if "j < length (log_entries l)" for j
    using that by (metis length_list_update length_map nth_map)
  have rec: "record_denial now u r obj ctx info l = l\<lparr>log_entries := (log_entries l)[i := e']\<rparr>"
    using record_known [OF ok i] by (simp add: e_def e'_def)
  have "log_ok (l\<lparr>log_entries := (log_entries l)[i := e']\<rparr>)"
    using log_okD [OF ok] keys key_at by (auto simp: log_ok_def)
  moreover have "log_counts (l\<lparr>log_entries := (log_entries l)[i := e']\<rparr>) = tally (max_entries l) (u, r, obj, ctx) (log_counts l)"
  proof (rule nth_equalityI)
    fix j assume "j < length (log_counts (l\<lparr>log_entries := (log_entries l)[i := e']\<rparr>))"
    then have j: "j < length (log_entries l)"
      by (simp add: log_counts_def)
    have "log_key (log_entries l ! j) = (u, r, obj, ctx) \<longleftrightarrow> j = i"
      using nth_eq_iff_index_eq [OF log_okD(1) [OF ok], of j i] i j by simp
    then show "log_counts (l\<lparr>log_entries := (log_entries l)[i := e']\<rparr>) ! j =
        tally (max_entries l) (u, r, obj, ctx) (log_counts l) ! j"
      using True j i by (auto simp: log_counts_def tally_def image_image e'_def e_def log_key_def nth_list_update)
  qed (use True in \<open>simp add: log_counts_def tally_def image_image\<close>)
  ultimately show ?thesis
    by (simp add: rec)
next
  case False
  define l1 where "l1 = l\<lparr>next_entry_id := saturating_inc (next_entry_id l)\<rparr>"
  have l1: "log_ok l1" "log_entries l1 = log_entries l" "max_entries l1 = max_entries l"
    using ok by (simp_all add: l1_def log_ok_def)
  note ev = log_ok_evict [OF l1(1)]
  define e where "e = \<lparr>entry_id = next_entry_id l, log_count = 1, log_reason = r, log_context = ctx,
      log_object = obj, log_username = u, client_info = info, timestamp_created = now, timestamp_last_updated = now\<rparr>"
  have e: "log_key e = (u, r, obj, ctx)" "log_count e = 1"
    by (simp_all add: e_def log_key_def)
  have sub: "set (log_entries (evict l1)) \<subseteq> set (log_entries l)"
    using ev(3) l1 by (cases "log_entries l") auto
  have fresh: "log_key e \<notin> log_key ` set (log_entries (evict l1))"
    using sub False unfolding e by blast
  have rec: "record_denial now u r obj ctx info l = (evict l1)\<lparr>
      agg_index := fmupd (log_key e) (length (log_entries (evict l1))) (agg_index (evict l1)),
      log_entries := log_entries (evict l1) @ [e]\<rparr>"
    using record_new [OF ok False] by (simp add: l1_def e_def log_key_def)
  have "log_counts (record_denial now u r obj ctx info l) = tally (max_entries l) (u, r, obj, ctx) (log_counts l)"
    using False ev(3) l1 by (simp add: rec e log_counts_def tally_def image_image map_tl)
  moreover have "max_entries (evict l1) = max_entries l"
    by (simp add: evict_def l1)
  ultimately show ?thesis
    using log_ok_append [OF ev(1) fresh ev(2)] by (simp add: rec)
qed

type_synonym denial = "f64 \<times> string \<times> acl_log_reason \<times> string \<times> string \<times> string"

definition record_all :: "denial list \<Rightarrow> acl_log_store \<Rightarrow> acl_log_store" where
  "record_all ds l = fold (\<lambda>(now, u, r, obj, ctx, info). record_denial now u r obj ctx info) ds l"

lemma record_all_step:
  "log_ok l \<Longrightarrow> log_ok (record_all ds l) \<and> max_entries (record_all ds l) = max_entries l \<and>
    log_counts (record_all ds l) = fold (\<lambda>(_, u, r, obj, ctx, _). tally (max_entries l) (u, r, obj, ctx)) ds (log_counts l)"
proof (induction ds arbitrary: l)
  case (Cons d ds)
  obtain now u r obj ctx info where d: "d = (now, u, r, obj, ctx, info)"
    by (cases d) auto
  note step = record_denial_step [OF Cons.prems, of now u r obj ctx info]
  show ?case
    using Cons.IH [of "record_denial now u r obj ctx info l"] step by (simp add: record_all_def d)
qed (simp add: record_all_def)

text \<open>
  Refinement: whatever denials are recorded, the log keeps its structural invariants (at most 128
  entries, every index of the aggregation map inside the list) and shows exactly the queue of
  counters: one entry per denied user, reason, object and context, in order of first denial,
  with the number of denials since that entry was made, the oldest entry evicted first.
\<close>

theorem denial_log_refines_queue:
  "acl_log_invariants (record_all ds acl_log_new) \<and>
   distinct (map log_key (log_entries (record_all ds acl_log_new))) \<and>
   log_counts (record_all ds acl_log_new) =
     fold (\<lambda>(_, u, r, obj, ctx, _). tally 128 (u, r, obj, ctx)) ds []"
proof -
  have "max_entries acl_log_new = 128" "log_counts acl_log_new = []"
    by (simp_all add: acl_log_new_def log_counts_def)
  then show ?thesis
    using record_all_step [OF log_ok_new, of ds] log_ok_invariants log_okD(1) by metis
qed

section \<open>The rules\<close>

lemma apply_word: "printable r \<Longrightarrow> word_rule r = Some f \<Longrightarrow> apply_rule sha up dn r u = Inr (f u)"
  by (simp add: apply_rule_def)

lemma apply_prefix: "printable r \<Longrightarrow> word_rule r = None \<Longrightarrow> apply_rule sha up dn r u = prefix_rule sha up dn r u"
  by (simp add: apply_rule_def)

lemma plain_words [simp]:
  "apply_rule sha up dn ''on'' u = Inr (u\<lparr>user_enabled := True\<rparr>)"
  "apply_rule sha up dn ''off'' u = Inr (u\<lparr>user_enabled := False\<rparr>)"
  "apply_rule sha up dn ''nopass'' u = Inr (u\<lparr>nopass := True\<rparr>)"
  "apply_rule sha up dn ''reset'' u = Inr (acl_user_reset u)"
  "apply_rule sha up dn ''sanitize-payload'' u = Inr u"
  "apply_rule sha up dn ''~*'' u = Inr (on_keys (\<lambda>k. k\<lparr>kps_allow_all := True\<rparr>) u)"
  "apply_rule sha up dn ''&*'' u = Inr u"
  "apply_rule sha up dn ''+@all'' u =
     Inr (on_commands (\<lambda>c. c\<lparr>cp_allow_all := True, cp_categories := finsert CatAll (cp_categories c)\<rparr>) u)"
  "apply_rule sha up dn ''-@all'' u =
     Inr (on_commands (\<lambda>c. c\<lparr>cp_allow_all := False, cp_categories := {||}, cp_allowed := {||}\<rparr>) u)"
  by (simp_all add: apply_word word_rule_def visible_char_def)

lemma rule_password: "printable pw \<Longrightarrow> apply_rule sha up dn (CHR ''>'' # pw) u = Inr (add_password sha pw u)"
  by (simp add: apply_prefix word_rule_def prefix_rule_def visible_char_def)

lemma valid_hash_printable: "valid_hash h \<Longrightarrow> printable h"
  by (auto simp: valid_hash_def printable_def list_all_iff visible_char_def is_ascii_hexdigit_def Let_def)

lemma rule_hash: "valid_hash h \<Longrightarrow> apply_rule sha up dn (CHR ''#'' # h) u = Inr (add_password_hash h u)"
  using valid_hash_printable [of h] by (simp add: apply_prefix word_rule_def prefix_rule_def visible_char_def)

definition grant_pattern :: "string \<Rightarrow> key_patterns \<Rightarrow> key_patterns" where
  "grant_pattern p k = (if p = ''*'' then k\<lparr>kps_allow_all := True\<rparr> else add_pattern (key_pattern_new p) k)"

lemma rule_pattern: "printable p \<Longrightarrow> apply_rule sha up dn (CHR ''~'' # p) u = Inr (on_keys (grant_pattern p) u)"
  by (cases "p = ''*''")
    (simp_all add: apply_prefix word_rule_def prefix_rule_def visible_char_def grant_pattern_def [abs_def])

definition grant_command :: "(string \<Rightarrow> string) \<Rightarrow> string \<Rightarrow> command_permissions \<Rightarrow> command_permissions" where
  "grant_command up cmd c =
     (if CHR ''|'' \<in> set cmd then c\<lparr>cp_allowed := finsert (up cmd) (cp_allowed c)\<rparr> else allow_command up cmd c)"

definition refuse_command :: "(string \<Rightarrow> string) \<Rightarrow> string \<Rightarrow> command_permissions \<Rightarrow> command_permissions" where
  "refuse_command up cmd c =
     (if CHR ''|'' \<in> set cmd then c\<lparr>cp_denied := finsert (up cmd) (cp_denied c)\<rparr> else deny_command up cmd c)"

definition command_word :: "string \<Rightarrow> bool" where
  "command_word s \<longleftrightarrow> printable s \<and> take 1 s \<noteq> ''@''"

lemma rule_plus_minus:
  assumes "command_word cmd"
  shows "apply_rule sha up dn (CHR ''+'' # cmd) u = Inr (on_commands (grant_command up cmd) u)"
    "apply_rule sha up dn (CHR ''-'' # cmd) u = Inr (on_commands (refuse_command up cmd) u)"
proof -
  have "strip_prefix ''@'' cmd = None" "cmd \<noteq> ''@all''" "printable cmd"
    using assms by (cases cmd; auto simp: command_word_def)+
  then show "apply_rule sha up dn (CHR ''+'' # cmd) u = Inr (on_commands (grant_command up cmd) u)"
    "apply_rule sha up dn (CHR ''-'' # cmd) u = Inr (on_commands (refuse_command up cmd) u)"
    by (simp_all add: apply_prefix word_rule_def prefix_rule_def plus_rule_def minus_rule_def visible_char_def
        grant_command_def [abs_def] refuse_command_def [abs_def])
qed

definition grant_category :: "command_category \<Rightarrow> command_permissions \<Rightarrow> command_permissions" where
  "grant_category cat c = (if cat = CatAll then c\<lparr>cp_allow_all := True, cp_categories := finsert CatAll (cp_categories c)\<rparr>
     else add_category cat c)"

lemma format_category_from_str:
  "ascii_case up dn \<Longrightarrow> category_from_str dn (format_category_name cat) = Some cat"
  by (cases cat) (simp_all add: category_from_str_def category_names_def ascii_caseD(2) ascii_def lower_char_def)

lemma printable_category: "printable (format_category_name cat)"
  by (cases cat) (simp_all add: visible_char_def)

lemma rule_category:
  assumes "ascii_case up dn"
  shows "apply_rule sha up dn (CHR ''+'' # CHR ''@'' # format_category_name cat) u = Inr (on_commands (grant_category cat) u)"
    "cat \<noteq> CatAll \<Longrightarrow>
      apply_rule sha up dn (CHR ''-'' # CHR ''@'' # format_category_name cat) u = Inr (on_commands (remove_category cat) u)"
proof -
  have p: "printable (CHR ''+'' # CHR ''@'' # format_category_name cat)" "printable (CHR ''-'' # CHR ''@'' # format_category_name cat)"
    by (simp_all add: printable_category visible_char_def)
  have all: "format_category_name cat = ''all'' \<longleftrightarrow> cat = CatAll"
    by (cases cat) simp_all
  show "apply_rule sha up dn (CHR ''+'' # CHR ''@'' # format_category_name cat) u = Inr (on_commands (grant_category cat) u)"
  proof (cases "cat = CatAll")
    case True
    then show ?thesis
      by (simp add: grant_category_def [abs_def])
  next
    case False
    then show ?thesis
      using format_category_from_str [OF assms, of cat]
      by (simp add: apply_prefix [OF p(1)] word_rule_def prefix_rule_def plus_rule_def all grant_category_def [abs_def])
  qed
  show "apply_rule sha up dn (CHR ''-'' # CHR ''@'' # format_category_name cat) u = Inr (on_commands (remove_category cat) u)"
    if "cat \<noteq> CatAll"
    using format_category_from_str [OF assms, of cat] that
    by (simp add: apply_prefix [OF p(2)] word_rule_def prefix_rule_def minus_rule_def all)
qed

subsection \<open>Sequences of rules\<close>

lemma apply_rules_append:
  "apply_rules sha up dn (rs @ qs) u =
     (case apply_rules sha up dn rs u of Inl e \<Rightarrow> Inl e | Inr u' \<Rightarrow> apply_rules sha up dn qs u')"
  by (induction rs arbitrary: u) (auto split: sum.splits)

lemma apply_rules_map:
  "(\<And>x u. x \<in> set xs \<Longrightarrow> apply_rule sha up dn (f x) u = Inr (g x u)) \<Longrightarrow>
   apply_rules sha up dn (map f xs) u = Inr (fold g xs u)"
  by (induction xs arbitrary: u) simp_all

lemma fold_on_commands: "fold (\<lambda>x. on_commands (g x)) xs u = on_commands (fold g xs) u"
  by (induction xs arbitrary: u) (simp_all add: on_commands_def)

lemma fold_on_keys: "fold (\<lambda>x. on_keys (g x)) xs u = on_keys (fold g xs) u"
  by (induction xs arbitrary: u) (simp_all add: on_keys_def)

lemma fold_grant_pattern:
  "fold grant_pattern ps k =
     k\<lparr>kps_allow_all := kps_allow_all k \<or> ''*'' \<in> set ps,
       kps_patterns := kps_patterns k @ map key_pattern_new (filter (\<lambda>p. p \<noteq> ''*'') ps)\<rparr>"
  by (induction ps arbitrary: k) (auto simp: grant_pattern_def add_pattern_def)

lemma fold_grant_command:
  "cp_denied c = {||} \<Longrightarrow>
   fold (grant_command up) cs c = c\<lparr>cp_allowed := cp_allowed c |\<union>| fset_of_list (map up cs)\<rparr>"
  by (induction cs arbitrary: c) (auto simp: grant_command_def allow_command_def Let_def)

lemma fold_refuse_command:
  "cp_allowed c |\<inter>| fset_of_list (map up cs) = {||} \<Longrightarrow>
   fold (refuse_command up) cs c = c\<lparr>cp_denied := cp_denied c |\<union>| fset_of_list (map up cs)\<rparr>"
proof (induction cs arbitrary: c)
  case (Cons cmd cs)
  then have "refuse_command up cmd c = c\<lparr>cp_denied := finsert (up cmd) (cp_denied c)\<rparr>"
    by (auto simp: refuse_command_def deny_command_def Let_def)
  then show ?case
    using Cons by auto
qed simp

lemma fold_grant_category:
  "fold grant_category cats c =
     c\<lparr>cp_allow_all := cp_allow_all c \<or> CatAll \<in> set cats,
       cp_categories := cp_categories c |\<union>| fset_of_list cats\<rparr>"
  by (induction cats arbitrary: c) (auto simp: grant_category_def add_category_def)

lemma fold_remove_category:
  "fold remove_category cats c =
     c\<lparr>cp_categories := cp_categories c |-| fset_of_list cats,
       cp_denied_categories := cp_denied_categories c |\<union>| fset_of_list cats\<rparr>"
proof (induction cats arbitrary: c)
  case (Cons cat cats)
  have "cp_categories c |-| {|cat|} |-| fset_of_list cats = cp_categories c |-| fset_of_list (cat # cats)"
    by auto
  then show ?case
    by (simp add: Cons remove_category_def [of cat c])
qed simp

lemma fold_add_password_hash:
  "distinct (password_hashes u @ hs) \<Longrightarrow> fold add_password_hash hs u = u\<lparr>password_hashes := password_hashes u @ hs\<rparr>"
  by (induction hs arbitrary: u) (auto simp: add_password_hash_def)

section \<open>Decisions\<close>

lemma check_keys_iff: "check_keys u keys = Inr () \<longleftrightarrow> (\<forall>k\<in>set keys. is_key_permitted (user_keys u) k)"
  by (induction keys) auto

lemma check_command_iff:
  "check_command up m (Some u) command keys = Inr () \<longleftrightarrow>
     user_enabled u \<and> is_command_permitted up (user_commands u) (up command) \<and>
     (\<forall>k\<in>set keys. is_key_permitted (user_keys u) k)"
  by (simp add: check_command_def Let_def check_keys_iff)

lemma upper_char_idem [simp]: "upper_char (upper_char c) = upper_char c"
proof -
  have "(of_char c :: nat) < 256"
    by (simp add: of_char_def)
  then show ?thesis
    by (auto simp: upper_char_def Let_def)
qed

lemma ascii_upper_text [simp]: "ascii s \<Longrightarrow> ascii (map upper_char s)"
  by (auto simp: ascii_def list_all_iff upper_char_def Let_def)

lemma up_idem: "ascii_case up dn \<Longrightarrow> ascii s \<Longrightarrow> up (up s) = up s"
  by (simp add: ascii_caseD(1))

lemma star_matches: "acl_glob_match ''*'' key"
proof -
  have "utf8_chars ''*'' = [star]"
    by (subst utf8_chars.simps) (simp add: utf8_step_ascii utf8_chars.simps)
  then show ?thesis
    by (auto simp: acl_glob_match_def glob_match_impl_iff in_glob_star intro: exI [of _ "length (utf8_chars key)"])
qed

lemma granted_patterns:
  "is_key_permitted (fold grant_pattern ps key_patterns_deny_all) key \<longleftrightarrow> (\<exists>p\<in>set ps. acl_glob_match p key)"
  using star_matches [of key]
  by (auto simp: fold_grant_pattern key_patterns_deny_all_def is_key_permitted_def pattern_matches_def
      key_pattern_new_def list_ex_iff)

lemma hex_digit_inj: "a < 16 \<Longrightarrow> b < 16 \<Longrightarrow> hex_digit a = hex_digit b \<longleftrightarrow> a = b"
  by (auto simp: hex_digit_def char_of_eq_iff take_bit_eq_mod split: if_splits)

lemma hex_pair:
  fixes a b :: nat
  assumes "a < 256" "b < 256"
  shows "hex_digit (a div 16) = hex_digit (b div 16) \<and> hex_digit (a mod 16) = hex_digit (b mod 16) \<longleftrightarrow> a = b"
proof -
  have "a div 16 = b div 16 \<and> a mod 16 = b mod 16 \<longleftrightarrow> a = b"
    by (metis div_mult_mod_eq)
  moreover have "a div 16 < 16" "b div 16 < 16"
    using assms by simp_all
  ultimately show ?thesis
    by (simp add: hex_digit_inj)
qed

lemma hex_encode_inj: "hex_encode a = hex_encode b \<longleftrightarrow> a = b"
proof (induction a b rule: list_induct2')
  case (4 x xs y ys)
  have "of_char x < (256 :: nat)" "of_char y < (256 :: nat)"
    by (simp_all add: of_char_def)
  then show ?case
    using 4 hex_pair [of "of_char x" "of_char y"] by (auto simp: hex_encode_def Let_def)
qed (simp_all add: hex_encode_def Let_def)

definition rules_for :: "string \<Rightarrow> string list \<Rightarrow> string list \<Rightarrow> string list" where
  "rules_for pw ps cs =
     [''reset'', ''on'', CHR ''>'' # pw] @ map (\<lambda>p. CHR ''~'' # p) ps @ map (\<lambda>c. CHR ''+'' # c) cs"

definition granted_user :: "(bytes \<Rightarrow> bytes) \<Rightarrow> (string \<Rightarrow> string) \<Rightarrow> string \<Rightarrow> string \<Rightarrow> string list \<Rightarrow> string list \<Rightarrow> acl_user" where
  "granted_user sha up name pw ps cs =
     \<lparr>user_name = name, password_hashes = [hash_password sha pw], user_enabled = True,
      user_commands = permissions_deny_all\<lparr>cp_allowed := fset_of_list (map up cs)\<rparr>,
      user_keys = fold grant_pattern ps key_patterns_deny_all, nopass = False\<rparr>"

lemma apply_rules_for:
  assumes "printable pw" "\<forall>p\<in>set ps. printable p" "\<forall>c\<in>set cs. command_word c"
  shows "apply_rules sha up dn (rules_for pw ps cs) u = Inr (granted_user sha up (user_name u) pw ps cs)"
proof -
  let ?u = "add_password sha pw (acl_user_reset u\<lparr>user_enabled := True\<rparr>)"
  have pats: "apply_rules sha up dn (map (\<lambda>p. CHR ''~'' # p) ps) v = Inr (on_keys (fold grant_pattern ps) v)" for v
    using assms(2) by (subst apply_rules_map [where g = "\<lambda>p. on_keys (grant_pattern p)"]) (simp_all add: rule_pattern fold_on_keys)
  have cmds: "apply_rules sha up dn (map (\<lambda>c. CHR ''+'' # c) cs) v = Inr (on_commands (fold (grant_command up) cs) v)" for v
    using assms(3) by (subst apply_rules_map [where g = "\<lambda>c. on_commands (grant_command up c)"])
      (simp_all add: rule_plus_minus fold_on_commands)
  have "apply_rules sha up dn (rules_for pw ps cs) u = Inr (on_commands (fold (grant_command up) cs) (on_keys (fold grant_pattern ps) ?u))"
    using assms(1) by (simp add: rules_for_def apply_rules_append pats cmds rule_password)
  moreover have "fold (grant_command up) cs permissions_deny_all = permissions_deny_all\<lparr>cp_allowed := fset_of_list (map up cs)\<rparr>"
    by (simp add: fold_grant_command permissions_deny_all_def)
  ultimately show ?thesis
    by (simp add: granted_user_def on_commands_def on_keys_def add_password_def acl_user_reset_def Let_def)
qed

lemma deny_all_except:
  "is_command_permitted up (permissions_deny_all\<lparr>cp_allowed := S\<rparr>) cmd \<longleftrightarrow> up cmd |\<in>| S"
  by (simp add: is_command_permitted_def permissions_deny_all_def Let_def)

text \<open>
  C12. \<open>ACL SETUSER name reset on >pw ~p1 ~p2 ... +c1 +c2 ...\<close> grants exactly what it lists, whatever the user
  was before: \<open>AUTH\<close> accepts a password iff its digest is that of \<open>pw\<close>; a command passes the check iff
  it is one of the listed ones, in any case of letters, and each of its keys is in the
  language of one of the listed patterns. No other user changes.
\<close>

theorem setuser_grants_exactly:
  assumes "ascii_case up dn" "CHR '' '' \<notin> set name" "CHR 0x00 \<notin> set name"
    and "printable pw" "\<forall>p\<in>set ps. printable p" "\<forall>c\<in>set cs. command_word c"
    and "\<forall>u. get_user m name = Some u \<longrightarrow> user_name u = name"
  shows "\<exists>m' u. handle_setuser sha up dn name (rules_for pw ps cs) m = Inr m' \<and> get_user m' name = Some u \<and>
    (\<forall>q. authenticate sha m' name q = (if sha q = sha pw then Inr u else Inl AuthFailed)) \<and>
    (\<forall>cmd keys. ascii cmd \<longrightarrow> check_command up m' (Some u) cmd keys = Inr () \<longleftrightarrow>
       map upper_char cmd \<in> set (map (map upper_char) cs) \<and>
       (\<forall>k\<in>set keys. \<exists>p\<in>set ps. in_glob (utf8_chars p) (utf8_chars k))) \<and>
    (\<forall>other. other \<noteq> name \<longrightarrow> get_user m' other = get_user m other)"
proof -
  let ?u = "granted_user sha up name pw ps cs" and ?old = "case get_user m name of Some u \<Rightarrow> u | None \<Rightarrow> acl_user_new name"
  have old: "user_name ?old = name"
    using assms(7) by (auto simp: acl_user_new_def split: option.splits)
  have set: "handle_setuser sha up dn name (rules_for pw ps cs) m = Inr (set_user ?u m)"
    using apply_rules_for [OF assms(4,5,6), of sha up dn ?old] assms(2,3)
    by (simp add: handle_setuser_def old Let_def)
  have name: "user_name ?u = name"
    by (simp add: granted_user_def)
  have auth: "authenticate sha (set_user ?u m) name q = (if sha q = sha pw then Inr ?u else Inl AuthFailed)" for q
    by (auto simp: authenticate_def set_user_def name verify_password_def hash_password_def hex_encode_inj)
      (simp_all add: granted_user_def verify_password_def hash_password_def hex_encode_inj)
  have check: "check_command up (set_user ?u m) (Some ?u) cmd keys = Inr () \<longleftrightarrow>
      map upper_char cmd \<in> set (map (map upper_char) cs) \<and>
      (\<forall>k\<in>set keys. \<exists>p\<in>set ps. in_glob (utf8_chars p) (utf8_chars k))" if "ascii cmd" for cmd keys
  proof -
    have "up c = map upper_char c" if "c \<in> set cs" for c
      using assms(1,6) that by (auto simp: command_word_def printable_ascii ascii_caseD(1))
    then have "up (up cmd) |\<in>| fset_of_list (map up cs) \<longleftrightarrow> map upper_char cmd \<in> set (map (map upper_char) cs)"
      using up_idem [OF assms(1) that] ascii_caseD(1) [OF assms(1) that] by (auto simp: fset_of_list_elem image_iff)
    then show ?thesis
      by (auto simp: check_command_iff granted_user_def deny_all_except granted_patterns acl_glob_match_def glob_match_impl_iff)
  qed
  show ?thesis
    using set auth check name by (intro exI [of _ "set_user ?u m"] exI [of _ ?u]) (simp add: get_user_def set_user_def)
qed

theorem setuser_grants_exactly_witness:
  "\<exists>m' u. handle_setuser id (map upper_char) (map lower_char) ''alice'' (rules_for ''pw'' [''cache:*''] [''get'']) acl_manager_new = Inr m' \<and>
    get_user m' ''alice'' = Some u \<and>
    (\<forall>q. authenticate id m' ''alice'' q = (if id q = id ''pw'' then Inr u else Inl AuthFailed)) \<and>
    (\<forall>cmd keys. ascii cmd \<longrightarrow> check_command (map upper_char) m' (Some u) cmd keys = Inr () \<longleftrightarrow>
       map upper_char cmd \<in> set (map (map upper_char) [''get'']) \<and>
       (\<forall>k\<in>set keys. \<exists>p\<in>set [''cache:*'']. in_glob (utf8_chars p) (utf8_chars k))) \<and>
    (\<forall>other. other \<noteq> ''alice'' \<longrightarrow> get_user m' other = get_user acl_manager_new other)"
  by (rule setuser_grants_exactly [OF ascii_case_example])
    (simp_all add: command_word_def visible_char_def get_user_def acl_manager_new_def)

section \<open>Reachable managers\<close>

text \<open>
  What changes the manager: \<open>ACL SETUSER\<close> and \<open>ACL DELUSER\<close>, successful or not, users loaded from a file,
  the switch for authentication, and the log.
\<close>

inductive acl_reachable ::
  "(bytes \<Rightarrow> bytes) \<Rightarrow> (string \<Rightarrow> string) \<Rightarrow> (string \<Rightarrow> string) \<Rightarrow> acl_manager \<Rightarrow> bool"
  for sha up dn where
  start: "acl_reachable sha up dn acl_manager_new"
| setuser: "acl_reachable sha up dn m \<Longrightarrow> handle_setuser sha up dn name rules m = Inr m' \<Longrightarrow> acl_reachable sha up dn m'"
| deluser: "acl_reachable sha up dn m \<Longrightarrow> acl_reachable sha up dn (fst (handle_deluser names m))"
| load: "acl_reachable sha up dn m \<Longrightarrow> load_acl_file sha up dn path content = Inr users \<Longrightarrow>
    acl_reachable sha up dn (fold set_user users m)"
| auth: "acl_reachable sha up dn m \<Longrightarrow> acl_reachable sha up dn (set_require_auth b m)"
| denial: "acl_reachable sha up dn m \<Longrightarrow>
    acl_reachable sha up dn (m\<lparr>acl_log := record_denial now u r obj ctx info (acl_log m)\<rparr>)"
| log_reset: "acl_reachable sha up dn m \<Longrightarrow> acl_reachable sha up dn (handle_log_reset m)"

definition user_ok :: "acl_user \<Rightarrow> bool" where
  "user_ok u \<longleftrightarrow> list_all valid_hash (password_hashes u) \<and> distinct (password_hashes u)"

definition manager_ok :: "acl_manager \<Rightarrow> bool" where
  "manager_ok m \<longleftrightarrow>
     fmlookup (acl_users m) ''default'' \<noteq> None \<and> log_ok (acl_log m) \<and>
     fmpred (\<lambda>name u. user_name u = name \<and> user_ok u) (acl_users m)"

lemma hex_digit_hexdigit: "d < 16 \<Longrightarrow> is_ascii_hexdigit (hex_digit d)"
  by (auto simp: is_ascii_hexdigit_def hex_digit_def Let_def)

lemma hash_password_valid:
  assumes "\<forall>x. length (sha x) = 32"
  shows "valid_hash (hash_password sha pw)"
proof -
  have "length (hex_encode bs) = 2 * length bs" for bs
    by (induction bs) (simp_all add: hex_encode_def Let_def)
  moreover have "list_all is_ascii_hexdigit (hex_encode bs)" for bs
  proof (induction bs)
    case (Cons c bs)
    have "(of_char c :: nat) < 16 * 16"
      by (simp add: of_char_def)
    then have "(of_char c :: nat) div 16 < 16"
      by (rule less_mult_imp_div_less)
    then show ?case
      using Cons by (simp add: hex_encode_def Let_def hex_digit_hexdigit)
  qed (simp add: hex_encode_def)
  ultimately show ?thesis
    using assms by (simp add: valid_hash_def hash_password_def)
qed

lemma on_user [simp]:
  "user_name (on_commands f u) = user_name u" "user_ok (on_commands f u) = user_ok u"
  "user_name (on_keys g u) = user_name u" "user_ok (on_keys g u) = user_ok u"
  by (simp_all add: on_commands_def on_keys_def user_ok_def)

lemma ifE:
  assumes "(if b then x else y) = z" "b \<Longrightarrow> x = z \<Longrightarrow> P" "\<not> b \<Longrightarrow> y = z \<Longrightarrow> P"
  shows P
  using assms by (auto split: if_splits)

lemma if_SomeE:
  assumes "(if b then Some f else x) = Some g" "P f" "x = Some g \<Longrightarrow> P g"
  shows "P g"
  using assms by (auto split: if_splits)

lemma word_rule_user:
  assumes "word_rule r = Some f" "user_ok u"
  shows "user_ok (f u) \<and> user_name (f u) = user_name u"
  using assms(1) unfolding word_rule_def
  by (elim if_SomeE [where P = "\<lambda>f. user_ok (f u) \<and> user_name (f u) = user_name u"])
    (use assms(2) in \<open>simp_all add: acl_user_reset_def user_ok_def on_commands_def on_keys_def\<close>)

lemma signed_rule_user:
  "plus_rule up dn rule rest u = Inr u' \<Longrightarrow> user_ok u' = user_ok u \<and> user_name u' = user_name u"
  "minus_rule up dn rule rest u = Inr u' \<Longrightarrow> user_ok u' = user_ok u \<and> user_name u' = user_name u"
  "percent_rule rule rest u = Inr u' \<Longrightarrow> user_ok u' = user_ok u \<and> user_name u' = user_name u"
  by (auto simp: plus_rule_def minus_rule_def percent_rule_def rule_error_def split: option.splits if_splits)

lemma prefix_rule_user:
  assumes sha: "\<forall>x. length (sha x) = 32" and r: "prefix_rule sha up dn rule u = Inr u'" and u: "user_ok u"
  shows "user_ok u' \<and> user_name u' = user_name u"
proof -
  have "user_ok (add_password sha pw u)" "user_ok (remove_password sha pw u)"
    "valid_hash h \<Longrightarrow> user_ok (add_password_hash h u)" for pw h
    using u hash_password_valid [OF sha, of pw]
    by (auto simp: user_ok_def add_password_def remove_password_def add_password_hash_def Let_def list_all_iff)
  moreover have "user_name (add_password sha pw u) = user_name u" "user_name (remove_password sha pw u) = user_name u"
    "user_name (add_password_hash h u) = user_name u" "user_ok (u\<lparr>password_hashes := filter Q (password_hashes u)\<rparr>)" for pw h Q
    using u by (simp_all add: add_password_def remove_password_def add_password_hash_def Let_def user_ok_def list_all_iff)
  moreover obtain c rest where rule: "rule = c # rest"
    using r by (cases rule) (auto simp: prefix_rule_def rule_error_def)
  ultimately show ?thesis
    using r u unfolding rule prefix_rule_def rule_error_def list.case
    by (elim ifE) (auto dest: signed_rule_user)
qed

lemma apply_rules_user:
  assumes "\<forall>x. length (sha x) = 32"
  shows "apply_rules sha up dn rules u = Inr u' \<Longrightarrow> user_ok u \<Longrightarrow> user_ok u' \<and> user_name u' = user_name u"
proof (induction rules arbitrary: u)
  case (Cons r rules)
  obtain v where v: "apply_rule sha up dn r u = Inr v" "apply_rules sha up dn rules v = Inr u'"
    using Cons.prems(1) by (auto split: sum.splits)
  have "user_ok v \<and> user_name v = user_name u"
    using v(1) Cons.prems(2) word_rule_user prefix_rule_user [OF assms]
    by (auto simp: apply_rule_def Let_def split: option.splits)
  then show ?case
    using Cons.IH [OF v(2)] by simp
qed simp

lemma manager_ok_set_user: "manager_ok m \<Longrightarrow> user_ok u \<Longrightarrow> manager_ok (set_user u m)"
  by (auto simp: manager_ok_def set_user_def)

lemma user_ok_new: "user_ok (acl_user_new name)"
  by (simp add: user_ok_def acl_user_new_def)

lemma manager_ok_setuser:
  assumes "\<forall>x. length (sha x) = 32" "manager_ok m" "handle_setuser sha up dn name rules m = Inr m'"
  shows "manager_ok m'"
proof -
  let ?u = "case get_user m name of Some u \<Rightarrow> u | None \<Rightarrow> acl_user_new name"
  obtain u where u: "apply_rules sha up dn rules ?u = Inr u" "m' = set_user u m"
    using assms(3) by (auto simp: handle_setuser_def Let_def split: if_splits sum.splits)
  have "user_ok ?u"
    using assms(2) user_ok_new by (auto simp: manager_ok_def get_user_def dest: fmpredD split: option.splits)
  then show ?thesis
    using apply_rules_user [OF assms(1) u(1)] manager_ok_set_user [OF assms(2)] u(2) by simp
qed

lemma manager_ok_deluser_loop: "manager_ok m \<Longrightarrow> manager_ok (fst (deluser_loop names n m))"
proof (induction names arbitrary: n m)
  case (Cons name names)
  show ?case
  proof (cases "name = ''default''")
    case False
    then have "manager_ok (m\<lparr>acl_users := fmdrop name (acl_users m)\<rparr>)"
      using Cons.prems by (auto simp: manager_ok_def intro: fmpred_drop)
    then show ?thesis
      using False Cons.IH by (simp add: del_user_def)
  qed (use Cons.prems in \<open>simp add: del_user_def\<close>)
qed simp

lemma load_lines_users:
  assumes "\<forall>x. length (sha x) = 32"
  shows "load_lines sha up dn path n ls us = Inr vs \<Longrightarrow> list_all user_ok us \<Longrightarrow> list_all user_ok vs"
proof (induction ls arbitrary: n us)
  case (Cons l ls)
  have "user_ok u" if "parse_user_line sha up dn line path n = Inr u" for line u
    using that apply_rules_user [OF assms _ user_ok_new]
    by (auto simp: parse_user_line_def Let_def split: if_splits sum.splits)
  then show ?case
    using Cons by (auto simp: Let_def split: if_splits sum.splits)
qed simp

lemma manager_ok_fold: "manager_ok m \<Longrightarrow> list_all user_ok us \<Longrightarrow> manager_ok (fold set_user us m)"
  by (induction us arbitrary: m) (simp_all add: manager_ok_set_user)

lemma reachable_manager_ok:
  assumes "\<forall>x. length (sha x) = 32" "acl_reachable sha up dn m"
  shows "manager_ok m"
  using assms(2)
proof induction
  case start
  then show ?case
    by (auto simp: manager_ok_def acl_manager_new_def acl_default_user_def user_ok_def log_ok_new fmpred_iff split: if_splits)
next
  case (setuser m name rules m')
  then show ?case
    using manager_ok_setuser [OF assms(1)] by blast
next
  case (deluser m names)
  then show ?case
    by (simp add: handle_deluser_def manager_ok_deluser_loop)
next
  case (load m path content users)
  then show ?case
    using load_lines_users [OF assms(1)] by (auto simp: load_acl_file_def intro: manager_ok_fold)
next
  case (denial m now u r obj ctx info)
  then show ?case
    using record_denial_step by (simp add: manager_ok_def)
next
  case (log_reset m)
  then show ?case
    by (auto simp: manager_ok_def handle_log_reset_def acl_log_reset_def log_ok_def)
qed (simp add: manager_ok_def set_require_auth_def)

text \<open>
  Invariant: in every reachable manager the user \<open>default\<close> exists, every user is stored under its own
  name, every stored password hash is 64 hexadecimal digits and stored once, and the denial log
  keeps its invariants. SHA-256 digests are 32 bytes.
\<close>

theorem acl_manager_invariants:
  assumes "\<forall>x. length (sha x) = 32" "acl_reachable sha up dn m"
  shows "acl_default m \<noteq> None \<and>
    (\<forall>name u. get_user m name = Some u \<longrightarrow>
       user_name u = name \<and> list_all valid_hash (password_hashes u) \<and> distinct (password_hashes u)) \<and>
    acl_log_invariants (acl_log m)"
  using reachable_manager_ok [OF assms] log_ok_invariants
  by (auto simp: manager_ok_def acl_default_def get_user_def user_ok_def fmpred_iff)

theorem acl_manager_invariants_witness:
  "\<exists>u. get_user acl_manager_new ''default'' = Some u \<and> user_name u = ''default'' \<and>
    list_all valid_hash (password_hashes u) \<and> acl_log_invariants (acl_log acl_manager_new)"
proof -
  have "\<forall>x. length (replicate 32 CHR ''x'') = 32"
    by simp
  from acl_manager_invariants [OF this acl_reachable.start] show ?thesis
    unfolding acl_default_def get_user_def by blast
qed

text \<open>
  The two other invariants of \<open>verify_invariants\<close> are not kept: \<open>ACL SETUSER default off\<close> disables the
  default user, and \<open>SETUSER\<close> accepts the empty name.
\<close>

theorem setuser_breaks_invariants:
  "acl_invariants acl_manager_new \<and>
   (\<exists>m. handle_setuser sha up dn ''default'' [''off''] acl_manager_new = Inr m \<and> \<not> acl_invariants m) \<and>
   (\<exists>m. handle_setuser sha up dn [] [] acl_manager_new = Inr m \<and> \<not> acl_invariants m)"
  by (auto simp: acl_invariants_def acl_manager_new_def handle_setuser_def get_user_def set_user_def
      acl_default_user_def acl_user_new_def)

end
