(* ===== verification/Acl_File_Laws.thy ===== *)
theory Acl_File_Laws
  imports Acl_Laws
begin

text \<open>
  Saving users to an ACL file and loading them back: the loaded users have the same names, flags and
  passwords and are allowed and refused the same commands and keys.
\<close>

section \<open>Lines\<close>

definition line_ok :: "string \<Rightarrow> bool" where
  "line_ok l \<longleftrightarrow> newline \<notin> set l \<and> CHR 0x0D \<notin> set l"

lemma split_lines_line: "newline \<notin> set l \<Longrightarrow> split_lines acc (l @ newline # s) = chomp_cr (acc @ l) # split_lines [] s"
  by (induction l arbitrary: acc) auto

lemma chomp_cr_id: "CHR 0x0D \<notin> set l \<Longrightarrow> chomp_cr l = l"
  by (auto simp: chomp_cr_def dest: last_in_set)

lemma file_lines_concat:
  "list_all line_ok ls \<Longrightarrow> file_lines (concat (map writeln ls)) = ls"
  by (induction ls) (simp_all add: file_lines_def writeln_def line_ok_def split_lines_line chomp_cr_id)

lemma join_chars:
  "list_all (\<lambda>w. w \<noteq> [] \<and> printable w) ws \<Longrightarrow> c \<in> set (join '' '' ws) \<Longrightarrow> visible_char c \<or> c = CHR '' ''"
  by (induction ws rule: induct_list012) (auto simp: printable_def list_all_iff)

lemma join_ends:
  assumes "ws \<noteq> []" "list_all (\<lambda>w. w \<noteq> [] \<and> printable w) ws"
  shows "join '' '' ws \<noteq> [] \<and> hd (join '' '' ws) = hd (hd ws) \<and> visible_char (last (join '' '' ws))"
  using assms by (induction ws rule: induct_list012) (auto simp: printable_def list_all_iff)

lemma join_line:
  assumes "ws \<noteq> []" "list_all (\<lambda>w. w \<noteq> [] \<and> printable w) ws"
  shows "line_ok (join '' '' ws)" "trim (join '' '' ws) = join '' '' ws"
proof -
  show "line_ok (join '' '' ws)"
    using join_chars [OF assms(2)] by (force simp: line_ok_def newline_def visible_char_def)
  have "visible_char (hd (hd ws))"
    using assms by (cases ws) (auto simp: printable_def list_all_iff)
  then show "trim (join '' '' ws) = join '' '' ws"
    using join_ends [OF assms] by (intro trim_visible) auto
qed

section \<open>One user\<close>

text \<open>
  What a file can hold: a visible name, valid hashes, visible patterns and command names; no command
  is both allowed and denied; the category \<open>all\<close> is not among the denied ones; and when all
  commands are allowed, no single command is allowed against a denied category.
\<close>

definition acl_storable :: "acl_user \<Rightarrow> bool" where
  "acl_storable u \<longleftrightarrow>
     user_name u \<noteq> [] \<and> printable (user_name u) \<and> user_ok u \<and>
     (kps_allow_all (user_keys u) \<or> list_all (\<lambda>p. printable (kp_pattern p)) (kps_patterns (user_keys u))) \<and>
     fBall (cp_allowed (user_commands u) |\<union>| cp_denied (user_commands u)) (\<lambda>s. command_word s \<and> map upper_char s = s) \<and>
     cp_allowed (user_commands u) |\<inter>| cp_denied (user_commands u) = {||} \<and>
     CatAll |\<notin>| cp_denied_categories (user_commands u) \<and>
     (cp_allow_all (user_commands u) \<longrightarrow>
        fBall (cp_allowed (user_commands u)) (\<lambda>cmd.
          fBall (cp_denied_categories (user_commands u)) (\<lambda>cat. cmd \<notin> set (category_commands cat))))"

definition same_access :: "(string \<Rightarrow> string) \<Rightarrow> acl_user \<Rightarrow> acl_user \<Rightarrow> bool" where
  "same_access up u v \<longleftrightarrow>
     user_name v = user_name u \<and> user_enabled v = user_enabled u \<and> nopass v = nopass u \<and>
     password_hashes v = password_hashes u \<and>
     (\<forall>cmd. is_command_permitted up (user_commands v) cmd = is_command_permitted up (user_commands u) cmd) \<and>
     (\<forall>key. is_key_permitted (user_keys v) key = is_key_permitted (user_keys u) key)"

definition restored_keys :: "key_patterns \<Rightarrow> key_patterns" where
  "restored_keys k =
     (if kps_allow_all k then key_patterns_deny_all\<lparr>kps_allow_all := True\<rparr>
      else fold grant_pattern (map kp_pattern (kps_patterns k)) key_patterns_deny_all)"

definition restored_commands :: "command_permissions \<Rightarrow> command_permissions" where
  "restored_commands c =
     (let cats = (if cp_allow_all c then {|CatAll|} else cp_categories c)
      in \<lparr>cp_allow_all = cp_allow_all c \<or> CatAll |\<in>| cats, cp_denied = cp_denied c,
          cp_allowed = (if cp_allow_all c then {||} else cp_allowed c),
          cp_categories = cats |-| cp_denied_categories c, cp_denied_categories = cp_denied_categories c\<rparr>)"

lemma restored_keys_same: "is_key_permitted (restored_keys k) key = is_key_permitted k key"
  by (auto simp: restored_keys_def granted_patterns)
    (auto simp: is_key_permitted_def key_patterns_deny_all_def pattern_matches_def list_ex_iff)

lemma restored_commands_same:
  assumes "CatAll |\<notin>| cp_denied_categories c"
    and "cp_allow_all c \<longrightarrow> fBall (cp_allowed c) (\<lambda>cmd.
          fBall (cp_denied_categories c) (\<lambda>cat. cmd \<notin> set (category_commands cat)))"
  shows "is_command_permitted up (restored_commands c) cmd = is_command_permitted up c cmd"
proof (cases "cp_allow_all c")
  case True
  then show ?thesis
    using assms by (auto simp: is_command_permitted_def restored_commands_def Let_def)
next
  case False
  then show ?thesis
    using assms(1) by (auto simp: is_command_permitted_def restored_commands_def Let_def)
qed

lemma lower_command:
  assumes "ascii_case up dn" "command_word s" "map upper_char s = s"
  shows "dn s = map lower_char s" "command_word (dn s)" "up (dn s) = s"
proof -
  have s: "printable s"
    using assms(2) by (simp add: command_word_def)
  show dn: "dn s = map lower_char s"
    using assms(1) s by (simp add: ascii_caseD(2) printable_ascii)
  have low: "visible_char (lower_char c)" "lower_char c = CHR ''@'' \<longleftrightarrow> c = CHR ''@''" if "visible_char c" for c
    using that by (auto simp: visible_char_def lower_char_def Let_def char_of_eq_iff take_bit_eq_mod)
  then have p: "printable (map lower_char s)"
    using s by (auto simp: printable_def list_all_iff)
  have "take 1 (map lower_char s) \<noteq> ''@''"
    using assms(2) s low by (cases s) (auto simp: command_word_def)
  then show "command_word (dn s)"
    using p by (simp add: dn command_word_def)
  have "up (map lower_char s) = map upper_char (map lower_char s)"
    by (rule ascii_caseD(1) [OF assms(1) printable_ascii [OF p]])
  also have "\<dots> = map upper_char s"
    by (simp add: upper_lower_char)
  finally show "up (dn s) = s"
    using assms(3) by (simp add: dn)
qed

lemma fset_of_it: "enumerates it \<Longrightarrow> fset_of_list (it S) = S"
  by (metis enumerates_set fset_inject fset_of_list.rep_eq)

subsection \<open>The groups of words\<close>

lemma load_patterns:
  assumes "kps_allow_all k \<or> list_all (\<lambda>p. printable (kp_pattern p)) (kps_patterns k)" "user_keys u = key_patterns_deny_all"
  shows "apply_rules sha up dn (if kps_allow_all k then [''~*''] else map (\<lambda>p. ''~'' @ kp_pattern p) (kps_patterns k)) u =
    Inr (u\<lparr>user_keys := restored_keys k\<rparr>)"
proof (cases "kps_allow_all k")
  case False
  have "apply_rules sha up dn (map (\<lambda>p. ''~'' @ kp_pattern p) (kps_patterns k)) u =
      Inr (fold (\<lambda>p. on_keys (grant_pattern (kp_pattern p))) (kps_patterns k) u)"
    using assms(1) False by (intro apply_rules_map) (auto simp: rule_pattern list_all_iff)
  then show ?thesis
    using False assms(2) by (simp add: restored_keys_def fold_on_keys fold_map on_keys_def comp_def)
qed (use assms(2) in \<open>simp add: restored_keys_def on_keys_def\<close>)

lemma load_categories:
  assumes "ascii_case up dn" "enumerates itc"
  shows "apply_rules sha up dn (map (\<lambda>cat. ''+@'' @ format_category_name cat) (itc S)) u =
    Inr (on_commands (\<lambda>c. c\<lparr>cp_allow_all := cp_allow_all c \<or> CatAll |\<in>| S, cp_categories := cp_categories c |\<union>| S\<rparr>) u)"
  using assms
  by (subst apply_rules_map [where g = "\<lambda>cat. on_commands (grant_category cat)"])
    (simp_all add: rule_category [OF assms(1)] fold_on_commands fold_grant_category [abs_def] fset_of_it on_commands_def)

lemma load_denied_categories:
  assumes "ascii_case up dn" "enumerates itc" "CatAll |\<notin>| S"
  shows "apply_rules sha up dn (map (\<lambda>cat. ''-@'' @ format_category_name cat) (itc S)) u =
    Inr (on_commands (\<lambda>c. c\<lparr>cp_categories := cp_categories c |-| S, cp_denied_categories := cp_denied_categories c |\<union>| S\<rparr>) u)"
proof -
  have "cat \<noteq> CatAll" if "cat \<in> set (itc S)" for cat
    using assms(2,3) that by auto
  then show ?thesis
    using assms
    by (subst apply_rules_map [where g = "\<lambda>cat. on_commands (remove_category cat)"])
      (simp_all add: rule_category [OF assms(1)] fold_on_commands fold_remove_category fset_of_it on_commands_def)
qed

lemma load_commands:
  assumes "ascii_case up dn" "enumerates it" "fBall S (\<lambda>s. command_word s \<and> map upper_char s = s)"
  shows "cp_denied (user_commands u) = {||} \<Longrightarrow>
      apply_rules sha up dn (map (\<lambda>cmd. ''+'' @ dn cmd) (it S)) u =
      Inr (on_commands (\<lambda>c. c\<lparr>cp_allowed := cp_allowed c |\<union>| S\<rparr>) u)"
    "cp_allowed (user_commands u) |\<inter>| S = {||} \<Longrightarrow>
      apply_rules sha up dn (map (\<lambda>cmd. ''-'' @ dn cmd) (it S)) u =
      Inr (on_commands (\<lambda>c. c\<lparr>cp_denied := cp_denied c |\<union>| S\<rparr>) u)"
proof -
  have words: "command_word (dn s)" "up (dn s) = s" if "s \<in> set (it S)" for s
    using assms that lower_command [OF assms(1), of s] by auto
  have ups: "map (up \<circ> dn) (it S) = it S"
    using words(2) by (simp add: map_idI)
  have S: "fset_of_list (map up (map dn (it S))) = S"
    using fset_of_it [OF assms(2)] ups by simp
  have plus: "apply_rules sha up dn (map (\<lambda>cmd. ''+'' @ dn cmd) (it S)) u =
      Inr (on_commands (fold (grant_command up) (map dn (it S))) u)"
    by (subst apply_rules_map [where g = "\<lambda>cmd. on_commands (grant_command up (dn cmd))"])
      (simp_all add: rule_plus_minus words fold_on_commands fold_map comp_def)
  show "apply_rules sha up dn (map (\<lambda>cmd. ''+'' @ dn cmd) (it S)) u =
      Inr (on_commands (\<lambda>c. c\<lparr>cp_allowed := cp_allowed c |\<union>| S\<rparr>) u)" if "cp_denied (user_commands u) = {||}"
    unfolding plus on_commands_def fold_grant_command [OF that] S ..
  have minus: "apply_rules sha up dn (map (\<lambda>cmd. ''-'' @ dn cmd) (it S)) u =
      Inr (on_commands (fold (refuse_command up) (map dn (it S))) u)"
    by (subst apply_rules_map [where g = "\<lambda>cmd. on_commands (refuse_command up (dn cmd))"])
      (simp_all add: rule_plus_minus words fold_on_commands fold_map comp_def)
  show "apply_rules sha up dn (map (\<lambda>cmd. ''-'' @ dn cmd) (it S)) u =
      Inr (on_commands (\<lambda>c. c\<lparr>cp_denied := cp_denied c |\<union>| S\<rparr>) u)" if "cp_allowed (user_commands u) |\<inter>| S = {||}"
    using fold_refuse_command [of "user_commands u" up "map dn (it S)"] that S
    unfolding minus on_commands_def by simp
qed

lemma load_hashes:
  assumes "list_all valid_hash hs" "distinct (password_hashes u @ hs)"
  shows "apply_rules sha up dn (map (\<lambda>h. ''#'' @ h) hs) u = Inr (u\<lparr>password_hashes := password_hashes u @ hs\<rparr>)"
  using assms by (subst apply_rules_map [where g = add_password_hash])
    (auto simp: rule_hash list_all_iff fold_add_password_hash)

lemma load_flags:
  "apply_rules sha up dn ([if b then ''on'' else ''off''] @ (if n then [''nopass''] else [])) (acl_user_new name) =
     Inr ((acl_user_new name)\<lparr>user_enabled := b, nopass := n\<rparr>)"
  by (simp add: acl_user_new_def)

definition command_words ::
  "(string \<Rightarrow> string) \<Rightarrow> order \<Rightarrow> (command_category fset \<Rightarrow> command_category list) \<Rightarrow> command_permissions \<Rightarrow> string list" where
  "command_words dn it itc c =
     (if cp_allow_all c then [''+@all''] @ denial_words dn it itc c
      else [''-@all''] @ map (\<lambda>cat. ''+@'' @ format_category_name cat) (itc (cp_categories c)) @
           map (\<lambda>cmd. ''+'' @ dn cmd) (it (cp_allowed c)) @ denial_words dn it itc c)"

lemma load_denials:
  assumes "ascii_case up dn" "enumerates it" "enumerates itc" "CatAll |\<notin>| cp_denied_categories c"
    and "fBall (cp_denied c) (\<lambda>s. command_word s \<and> map upper_char s = s)" "cp_allowed (user_commands u) |\<inter>| cp_denied c = {||}"
  shows "apply_rules sha up dn (denial_words dn it itc c) u =
    Inr (on_commands (\<lambda>p. p\<lparr>cp_categories := cp_categories p |-| cp_denied_categories c,
      cp_denied_categories := cp_denied_categories p |\<union>| cp_denied_categories c, cp_denied := cp_denied p |\<union>| cp_denied c\<rparr>) u)"
  using assms(6)
  by (simp add: denial_words_def apply_rules_append load_denied_categories [OF assms(1,3,4), simplified] on_commands_def
      load_commands(2) [OF assms(1,2,5), simplified])

lemma load_permissions:
  assumes "ascii_case up dn" "enumerates it" "enumerates itc" "CatAll |\<notin>| cp_denied_categories c"
    and words: "fBall (cp_allowed c |\<union>| cp_denied c) (\<lambda>s. command_word s \<and> map upper_char s = s)"
    and "cp_allowed c |\<inter>| cp_denied c = {||}" and u: "user_commands u = permissions_deny_all"
  shows "apply_rules sha up dn (command_words dn it itc c) u = Inr (u\<lparr>user_commands := restored_commands c\<rparr>)"
proof -
  have denied: "fBall (cp_denied c) (\<lambda>s. command_word s \<and> map upper_char s = s)"
    and allowed: "fBall (cp_allowed c) (\<lambda>s. command_word s \<and> map upper_char s = s)"
    using words by auto
  note den = load_denials [OF assms(1-4) denied]
  show ?thesis
  proof (cases "cp_allow_all c")
    case True
    then show ?thesis
      by (simp add: command_words_def den on_commands_def u permissions_deny_all_def restored_commands_def)
  next
    case False
    then show ?thesis
      using assms(6)
      by (simp add: command_words_def apply_rules_append load_categories [OF assms(1,3), simplified]
          load_commands(1) [OF assms(1,2) allowed, simplified] den on_commands_def u permissions_deny_all_def restored_commands_def Let_def)
  qed
qed

lemma acl_words_split:
  "acl_words dn it itc u =
     ([if user_enabled u then ''on'' else ''off''] @ (if nopass u then [''nopass''] else [])) @
     map (\<lambda>h. ''#'' @ h) (password_hashes u) @ [''sanitize-payload''] @
     (if kps_allow_all (user_keys u) then [''~*''] else map (\<lambda>p. ''~'' @ kp_pattern p) (kps_patterns (user_keys u))) @
     [''&*''] @ command_words dn it itc (user_commands u)"
  by (simp add: acl_words_def command_words_def Let_def)

definition restored :: "acl_user \<Rightarrow> acl_user" where
  "restored u = u\<lparr>user_keys := restored_keys (user_keys u), user_commands := restored_commands (user_commands u)\<rparr>"

lemma apply_rules_then: "apply_rules sha up dn rs u = Inr v \<Longrightarrow> apply_rules sha up dn (rs @ qs) u = apply_rules sha up dn qs v"
  by (simp add: apply_rules_append)

lemma load_words:
  assumes "ascii_case up dn" "enumerates it" "enumerates itc" and st: "acl_storable u"
  shows "apply_rules sha up dn (acl_words dn it itc u) (acl_user_new (user_name u)) = Inr (restored u)"
proof -
  have ok: "list_all valid_hash (password_hashes u)" "distinct (password_hashes u)"
    "kps_allow_all (user_keys u) \<or> list_all (\<lambda>p. printable (kp_pattern p)) (kps_patterns (user_keys u))"
    using st by (simp_all add: acl_storable_def user_ok_def)
  have perms: "apply_rules sha up dn (command_words dn it itc (user_commands u)) v = Inr (v\<lparr>user_commands := restored_commands (user_commands u)\<rparr>)"
    if "user_commands v = permissions_deny_all" for v
    using st that by (intro load_permissions [OF assms(1-3)]) (auto simp: acl_storable_def)
  define v1 where "v1 = (acl_user_new (user_name u))\<lparr>user_enabled := user_enabled u, nopass := nopass u\<rparr>"
  define v2 where "v2 = v1\<lparr>password_hashes := password_hashes v1 @ password_hashes u\<rparr>"
  define v3 where "v3 = v2\<lparr>user_keys := restored_keys (user_keys u)\<rparr>"
  have v: "password_hashes v1 = []" "user_keys v2 = key_patterns_deny_all" "user_commands v3 = permissions_deny_all"
    by (simp_all add: v1_def v2_def v3_def acl_user_new_def)
  have flags: "apply_rules sha up dn ([if user_enabled u then ''on'' else ''off''] @ (if nopass u then [''nopass''] else []))
      (acl_user_new (user_name u)) = Inr v1"
    unfolding v1_def by (rule load_flags)
  have hashes: "apply_rules sha up dn (map (\<lambda>h. ''#'' @ h) (password_hashes u)) v1 = Inr v2"
    unfolding v2_def using ok v(1) by (intro load_hashes) simp_all
  have noop: "apply_rules sha up dn [''sanitize-payload''] w = Inr w" "apply_rules sha up dn [''&*''] w = Inr w" for w
    by simp_all
  have v3: "v3\<lparr>user_commands := restored_commands (user_commands u)\<rparr> = restored u"
    by (simp add: v1_def v2_def v3_def acl_user_new_def restored_def)
  show ?thesis
    by (simp only: acl_words_split apply_rules_then [OF flags] apply_rules_then [OF hashes] apply_rules_then [OF noop(1)]
        apply_rules_then [OF load_patterns [OF ok(3) v(2)]] apply_rules_then [OF noop(2)] v3_def [symmetric] perms [OF v(3)] v3)
qed

lemma words_printable:
  assumes "ascii_case up dn" "enumerates it" "enumerates itc" "acl_storable u"
  shows "list_all (\<lambda>w. w \<noteq> [] \<and> printable w) (acl_words dn it itc u)"
proof -
  have cmd: "printable (dn s)" if "s |\<in>| cp_allowed (user_commands u) \<or> s |\<in>| cp_denied (user_commands u)" for s
    using lower_command(2) [OF assms(1), of s] assms(4) that by (auto simp: acl_storable_def command_word_def)
  have hash: "printable h" if "h \<in> set (password_hashes u)" for h
    using assms(4) that by (auto simp: acl_storable_def user_ok_def list_all_iff intro: valid_hash_printable)
  have pat: "printable (kp_pattern p)" if "\<not> kps_allow_all (user_keys u)" "p \<in> set (kps_patterns (user_keys u))" for p
    using assms(4) that by (auto simp: acl_storable_def list_all_iff)
  have "list_all (\<lambda>w. w \<noteq> [] \<and> printable w) (command_words dn it itc (user_commands u))"
    using assms(2,3) cmd
    by (auto simp: command_words_def denial_words_def list_all_iff visible_char_def printable_category)
  then show ?thesis
    using hash pat by (auto simp: acl_words_split list_all_iff visible_char_def)
qed

lemma to_acl_string_join: "to_acl_string dn it itc u = join '' '' (''user'' # user_name u # acl_words dn it itc u)"
  by (cases "acl_words dn it itc u") (simp_all add: to_acl_string_def)

lemma load_line:
  assumes "ascii_case up dn" "enumerates it" "enumerates itc" "acl_storable u"
  shows "line_ok (to_acl_string dn it itc u)" "trim (to_acl_string dn it itc u) = to_acl_string dn it itc u"
    "take 1 (to_acl_string dn it itc u) = ''u''"
    "parse_user_line sha up dn (to_acl_string dn it itc u) path n = Inr (restored u)"
proof -
  let ?ws = "''user'' # user_name u # acl_words dn it itc u"
  have ws: "list_all (\<lambda>w. w \<noteq> [] \<and> printable w) ?ws"
    using words_printable [OF assms] assms(4) by (simp add: acl_storable_def visible_char_def)
  show "line_ok (to_acl_string dn it itc u)" "trim (to_acl_string dn it itc u) = to_acl_string dn it itc u"
    using join_line [OF _ ws] by (simp_all add: to_acl_string_join)
  show "take 1 (to_acl_string dn it itc u) = ''u''"
    by (simp add: to_acl_string_def) (cases "acl_words dn it itc u"; simp)
  have "dn ''user'' = ''user''"
    using assms(1) by (simp add: ascii_caseD(2) ascii_def lower_char_def)
  then show "parse_user_line sha up dn (to_acl_string dn it itc u) path n = Inr (restored u)"
    using split_join [OF ws] load_words [OF assms] by (simp add: parse_user_line_def to_acl_string_join)
qed

lemma restored_same: "acl_storable u \<Longrightarrow> same_access up u (restored u)"
  using restored_commands_same [of "user_commands u"]
  by (simp add: same_access_def restored_def restored_keys_same acl_storable_def)

section \<open>Files\<close>

lemma load_user_lines:
  assumes "ascii_case up dn" "enumerates it" "enumerates itc" "list_all acl_storable us"
  shows "load_lines sha up dn path n (map (to_acl_string dn it itc) us) vs = Inr (vs @ map restored us)"
  using assms(4)
proof (induction us arbitrary: n vs)
  case (Cons u us)
  note line = load_line [OF assms(1-3), of u]
  have u: "acl_storable u"
    using Cons.prems by simp
  have "to_acl_string dn it itc u \<noteq> []" "hd (to_acl_string dn it itc u) \<noteq> CHR ''#''"
    using line(3) [OF u] by (cases "to_acl_string dn it itc u"; simp)+
  then show ?case
    using Cons line(2,4) [OF u] by simp
qed simp



text \<open>
  Outside these conditions the saved file can mean something else. \<open>ACL SETUSER u +@all -@allcommands\<close> leaves
  every command allowed (the category \<open>all\<close> has no commands to deny), but the file says \<open>-@all\<close>, and the
  loaded user is refused every command. And a category that was denied once stays denied: \<open>+@read\<close> after \<open>-@read\<close>
  does not give \<open>GET\<close> back.
\<close>

lemma enumerates_single: "enumerates it \<Longrightarrow> it {||} = []" "enumerates it \<Longrightarrow> it {|x|} = [x]"
proof -
  assume it: "enumerates it"
  then show "it {||} = []"
    by (metis bot_fset.rep_eq enumerates_set set_empty)
  have "set (it {|x|}) = {x}" "length (it {|x|}) = 1"
    using it by (simp_all add: fcard.rep_eq)
  then show "it {|x|} = [x]"
    by (cases "it {|x|}") auto
qed

theorem denied_category_rules:
  assumes "ascii_case up dn" "enumerates it" "enumerates itc"
  shows "\<exists>v w. apply_rules sha up dn [''+@all'', ''-@allcommands''] (acl_user_new ''u'') = Inr v \<and>
    is_command_permitted up (user_commands v) ''GET'' \<and>
    parse_user_line sha up dn (to_acl_string dn it itc v) path n = Inr w \<and>
    \<not> is_command_permitted up (user_commands w) ''GET''"
proof -
  define c where "c = \<lparr>cp_allow_all = True, cp_denied = {||}, cp_allowed = {||}, cp_categories = {||}, cp_denied_categories = {|CatAll|}\<rparr>"
  define v where "v = (acl_user_new ''u'')\<lparr>user_commands := c\<rparr>"
  have all: "category_from_str dn ''allcommands'' = Some CatAll"
    using assms(1) by (simp add: category_from_str_def category_names_def ascii_caseD(2) ascii_def lower_char_def)
  have rule: "apply_rule sha up dn ''-@allcommands'' w = Inr (on_commands (remove_category CatAll) w)" for w
    by (simp add: apply_prefix visible_char_def word_rule_def prefix_rule_def minus_rule_def all)
  have v: "apply_rules sha up dn [''+@all'', ''-@allcommands''] (acl_user_new ''u'') = Inr v"
    by (simp add: rule v_def c_def on_commands_def remove_category_def acl_user_new_def permissions_deny_all_def)
  have words: "acl_words dn it itc v = [''off'', ''sanitize-payload'', ''&*'', ''+@all'', ''-@all'']"
    using enumerates_single [OF assms(2)] enumerates_single [OF assms(3)]
    by (simp add: acl_words_def denial_words_def v_def c_def acl_user_new_def key_patterns_deny_all_def Let_def)
  have "split_whitespace (to_acl_string dn it itc v) = [''user'', ''u'', ''off'', ''sanitize-payload'', ''&*'', ''+@all'', ''-@all'']"
    unfolding to_acl_string_join words by (subst split_join) (simp_all add: visible_char_def v_def acl_user_new_def)
  then have "\<exists>w. parse_user_line sha up dn (to_acl_string dn it itc v) path n = Inr w \<and> user_commands w = permissions_deny_all"
    using assms(1) by (simp add: parse_user_line_def ascii_caseD(2) ascii_def lower_char_def on_commands_def acl_user_new_def
        permissions_deny_all_def)
  moreover have "is_command_permitted up c ''GET''" "\<not> is_command_permitted up permissions_deny_all ''GET''"
    by (simp_all add: is_command_permitted_def c_def permissions_deny_all_def Let_def)
  ultimately show ?thesis
    using v by (force simp: v_def)
qed

theorem denied_category_stays_denied:
  assumes "ascii_case up dn"
  shows "\<exists>v. apply_rules sha up dn [''+@all'', ''-@read'', ''+@read''] (acl_user_new ''u'') = Inr v \<and>
    \<not> is_command_permitted up (user_commands v) ''GET''"
proof -
  have "up ''GET'' = ''GET''"
    using assms by (simp add: ascii_caseD(1) ascii_def upper_char_def)
  then show ?thesis
    using rule_category(1) [OF assms, of sha CatRead] rule_category(2) [OF assms, of CatRead sha]
    by (simp add: on_commands_def remove_category_def grant_category_def add_category_def is_command_permitted_def
        acl_user_new_def permissions_deny_all_def)
qed

end
