(* ===== verification/Wal.thy ===== *)
theory Wal
  imports Text_Lib "HOL-Library.Finite_Map"
begin

text \<open>
  The write-ahead log (\<open>src/streaming/wal.rs\<close>, \<open>wal_store.rs\<close>, \<open>wal_actor.rs\<close>): the format of an entry, writer,
  reader, the rotator over several files, and the actor that groups writes under one \<open>fsync\<close>.

  The files are those of \<open>InMemoryWalStore\<close>, a map from names to bytes with the position up to which they
  are synced; the faults of \<open>SimulatedWalStore\<close> are arguments of the operations that can fail.
  \<open>crc\<close> stands for the CRC-32 of the crate \<open>crc32fast\<close>. A panic is \<open>None\<close>.
\<close>

section \<open>Entries\<close>

record wal_entry =
  entry_data :: bytes
  entry_timestamp :: u64
  entry_checksum :: "32 word"

type_synonym crc32 = "bytes \<Rightarrow> 32 word"

text \<open>\<open>ser\<close> and \<open>des\<close> stand for the serializer of the crate \<open>bincode\<close>; an error carries its text.\<close>

datatype wal_error =
    WalIo string
  | Corruption string
  | WalNotFound string
  | DiskFull
  | FsyncFailed string
  | PartialWrite usize usize

fun wal_error_text :: "wal_error \<Rightarrow> string" where
  "wal_error_text (WalIo e) = ''WAL I/O error: '' @ e"
| "wal_error_text (Corruption msg) = ''WAL corruption: '' @ msg"
| "wal_error_text (WalNotFound name) = ''WAL file not found: '' @ name"
| "wal_error_text DiskFull = ''WAL disk full''"
| "wal_error_text (FsyncFailed msg) = ''WAL fsync failed: '' @ msg"
| "wal_error_text (PartialWrite expected actual) =
     ''WAL partial write: expected '' @ show_nat expected @ '' bytes, wrote '' @ show_nat actual"

definition from_delta :: "('d \<Rightarrow> string + bytes) \<Rightarrow> crc32 \<Rightarrow> 'd \<Rightarrow> u64 \<Rightarrow> wal_error + wal_entry" where
  "from_delta ser crc delta timestamp =
     (case ser delta of
        Inl msg \<Rightarrow> Inl (Corruption (''serialize: '' @ msg))
      | Inr d \<Rightarrow> Inr \<lparr>entry_data = d, entry_timestamp = timestamp, entry_checksum = crc d\<rparr>)"

definition to_delta :: "(bytes \<Rightarrow> string + 'd) \<Rightarrow> wal_entry \<Rightarrow> wal_error + 'd" where
  "to_delta des e =
     (case des (entry_data e) of Inl msg \<Rightarrow> Inl (Corruption (''deserialize: '' @ msg)) | Inr d \<Rightarrow> Inr d)"

definition wal_validate :: "crc32 \<Rightarrow> wal_entry \<Rightarrow> bool" where
  "wal_validate crc e \<longleftrightarrow> crc (entry_data e) = entry_checksum e"

definition disk_size :: "wal_entry \<Rightarrow> usize" where
  "disk_size e = 16 + length (entry_data e)"

text \<open>The length field holds the length modulo \<open>2 ^ 32\<close>, the cast \<open>as u32\<close>.\<close>

definition wal_encode :: "wal_entry \<Rightarrow> bytes" where
  "wal_encode e =
     to_le 4 (length (entry_data e)) @ to_le 8 (unat (entry_timestamp e)) @ to_le 4 (unat (entry_checksum e)) @
     entry_data e"

definition wal_decode :: "crc32 \<Rightarrow> bytes \<Rightarrow> (wal_entry \<times> usize) option" where
  "wal_decode crc d =
     (if length d < 16 then None
      else let data_len = from_le (take 4 d); timestamp = of_nat (from_le (take 8 (drop 4 d)));
               checksum = of_nat (from_le (take 4 (drop 12 d))); total_size = 16 + data_len
           in if length d < total_size then None
              else let payload = take data_len (drop 16 d)
                   in if crc payload \<noteq> checksum then None
                      else Some (\<lparr>entry_data = payload, entry_timestamp = timestamp, entry_checksum = checksum\<rparr>, total_size))"

section \<open>Files\<close>

record wal_file =
  file_data :: bytes
  synced_pos :: usize

type_synonym wal_store = "(string, wal_file) fmap"

text \<open>
  What the simulated store may do to a write: refuse it as a full disk or a failed write, or write
  the first \<open>n\<close> bytes and fail.
\<close>

datatype write_fault = NoFault | FaultDiskFull | FaultWrite | FaultPartial usize

text \<open>\<open>InMemoryWalWriter::append\<close> and \<open>sync\<close>, \<open>InMemoryWalStore::create\<close>, \<open>list\<close>, \<open>simulate_crash\<close>.\<close>

definition mem_append :: "string \<Rightarrow> bytes \<Rightarrow> wal_store \<Rightarrow> (wal_store \<times> u64) option" where
  "mem_append name d st =
     map_option (\<lambda>f. (fmupd name (f\<lparr>file_data := file_data f @ d\<rparr>) st, of_nat (length (file_data f @ d))))
       (fmlookup st name)"

definition mem_sync :: "string \<Rightarrow> wal_store \<Rightarrow> wal_store" where
  "mem_sync name st =
     (case fmlookup st name of
        Some f \<Rightarrow> fmupd name (f\<lparr>synced_pos := length (file_data f)\<rparr>) st | None \<Rightarrow> st)"

definition mem_create :: "string \<Rightarrow> wal_store \<Rightarrow> wal_store" where
  "mem_create name st = fmupd name \<lparr>file_data = [], synced_pos = 0\<rparr> st"

definition mem_list :: "wal_store \<Rightarrow> string list" where
  "mem_list st = sorted_list_of_fset (fmdom st)"

definition simulate_crash :: "wal_store \<Rightarrow> wal_store" where
  "simulate_crash st = fmmap (\<lambda>f. f\<lparr>file_data := take (synced_pos f) (file_data f)\<rparr>) st"

text \<open>\<open>SimulatedWalWriter::append\<close>: the size of the writer and its answer.\<close>

definition sim_append ::
  "write_fault \<Rightarrow> string \<Rightarrow> bytes \<Rightarrow> u64 \<Rightarrow> wal_store \<Rightarrow> (wal_store \<times> u64 \<times> (wal_error + u64)) option" where
  "sim_append fault name d sz st =
     (case fault of
        FaultDiskFull \<Rightarrow> Some (st, sz, Inl DiskFull)
      | FaultWrite \<Rightarrow> Some (st, sz, Inl (WalIo ''simulated write failure''))
      | FaultPartial n \<Rightarrow>
          if 1 < length d \<and> 1 \<le> n \<and> n < length d
          then map_option (\<lambda>(st', sz'). (st', sz', Inl (PartialWrite (length d) n))) (mem_append name (take n d) st)
          else map_option (\<lambda>(st', sz'). (st', sz', Inr sz')) (mem_append name d st)
      | NoFault \<Rightarrow> map_option (\<lambda>(st', sz'). (st', sz', Inr sz')) (mem_append name d st))"

definition sim_sync :: "bool \<Rightarrow> string \<Rightarrow> wal_store \<Rightarrow> wal_store \<times> (wal_error + unit)" where
  "sim_sync fault name st =
     (if fault then (st, Inl (FsyncFailed ''simulated fsync failure'')) else (mem_sync name st, Inr ()))"

section \<open>Writer and reader\<close>

record wal_writer =
  writer_name :: string
  writer_size :: u64
  writer_sequence :: u64
  entry_count :: u64
  min_timestamp :: u64
  max_timestamp :: u64

definition wal_header :: "u64 \<Rightarrow> bytes" where
  "wal_header seq = ''RWAL'' @ [CHR 0x01, CHR 0x00, CHR 0x00, CHR 0x00] @ to_le 8 (unat seq)"

definition wal_writer_new ::
  "write_fault \<Rightarrow> string \<Rightarrow> u64 \<Rightarrow> wal_store \<Rightarrow> (wal_store \<times> (wal_error + wal_writer)) option" where
  "wal_writer_new fault name seq st =
     map_option (\<lambda>(st', sz, res).
       (st', case res of
               Inl e \<Rightarrow> Inl e
             | Inr _ \<Rightarrow> Inr \<lparr>writer_name = name, writer_size = sz, writer_sequence = seq, entry_count = 0,
                              min_timestamp = - 1, max_timestamp = 0\<rparr>))
       (sim_append fault name (wal_header seq) 0 st)"

definition append_entry ::
  "write_fault \<Rightarrow> wal_entry \<Rightarrow> wal_writer \<Rightarrow> wal_store \<Rightarrow> (wal_store \<times> wal_writer \<times> (wal_error + u64)) option" where
  "append_entry fault e w st =
     (case sim_append fault (writer_name w) (wal_encode e) (writer_size w) st of
        None \<Rightarrow> None
      | Some (st', sz, Inl err) \<Rightarrow> Some (st', w\<lparr>writer_size := sz\<rparr>, Inl err)
      | Some (st', sz, Inr offset) \<Rightarrow>
          if entry_count w = - 1 then None
          else Some (st', w\<lparr>writer_size := sz, entry_count := entry_count w + 1,
                 min_timestamp := (if entry_timestamp e < min_timestamp w then entry_timestamp e else min_timestamp w),
                 max_timestamp := (if entry_timestamp e > max_timestamp w then entry_timestamp e else max_timestamp w)\<rparr>,
               Inr offset))"

definition wal_writer_invariants :: "wal_writer \<Rightarrow> bool" where
  "wal_writer_invariants w \<longleftrightarrow>
     (if entry_count w > 0 then min_timestamp w \<le> max_timestamp w
      else min_timestamp w = - 1 \<and> max_timestamp w = 0)"

text \<open>The debug format of a byte slice.\<close>

definition debug_bytes :: "bytes \<Rightarrow> string" where
  "debug_bytes bs = ''['' @ join '', '' (map (\<lambda>c. show_nat (of_char c)) bs) @ '']''"

text \<open>\<open>WalReader::open\<close>: the sequence number of a file with a valid header.\<close>

definition wal_open :: "bytes \<Rightarrow> wal_error + u64" where
  "wal_open d =
     (if length d < 16 then Inl (Corruption ''WAL file too short for header'')
      else if take 4 d \<noteq> ''RWAL'' then Inl (Corruption (''Invalid WAL magic: '' @ debug_bytes (take 4 d)))
      else if d ! 4 \<noteq> CHR 0x01 then Inl (Corruption (''Unsupported WAL version: '' @ show_nat (of_char (d ! 4))))
      else Inr (of_nat (from_le (take 8 (drop 8 d)))))"

lemma wal_decode_size: "wal_decode crc d = Some (e, n) \<Longrightarrow> 16 \<le> n \<and> n \<le> length d"
  by (auto simp: wal_decode_def Let_def split: if_splits)

text \<open>The loop of \<open>WalReader::entries\<close> from an offset; an entry takes at least 16 bytes.\<close>

function read_entries :: "crc32 \<Rightarrow> bytes \<Rightarrow> wal_entry list" where
  "read_entries crc d =
     (case wal_decode crc d of Some (e, n) \<Rightarrow> e # read_entries crc (drop n d) | None \<Rightarrow> [])"
  by auto

termination
  by (relation "measure (\<lambda>(_, d). length d)") (auto dest!: wal_decode_size)

declare read_entries.simps [simp del]

definition file_entries :: "crc32 \<Rightarrow> bytes \<Rightarrow> wal_entry list" where
  "file_entries crc d = read_entries crc (drop 16 d)"

definition entries_after :: "crc32 \<Rightarrow> u64 \<Rightarrow> bytes \<Rightarrow> wal_entry list" where
  "entries_after crc after d = filter (\<lambda>e. after \<le> entry_timestamp e) (file_entries crc d)"

section \<open>File names\<close>

fun show_hex :: "nat \<Rightarrow> string" where
  "show_hex n = (if n < 16 then [hex_digit n] else show_hex (n div 16) @ [hex_digit (n mod 16)])"

declare show_hex.simps [simp del]

definition wal_file_name :: "u64 \<Rightarrow> string" where
  "wal_file_name seq =
     (let h = show_hex (unat seq) in ''wal-'' @ replicate (8 - length h) CHR ''0'' @ h @ ''.wal'')"

definition hex_digit_value :: "char \<Rightarrow> nat option" where
  "hex_digit_value c =
     (let n = of_char c :: nat
      in if 48 \<le> n \<and> n \<le> 57 then Some (n - 48)
         else if 97 \<le> n \<and> n \<le> 102 then Some (n - 87)
         else if 65 \<le> n \<and> n \<le> 70 then Some (n - 55) else None)"

fun hex_value :: "nat \<Rightarrow> string \<Rightarrow> nat option" where
  "hex_value acc [] = Some acc"
| "hex_value acc (c # cs) =
     (case hex_digit_value c of None \<Rightarrow> None | Some d \<Rightarrow> hex_value (16 * acc + d) cs)"

text \<open>\<open>u64::from_str_radix(s, 16)\<close>: an optional \<open>+\<close>, at least one digit, no overflow.\<close>

definition from_str_radix_16 :: "string \<Rightarrow> u64 option" where
  "from_str_radix_16 s =
     (let ds = (case strip_prefix ''+'' s of Some r \<Rightarrow> r | None \<Rightarrow> s)
      in if ds = [] then None
         else case hex_value 0 ds of Some v \<Rightarrow> if v < 2 ^ 64 then Some (of_nat v) else None | None \<Rightarrow> None)"

definition strip_suffix :: "string \<Rightarrow> string \<Rightarrow> string option" where
  "strip_suffix p s = map_option rev (strip_prefix (rev p) (rev s))"

definition parse_wal_sequence :: "string \<Rightarrow> u64 option" where
  "parse_wal_sequence name =
     (case strip_prefix ''wal-'' name of
        None \<Rightarrow> None
      | Some r \<Rightarrow> (case strip_suffix ''.wal'' r of None \<Rightarrow> None | Some h \<Rightarrow> from_str_radix_16 h))"

section \<open>Rotator\<close>

record wal_rotator =
  wal_files :: wal_store
  max_file_size :: usize
  current_writer :: "wal_writer option"
  current_sequence :: u64

definition wal_sequences :: "wal_store \<Rightarrow> (u64 \<times> string) list" where
  "wal_sequences st =
     List.map_filter (\<lambda>name. map_option (\<lambda>seq. (seq, name)) (parse_wal_sequence name)) (mem_list st)"

definition rotator_new :: "wal_store \<Rightarrow> usize \<Rightarrow> wal_rotator" where
  "rotator_new st limit =
     \<lparr>wal_files = st, max_file_size = limit, current_writer = None,
      current_sequence = fold max (map fst (wal_sequences st)) 0\<rparr>"

definition rotate_file :: "write_fault \<Rightarrow> wal_rotator \<Rightarrow> (wal_rotator \<times> (wal_error + unit)) option" where
  "rotate_file fault r =
     (if current_sequence r = - 1 then None
      else let seq = current_sequence r + 1; name = wal_file_name seq;
               r' = r\<lparr>current_writer := None, current_sequence := seq\<rparr>
           in case wal_writer_new fault name seq (mem_create name (wal_files r')) of
                None \<Rightarrow> None
              | Some (st, Inl e) \<Rightarrow> Some (r'\<lparr>wal_files := st\<rparr>, Inl e)
              | Some (st, Inr w) \<Rightarrow> Some (r'\<lparr>wal_files := st, current_writer := Some w\<rparr>, Inr ()))"

definition needs_new_file :: "wal_rotator \<Rightarrow> bool" where
  "needs_new_file r =
     (case current_writer r of None \<Rightarrow> True | Some w \<Rightarrow> max_file_size r \<le> unat (writer_size w))"

text \<open>\<open>append\<close>: \<open>fault0\<close> is the fault of the header of a new file, \<open>fault\<close> that of the entry.\<close>

definition rotator_write :: "write_fault \<Rightarrow> wal_entry \<Rightarrow> wal_rotator \<Rightarrow> (wal_rotator \<times> (wal_error + u64)) option" where
  "rotator_write fault e r =
     (case current_writer r of
        None \<Rightarrow> None
      | Some w \<Rightarrow>
          (case append_entry fault e w (wal_files r) of
             None \<Rightarrow> None
           | Some (st, w', Inr _) \<Rightarrow>
               Some (r\<lparr>wal_files := st, current_writer := Some w'\<rparr>, Inr (writer_sequence w'))
           | Some (st, w', Inl err) \<Rightarrow> Some (r\<lparr>wal_files := st, current_writer := None\<rparr>, Inl err)))"

definition rotator_append ::
  "write_fault \<Rightarrow> write_fault \<Rightarrow> wal_entry \<Rightarrow> wal_rotator \<Rightarrow> (wal_rotator \<times> (wal_error + u64)) option" where
  "rotator_append fault0 fault e r =
     (if needs_new_file r
      then (case rotate_file fault0 r of
              None \<Rightarrow> None
            | Some (r', Inl err) \<Rightarrow> Some (r', Inl err)
            | Some (r', Inr _) \<Rightarrow> rotator_write fault e r')
      else rotator_write fault e r)"

definition rotator_sync :: "bool \<Rightarrow> wal_rotator \<Rightarrow> wal_rotator \<times> (wal_error + unit)" where
  "rotator_sync fault r =
     (case current_writer r of
        None \<Rightarrow> (r, Inr ())
      | Some w \<Rightarrow> (let (st, res) = sim_sync fault (writer_name w) (wal_files r) in (r\<lparr>wal_files := st\<rparr>, res)))"

text \<open>Recovery skips files that cannot be opened; the store has a file for every name it lists.\<close>

definition recover_file :: "crc32 \<Rightarrow> wal_store \<Rightarrow> string \<Rightarrow> wal_entry list" where
  "recover_file crc st name =
     (case fmlookup st name of
        None \<Rightarrow> []
      | Some f \<Rightarrow> (case wal_open (file_data f) of Inl _ \<Rightarrow> [] | Inr _ \<Rightarrow> file_entries crc (file_data f)))"

definition recover_all_entries :: "crc32 \<Rightarrow> wal_rotator \<Rightarrow> wal_entry list" where
  "recover_all_entries crc r =
     concat (map (\<lambda>(_, name). recover_file crc (wal_files r) name) (sort_key fst (wal_sequences (wal_files r))))"

fun deltas_after :: "(bytes \<Rightarrow> string + 'd) \<Rightarrow> u64 \<Rightarrow> wal_entry list \<Rightarrow> wal_error + 'd list" where
  "deltas_after des after [] = Inr []"
| "deltas_after des after (e # es) =
     (if after \<le> entry_timestamp e
      then (case to_delta des e of
              Inl err \<Rightarrow> Inl err
            | Inr d \<Rightarrow> (case deltas_after des after es of Inl err \<Rightarrow> Inl err | Inr ds \<Rightarrow> Inr (d # ds)))
      else deltas_after des after es)"

definition recover_entries_after :: "(bytes \<Rightarrow> string + 'd) \<Rightarrow> crc32 \<Rightarrow> u64 \<Rightarrow> wal_rotator \<Rightarrow> wal_error + 'd list" where
  "recover_entries_after des crc after r = deltas_after des after (recover_all_entries crc r)"

text \<open>\<open>truncate_before\<close>: which files go, and what remains.\<close>

definition file_expendable :: "crc32 \<Rightarrow> u64 \<Rightarrow> wal_file \<Rightarrow> bool" where
  "file_expendable crc up_to f =
     (case wal_open (file_data f) of
        Inl _ \<Rightarrow> False
      | Inr _ \<Rightarrow>
          let es = file_entries crc (file_data f)
          in if es = [] then True else Max (entry_timestamp ` set es) \<le> up_to)"

fun truncate_files :: "crc32 \<Rightarrow> u64 \<Rightarrow> string option \<Rightarrow> string list \<Rightarrow> wal_store \<Rightarrow> usize \<Rightarrow> wal_store \<times> usize" where
  "truncate_files crc up_to current [] st deleted = (st, deleted)"
| "truncate_files crc up_to current (name # names) st deleted =
     (if current = Some name then truncate_files crc up_to current names st deleted
      else case fmlookup st name of
             None \<Rightarrow> truncate_files crc up_to current names st deleted
           | Some f \<Rightarrow>
               if file_expendable crc up_to f
               then truncate_files crc up_to current names (fmdrop name st) (deleted + 1)
               else truncate_files crc up_to current names st deleted)"

definition truncate_before :: "crc32 \<Rightarrow> u64 \<Rightarrow> wal_rotator \<Rightarrow> wal_rotator \<times> usize" where
  "truncate_before crc up_to r =
     (let (st, n) = truncate_files crc up_to (map_option (\<lambda>w. wal_file_name (writer_sequence w)) (current_writer r))
                      (mem_list (wal_files r)) (wal_files r) 0
      in (r\<lparr>wal_files := st\<rparr>, n))"

section \<open>The actor\<close>

text \<open>
  A message carries the identity of the channel that waits for its answer; \<open>sent\<close> is the list of the
  answers given so far. The serializer and the checksum are arguments, and so are the faults of
  the store for the header and the entry of a write.
\<close>

datatype 'd wal_message =
    WriteDelta 'd u64 "nat option"
  | SyncTick
  | TruncateUpTo u64
  | Shutdown

type_synonym faults = "write_fault \<times> write_fault"

record wal_actor =
  rotator :: wal_rotator
  pending_acks :: "nat list"
  entries_since_sync :: usize
  sent :: "(nat \<times> (wal_error + unit)) list"

definition send_ack :: "nat option \<Rightarrow> wal_error + unit \<Rightarrow> wal_actor \<Rightarrow> wal_actor" where
  "send_ack ack res a = (case ack of None \<Rightarrow> a | Some i \<Rightarrow> a\<lparr>sent := sent a @ [(i, res)]\<rparr>)"

definition handle_truncation :: "crc32 \<Rightarrow> u64 \<Rightarrow> wal_actor \<Rightarrow> wal_actor" where
  "handle_truncation crc up_to a = a\<lparr>rotator := fst (truncate_before crc up_to (rotator a))\<rparr>"

text \<open>\<open>flush_group_commit\<close>: one \<open>fsync\<close> of the current file answers every pending write.\<close>

definition flush_group_commit :: "bool \<Rightarrow> wal_actor \<Rightarrow> wal_actor" where
  "flush_group_commit fault a =
     (if entries_since_sync a = 0 then a
      else let (r, res) = rotator_sync fault (rotator a);
               answer = (case res of Inr _ \<Rightarrow> Inr () | Inl e \<Rightarrow> Inl (FsyncFailed (wal_error_text e)))
           in a\<lparr>rotator := r, pending_acks := [], entries_since_sync := 0,
                sent := sent a @ map (\<lambda>i. (i, answer)) (pending_acks a)\<rparr>)"

text \<open>The result of a write: the entry is built, then appended.\<close>

definition write_delta ::
  "('d \<Rightarrow> string + bytes) \<Rightarrow> crc32 \<Rightarrow> faults \<Rightarrow> 'd \<Rightarrow> u64 \<Rightarrow> wal_rotator \<Rightarrow> (wal_rotator \<times> (wal_error + unit)) option" where
  "write_delta ser crc fs delta timestamp r =
     (case from_delta ser crc delta timestamp of
        Inl e \<Rightarrow> Some (r, Inl e)
      | Inr entry \<Rightarrow>
          map_option (\<lambda>(r', res). (r', case res of Inl e \<Rightarrow> Inl e | Inr _ \<Rightarrow> Inr ()))
            (rotator_append (fst fs) (snd fs) entry r))"

fun handle_message_always ::
  "('d \<Rightarrow> string + bytes) \<Rightarrow> crc32 \<Rightarrow> faults \<Rightarrow> bool \<Rightarrow> 'd wal_message \<Rightarrow> wal_actor \<Rightarrow> (wal_actor \<times> bool) option" where
  "handle_message_always ser crc fs sync_fault (WriteDelta delta timestamp ack) a =
     (case write_delta ser crc fs delta timestamp (rotator a) of
        None \<Rightarrow> None
      | Some (r, Inr _) \<Rightarrow>
          Some (a\<lparr>rotator := r, entries_since_sync := entries_since_sync a + 1,
                  pending_acks := pending_acks a @ (case ack of Some i \<Rightarrow> [i] | None \<Rightarrow> [])\<rparr>, False)
      | Some (r, Inl e) \<Rightarrow> Some (send_ack ack (Inl e) (a\<lparr>rotator := r\<rparr>), False))"
| "handle_message_always ser crc fs sync_fault SyncTick a = Some (a, False)"
| "handle_message_always ser crc fs sync_fault (TruncateUpTo t) a = Some (handle_truncation crc t a, False)"
| "handle_message_always ser crc fs sync_fault Shutdown a = Some (flush_group_commit sync_fault a, True)"

text \<open>
  One round of \<open>run_always_mode\<close>: the first message, then the messages that arrive in the waiting
  window, then those available at once, each group only as long as the batch is not full, and the
  flush. The result tells whether the actor stops. A \<open>Shutdown\<close> in the window only ends the window.
\<close>

type_synonym 'd delivery = "faults \<times> bool \<times> 'd wal_message"

fun handle_batch ::
  "('d \<Rightarrow> string + bytes) \<Rightarrow> crc32 \<Rightarrow> usize \<Rightarrow> 'd delivery list \<Rightarrow> wal_actor \<Rightarrow> (wal_actor \<times> bool) option" where
  "handle_batch ser crc limit [] a = Some (a, False)"
| "handle_batch ser crc limit ((fs, sf, msg) # msgs) a =
     (if entries_since_sync a < limit
      then (case handle_message_always ser crc fs sf msg a of
              None \<Rightarrow> None
            | Some (a', True) \<Rightarrow> Some (a', True)
            | Some (a', False) \<Rightarrow> handle_batch ser crc limit msgs a')
      else Some (a, False))"

definition always_round ::
  "('d \<Rightarrow> string + bytes) \<Rightarrow> crc32 \<Rightarrow> usize \<Rightarrow> 'd delivery \<Rightarrow> 'd delivery list \<Rightarrow> 'd delivery list \<Rightarrow> bool \<Rightarrow> wal_actor \<Rightarrow>
   (wal_actor \<times> bool) option" where
  "always_round ser crc limit first window available sync_fault a =
     (case first of (fs, sf, msg) \<Rightarrow>
      case handle_message_always ser crc fs sf msg a of
        None \<Rightarrow> None
      | Some (a1, True) \<Rightarrow> Some (a1, True)
      | Some (a1, False) \<Rightarrow>
          (case (if 0 < entries_since_sync a1 then handle_batch ser crc limit window a1 else Some (a1, False)) of
             None \<Rightarrow> None
           | Some (a2, _) \<Rightarrow>
               (case handle_batch ser crc limit available a2 of
                  None \<Rightarrow> None
                | Some (a3, True) \<Rightarrow> Some (a3, True)
                | Some (a3, False) \<Rightarrow> Some (flush_group_commit sync_fault a3, False))))"

fun everysec_step ::
  "('d \<Rightarrow> string + bytes) \<Rightarrow> crc32 \<Rightarrow> faults \<Rightarrow> bool \<Rightarrow> 'd wal_message \<Rightarrow> wal_actor \<Rightarrow> (wal_actor \<times> bool) option" where
  "everysec_step ser crc fs sync_fault (WriteDelta delta timestamp ack) a =
     map_option (\<lambda>(r, res).
         (send_ack ack res (a\<lparr>rotator := r,
            entries_since_sync := entries_since_sync a + (case res of Inr _ \<Rightarrow> 1 | Inl _ \<Rightarrow> 0)\<rparr>), False))
       (write_delta ser crc fs delta timestamp (rotator a))"
| "everysec_step ser crc fs sync_fault SyncTick a =
     Some (if 0 < entries_since_sync a
           then a\<lparr>rotator := fst (rotator_sync sync_fault (rotator a)), entries_since_sync := 0\<rparr> else a, False)"
| "everysec_step ser crc fs sync_fault (TruncateUpTo t) a = Some (handle_truncation crc t a, False)"
| "everysec_step ser crc fs sync_fault Shutdown a =
     Some (if 0 < entries_since_sync a then a\<lparr>rotator := fst (rotator_sync sync_fault (rotator a))\<rparr> else a, True)"

fun no_mode_step ::
  "('d \<Rightarrow> string + bytes) \<Rightarrow> crc32 \<Rightarrow> faults \<Rightarrow> 'd wal_message \<Rightarrow> wal_actor \<Rightarrow> (wal_actor \<times> bool) option" where
  "no_mode_step ser crc fs (WriteDelta delta timestamp ack) a =
     map_option (\<lambda>(r, res). (send_ack ack res (a\<lparr>rotator := r\<rparr>), False))
       (write_delta ser crc fs delta timestamp (rotator a))"
| "no_mode_step ser crc fs SyncTick a = Some (a, False)"
| "no_mode_step ser crc fs (TruncateUpTo t) a = Some (handle_truncation crc t a, False)"
| "no_mode_step ser crc fs Shutdown a = Some (a, True)"

end
