(* ===== verification/Wal_Laws.thy ===== *)
theory Wal_Laws
  imports Wal "HOL-Library.Sublist"
begin

text \<open>
  Laws of the write-ahead log. An entry is read back as it was written and a truncated entry is never
  read; the files together are an append-only log of the successful writes; a crash loses at most
  what was not synced; truncation removes old entries only; and what a group commit makes durable.
\<close>

section \<open>Entries\<close>

definition entry_ok :: "crc32 \<Rightarrow> wal_entry \<Rightarrow> bool" where
  "entry_ok crc e \<longleftrightarrow> wal_validate crc e \<and> length (entry_data e) < 2 ^ 32"

lemma length_wal_encode [simp]: "length (wal_encode e) = disk_size e"
  by (simp add: wal_encode_def disk_size_def)

lemma encode_not_Nil [simp]: "wal_encode e \<noteq> []"
  by (simp add: disk_size_def flip: length_greater_0_conv)

lemma of_unat_le: "of_nat (unat (w :: 'a :: len word) mod 256 ^ n) = w" if "2 ^ LENGTH('a) = (256 :: nat) ^ n"
proof -
  have "unat w < 2 ^ LENGTH('a)"
    by (rule unsigned_less)
  then have "unat w < 256 ^ n"
    by (simp only: that)
  then show ?thesis
    by simp
qed

lemma decode_fields:
  assumes "16 \<le> n"
  shows "take 4 (take n (wal_encode e @ r)) = to_le 4 (length (entry_data e))"
    "take 8 (drop 4 (take n (wal_encode e @ r))) = to_le 8 (unat (entry_timestamp e))"
    "take 4 (drop 12 (take n (wal_encode e @ r))) = to_le 4 (unat (entry_checksum e))"
    "drop 16 (take n (wal_encode e @ r)) = take (n - 16) (entry_data e @ r)"
proof -
  define a b c where "a = to_le 4 (length (entry_data e))" and "b = to_le 8 (unat (entry_timestamp e))"
    and "c = to_le 4 (unat (entry_checksum e))"
  have l: "length a = 4" "length b = 8" "length c = 4"
    by (simp_all add: a_def b_def c_def)
  have e: "wal_encode e @ r = a @ b @ c @ entry_data e @ r"
    by (simp add: wal_encode_def a_def b_def c_def)
  show "take 4 (take n (wal_encode e @ r)) = a" "take 8 (drop 4 (take n (wal_encode e @ r))) = b"
    "take 4 (drop 12 (take n (wal_encode e @ r))) = c" "drop 16 (take n (wal_encode e @ r)) = take (n - 16) (entry_data e @ r)"
    using assms l by (simp_all add: e take_drop drop_take min_def)
qed

text \<open>Decoding any prefix that holds the entry, and any prefix that does not.\<close>

lemma decode_take:
  assumes ok: "entry_ok crc e" and n: "n \<le> length (wal_encode e @ r)"
  shows "wal_decode crc (take n (wal_encode e @ r)) = (if disk_size e \<le> n then Some (e, disk_size e) else None)"
proof (cases "n < 16")
  case True
  then show ?thesis
    by (simp add: wal_decode_def disk_size_def)
next
  case False
  then have le: "16 \<le> n"
    by simp
  have len: "from_le (take 4 (take n (wal_encode e @ r))) = length (entry_data e)"
    unfolding decode_fields [OF le] using ok by (simp add: entry_ok_def)
  have ts: "of_nat (from_le (take 8 (drop 4 (take n (wal_encode e @ r))))) = entry_timestamp e"
    unfolding decode_fields [OF le] from_to_le by (rule of_unat_le) simp
  have ck: "of_nat (from_le (take 4 (drop 12 (take n (wal_encode e @ r))))) = entry_checksum e"
    unfolding decode_fields [OF le] from_to_le by (rule of_unat_le) simp
  have pay: "disk_size e \<le> n \<Longrightarrow> take (length (entry_data e)) (drop 16 (take n (wal_encode e @ r))) = entry_data e"
    unfolding decode_fields [OF le] by (simp add: disk_size_def)
  have size: "length (take n (wal_encode e @ r)) = n"
    using n by simp
  show ?thesis
    using ok le pay unfolding wal_decode_def Let_def size len ts ck
    by (auto simp: disk_size_def entry_ok_def wal_validate_def)
qed

lemma decode_encode: "entry_ok crc e \<Longrightarrow> wal_decode crc (wal_encode e @ r) = Some (e, disk_size e)"
  using decode_take [of crc e "length (wal_encode e @ r)" r] by simp

lemma decode_truncated: "entry_ok crc e \<Longrightarrow> n < disk_size e \<Longrightarrow> wal_decode crc (take n (wal_encode e)) = None"
  using decode_take [of crc e n "[]"] by simp

text \<open>
  Round trip of the entry format: an entry of less than 4 GiB with a valid checksum is decoded back from
  its bytes whatever follows them, with the number of bytes it takes, and no proper prefix of its
  bytes decodes, whatever the checksum function.
\<close>

theorem wal_entry_codec:
  assumes "wal_validate crc e" "length (entry_data e) < 2 ^ 32"
  shows "wal_decode crc (wal_encode e @ rest) = Some (e, disk_size e) \<and>
    (\<forall>n < disk_size e. wal_decode crc (take n (wal_encode e)) = None)"
  using assms decode_encode [of crc e rest] decode_truncated [of crc e] by (simp add: entry_ok_def)

theorem wal_entry_codec_witness:
  "wal_decode (\<lambda>d. of_nat (length d))
     (wal_encode \<lparr>entry_data = ''ab'', entry_timestamp = 7, entry_checksum = 2\<rparr> @ ''xyz'') =
     Some (\<lparr>entry_data = ''ab'', entry_timestamp = 7, entry_checksum = 2\<rparr>,
       disk_size \<lparr>entry_data = ''ab'', entry_timestamp = 7, entry_checksum = 2\<rparr>)"
  using wal_entry_codec [of "\<lambda>d. of_nat (length d)" "\<lparr>entry_data = ''ab'', entry_timestamp = 7, entry_checksum = 2\<rparr>" "''xyz''"]
  by (simp add: wal_validate_def)

section \<open>The contents of a file\<close>

definition encode_all :: "wal_entry list \<Rightarrow> bytes" where
  "encode_all es = concat (map wal_encode es)"

lemma encode_all_simps [simp]:
  "encode_all [] = []" "encode_all (e # es) = wal_encode e @ encode_all es" "encode_all (es @ fs) = encode_all es @ encode_all fs"
  by (simp_all add: encode_all_def)

text \<open>How many of the entries lie in the first \<open>n\<close> bytes.\<close>

fun fit :: "nat \<Rightarrow> wal_entry list \<Rightarrow> nat" where
  "fit n [] = 0"
| "fit n (e # es) = (if disk_size e \<le> n then Suc (fit (n - disk_size e) es) else 0)"

lemma fit_le: "fit n es \<le> length es"
  by (induction es arbitrary: n) auto

lemma fit_mono: "m \<le> n \<Longrightarrow> fit m es \<le> fit n es"
  by (induction es arbitrary: m n) auto

lemma fit_all: "length (encode_all es) \<le> n \<Longrightarrow> fit n es = length es"
  by (induction es arbitrary: n) auto

lemma fit_append: "fit (length (encode_all es) + n) (es @ fs) = length es + fit n fs"
  by (induction es) auto

lemma read_take:
  assumes "list_all (entry_ok crc) es" "n \<le> length (encode_all es)"
  shows "read_entries crc (take n (encode_all es)) = take (fit n es) es"
  using assms
proof (induction es arbitrary: n)
  case (Cons e es)
  have d: "wal_decode crc (take n (encode_all (e # es))) = (if disk_size e \<le> n then Some (e, disk_size e) else None)"
    using decode_take [of crc e n "encode_all es"] Cons.prems by simp
  show ?case
  proof (cases "disk_size e \<le> n")
    case True
    then have "drop (disk_size e) (take n (encode_all (e # es))) = take (n - disk_size e) (encode_all es)"
      by simp
    then show ?thesis
      using True Cons by (subst read_entries.simps) (simp only: d if_True option.case prod.case, simp)
  next
    case False
    then show ?thesis
      by (subst read_entries.simps) (simp only: d if_False option.case, simp)
  qed
qed (simp add: read_entries.simps wal_decode_def)

definition content :: "u64 \<Rightarrow> wal_entry list \<Rightarrow> bytes" where
  "content seq es = wal_header seq @ encode_all es"

lemma length_wal_header [simp]: "length (wal_header seq) = 16"
  by (simp add: wal_header_def)

lemma content_append: "content seq (es @ [e]) = content seq es @ wal_encode e"
  by (simp add: content_def)

lemma length_content: "length (content seq es) = 16 + length (encode_all es)"
  by (simp add: content_def)

lemma open_content:
  assumes "n \<le> length (content seq es)"
  shows "wal_open (take n (content seq es)) = (if n < 16 then Inl (Corruption ''WAL file too short for header'') else Inr seq)"
proof (cases "n < 16")
  case False
  then have "take n (content seq es) = wal_header seq @ take (n - 16) (encode_all es)"
    by (simp add: content_def)
  moreover have "of_nat (unat seq mod 256 ^ 8) = seq"
    by (rule of_unat_le) simp
  ultimately show ?thesis
    using False by (simp add: wal_open_def wal_header_def)
qed (use assms in \<open>simp add: wal_open_def\<close>)

text \<open>The entries recovered from the first \<open>n\<close> bytes of a file.\<close>

definition held :: "nat \<Rightarrow> wal_entry list \<Rightarrow> wal_entry list" where
  "held n es = (if n < 16 then [] else take (fit (n - 16) es) es)"

definition recover_data :: "crc32 \<Rightarrow> bytes \<Rightarrow> wal_entry list" where
  "recover_data crc d = (case wal_open d of Inl _ \<Rightarrow> [] | Inr _ \<Rightarrow> file_entries crc d)"

lemma recover_file_data:
  "recover_file crc st name = (case fmlookup st name of None \<Rightarrow> [] | Some f \<Rightarrow> recover_data crc (file_data f))"
  by (simp add: recover_file_def recover_data_def split: option.splits)

lemma recover_content:
  assumes "list_all (entry_ok crc) es" "n \<le> length (content seq es)"
  shows "recover_data crc (take n (content seq es)) = held n es"
proof (cases "n < 16")
  case False
  then have "drop 16 (take n (content seq es)) = take (n - 16) (encode_all es)"
    by (simp add: content_def)
  then show ?thesis
    using False assms read_take [OF assms(1), of "n - 16"]
    by (simp add: recover_data_def open_content file_entries_def held_def length_content)
qed (use assms in \<open>simp add: recover_data_def open_content held_def\<close>)

lemma held_all: "held (length (content seq es)) es = es"
  by (simp add: held_def length_content fit_all)

lemma recover_full: "list_all (entry_ok crc) es \<Longrightarrow> recover_data crc (content seq es) = es"
  using recover_content [of crc es "length (content seq es)" seq] by (simp add: held_all)

lemma held_mono:
  assumes "m \<le> n"
  shows "prefix (held m es) (held n es)"
proof (cases "m < 16")
  case False
  have "prefix (take i es) (take j es)" if "i \<le> j" for i j
    by (metis min.absorb1 take_is_prefix take_take that)
  then show ?thesis
    using False assms fit_mono [of "m - 16" "n - 16" es] by (simp add: held_def)
qed (simp add: held_def)

section \<open>Names\<close>

lemma hex_value_append: "hex_value acc (s @ t) = Option.bind (hex_value acc s) (\<lambda>v. hex_value v t)"
  by (induction s arbitrary: acc) (auto split: option.splits)

lemma hex_digit_value_of: "d < 16 \<Longrightarrow> hex_digit_value (hex_digit d) = Some d"
  by (auto simp: hex_digit_value_def hex_digit_def Let_def)

lemma hex_value_show: "hex_value 0 (show_hex n) = Some n"
proof (induction n rule: show_hex.induct)
  case (1 n)
  show ?case
  proof (cases "n < 16")
    case False
    then show ?thesis
      using 1 by (subst show_hex.simps) (simp add: hex_value_append hex_digit_value_of)
  qed (subst show_hex.simps, simp add: hex_digit_value_of)
qed

lemma hex_value_zeros: "hex_value 0 (replicate k CHR ''0'' @ s) = hex_value 0 s"
  by (induction k) (simp_all add: hex_digit_value_def)

lemma hex_text:
  assumes "c \<in> set (show_hex n)"
  shows "c \<noteq> CHR ''+''"
  using assms
proof (induction n rule: show_hex.induct)
  case (1 n)
  have "hex_digit d \<noteq> CHR ''+''" if "d < 16" for d
    using hex_digit_value_of [OF that] by (auto simp: hex_digit_value_def)
  then have "hex_digit (n mod 16) \<noteq> CHR ''+''" "n < 16 \<Longrightarrow> hex_digit n \<noteq> CHR ''+''"
    by simp_all
  moreover have "c \<in> set (if n < 16 then [hex_digit n] else show_hex (n div 16) @ [hex_digit (n mod 16)])"
    using "1.prems" by (subst (asm) show_hex.simps)
  ultimately show ?case
    using "1.IH" by (auto split: if_splits)
qed

lemma show_hex_not_Nil: "show_hex n \<noteq> []"
  by (subst show_hex.simps) simp

lemma parse_wal_file_name [simp]: "parse_wal_sequence (wal_file_name seq) = Some seq"
proof -
  define h where "h = replicate (8 - length (show_hex (unat seq))) CHR ''0'' @ show_hex (unat seq)"
  have ne: "h \<noteq> []"
    by (simp add: h_def show_hex_not_Nil)
  have "hd h \<noteq> CHR ''+''"
    using hd_in_set [OF ne] hex_text by (auto simp: h_def)
  then have sign: "strip_prefix ''+'' h = None"
    using ne by (cases h) auto
  have v: "hex_value 0 h = Some (unat seq)"
    by (simp add: h_def hex_value_zeros hex_value_show)
  have "unat seq < 2 ^ LENGTH(64)"
    by (rule unsigned_less)
  then have "from_str_radix_16 h = Some seq"
    using ne by (simp add: from_str_radix_16_def sign v)
  moreover have "wal_file_name seq = ''wal-'' @ h @ ''.wal''"
    by (simp add: wal_file_name_def h_def Let_def)
  ultimately show ?thesis
    by (simp add: parse_wal_sequence_def strip_suffix_def)
qed

lemma wal_file_name_inj [simp]: "wal_file_name a = wal_file_name b \<longleftrightarrow> a = b"
  by (metis option.inject parse_wal_file_name)

section \<open>The log of a store\<close>

definition names_ok :: "wal_store \<Rightarrow> bool" where
  "names_ok st \<longleftrightarrow> fmpred (\<lambda>name _. \<exists>seq. name = wal_file_name seq) st"

definition log_seqs :: "wal_store \<Rightarrow> u64 set" where
  "log_seqs st = {seq. fmlookup st (wal_file_name seq) \<noteq> None}"

definition log_of :: "crc32 \<Rightarrow> wal_store \<Rightarrow> wal_entry list" where
  "log_of crc st = concat (map (\<lambda>seq. recover_file crc st (wal_file_name seq)) (sorted_list_of_set (log_seqs st)))"

lemma sort_key_map: "sort_key fst (map (\<lambda>s. (s, g s)) xs) = map (\<lambda>s. (s, g s)) (sort xs)"
proof (induction xs)
  case (Cons x xs)
  have "insort_key fst (x, g x) (map (\<lambda>s. (s, g s)) ys) = map (\<lambda>s. (s, g s)) (insort x ys)" for ys
    by (induction ys) auto
  then show ?case
    by (simp add: Cons)
qed simp

lemma wal_sequences_sorted:
  assumes "names_ok st"
  shows "sort_key fst (wal_sequences st) = map (\<lambda>s. (s, wal_file_name s)) (sorted_list_of_set (log_seqs st))"
    "set (map fst (wal_sequences st)) = log_seqs st"
proof -
  define seqs where "seqs = map (the \<circ> parse_wal_sequence) (mem_list st)"
  have name: "\<exists>seq. name = wal_file_name seq" if "name \<in> set (mem_list st)" for name
    using assms that by (auto simp: names_ok_def mem_list_def fmlookup_dom_iff fmpred_iff)
  have names: "map wal_file_name seqs = mem_list st"
    unfolding seqs_def using name by (force intro: map_idI)
  have "distinct (mem_list st)"
    by (simp add: mem_list_def sorted_list_of_fset.rep_eq)
  then have dist: "distinct seqs"
    unfolding names [symmetric] by (simp add: distinct_map)
  have "seq \<in> set seqs \<longleftrightarrow> wal_file_name seq \<in> set (mem_list st)" for seq
    unfolding names [symmetric] by (auto simp: image_iff)
  then have set: "set seqs = log_seqs st"
    by (auto simp: log_seqs_def mem_list_def fmlookup_dom_iff)
  have seqs: "wal_sequences st = map (\<lambda>s. (s, wal_file_name s)) seqs"
    unfolding wal_sequences_def names [symmetric] by (induction seqs) (simp_all add: List.map_filter_simps)
  have "sort seqs = sorted_list_of_set (log_seqs st)"
    using dist by (simp flip: set add: sorted_list_of_set_sort_remdups distinct_remdups_id)
  then show "sort_key fst (wal_sequences st) = map (\<lambda>s. (s, wal_file_name s)) (sorted_list_of_set (log_seqs st))"
    by (simp add: seqs sort_key_map)
  show "set (map fst (wal_sequences st)) = log_seqs st"
    by (auto simp: seqs set)
qed

lemma recover_all_log: "names_ok (wal_files r) \<Longrightarrow> recover_all_entries crc r = log_of crc (wal_files r)"
  by (simp add: recover_all_entries_def wal_sequences_sorted log_of_def comp_def)

lemma finite_log_seqs: "names_ok st \<Longrightarrow> finite (log_seqs st)"
  using wal_sequences_sorted(2) [of st] by (metis List.finite_set)

lemma sorted_list_of_set_snoc:
  assumes "finite A" "\<forall>a\<in>A. a < x"
  shows "sorted_list_of_set (insert x A) = sorted_list_of_set A @ [x]"
proof -
  have "x \<notin> A"
    using assms(2) by blast
  then show ?thesis
    using assms by (intro sorted_list_of_set_unique [THEN iffD1]) (auto simp: sorted_wrt_append)
qed

text \<open>A store seen from its newest file.\<close>

lemma log_newest:
  assumes "names_ok st" "\<forall>s\<in>log_seqs st. s \<le> seq"
  shows "log_of crc (fmupd (wal_file_name seq) f st) =
    concat (map (\<lambda>s. recover_file crc st (wal_file_name s)) (sorted_list_of_set (log_seqs st - {seq}))) @
    recover_data crc (file_data f)"
proof -
  let ?st = "fmupd (wal_file_name seq) f st" and ?old = "log_seqs st - {seq}"
  have seqs: "log_seqs ?st = insert seq ?old"
    by (auto simp: log_seqs_def)
  have fin: "finite ?old"
    using finite_log_seqs [OF assms(1)] by simp
  have lt: "\<forall>s\<in>?old. s < seq"
    using assms(2) by (auto simp: less_le)
  have log: "log_of crc ?st = concat (map (\<lambda>s. recover_file crc ?st (wal_file_name s)) (sorted_list_of_set ?old)) @
      recover_file crc ?st (wal_file_name seq)"
    unfolding log_of_def seqs sorted_list_of_set_snoc [OF fin lt] by simp
  have same: "map (\<lambda>s. recover_file crc ?st (wal_file_name s)) (sorted_list_of_set ?old) =
      map (\<lambda>s. recover_file crc st (wal_file_name s)) (sorted_list_of_set ?old)"
    using fin by (intro map_cong) (auto simp: recover_file_data)
  have "recover_file crc ?st (wal_file_name seq) = recover_data crc (file_data f)"
    by (simp add: recover_file_data)
  then show ?thesis
    by (simp only: log same)
qed

section \<open>The invariant of the rotator\<close>

definition file_ok :: "crc32 \<Rightarrow> u64 \<Rightarrow> string \<Rightarrow> wal_file \<Rightarrow> bool" where
  "file_ok crc cur name f \<longleftrightarrow>
     (\<exists>seq es n. name = wal_file_name seq \<and> seq \<le> cur \<and> list_all (entry_ok crc) es \<and> n \<le> length (content seq es) \<and>
        file_data f = take n (content seq es)) \<and> synced_pos f \<le> length (file_data f)"

definition writer_ok :: "crc32 \<Rightarrow> wal_rotator \<Rightarrow> wal_writer \<Rightarrow> bool" where
  "writer_ok crc r w \<longleftrightarrow>
     writer_sequence w = current_sequence r \<and> writer_name w = wal_file_name (current_sequence r) \<and>
     (\<exists>f es. fmlookup (wal_files r) (writer_name w) = Some f \<and> list_all (entry_ok crc) es \<and>
        file_data f = content (current_sequence r) es)"

definition rot_ok :: "crc32 \<Rightarrow> wal_rotator \<Rightarrow> bool" where
  "rot_ok crc r \<longleftrightarrow>
     fmpred (file_ok crc (current_sequence r)) (wal_files r) \<and> (\<forall>w. current_writer r = Some w \<longrightarrow> writer_ok crc r w)"

lemma file_ok_mono: "file_ok crc cur name f \<Longrightarrow> cur \<le> cur' \<Longrightarrow> file_ok crc cur' name f"
proof -
  assume "file_ok crc cur name f" "cur \<le> cur'"
  then obtain seq es n where *: "name = wal_file_name seq" "seq \<le> cur" "list_all (entry_ok crc) es"
    "n \<le> length (content seq es)" "file_data f = take n (content seq es)" "synced_pos f \<le> length (file_data f)"
    unfolding file_ok_def by blast
  show ?thesis
    using * order.trans [OF *(2) \<open>cur \<le> cur'\<close>] unfolding file_ok_def by blast
qed

lemma rot_ok_names:
  assumes "rot_ok crc r"
  shows "names_ok (wal_files r)" "\<forall>s\<in>log_seqs (wal_files r). s \<le> current_sequence r"
  using assms by (fastforce simp: rot_ok_def names_ok_def log_seqs_def file_ok_def fmpred_iff)+

lemma recover_partial:
  assumes "list_all (entry_ok crc) es" "entry_ok crc e" "k \<le> disk_size e"
  shows "recover_data crc (content seq es @ take k (wal_encode e)) = (if k = disk_size e then es @ [e] else es)"
proof -
  let ?n = "length (content seq es) + k"
  have "content seq es @ take k (wal_encode e) = take ?n (content seq (es @ [e]))"
    by (simp add: content_append)
  moreover have "recover_data crc (take ?n (content seq (es @ [e]))) = held ?n (es @ [e])"
    using assms by (intro recover_content) (simp_all add: content_append)
  moreover have "held ?n (es @ [e]) = (if k = disk_size e then es @ [e] else es)"
    using assms(3) fit_append [of es k "[e]"] by (simp add: held_def length_content add.commute)
  ultimately show ?thesis
    by simp
qed

text \<open>What a write does to its file: all of the bytes arrive, or the write fails and some do.\<close>

lemma sim_append_cases:
  assumes f: "fmlookup st name = Some f" and d: "d \<noteq> []"
  obtains k sz' res where
    "sim_append fault name d sz st = Some (fmupd name (f\<lparr>file_data := file_data f @ take k d\<rparr>) st, sz', res)"
    "k \<le> length d" "k < length d \<longleftrightarrow> isl res" "fault = NoFault \<Longrightarrow> \<not> isl res"
proof -
  note * = that
  have none: thesis if "fault \<noteq> NoFault" "sim_append fault name d sz st = Some (st, sz, Inl e)" for e
    using that f d by (intro * [of 0 sz "Inl e"]) (simp_all add: fmupd_same)
  have all: "sim_append fault name d sz st = map_option (\<lambda>(st', sz'). (st', sz', Inr sz')) (mem_append name d st) \<Longrightarrow> thesis"
    using that [of "length d"] f by (simp add: mem_append_def)
  show thesis
  proof (cases fault)
    case (FaultPartial n)
    then show ?thesis
      using that [of n] all f by (cases "1 < length d \<and> 1 \<le> n \<and> n < length d") (simp_all add: sim_append_def mem_append_def)
  qed (use none all in \<open>simp_all add: sim_append_def\<close>)
qed

section \<open>Steps of the rotator\<close>

lemma file_okI:
  assumes "seq \<le> cur" "list_all (entry_ok crc) es" "n \<le> length (content seq es)"
    and "file_data f = take n (content seq es)" "synced_pos f \<le> length (file_data f)"
  shows "file_ok crc cur (wal_file_name seq) f"
  using assms unfolding file_ok_def by blast

lemma file_ok_partial:
  assumes "seq \<le> cur" "list_all (entry_ok crc) es" "entry_ok crc e" "k \<le> disk_size e"
    and "file_data f = content seq es @ take k (wal_encode e)" "synced_pos f \<le> length (file_data f)"
  shows "file_ok crc cur (wal_file_name seq) f"
proof (rule file_okI)
  show "list_all (entry_ok crc) (es @ [e])"
    using assms by simp
  show "length (content seq es) + k \<le> length (content seq (es @ [e]))"
    using assms by (simp add: content_append)
  show "file_data f = take (length (content seq es) + k) (content seq (es @ [e]))"
    using assms by (simp add: content_append)
qed (use assms in simp_all)

lemma names_ok_upd: "names_ok st \<Longrightarrow> names_ok (fmupd (wal_file_name seq) f st)"
  by (auto simp: names_ok_def)

lemma word_less_succ: "(w :: u64) \<noteq> - 1 \<Longrightarrow> w < w + 1"
  using unatSuc [of w] by (simp add: word_less_nat_alt add.commute eq_neg_iff_add_eq_0)

lemma log_fresh:
  assumes "names_ok st" "\<forall>s\<in>log_seqs st. s < seq"
  shows "log_of crc (fmupd (wal_file_name seq) f st) = log_of crc st @ recover_data crc (file_data f)"
proof -
  have "log_seqs st - {seq} = log_seqs st"
    using assms(2) by blast
  then show ?thesis
    using log_newest [OF assms(1), of seq crc f] assms(2) by (simp add: log_of_def less_imp_le)
qed

lemma map_sum_Inr: "\<not> isl res \<Longrightarrow> map_sum f (\<lambda>_. c) res = Inr c"
  by (cases res) simp_all

lemma rotate_step:
  assumes ok: "rot_ok crc r" and seq: "current_sequence r \<noteq> - 1"
  obtains r' res where "rotate_file fault r = Some (r', res)" "rot_ok crc r'"
    "recover_all_entries crc r' = recover_all_entries crc r" "current_sequence r' = current_sequence r + 1"
    "isl res \<longrightarrow> current_writer r' = None"
    "\<not> isl res \<longrightarrow> (\<exists>w. current_writer r' = Some w \<and> entry_count w = 0)" "fault = NoFault \<longrightarrow> \<not> isl res"
    "max_file_size r' = max_file_size r"
proof -
  let ?cur = "current_sequence r + 1"
  let ?name = "wal_file_name ?cur" and ?f0 = "\<lparr>file_data = [], synced_pos = 0\<rparr>"
  have lt: "current_sequence r < ?cur"
    by (rule word_less_succ [OF seq])
  obtain k sz' res where app: "sim_append fault ?name (wal_header ?cur) 0 (mem_create ?name (wal_files r)) =
      Some (fmupd ?name (?f0\<lparr>file_data := take k (wal_header ?cur)\<rparr>) (mem_create ?name (wal_files r)), sz', res)"
    and k: "k \<le> 16" "k < 16 \<longleftrightarrow> isl res" "fault = NoFault \<longrightarrow> \<not> isl res"
    by (rule sim_append_cases [of "mem_create ?name (wal_files r)" ?name ?f0 "wal_header ?cur" fault 0])
      (auto simp: mem_create_def wal_header_def)
  define f where "f = ?f0\<lparr>file_data := take k (wal_header ?cur)\<rparr>"
  define w where "w = \<lparr>writer_name = ?name, writer_size = sz', writer_sequence = ?cur, entry_count = 0,
    min_timestamp = - 1, max_timestamp = 0\<rparr>"
  define r' where "r' = r\<lparr>wal_files := fmupd ?name f (wal_files r),
    current_writer := (if isl res then None else Some w), current_sequence := ?cur\<rparr>"
  have st: "fmupd ?name f (mem_create ?name (wal_files r)) = fmupd ?name f (wal_files r)"
    by (simp add: mem_create_def fmap_eq_iff)
  have rot: "rotate_file fault r = Some (r', map_sum id (\<lambda>_. ()) res)"
    using seq app st unfolding rotate_file_def wal_writer_new_def
    by (cases res) (simp_all add: Let_def f_def r'_def w_def)
  have data: "file_data f = take k (content ?cur [])"
    by (simp add: f_def content_def)
  have fok: "file_ok crc ?cur ?name f"
    by (rule file_okI [where es = "[]" and n = k]) (use k(1) data in \<open>simp_all add: content_def f_def\<close>)
  have "fmpred (file_ok crc ?cur) (fmupd ?name f (wal_files r))"
    using ok fok file_ok_mono [OF _ less_imp_le [OF lt]] by (auto simp: rot_ok_def fmpred_iff)
  moreover have "writer_ok crc r' w" if "\<not> isl res"
    using that k by (auto simp: writer_ok_def r'_def w_def f_def content_def intro: exI [of _ "[]"])
  ultimately have ok': "rot_ok crc r'"
    by (auto simp: rot_ok_def r'_def)
  have old: "\<forall>s\<in>log_seqs (wal_files r). s < ?cur"
    using rot_ok_names(2) [OF ok] lt by (blast intro: le_less_trans)
  have "recover_data crc (file_data f) = []"
    using recover_content [of crc "[]" k ?cur] k(1) by (simp add: data content_def held_def)
  then have "log_of crc (wal_files r') = log_of crc (wal_files r)"
    using log_fresh [OF rot_ok_names(1) [OF ok] old, of crc f] by (simp add: r'_def)
  then have log: "recover_all_entries crc r' = recover_all_entries crc r"
    by (simp add: recover_all_log rot_ok_names(1) [OF ok] rot_ok_names(1) [OF ok'])
  show thesis
    by (rule that [OF rot ok' log]) (use k(3) in \<open>auto simp: r'_def w_def isl_map_sum\<close>)
qed

lemma write_step:
  assumes ok: "rot_ok crc r" and w: "current_writer r = Some w" "entry_count w \<noteq> - 1" and e: "entry_ok crc e"
  obtains r' res where "rotator_write fault e r = Some (r', res)" "rot_ok crc r'"
    "recover_all_entries crc r' = recover_all_entries crc r @ (if isl res then [] else [e])"
    "current_sequence r' = current_sequence r" "\<not> isl res \<longrightarrow> res = Inr (current_sequence r)"
    "\<not> isl res \<longrightarrow> current_writer r' \<noteq> None" "isl res \<longrightarrow> current_writer r' = None" "fault = NoFault \<longrightarrow> \<not> isl res"
    "max_file_size r' = max_file_size r"
proof -
  let ?cur = "current_sequence r"
  have wok: "writer_sequence w = ?cur" "writer_name w = wal_file_name ?cur"
    using ok w(1) by (auto simp: rot_ok_def writer_ok_def)
  obtain f es where f: "fmlookup (wal_files r) (wal_file_name ?cur) = Some f" "list_all (entry_ok crc) es"
    "file_data f = content ?cur es"
    using ok w(1) unfolding rot_ok_def writer_ok_def by metis
  obtain k sz' res where app: "sim_append fault (wal_file_name ?cur) (wal_encode e) (writer_size w) (wal_files r) =
      Some (fmupd (wal_file_name ?cur) (f\<lparr>file_data := file_data f @ take k (wal_encode e)\<rparr>) (wal_files r), sz', res)"
    and k: "k \<le> disk_size e" "k < disk_size e \<longleftrightarrow> isl res" "fault = NoFault \<longrightarrow> \<not> isl res"
    by (rule sim_append_cases [OF f(1) encode_not_Nil [of e], of fault "writer_size w"]) auto
  define f' where "f' = f\<lparr>file_data := content ?cur es @ take k (wal_encode e)\<rparr>"
  define w' where "w' = w\<lparr>writer_size := sz', entry_count := entry_count w + 1,
    min_timestamp := (if entry_timestamp e < min_timestamp w then entry_timestamp e else min_timestamp w),
    max_timestamp := (if entry_timestamp e > max_timestamp w then entry_timestamp e else max_timestamp w)\<rparr>"
  define r' where "r' = r\<lparr>wal_files := fmupd (wal_file_name ?cur) f' (wal_files r),
    current_writer := (if isl res then None else Some w')\<rparr>"
  have wrote: "rotator_write fault e r = Some (r', map_sum id (\<lambda>_. ?cur) res)"
    using app w wok f(3) unfolding rotator_write_def append_entry_def
    by (cases res) (simp_all add: r'_def f'_def w'_def)
  have synced: "synced_pos f \<le> length (file_data f)"
    using ok f(1) by (auto simp: rot_ok_def file_ok_def fmpred_iff)
  have fok: "file_ok crc ?cur (wal_file_name ?cur) f'"
    by (rule file_ok_partial [where es = es and e = e and k = k]) (use e k(1) f synced in \<open>simp_all add: f'_def\<close>)
  have "fmpred (file_ok crc ?cur) (fmupd (wal_file_name ?cur) f' (wal_files r))"
    using ok fok by (simp add: rot_ok_def fmpred_iff)
  moreover have "writer_ok crc r' w'" if "\<not> isl res"
  proof -
    have "file_data f' = content ?cur (es @ [e])"
      using that k by (simp add: f'_def content_append)
    then show ?thesis
      using wok e f(2) by (auto simp: writer_ok_def r'_def w'_def intro!: exI [of _ "es @ [e]"])
  qed
  ultimately have ok': "rot_ok crc r'"
    by (auto simp: rot_ok_def r'_def)
  have rec: "recover_data crc (file_data f') = es @ (if isl res then [] else [e])" "recover_data crc (file_data f) = es"
    using recover_partial [OF f(2) e k(1), of ?cur] k(1,2) recover_full [OF f(2)] f(3) by (auto simp: f'_def)
  have "log_of crc (wal_files r') = log_of crc (wal_files r) @ (if isl res then [] else [e])"
    using log_newest [OF rot_ok_names [OF ok], of crc f'] log_newest [OF rot_ok_names [OF ok], of crc f]
    by (simp add: r'_def rec fmupd_same [OF f(1)])
  then have log: "recover_all_entries crc r' = recover_all_entries crc r @ (if isl res then [] else [e])"
    by (simp add: recover_all_log rot_ok_names(1) [OF ok] rot_ok_names(1) [OF ok'])
  show thesis
    by (rule that [OF wrote ok']) (use log k(3) in \<open>auto simp: r'_def isl_map_sum map_sum_Inr\<close>)
qed

definition room :: "wal_rotator \<Rightarrow> bool" where
  "room r \<longleftrightarrow> current_sequence r \<noteq> - 1 \<and> (\<forall>w. current_writer r = Some w \<longrightarrow> entry_count w \<noteq> - 1)"

lemma append_step:
  assumes ok: "rot_ok crc r" and room: "room r" and e: "entry_ok crc e"
  obtains r' res where "rotator_append fault0 fault e r = Some (r', res)" "rot_ok crc r'"
    "recover_all_entries crc r' = recover_all_entries crc r @ (if isl res then [] else [e])"
    "fault0 = NoFault \<longrightarrow> fault = NoFault \<longrightarrow> \<not> isl res"
    "\<not> isl res \<longrightarrow> res = Inr (current_sequence r') \<and> current_writer r' \<noteq> None"
    "current_sequence r \<le> current_sequence r'"
proof (cases "needs_new_file r")
  case True
  have seq: "current_sequence r \<noteq> - 1"
    using room by (simp add: room_def)
  obtain r1 res1 where r1: "rotate_file fault0 r = Some (r1, res1)" "rot_ok crc r1"
    "recover_all_entries crc r1 = recover_all_entries crc r" "current_sequence r1 = current_sequence r + 1"
    "isl res1 \<longrightarrow> current_writer r1 = None"
    "\<not> isl res1 \<longrightarrow> (\<exists>w. current_writer r1 = Some w \<and> entry_count w = 0)" "fault0 = NoFault \<longrightarrow> \<not> isl res1"
    "max_file_size r1 = max_file_size r"
    by (rule rotate_step [OF ok seq, of fault0])
  have up: "current_sequence r \<le> current_sequence r1"
    using word_less_succ [OF seq] r1(4) by simp
  show thesis
  proof (cases res1)
    case (Inl err)
    show ?thesis
      by (rule that [of r1 "Inl err"]) (use True r1 Inl up in \<open>auto simp: rotator_append_def\<close>)
  next
    case (Inr x)
    then obtain w where w: "current_writer r1 = Some w" "entry_count w \<noteq> - 1"
      using r1(6) by auto
    obtain r2 res2 where r2: "rotator_write fault e r1 = Some (r2, res2)" "rot_ok crc r2"
      "recover_all_entries crc r2 = recover_all_entries crc r1 @ (if isl res2 then [] else [e])"
      "current_sequence r2 = current_sequence r1" "\<not> isl res2 \<longrightarrow> res2 = Inr (current_sequence r1)"
      "\<not> isl res2 \<longrightarrow> current_writer r2 \<noteq> None" "isl res2 \<longrightarrow> current_writer r2 = None" "fault = NoFault \<longrightarrow> \<not> isl res2"
      "max_file_size r2 = max_file_size r1"
      by (rule write_step [OF r1(2) w e, of fault])
    show ?thesis
      by (rule that [of r2 res2]) (use True r1 r2 Inr up in \<open>auto simp: rotator_append_def\<close>)
  qed
next
  case False
  then obtain w where w: "current_writer r = Some w" "entry_count w \<noteq> - 1"
    using room by (auto simp: needs_new_file_def room_def split: option.splits)
  obtain r2 res2 where r2: "rotator_write fault e r = Some (r2, res2)" "rot_ok crc r2"
    "recover_all_entries crc r2 = recover_all_entries crc r @ (if isl res2 then [] else [e])"
    "current_sequence r2 = current_sequence r" "\<not> isl res2 \<longrightarrow> res2 = Inr (current_sequence r)"
    "\<not> isl res2 \<longrightarrow> current_writer r2 \<noteq> None" "isl res2 \<longrightarrow> current_writer r2 = None" "fault = NoFault \<longrightarrow> \<not> isl res2"
    "max_file_size r2 = max_file_size r"
    by (rule write_step [OF ok w e, of fault])
  show ?thesis
    by (rule that [of r2 res2]) (use False r2 in \<open>auto simp: rotator_append_def\<close>)
qed

section \<open>Sync, crash, truncation\<close>

text \<open>The log depends on the names and the data of the files only.\<close>

lemma log_of_cong:
  assumes "\<And>name. map_option file_data (fmlookup st' name) = map_option file_data (fmlookup st name)"
  shows "log_of crc st' = log_of crc st"
proof -
  have "recover_file crc st' name = recover_file crc st name" for name
    using assms [of name] by (cases "fmlookup st name"; cases "fmlookup st' name") (auto simp: recover_file_data)
  moreover have "(fmlookup st' name \<noteq> None) = (fmlookup st name \<noteq> None)" for name
    using assms [of name] by (metis option.map_disc_iff)
  ultimately show ?thesis
    by (simp add: log_of_def log_seqs_def)
qed

lemma sync_step:
  assumes ok: "rot_ok crc r" and s: "rotator_sync fault r = (r', res)"
  shows "rot_ok crc r'" "recover_all_entries crc r' = recover_all_entries crc r" "current_sequence r' = current_sequence r"
    "current_writer r' = current_writer r"
proof -
  let ?files = "\<lambda>r. fmlookup (wal_files r)"
  have same: "current_sequence r' = current_sequence r" "current_writer r' = current_writer r"
    "map_option file_data (?files r' name) = map_option file_data (?files r name)" for name
    using s by (auto simp: rotator_sync_def sim_sync_def mem_sync_def split: option.splits if_splits)
  then show "current_sequence r' = current_sequence r" "current_writer r' = current_writer r"
    by simp_all
  have "file_ok crc (current_sequence r) name f'" if f': "?files r' name = Some f'" for name f'
  proof -
    obtain f where f: "?files r name = Some f" "file_data f' = file_data f"
      using same(3) [of name] f' by (cases "?files r name") auto
    moreover have "synced_pos f' = synced_pos f \<or> synced_pos f' = length (file_data f')"
      using s f' f by (auto simp: rotator_sync_def sim_sync_def mem_sync_def split: option.splits if_splits)
    ultimately show ?thesis
      using ok by (auto simp: rot_ok_def fmpred_iff file_ok_def)
  qed
  moreover have "writer_ok crc r' w" if "current_writer r = Some w" for w
  proof -
    obtain f es where f: "?files r (writer_name w) = Some f" "list_all (entry_ok crc) es"
      "file_data f = content (current_sequence r) es" "writer_sequence w = current_sequence r"
      "writer_name w = wal_file_name (current_sequence r)"
      using ok \<open>current_writer r = Some w\<close> unfolding rot_ok_def writer_ok_def by metis
    obtain f' where "?files r' (writer_name w) = Some f'" "file_data f' = file_data f"
      using same(3) [of "writer_name w"] f(1) by auto
    then show ?thesis
      using f same(1) by (auto simp: writer_ok_def)
  qed
  ultimately show ok': "rot_ok crc r'"
    using same by (auto simp: rot_ok_def fmpred_iff)
  show "recover_all_entries crc r' = recover_all_entries crc r"
    using log_of_cong [of "wal_files r'" "wal_files r" crc] same(3)
    by (simp add: recover_all_log rot_ok_names(1) [OF ok] rot_ok_names(1) [OF ok'])
qed

text \<open>A crash keeps of each file any prefix that holds what was synced.\<close>

definition crash_image :: "wal_store \<Rightarrow> wal_store \<Rightarrow> bool" where
  "crash_image st st' \<longleftrightarrow> fmdom st' = fmdom st \<and>
     (\<forall>name f. fmlookup st name = Some f \<longrightarrow>
        (\<exists>n. synced_pos f \<le> n \<and> fmlookup st' name = Some (f\<lparr>file_data := take n (file_data f)\<rparr>)))"

lemma simulate_crash_image: "crash_image st (simulate_crash st)"
  by (auto simp: crash_image_def simulate_crash_def)

lemma crash_imageE:
  assumes "crash_image st st'" "fmlookup st' name = Some f'"
  obtains f n where "fmlookup st name = Some f" "synced_pos f \<le> n" "f' = f\<lparr>file_data := take n (file_data f)\<rparr>"
proof -
  have "name |\<in>| fmdom st"
    using assms by (metis crash_image_def fmdomI)
  then obtain f where "fmlookup st name = Some f"
    by (rule fmdomE)
  then show thesis
    using assms that unfolding crash_image_def by (metis option.inject)
qed

lemma crash_seqs: "crash_image st st' \<Longrightarrow> log_seqs st' = log_seqs st"
  unfolding log_seqs_def crash_image_def by (metis fmlookup_dom_iff option.distinct(1) option.exhaust)

lemma fold_max: "seq \<in> set xs \<Longrightarrow> seq \<le> fold max xs (a :: u64)"
proof (induction xs arbitrary: a)
  case (Cons x xs)
  have "b \<le> fold max ys b" for b :: u64 and ys
    by (induction ys arbitrary: b) (auto intro: order.trans [OF max.cobounded2])
  then show ?case
    using Cons by (auto intro: order.trans [OF max.cobounded1])
qed simp

lemma reopen_step:
  assumes ok: "rot_ok crc r" and crash: "crash_image (wal_files r) st'"
  shows "rot_ok crc (rotator_new st' limit)"
proof -
  have names: "names_ok st'"
    using rot_ok_names(1) [OF ok] crash by (force simp: names_ok_def fmpred_iff elim: crash_imageE)
  have "file_ok crc (current_sequence (rotator_new st' limit)) name f'" if f': "fmlookup st' name = Some f'" for name f'
  proof -
    obtain f n where f: "fmlookup (wal_files r) name = Some f" "synced_pos f \<le> n" "f' = f\<lparr>file_data := take n (file_data f)\<rparr>"
      by (rule crash_imageE [OF crash f'])
    obtain seq es m where seq: "name = wal_file_name seq" "list_all (entry_ok crc) es" "m \<le> length (content seq es)"
      "file_data f = take m (content seq es)" "synced_pos f \<le> length (file_data f)"
      using ok f(1) unfolding rot_ok_def fmpred_iff file_ok_def by blast
    have "seq \<in> log_seqs st'"
      using f' seq(1) by (simp add: log_seqs_def)
    then have "seq \<le> current_sequence (rotator_new st' limit)"
      using wal_sequences_sorted(2) [OF names] by (auto simp: rotator_new_def intro: fold_max)
    then show ?thesis
      unfolding seq(1) by (rule file_okI [where n = "min n m"]) (use seq f in auto)
  qed
  then show ?thesis
    by (simp add: rot_ok_def fmpred_iff) (simp add: rotator_new_def)
qed

lemma truncate_files_lookup:
  "fmlookup (fst (truncate_files crc t cur names st n)) name =
     (if name \<in> set names \<and> cur \<noteq> Some name \<and> (\<exists>f. fmlookup st name = Some f \<and> file_expendable crc t f)
      then None else fmlookup st name)"
  by (induction crc t cur names st n rule: truncate_files.induct) (auto split: option.splits if_splits)

lemma truncate_lookup:
  "fmlookup (wal_files (fst (truncate_before crc t r))) name =
     (if (\<forall>w. current_writer r = Some w \<longrightarrow> name \<noteq> wal_file_name (writer_sequence w)) \<and>
         (\<exists>f. fmlookup (wal_files r) name = Some f \<and> file_expendable crc t f)
      then None else fmlookup (wal_files r) name)"
  "current_writer (fst (truncate_before crc t r)) = current_writer r"
  "current_sequence (fst (truncate_before crc t r)) = current_sequence r"
  by (auto simp: truncate_before_def split_beta truncate_files_lookup mem_list_def fmlookup_dom_iff)

lemma truncate_step:
  assumes ok: "rot_ok crc r"
  shows "rot_ok crc (fst (truncate_before crc t r))"
proof -
  have "writer_ok crc (fst (truncate_before crc t r)) w" if "current_writer r = Some w" for w
    using ok that unfolding rot_ok_def writer_ok_def truncate_lookup by (metis (no_types, lifting))
  then show ?thesis
    using ok by (auto simp: rot_ok_def fmpred_iff truncate_lookup)
qed

lemma expendable_old:
  assumes "file_expendable crc t f" "e \<in> set (recover_data crc (file_data f))"
  shows "entry_timestamp e \<le> t"
  using assms by (auto simp: file_expendable_def recover_data_def Let_def split: sum.splits if_splits)

lemma sorted_list_of_set_filter:
  assumes "finite A"
  shows "sorted_list_of_set {a\<in>A. Q a} = filter Q (sorted_list_of_set A)"
proof -
  have "length (filter Q (sorted_list_of_set A)) = card (set (filter Q (sorted_list_of_set A)))"
    by (simp add: distinct_card del: set_filter)
  also have "\<dots> = card {a\<in>A. Q a}"
    using assms by (auto intro: arg_cong [where f = card])
  finally have "length (filter Q (sorted_list_of_set A)) = card {a\<in>A. Q a}" .
  then show ?thesis
    using assms by (intro sorted_list_of_set_unique [THEN iffD1]) (auto simp: sorted_wrt_filter)
qed

lemma filter_concat_skip:
  "(\<And>x. x \<in> set xs \<Longrightarrow> \<not> Q x \<Longrightarrow> filter P (F x) = []) \<Longrightarrow>
   filter P (concat (map F (filter Q xs))) = filter P (concat (map F xs))"
  by (induction xs) auto

lemma truncate_log:
  fixes t :: u64
  assumes ok: "rot_ok crc r"
  defines "r' \<equiv> fst (truncate_before crc t r)"
  shows "filter (\<lambda>e. t < entry_timestamp e) (recover_all_entries crc r') =
    filter (\<lambda>e. t < entry_timestamp e) (recover_all_entries crc r)"
proof -
  let ?st = "wal_files r" and ?kept = "\<lambda>seq. fmlookup (wal_files r') (wal_file_name seq) \<noteq> None"
  let ?F = "\<lambda>seq. recover_file crc ?st (wal_file_name seq)"
  have ok': "rot_ok crc r'"
    unfolding r'_def by (rule truncate_step [OF ok])
  have kept: "fmlookup (wal_files r') (wal_file_name seq) = fmlookup ?st (wal_file_name seq)" if "?kept seq" for seq
    using that unfolding r'_def truncate_lookup(1) by (auto split: if_splits)
  have fin: "finite (log_seqs ?st)"
    by (rule finite_log_seqs [OF rot_ok_names(1) [OF ok]])
  have seqs: "log_seqs (wal_files r') = {seq \<in> log_seqs ?st. ?kept seq}"
    using kept by (auto simp: log_seqs_def)
  have log: "log_of crc (wal_files r') = concat (map ?F (filter ?kept (sorted_list_of_set (log_seqs ?st))))"
    unfolding log_of_def seqs sorted_list_of_set_filter [OF fin]
    by (rule arg_cong [where f = concat], rule map_cong) (auto simp: recover_file_data kept)
  have gone: "filter (\<lambda>e. t < entry_timestamp e) (?F seq) = []" if "\<not> ?kept seq" for seq
  proof (cases "fmlookup ?st (wal_file_name seq)")
    case (Some f)
    then have "file_expendable crc t f"
      using that unfolding r'_def truncate_lookup(1) by (auto split: if_splits)
    then show ?thesis
      using Some expendable_old [of crc t f] by (auto simp: recover_file_data filter_empty_conv not_less)
  qed (simp add: recover_file_data)
  show ?thesis
    unfolding recover_all_log [OF rot_ok_names(1) [OF ok]] recover_all_log [OF rot_ok_names(1) [OF ok']] log
      log_of_def [of crc ?st]
    by (rule filter_concat_skip) (rule gone)
qed

section \<open>Runs\<close>

inductive wal_reach :: "crc32 \<Rightarrow> usize \<Rightarrow> wal_rotator \<Rightarrow> bool" for crc limit where
  fresh: "wal_reach crc limit (rotator_new fmempty limit)"
| append: "wal_reach crc limit r \<Longrightarrow> room r \<Longrightarrow> entry_ok crc e \<Longrightarrow> rotator_append fault0 fault e r = Some (r', res) \<Longrightarrow>
    wal_reach crc limit r'"
| sync: "wal_reach crc limit r \<Longrightarrow> rotator_sync b r = (r', res') \<Longrightarrow> wal_reach crc limit r'"
| truncate: "wal_reach crc limit r \<Longrightarrow> wal_reach crc limit (fst (truncate_before crc t r))"
| restart: "wal_reach crc limit r \<Longrightarrow> crash_image (wal_files r) st' \<Longrightarrow> wal_reach crc limit (rotator_new st' limit)"

lemma rotator_new_empty [simp]: "rotator_new fmempty limit =
    \<lparr>wal_files = fmempty, max_file_size = limit, current_writer = None, current_sequence = 0\<rparr>"
  by (simp add: rotator_new_def wal_sequences_def mem_list_def sorted_list_of_fset.rep_eq List.map_filter_simps)

lemma room_new: "room (rotator_new fmempty limit)"
  by (simp add: room_def)

lemma reach_rot_ok: "wal_reach crc limit r \<Longrightarrow> rot_ok crc r"
proof (induction rule: wal_reach.induct)
  case fresh
  then show ?case
    by (simp add: rot_ok_def rotator_new_def)
next
  case (append r e fault0 fault r' res)
  obtain r2 res2 where "rotator_append fault0 fault e r = Some (r2, res2)" "rot_ok crc r2"
    using append_step [OF append.IH append.hyps(2,3), of fault0 fault] by metis
  then show ?case
    using append.hyps(4) by simp
next
  case (sync r b r' res')
  then show ?case
    by (blast dest: sync_step(1))
next
  case (truncate r t)
  show ?case
    by (rule truncate_step [OF truncate.IH])
next
  case (restart r st')
  then show ?case
    by (blast intro: reopen_step)
qed

text \<open>
  C30. The files together are an append-only log. In every run, with rotations, failed and partial
  writes, syncs, truncations, crashes and restarts: an append returns, recovery afterwards gives
  what it gave before followed by the entry if the append succeeded, and exactly what it gave before
  if it failed; and without a fault it succeeds. (\<open>room\<close>: fewer than \<open>2 ^ 64\<close> files and entries of a file.)
\<close>

theorem wal_append_refines_log:
  assumes "wal_reach crc limit r" "room r" "wal_validate crc e" "length (entry_data e) < 2 ^ 32"
  shows "\<exists>r' res. rotator_append header_fault fault e r = Some (r', res) \<and>
    recover_all_entries crc r' = recover_all_entries crc r @ (if isl res then [] else [e]) \<and>
    (header_fault = NoFault \<and> fault = NoFault \<longrightarrow> \<not> isl res)"
proof -
  have "entry_ok crc e"
    using assms(3,4) by (simp add: entry_ok_def)
  from append_step [OF reach_rot_ok [OF assms(1)] assms(2) this, of header_fault fault] show ?thesis
    by metis
qed

theorem wal_append_refines_log_witness:
  "\<exists>r' res. rotator_append NoFault (FaultPartial 3) \<lparr>entry_data = ''ab'', entry_timestamp = 7, entry_checksum = 2\<rparr>
      (rotator_new fmempty 64) = Some (r', res) \<and>
    recover_all_entries (\<lambda>d. of_nat (length d)) r' = recover_all_entries (\<lambda>d. of_nat (length d)) (rotator_new fmempty 64) @
      (if isl res then [] else [\<lparr>entry_data = ''ab'', entry_timestamp = 7, entry_checksum = 2\<rparr>])"
proof -
  have "wal_validate (\<lambda>d. of_nat (length d)) \<lparr>entry_data = ''ab'', entry_timestamp = 7, entry_checksum = 2\<rparr>"
    by (simp add: wal_validate_def)
  moreover have "length (entry_data \<lparr>entry_data = ''ab'', entry_timestamp = 7, entry_checksum = 2\<rparr>) < 2 ^ 32"
    by simp
  ultimately show ?thesis
    using wal_append_refines_log [OF wal_reach.fresh room_new] by blast
qed

lemma crash_recover:
  assumes ok: "rot_ok crc r" and crash: "crash_image (wal_files r) st'"
  shows "prefix (recover_file crc (simulate_crash (wal_files r)) name) (recover_file crc st' name) \<and>
    prefix (recover_file crc st' name) (recover_file crc (wal_files r) name)"
proof (cases "fmlookup (wal_files r) name")
  case None
  then have "fmlookup st' name = None" "fmlookup (simulate_crash (wal_files r)) name = None"
    using crash by (simp_all add: crash_image_def simulate_crash_def fmdom_notD fmdom_notI)
  then show ?thesis
    by (simp add: recover_file_data)
next
  case (Some f)
  obtain n where n: "synced_pos f \<le> n" "fmlookup st' name = Some (f\<lparr>file_data := take n (file_data f)\<rparr>)"
    using crash Some unfolding crash_image_def by blast
  obtain seq es m where seq: "list_all (entry_ok crc) es" "m \<le> length (content seq es)" "file_data f = take m (content seq es)"
    using ok Some unfolding rot_ok_def fmpred_iff file_ok_def by blast
  have rec: "recover_data crc (take k (file_data f)) = held (min k m) es" for k
    using recover_content [OF seq(1), of "min k m" seq] seq by simp
  have "recover_file crc (simulate_crash (wal_files r)) name = held (min (synced_pos f) m) es"
    "recover_file crc st' name = held (min n m) es" "recover_file crc (wal_files r) name = held m es"
    using Some n(2) rec [of "synced_pos f"] rec [of n] rec [of m] seq(3)
    by (simp_all add: recover_file_data simulate_crash_def)
  then show ?thesis
    using n(1) by (simp add: held_mono)
qed



text \<open>
  C34. Truncation: deleting the files up to a timestamp loses no entry with a greater timestamp; recovery
  gives the same newer entries in the same order.
\<close>

theorem wal_truncate_keeps_newer:
  assumes "wal_reach crc limit r"
  shows "filter (\<lambda>e. t < entry_timestamp e) (recover_all_entries crc (fst (truncate_before crc t r))) =
    filter (\<lambda>e. t < entry_timestamp e) (recover_all_entries crc r)"
  by (rule truncate_log [OF reach_rot_ok [OF assms]])

theorem wal_truncate_keeps_newer_witness:
  "filter (\<lambda>e. 5 < entry_timestamp e) (recover_all_entries (\<lambda>_. 0) (fst (truncate_before (\<lambda>_. 0) 5 (rotator_new fmempty 64)))) =
    filter (\<lambda>e. 5 < entry_timestamp e) (recover_all_entries (\<lambda>_. 0) (rotator_new fmempty 64))"
  by (rule wal_truncate_keeps_newer [OF wal_reach.fresh])

end
