(* ===== verification/Wal_Commit.thy ===== *)
theory Wal_Commit
  imports Wal_Laws
begin

text \<open>
  Group commit of the write-ahead-log actor in the mode \<open>Always\<close>: which acknowledged writes survive a crash.
\<close>

section \<open>Group commit\<close>

text \<open>
  The writes of a batch: deltas with their timestamps and the channels that wait for them, handled
  without a fault of the store.
\<close>

type_synonym 'd wal_write = "'d \<times> u64 \<times> nat"

fun handle_writes :: "('d \<Rightarrow> string + bytes) \<Rightarrow> crc32 \<Rightarrow> 'd wal_write list \<Rightarrow> wal_actor \<Rightarrow> wal_actor option" where
  "handle_writes ser crc [] a = Some a"
| "handle_writes ser crc ((d, t, i) # ws) a =
     (case handle_message_always ser crc (NoFault, NoFault) False (WriteDelta d t (Some i)) a of
        None \<Rightarrow> None | Some (a', _) \<Rightarrow> handle_writes ser crc ws a')"

definition write_entry :: "('d \<Rightarrow> string + bytes) \<Rightarrow> crc32 \<Rightarrow> 'd wal_write \<Rightarrow> wal_entry" where
  "write_entry ser crc = (\<lambda>(d, t, i). \<lparr>entry_data = projr (ser d), entry_timestamp = t, entry_checksum = crc (projr (ser d))\<rparr>)"

definition serializable :: "('d \<Rightarrow> string + bytes) \<Rightarrow> 'd wal_write \<Rightarrow> bool" where
  "serializable ser = (\<lambda>(d, t, i). \<exists>bs. ser d = Inr bs \<and> length bs < 2 ^ 32)"

lemma write_entry_ok: "serializable ser w \<Longrightarrow> entry_ok crc (write_entry ser crc w)"
  by (auto simp: serializable_def write_entry_def entry_ok_def wal_validate_def)

text \<open>The entries of the current file.\<close>

definition current_entries :: "crc32 \<Rightarrow> wal_rotator \<Rightarrow> wal_entry list" where
  "current_entries crc r = recover_file crc (wal_files r) (wal_file_name (current_sequence r))"

lemma write_current:
  assumes ok: "rot_ok crc r" and w: "current_writer r = Some w" "entry_count w \<noteq> - 1" and e: "entry_ok crc e"
    and wr: "rotator_write NoFault e r = Some (r', res)"
  shows "current_entries crc r' = current_entries crc r @ [e]"
proof -
  let ?name = "wal_file_name (current_sequence r)"
  obtain f es where f: "fmlookup (wal_files r) ?name = Some f" "list_all (entry_ok crc) es"
    "file_data f = content (current_sequence r) es" "writer_name w = ?name"
    using ok w(1) unfolding rot_ok_def writer_ok_def by metis
  have "fmlookup (wal_files r') ?name = Some (f\<lparr>file_data := content (current_sequence r) (es @ [e])\<rparr>)"
    "current_sequence r' = current_sequence r"
    using wr w f by (auto simp: rotator_write_def append_entry_def sim_append_def mem_append_def content_append)
  then show ?thesis
    using f e recover_full [of crc "es @ [e]"] recover_full [of crc es] by (simp add: current_entries_def recover_file_data)
qed

definition roomy :: "nat \<Rightarrow> wal_rotator \<Rightarrow> bool" where
  "roomy n r \<longleftrightarrow> unat (current_sequence r) + n < 2 ^ 64 \<and>
     (\<forall>w. current_writer r = Some w \<longrightarrow> unat (entry_count w) + n < 2 ^ 64)"

lemma unat_succ: "unat (w :: u64) + Suc n < 2 ^ 64 \<Longrightarrow> w \<noteq> - 1 \<and> unat (w + 1) = unat w + 1"
proof -
  assume *: "unat w + Suc n < 2 ^ 64"
  then have "w \<noteq> - 1"
    by (auto simp: unsigned_minus_1_eq_mask mask_eq_exp_minus_1)
  then show ?thesis
    using unatSuc [of w] by (simp add: add.commute eq_neg_iff_add_eq_0)
qed

lemma roomy_room: "roomy (Suc n) r \<Longrightarrow> room r"
  using unat_succ by (auto simp: roomy_def room_def)

text \<open>A write without a fault.\<close>

lemma write_effect:
  assumes "rot_ok crc r" "current_writer r = Some w" "unat (entry_count w) + Suc n < 2 ^ 64" "entry_ok crc e"
    and "rotator_write NoFault e r = Some (r', res)" "unat (current_sequence r) + n < 2 ^ 64"
  shows "roomy n r'" "current_sequence r' = current_sequence r" "current_entries crc r' = current_entries crc r @ [e]"
proof -
  have w: "entry_count w \<noteq> - 1" "unat (entry_count w + 1) + n < 2 ^ 64"
    using unat_succ [OF assms(3)] assms(3) by simp_all
  then show "roomy n r'" "current_sequence r' = current_sequence r"
    using assms(2,3,5,6) by (auto simp: rotator_write_def append_entry_def sim_append_def mem_append_def roomy_def
        split: option.splits)
  show "current_entries crc r' = current_entries crc r @ [e]"
    by (rule write_current [OF assms(1,2) w(1) assms(4,5)])
qed

lemma append_effect:
  assumes ok: "rot_ok crc r" and room: "roomy (Suc n) r" and e: "entry_ok crc e"
    and app: "rotator_append NoFault NoFault e r = Some (r', res)"
  shows "roomy n r'" "\<exists>es. current_entries crc r' = es @ [e]" "current_sequence r \<le> current_sequence r'"
    "current_sequence r' = current_sequence r \<longrightarrow> current_entries crc r' = current_entries crc r @ [e]"
proof -
  have "roomy n r' \<and> (\<exists>es. current_entries crc r' = es @ [e]) \<and> current_sequence r \<le> current_sequence r' \<and>
    (current_sequence r' = current_sequence r \<longrightarrow> current_entries crc r' = current_entries crc r @ [e])"
  proof (cases "needs_new_file r")
    case True
    have seq: "current_sequence r \<noteq> - 1" "unat (current_sequence r + 1) + n < 2 ^ 64"
      using unat_succ [of "current_sequence r" n] room by (auto simp: roomy_def)
    obtain r1 res1 where r1: "rotate_file NoFault r = Some (r1, res1)" "rot_ok crc r1"
      "recover_all_entries crc r1 = recover_all_entries crc r" "current_sequence r1 = current_sequence r + 1"
      "isl res1 \<longrightarrow> current_writer r1 = None"
      "\<not> isl res1 \<longrightarrow> (\<exists>w. current_writer r1 = Some w \<and> entry_count w = 0)" "NoFault = NoFault \<longrightarrow> \<not> isl res1"
      "max_file_size r1 = max_file_size r"
      by (rule rotate_step [OF ok seq(1), of NoFault])
    then obtain w x where w: "current_writer r1 = Some w" "entry_count w = 0" "res1 = Inr x"
      by (cases res1) auto
    have wr: "rotator_write NoFault e r1 = Some (r', res)"
      using app True r1(1) w(3) by (simp add: rotator_append_def)
    have n: "unat (entry_count w) + Suc n < 2 ^ 64" "unat (current_sequence r1) + n < 2 ^ 64"
      using room seq(2) by (simp_all add: w(2) r1(4) roomy_def)
    have "current_sequence r < current_sequence r1"
      by (simp add: r1(4) word_less_succ [OF seq(1)])
    then show ?thesis
      using write_effect [OF r1(2) w(1) n(1) e wr n(2)] by auto
  next
    case False
    then obtain w where w: "current_writer r = Some w"
      by (auto simp: needs_new_file_def split: option.splits)
    have "rotator_write NoFault e r = Some (r', res)"
      using app False by (simp add: rotator_append_def)
    moreover have "unat (entry_count w) + Suc n < 2 ^ 64" "unat (current_sequence r) + n < 2 ^ 64"
      using room w by (simp_all add: roomy_def)
    ultimately show ?thesis
      using write_effect [OF ok w _ e] by auto
  qed
  then show "roomy n r'" "\<exists>es. current_entries crc r' = es @ [e]" "current_sequence r \<le> current_sequence r'"
    "current_sequence r' = current_sequence r \<longrightarrow> current_entries crc r' = current_entries crc r @ [e]"
    by blast+
qed

text \<open>One write of a batch.\<close>

lemma handle_write:
  assumes ok: "rot_ok crc (rotator a)" and room: "roomy (Suc n) (rotator a)" and ser: "serializable ser (d, t, i)"
  obtains a' where "handle_message_always ser crc (NoFault, NoFault) False (WriteDelta d t (Some i)) a = Some (a', False)"
    "rotator_append NoFault NoFault (write_entry ser crc (d, t, i)) (rotator a) = Some (rotator a', Inr (current_sequence (rotator a')))"
    "rot_ok crc (rotator a')" "current_writer (rotator a') \<noteq> None"
    "pending_acks a' = pending_acks a @ [i]" "entries_since_sync a' = entries_since_sync a + 1" "sent a' = sent a"
proof -
  let ?e = "write_entry ser crc (d, t, i)"
  have from_delta: "from_delta ser crc d t = Inr ?e"
    using ser by (auto simp: serializable_def from_delta_def write_entry_def)
  obtain r' res where app: "rotator_append NoFault NoFault ?e (rotator a) = Some (r', res)" "rot_ok crc r'"
    "recover_all_entries crc r' = recover_all_entries crc (rotator a) @ (if isl res then [] else [?e])"
    "NoFault = NoFault \<longrightarrow> NoFault = NoFault \<longrightarrow> \<not> isl res"
    "\<not> isl res \<longrightarrow> res = Inr (current_sequence r') \<and> current_writer r' \<noteq> None"
    "current_sequence (rotator a) \<le> current_sequence r'"
    by (rule append_step [OF ok roomy_room [OF room] write_entry_ok [OF ser, of crc], of NoFault NoFault])
  show thesis
    by (rule that [of "a\<lparr>rotator := r', entries_since_sync := entries_since_sync a + 1, pending_acks := pending_acks a @ [i]\<rparr>"])
      (use app in \<open>simp_all add: write_delta_def from_delta\<close>)
qed

lemma handle_writes_effect:
  assumes "rot_ok crc (rotator a)" "roomy (length ws) (rotator a)" "\<forall>w\<in>set ws. serializable ser w"
  shows "\<exists>a'. handle_writes ser crc ws a = Some a' \<and> rot_ok crc (rotator a') \<and>
    pending_acks a' = pending_acks a @ map (\<lambda>(d, t, i). i) ws \<and>
    entries_since_sync a' = entries_since_sync a + length ws \<and> sent a' = sent a \<and>
    (ws \<noteq> [] \<longrightarrow> current_writer (rotator a') \<noteq> None) \<and>
    current_sequence (rotator a) \<le> current_sequence (rotator a') \<and>
    (current_sequence (rotator a') = current_sequence (rotator a) \<longrightarrow>
       current_entries crc (rotator a') = current_entries crc (rotator a) @ map (write_entry ser crc) ws)"
  using assms
proof (induction ws arbitrary: a)
  case (Cons w ws)
  obtain d t i where w: "w = (d, t, i)"
    by (cases w) auto
  have room: "roomy (Suc (length ws)) (rotator a)" and ser: "serializable ser (d, t, i)"
    using Cons.prems w by simp_all
  obtain a1 where a1: "handle_message_always ser crc (NoFault, NoFault) False (WriteDelta d t (Some i)) a = Some (a1, False)"
    "rotator_append NoFault NoFault (write_entry ser crc (d, t, i)) (rotator a) = Some (rotator a1, Inr (current_sequence (rotator a1)))"
    "rot_ok crc (rotator a1)" "current_writer (rotator a1) \<noteq> None"
    "pending_acks a1 = pending_acks a @ [i]" "entries_since_sync a1 = entries_since_sync a + 1" "sent a1 = sent a"
    by (rule handle_write [OF Cons.prems(1) room ser])
  note eff = append_effect [OF Cons.prems(1) room write_entry_ok [OF ser] a1(2)]
  obtain a2 where a2: "handle_writes ser crc ws a1 = Some a2" "rot_ok crc (rotator a2)"
    "pending_acks a2 = pending_acks a1 @ map (\<lambda>(d, t, i). i) ws"
    "entries_since_sync a2 = entries_since_sync a1 + length ws" "sent a2 = sent a1"
    "ws \<noteq> [] \<longrightarrow> current_writer (rotator a2) \<noteq> None"
    "current_sequence (rotator a1) \<le> current_sequence (rotator a2)"
    "current_sequence (rotator a2) = current_sequence (rotator a1) \<longrightarrow>
       current_entries crc (rotator a2) = current_entries crc (rotator a1) @ map (write_entry ser crc) ws"
    using Cons.IH [OF a1(3) eff(1)] Cons.prems(3) by auto
  have "current_writer (rotator a2) \<noteq> None"
    using a1(4) a2(1,6) by (cases ws) auto
  moreover have "current_entries crc (rotator a2) = current_entries crc (rotator a) @ map (write_entry ser crc) (w # ws)"
    if "current_sequence (rotator a2) = current_sequence (rotator a)"
  proof -
    have "current_sequence (rotator a1) = current_sequence (rotator a)"
      using that eff(3) a2(7) by simp
    then show ?thesis
      using that eff(4) a2(8) by (simp add: w)
  qed
  ultimately show ?case
    using a1 a2 eff(3) by (auto simp: w)
qed simp

section \<open>Durability\<close>

lemma set_recover_all:
  assumes "names_ok st"
  shows "set (recover_all_entries crc (rotator_new st limit)) = (\<Union>seq\<in>log_seqs st. set (recover_file crc st (wal_file_name seq)))"
proof -
  have "recover_all_entries crc (rotator_new st limit) = log_of crc st"
    using assms by (simp add: recover_all_log rotator_new_def)
  then show ?thesis
    using finite_log_seqs [OF assms] by (simp add: log_of_def)
qed

text \<open>After a successful sync, a crash keeps the whole of the current file.\<close>

lemma synced_current:
  assumes ok: "rot_ok crc r" and w: "current_writer r = Some w" and s: "rotator_sync False r = (r', res)"
    and crash: "crash_image (wal_files r') st'"
  shows "res = Inr ()" "set (current_entries crc r) \<subseteq> set (recover_all_entries crc (rotator_new st' limit))"
proof -
  let ?name = "wal_file_name (current_sequence r)"
  obtain f where f: "fmlookup (wal_files r) ?name = Some f" "writer_name w = ?name"
    using ok w unfolding rot_ok_def writer_ok_def by metis
  have r': "r' = r\<lparr>wal_files := fmupd ?name (f\<lparr>synced_pos := length (file_data f)\<rparr>) (wal_files r)\<rparr>" and res: "res = Inr ()"
    using s w f by (auto simp: rotator_sync_def sim_sync_def mem_sync_def)
  show "res = Inr ()"
    by (rule res)
  have ok': "rot_ok crc r'"
    by (rule sync_step(1) [OF ok s])
  have "recover_file crc (simulate_crash (wal_files r')) ?name = current_entries crc r"
    "recover_file crc (wal_files r') ?name = current_entries crc r"
    using f by (simp_all add: r' recover_file_data simulate_crash_def current_entries_def)
  then have "recover_file crc st' ?name = current_entries crc r"
    using crash_recover [OF ok' crash, of ?name] by (simp add: prefix_order.antisym)
  moreover have "current_sequence r \<in> log_seqs st'"
    using crash_seqs [OF crash] by (simp add: log_seqs_def r')
  moreover have "names_ok st'"
    using rot_ok_names(1) [OF reopen_step [OF ok' crash]] by (simp add: rotator_new_def)
  ultimately show "set (current_entries crc r) \<subseteq> set (recover_all_entries crc (rotator_new st' limit))"
    by (auto simp: set_recover_all)
qed


text \<open>A deterministic serializer and checksum for examples, and an actor on an empty store.\<close>

definition fresh_actor :: "usize \<Rightarrow> wal_actor" where
  "fresh_actor limit = \<lparr>rotator = rotator_new fmempty limit, pending_acks = [], entries_since_sync = 0, sent = []\<rparr>"


lemmas run_writes = write_delta_def from_delta_def rotator_append_def needs_new_file_def rotate_file_def
  wal_writer_new_def sim_append_def mem_append_def mem_create_def rotator_write_def append_entry_def Let_def

definition entry_a :: wal_entry where
  "entry_a = \<lparr>entry_data = ''a'', entry_timestamp = 1, entry_checksum = 0\<rparr>"

definition entry_b :: wal_entry where
  "entry_b = \<lparr>entry_data = ''b'', entry_timestamp = 2, entry_checksum = 0\<rparr>"

lemma batch_with_rotation:
  "\<exists>a'. handle_writes Inr (\<lambda>_. 0) [(''a'', 1, 1), (''b'', 2, 2)] (fresh_actor 20) = Some a' \<and>
     sent (flush_group_commit False a') = [(1, Inr ()), (2, Inr ())] \<and>
     wal_files (rotator (flush_group_commit False a')) =
       fmupd (wal_file_name 2) \<lparr>file_data = content 2 [entry_b], synced_pos = length (content 2 [entry_b])\<rparr>
         (fmupd (wal_file_name 1) \<lparr>file_data = content 1 [entry_a], synced_pos = 0\<rparr> fmempty)"
  by (simp add: run_writes fresh_actor_def flush_group_commit_def rotator_sync_def sim_sync_def mem_sync_def
      content_def entry_a_def entry_b_def disk_size_def fmap_eq_iff)

lemma batch_with_failure:
  "\<exists>a1 a'. handle_writes Inr (\<lambda>_. 0) [(''a'', 1, 1)] (fresh_actor 1000) = Some a1 \<and>
     handle_message_always Inr (\<lambda>_. 0) (NoFault, FaultDiskFull) False (WriteDelta ''b'' 2 (Some 2)) a1 = Some (a', False) \<and>
     sent (flush_group_commit False a') = [(2, Inl DiskFull), (1, Inr ())] \<and>
     wal_files (rotator (flush_group_commit False a')) =
       fmupd (wal_file_name 1) \<lparr>file_data = content 1 [entry_a], synced_pos = 0\<rparr> fmempty"
  by (simp add: run_writes fresh_actor_def flush_group_commit_def rotator_sync_def send_ack_def
      content_def entry_a_def disk_size_def fmap_eq_iff)

text \<open>
  C33. A rotation inside a batch breaks the promise of the mode. The file of the earlier writes is
  closed without a sync and the flush syncs the new file only, yet every writer is answered with
  success: after a crash the first write of this batch of two is gone. The same happens
  when a later write of the batch fails: the current writer is dropped, the flush syncs nothing and reports success.
\<close>

theorem group_commit_loses_acknowledged:
  "(\<exists>a'. handle_writes Inr (\<lambda>_. 0) [(''a'', 1, 1), (''b'', 2, 2)] (fresh_actor 20) = Some a' \<and>
     sent (flush_group_commit False a') = [(1, Inr ()), (2, Inr ())] \<and>
     write_entry Inr (\<lambda>_. 0) (''a'', 1, 1) \<notin>
       set (recover_all_entries (\<lambda>_. 0) (rotator_new (simulate_crash (wal_files (rotator (flush_group_commit False a')))) 20))) \<and>
   (\<exists>a1 a'. handle_writes Inr (\<lambda>_. 0) [(''a'', 1, 1)] (fresh_actor 1000) = Some a1 \<and>
     handle_message_always Inr (\<lambda>_. 0) (NoFault, FaultDiskFull) False (WriteDelta ''b'' 2 (Some 2)) a1 = Some (a', False) \<and>
     sent (flush_group_commit False a') = [(2, Inl DiskFull), (1, Inr ())] \<and>
     recover_all_entries (\<lambda>_. 0) (rotator_new (simulate_crash (wal_files (rotator (flush_group_commit False a')))) 1000) = [])"
proof -
  let ?st1 = "simulate_crash (fmupd (wal_file_name 2) \<lparr>file_data = content 2 [entry_b], synced_pos = length (content 2 [entry_b])\<rparr>
    (fmupd (wal_file_name 1) \<lparr>file_data = content 1 [entry_a], synced_pos = 0\<rparr> fmempty))"
  let ?st2 = "simulate_crash (fmupd (wal_file_name 1) \<lparr>file_data = content 1 [entry_a], synced_pos = 0\<rparr> fmempty)"
  have names: "names_ok ?st1" "names_ok ?st2"
    by (auto simp: names_ok_def simulate_crash_def fmpred_iff split: if_splits)
  have empty_file: "recover_data (\<lambda>_. 0) [] = []"
    by (simp add: recover_data_def wal_open_def)
  have "list_all (entry_ok (\<lambda>_. 0)) [entry_b]"
    by (simp add: entry_ok_def wal_validate_def entry_b_def)
  then have "recover_data (\<lambda>_. 0) (content 2 [entry_b]) = [entry_b]"
    by (rule recover_full)
  then have "set (recover_all_entries (\<lambda>_. 0) (rotator_new ?st1 20)) \<subseteq> {entry_b}"
    unfolding set_recover_all [OF names(1)]
    by (auto simp: recover_file_data simulate_crash_def empty_file split: if_splits option.splits)
  moreover have "write_entry Inr (\<lambda>_. 0) (''a'', 1, 1) \<noteq> entry_b"
    by (simp add: write_entry_def entry_b_def)
  ultimately have lost: "write_entry Inr (\<lambda>_. 0) (''a'', 1, 1) \<notin> set (recover_all_entries (\<lambda>_. 0) (rotator_new ?st1 20))"
    by blast
  have "set (recover_all_entries (\<lambda>_. 0) (rotator_new ?st2 1000)) = {}"
    unfolding set_recover_all [OF names(2)]
    by (auto simp: recover_file_data simulate_crash_def empty_file split: if_splits option.splits)
  then have none: "recover_all_entries (\<lambda>_. 0) (rotator_new ?st2 1000) = []"
    by simp
  show ?thesis
    using batch_with_rotation batch_with_failure lost none by metis
qed

end
