(* ===== verification/Request.thy ===== *)
theory Request
  imports Executor Zset_Ops
begin

text \<open>
  The whole of \<open>enum Command\<close> (\<open>src/redis/command.rs\<close>): what a client can ask for. The commands of
  \<open>command\<close> and \<open>zset_command\<close> come with the commands on cursors, scripts, access control and
  configuration. \<open>name\<close>, \<open>get_keys\<close>, \<open>get_primary_key\<close> and \<open>is_read_only\<close> are extended to all of them.
\<close>

section \<open>Commands\<close>

datatype scan_command =
    Scan u64 "string option" "usize option"
  | HScan string u64 "string option" "usize option"
  | ZScan string u64 "string option" "usize option"

datatype script_command =
    Eval string "string list" "bytes list"
  | EvalSha string "string list" "bytes list"
  | ScriptLoad string
  | ScriptExists "string list"
  | ScriptFlush

datatype acl_command =
    Auth "string option" string
  | AclWhoami
  | AclList
  | AclUsers
  | AclGetUser string
  | AclSetUser string "string list"
  | AclDelUser "string list"
  | AclCat "string option"
  | AclGenPass "nat option"
  | AclDryrun string string "string list"
  | AclLog "usize option"
  | AclLogReset

datatype config_command =
    ConfigGet string
  | ConfigSet string string
  | ConfigResetStat

datatype request =
    Core command
  | ZsetC zset_command
  | ScanC scan_command
  | ScriptC script_command
  | AclC acl_command
  | ConfigC config_command
  | IncrByFloat string f64
  | DebugSleep f64

abbreviation StringR :: "string_command \<Rightarrow> request" where
  "StringR c \<equiv> Core (Data (StringC c))"

abbreviation KeyR :: "key_command \<Rightarrow> request" where
  "KeyR c \<equiv> Core (Data (KeyC c))"

abbreviation ListR :: "list_command \<Rightarrow> request" where
  "ListR c \<equiv> Core (Data (ListC c))"

abbreviation SetR :: "set_command \<Rightarrow> request" where
  "SetR c \<equiv> Core (Data (SetC c))"

abbreviation HashR :: "hash_command \<Rightarrow> request" where
  "HashR c \<equiv> Core (Data (HashC c))"

abbreviation ServerR :: "server_command \<Rightarrow> request" where
  "ServerR c \<equiv> Core (Data (ServerC c))"

section \<open>Keys\<close>

fun scan_keys :: "scan_command \<Rightarrow> string list" where
  "scan_keys (Scan _ _ _) = []"
| "scan_keys (HScan k _ _ _) = [k]"
| "scan_keys (ZScan k _ _ _) = [k]"

fun script_keys :: "script_command \<Rightarrow> string list" where
  "script_keys (Eval _ ks _) = ks"
| "script_keys (EvalSha _ ks _) = ks"
| "script_keys _ = []"

fun request_keys :: "request \<Rightarrow> string list" where
  "request_keys (Core c) = get_keys c"
| "request_keys (ZsetC c) = [zset_key c]"
| "request_keys (ScanC c) = scan_keys c"
| "request_keys (ScriptC c) = script_keys c"
| "request_keys (IncrByFloat k _) = [k]"
| "request_keys _ = []"

fun request_primary_key :: "request \<Rightarrow> string option" where
  "request_primary_key (Core c) = get_primary_key c"
| "request_primary_key r = first_key (request_keys r)"

fun request_read_only :: "request \<Rightarrow> bool" where
  "request_read_only (Core c) = is_read_only c"
| "request_read_only (ZsetC c) = zset_read_only c"
| "request_read_only (ScanC _) = True"
| "request_read_only (ConfigC (ConfigGet _)) = True"
| "request_read_only (AclC (AclDryrun _ _ _)) = True"
| "request_read_only (AclC (AclLog _)) = True"
| "request_read_only _ = False"

section \<open>Names\<close>

fun string_name :: "string_command \<Rightarrow> string" where
  "string_name (Get _) = ''GET''"
| "string_name (SetCmd _ _ _ _ _ _ _ _ _ _) = ''SET''"
| "string_name (SetNx _ _) = ''SETNX''"
| "string_name (Append _ _) = ''APPEND''"
| "string_name (GetSet _ _) = ''GETSET''"
| "string_name (StrLen _) = ''STRLEN''"
| "string_name (MGet _) = ''MGET''"
| "string_name (MSet _) = ''MSET''"
| "string_name (MSetNx _) = ''MSETNX''"
| "string_name (BatchSet _) = ''BATCHSET''"
| "string_name (BatchGet _) = ''BATCHGET''"
| "string_name (GetRange _ _ _) = ''GETRANGE''"
| "string_name (SetRange _ _ _) = ''SETRANGE''"
| "string_name (SetBit _ _ _) = ''SETBIT''"
| "string_name (GetBit _ _) = ''GETBIT''"
| "string_name (GetEx _ _ _ _ _ _) = ''GETEX''"
| "string_name (GetDel _) = ''GETDEL''"
| "string_name (Incr _) = ''INCR''"
| "string_name (Decr _) = ''DECR''"
| "string_name (IncrBy _ _) = ''INCRBY''"
| "string_name (DecrBy _ _) = ''DECRBY''"

fun key_name :: "key_command \<Rightarrow> string" where
  "key_name (Del _) = ''DEL''"
| "key_name (Exists _) = ''EXISTS''"
| "key_name (TypeOf _) = ''TYPE''"
| "key_name (Keys _) = ''KEYS''"
| "key_name FlushDb = ''FLUSHDB''"
| "key_name FlushAll = ''FLUSHALL''"
| "key_name (Expire _ _ _ _ _ _) = ''EXPIRE''"
| "key_name (ExpireAt _ _) = ''EXPIREAT''"
| "key_name (PExpire _ _ _ _ _ _) = ''PEXPIRE''"
| "key_name (PExpireAt _ _) = ''PEXPIREAT''"
| "key_name (Ttl _) = ''TTL''"
| "key_name (Pttl _) = ''PTTL''"
| "key_name (ExpireTime _) = ''EXPIRETIME''"
| "key_name (PExpireTime _) = ''PEXPIRETIME''"
| "key_name (Persist _) = ''PERSIST''"
| "key_name (Sort _ _) = ''SORT''"
| "key_name RandomKey = ''RANDOMKEY''"
| "key_name (Rename _ _) = ''RENAME''"
| "key_name (RenameNx _ _) = ''RENAMENX''"

fun list_name :: "list_command \<Rightarrow> string" where
  "list_name (LPush _ _) = ''LPUSH''"
| "list_name (RPush _ _) = ''RPUSH''"
| "list_name (LPop _) = ''LPOP''"
| "list_name (RPop _) = ''RPOP''"
| "list_name (LLen _) = ''LLEN''"
| "list_name (LIndex _ _) = ''LINDEX''"
| "list_name (LRange _ _ _) = ''LRANGE''"
| "list_name (LSet _ _ _) = ''LSET''"
| "list_name (LTrim _ _ _) = ''LTRIM''"
| "list_name (RPopLPush _ _) = ''RPOPLPUSH''"
| "list_name (LMove _ _ _ _) = ''LMOVE''"

fun set_name :: "set_command \<Rightarrow> string" where
  "set_name (SAdd _ _) = ''SADD''"
| "set_name (SRem _ _) = ''SREM''"
| "set_name (SMembers _) = ''SMEMBERS''"
| "set_name (SIsMember _ _) = ''SISMEMBER''"
| "set_name (SCard _) = ''SCARD''"
| "set_name (SPop _ _) = ''SPOP''"

fun hash_name :: "hash_command \<Rightarrow> string" where
  "hash_name (HSet _ _) = ''HSET''"
| "hash_name (HGet _ _) = ''HGET''"
| "hash_name (HDel _ _) = ''HDEL''"
| "hash_name (HGetAll _) = ''HGETALL''"
| "hash_name (HKeys _) = ''HKEYS''"
| "hash_name (HVals _) = ''HVALS''"
| "hash_name (HLen _) = ''HLEN''"
| "hash_name (HExists _ _) = ''HEXISTS''"
| "hash_name (HIncrBy _ _ _) = ''HINCRBY''"

fun zset_name :: "zset_command \<Rightarrow> string" where
  "zset_name (ZAdd _ _ _ _ _ _ _) = ''ZADD''"
| "zset_name (ZRem _ _) = ''ZREM''"
| "zset_name (ZRange _ _ _ _) = ''ZRANGE''"
| "zset_name (ZRevRange _ _ _ _) = ''ZREVRANGE''"
| "zset_name (ZScore _ _) = ''ZSCORE''"
| "zset_name (ZRank _ _) = ''ZRANK''"
| "zset_name (ZCard _) = ''ZCARD''"
| "zset_name (ZCount _ _ _) = ''ZCOUNT''"
| "zset_name (ZRangeByScore _ _ _ _ _) = ''ZRANGEBYSCORE''"

fun server_name :: "server_command \<Rightarrow> string" where
  "server_name Info = ''INFO''"
| "server_name (Ping _) = ''PING''"
| "server_name DbSize = ''DBSIZE''"
| "server_name Time = ''TIME''"
| "server_name (Wait _ _) = ''WAIT''"
| "server_name (Select _) = ''SELECT''"
| "server_name (Echo _) = ''ECHO''"
| "server_name CommandCommand = ''COMMAND''"
| "server_name CommandCount = ''COMMAND''"
| "server_name FunctionFlush = ''FUNCTION''"
| "server_name (ClientSetName _) = ''CLIENT''"
| "server_name ClientGetName = ''CLIENT''"
| "server_name ClientId = ''CLIENT''"
| "server_name ClientInfo = ''CLIENT''"
| "server_name ObjectHelp = ''OBJECT''"
| "server_name (ObjectEncoding _) = ''OBJECT''"
| "server_name (ObjectRefCount _) = ''OBJECT''"
| "server_name (ObjectIdleTime _) = ''OBJECT''"
| "server_name (ObjectFreq _) = ''OBJECT''"
| "server_name (DebugSet _ _) = ''DEBUG''"
| "server_name (DebugObject _) = ''DEBUG''"
| "server_name (Unknown _) = ''UNKNOWN''"

fun data_name :: "data_command \<Rightarrow> string" where
  "data_name (StringC c) = string_name c"
| "data_name (KeyC c) = key_name c"
| "data_name (ListC c) = list_name c"
| "data_name (SetC c) = set_name c"
| "data_name (HashC c) = hash_name c"
| "data_name (ServerC c) = server_name c"
| "data_name Unwatch = ''UNWATCH''"

fun request_name :: "request \<Rightarrow> string" where
  "request_name (Core (Data c)) = data_name c"
| "request_name (Core Multi) = ''MULTI''"
| "request_name (Core Exec) = ''EXEC''"
| "request_name (Core Discard) = ''DISCARD''"
| "request_name (Core (Watch _)) = ''WATCH''"
| "request_name (ZsetC c) = zset_name c"
| "request_name (ScanC (Scan _ _ _)) = ''SCAN''"
| "request_name (ScanC (HScan _ _ _ _)) = ''HSCAN''"
| "request_name (ScanC (ZScan _ _ _ _)) = ''ZSCAN''"
| "request_name (ScriptC (Eval _ _ _)) = ''EVAL''"
| "request_name (ScriptC (EvalSha _ _ _)) = ''EVALSHA''"
| "request_name (ScriptC _) = ''SCRIPT''"
| "request_name (AclC (Auth _ _)) = ''AUTH''"
| "request_name (AclC _) = ''ACL''"
| "request_name (ConfigC _) = ''CONFIG''"
| "request_name (IncrByFloat _ _) = ''INCRBYFLOAT''"
| "request_name (DebugSleep _) = ''DEBUG''"

end
