(* ===== verification/Parser_Lib.thy ===== *)
theory Parser_Lib
  imports Request Text_Lib
begin

text \<open>
  What the two command parsers share (\<open>src/redis/commands.rs\<close> and \<open>src/redis/parser.rs\<close>): the
  extraction of an argument from a RESP element and the loops over the options of a command. An
  early return is \<open>Bad\<close> with its message; an index out of bounds is \<open>Crash\<close>.
\<close>

section \<open>Results\<close>

datatype request_error = Bad string | Crash

type_synonym 'a parsed = "request_error + 'a"

definition and_then :: "'e + 'a \<Rightarrow> ('a \<Rightarrow> 'e + 'b) \<Rightarrow> 'e + 'b" where
  "and_then m f = (case m of Inl e \<Rightarrow> Inl e | Inr x \<Rightarrow> f x)"

lemma and_then_simps [simp]: "and_then (Inl e) f = Inl e" "and_then (Inr x) f = f x"
  by (simp_all add: and_then_def)

lemma and_then_cong [fundef_cong]:
  "m = m' \<Longrightarrow> (\<And>x. m' = Inr x \<Longrightarrow> f x = f' x) \<Longrightarrow> and_then m f = and_then m' f'"
  by (cases m') simp_all

lemma and_then_Inr_iff: "and_then m f = Inr y \<longleftrightarrow> (\<exists>x. m = Inr x \<and> f x = Inr y)"
  by (cases m) simp_all

lemma and_then_Inl_iff: "and_then m f = Inl e \<longleftrightarrow> m = Inl e \<or> (\<exists>x. m = Inr x \<and> f x = Inl e)"
  by (cases m) simp_all

definition wrong_args :: "string \<Rightarrow> 'a parsed" where
  "wrong_args cmd = Inl (Bad (''ERR wrong number of arguments for '' @ quoted cmd @ '' command''))"

section \<open>Arguments\<close>

abbreviation not_an_integer :: request_error where
  "not_an_integer \<equiv> Bad ''ERR value is not an integer or out of range''"

definition extract_string :: "resp_value \<Rightarrow> string parsed" where
  "extract_string v =
     (case v of BulkString (Some d) \<Rightarrow> Inr (utf8_lossy d) | _ \<Rightarrow> Inl (Bad ''Expected bulk string''))"

definition extract_sds :: "resp_value \<Rightarrow> bytes parsed" where
  "extract_sds v =
     (case v of BulkString (Some d) \<Rightarrow> Inr d | _ \<Rightarrow> Inl (Bad ''Expected bulk string''))"

definition extract_integer :: "resp_value \<Rightarrow> isize parsed" where
  "extract_integer v =
     (case v of
        BulkString (Some d) \<Rightarrow>
          (case parse_i64 (utf8_lossy d) of Some n \<Rightarrow> Inr n | None \<Rightarrow> Inl not_an_integer)
      | Integer n \<Rightarrow> Inr n
      | _ \<Rightarrow> Inl not_an_integer)"

definition extract_float :: "resp_value \<Rightarrow> f64 parsed" where
  "extract_float v =
     (case v of
        BulkString (Some d) \<Rightarrow>
          (case parse_f64 (utf8_lossy d) of
             Some x \<Rightarrow> Inr x | None \<Rightarrow> Inl (Bad ''ERR value is not a valid float''))
      | _ \<Rightarrow> Inl (Bad ''ERR value is not a valid float''))"

definition extract_i64 :: "resp_value \<Rightarrow> i64 parsed" where
  "extract_i64 v =
     (case v of
        BulkString (Some d) \<Rightarrow>
          (case parse_i64 (utf8_lossy d) of Some n \<Rightarrow> Inr n | None \<Rightarrow> Inl not_an_integer)
      | Integer n \<Rightarrow> Inr n
      | _ \<Rightarrow> Inl not_an_integer)"

definition extract_u64 :: "resp_value \<Rightarrow> u64 parsed" where
  "extract_u64 v =
     (case v of
        BulkString (Some d) \<Rightarrow>
          (case parse_unsigned (2 ^ 64) (utf8_lossy d) of Inr n \<Rightarrow> Inr (of_nat n) | Inl e \<Rightarrow> Inl (Bad e))
      | Integer n \<Rightarrow> Inr (of_int n)
      | _ \<Rightarrow> Inl (Bad ''Expected unsigned integer''))"

text \<open>\<open>map\<close> and \<open>collect\<close> into a \<open>Result\<close>, and the loops in steps of two.\<close>

fun extract_all :: "(resp_value \<Rightarrow> 'a parsed) \<Rightarrow> resp_value list \<Rightarrow> 'a list parsed" where
  "extract_all f [] = Inr []"
| "extract_all f (e # es) = and_then (f e) (\<lambda>x. and_then (extract_all f es) (\<lambda>xs. Inr (x # xs)))"

fun extract_pairs ::
  "(resp_value \<Rightarrow> 'a parsed) \<Rightarrow> (resp_value \<Rightarrow> 'b parsed) \<Rightarrow> resp_value list \<Rightarrow> ('a \<times> 'b) list parsed" where
  "extract_pairs f g (a # b # es) =
     and_then (f a) (\<lambda>x. and_then (g b) (\<lambda>y. and_then (extract_pairs f g es) (\<lambda>ps. Inr ((x, y) # ps))))"
| "extract_pairs f g _ = Inr []"

abbreviation strings :: "resp_value list \<Rightarrow> string list parsed" where
  "strings \<equiv> extract_all extract_string"

abbreviation blobs :: "resp_value list \<Rightarrow> bytes list parsed" where
  "blobs \<equiv> extract_all extract_sds"

text \<open>A command with a key, and with a key and one more argument.\<close>

definition with_key :: "resp_value list \<Rightarrow> (string \<Rightarrow> 'a parsed) \<Rightarrow> 'a parsed" where
  "with_key es k = and_then (extract_string (es ! 1)) k"

definition just_key :: "resp_value list \<Rightarrow> string \<Rightarrow> (string \<Rightarrow> request) \<Rightarrow> request parsed" where
  "just_key es msg c = (if length es \<noteq> 2 then Inl (Bad msg) else with_key es (\<lambda>k. Inr (c k)))"

section \<open>Options\<close>

record set_options =
  so_ex :: "i64 option"
  so_px :: "i64 option"
  so_exat :: "i64 option"
  so_pxat :: "i64 option"
  so_nx :: bool
  so_xx :: bool
  so_get :: bool
  so_keepttl :: bool
  so_persist :: bool

definition no_set_options :: set_options where
  "no_set_options =
     \<lparr>so_ex = None, so_px = None, so_exat = None, so_pxat = None,
      so_nx = False, so_xx = False, so_get = False, so_keepttl = False, so_persist = False\<rparr>"

text \<open>The options of \<open>EX\<close>, \<open>PX\<close>, \<open>EXAT\<close> and \<open>PXAT\<close> take the next element as their number.\<close>

definition deadline_option :: "string \<Rightarrow> (i64 \<Rightarrow> set_options \<Rightarrow> set_options) option" where
  "deadline_option opt =
     (if opt = ''EX'' then Some (\<lambda>n. so_ex_update (\<lambda>_. Some n))
      else if opt = ''PX'' then Some (\<lambda>n. so_px_update (\<lambda>_. Some n))
      else if opt = ''EXAT'' then Some (\<lambda>n. so_exat_update (\<lambda>_. Some n))
      else if opt = ''PXAT'' then Some (\<lambda>n. so_pxat_update (\<lambda>_. Some n))
      else None)"

fun set_loop :: "(string \<Rightarrow> string) \<Rightarrow> resp_value list \<Rightarrow> set_options \<Rightarrow> set_options parsed" where
  "set_loop up [] so = Inr so"
| "set_loop up (e # es) so =
     and_then (extract_string e) (\<lambda>s. let opt = up s in
       if opt = ''NX'' then set_loop up es (so\<lparr>so_nx := True\<rparr>)
       else if opt = ''XX'' then set_loop up es (so\<lparr>so_xx := True\<rparr>)
       else if opt = ''GET'' then set_loop up es (so\<lparr>so_get := True\<rparr>)
       else if opt = ''KEEPTTL'' then set_loop up es (so\<lparr>so_keepttl := True\<rparr>)
       else if opt = ''IFEQ'' \<or> opt = ''IFGT'' then Inl (Bad (''SET '' @ opt @ '' option not yet supported''))
       else case deadline_option opt of
              None \<Rightarrow> Inl (Bad ''ERR syntax error'')
            | Some upd \<Rightarrow>
                (case es of
                   [] \<Rightarrow> Inl (Bad (''SET '' @ opt @ '' requires a value''))
                 | v # es' \<Rightarrow> and_then (extract_i64 v) (\<lambda>n. set_loop up es' (upd n so))))"

fun getex_loop :: "(string \<Rightarrow> string) \<Rightarrow> resp_value list \<Rightarrow> set_options \<Rightarrow> set_options parsed" where
  "getex_loop up [] so = Inr so"
| "getex_loop up (e # es) so =
     and_then (extract_string e) (\<lambda>s. let opt = up s in
       if opt = ''PERSIST'' then getex_loop up es (so\<lparr>so_persist := True\<rparr>)
       else case deadline_option opt of
              None \<Rightarrow> Inl (Bad ''ERR syntax error'')
            | Some upd \<Rightarrow>
                (case es of
                   [] \<Rightarrow> Inl (Bad (''GETEX '' @ opt @ '' requires a value''))
                 | v # es' \<Rightarrow> and_then (extract_i64 v) (\<lambda>n. getex_loop up es' (upd n so))))"

definition has_deadline :: "set_options \<Rightarrow> bool" where
  "has_deadline so \<longleftrightarrow> so_ex so \<noteq> None \<or> so_px so \<noteq> None \<or> so_exat so \<noteq> None \<or> so_pxat so \<noteq> None"

text \<open>The flags of \<open>EXPIRE\<close> and \<open>PEXPIRE\<close>, and those of \<open>ZADD\<close>, which end at the first other word.\<close>

fun expire_loop ::
  "(string \<Rightarrow> string) \<Rightarrow> resp_value list \<Rightarrow> bool \<times> bool \<times> bool \<times> bool \<Rightarrow> (bool \<times> bool \<times> bool \<times> bool) parsed" where
  "expire_loop up [] flags = Inr flags"
| "expire_loop up (e # es) (nx, xx, gt, lt) =
     and_then (extract_string e) (\<lambda>s. let opt = up s in
       if opt = ''NX'' then expire_loop up es (True, xx, gt, lt)
       else if opt = ''XX'' then expire_loop up es (nx, True, gt, lt)
       else if opt = ''GT'' then expire_loop up es (nx, xx, True, lt)
       else if opt = ''LT'' then expire_loop up es (nx, xx, gt, True)
       else Inl (Bad (''ERR Unsupported option '' @ opt)))"

definition expire_options ::
  "(string \<Rightarrow> string) \<Rightarrow> resp_value list \<Rightarrow> (bool \<times> bool \<times> bool \<times> bool) parsed" where
  "expire_options up es =
     and_then (expire_loop up es (False, False, False, False)) (\<lambda>(nx, xx, gt, lt).
       if nx \<and> (xx \<or> gt \<or> lt)
       then Inl (Bad ''ERR NX and XX, GT or LT options at the same time are not compatible'')
       else if gt \<and> lt
       then Inl (Bad ''ERR GT and LT options at the same time are not compatible'')
       else Inr (nx, xx, gt, lt))"

fun zadd_loop ::
  "(string \<Rightarrow> string) \<Rightarrow> resp_value list \<Rightarrow> bool \<times> bool \<times> bool \<times> bool \<times> bool \<Rightarrow>
   ((bool \<times> bool \<times> bool \<times> bool \<times> bool) \<times> resp_value list) parsed" where
  "zadd_loop up [] flags = Inr (flags, [])"
| "zadd_loop up (e # es) (nx, xx, gt, lt, ch) =
     and_then (extract_string e) (\<lambda>s. let opt = up s in
       if opt = ''NX'' then zadd_loop up es (True, xx, gt, lt, ch)
       else if opt = ''XX'' then zadd_loop up es (nx, True, gt, lt, ch)
       else if opt = ''GT'' then zadd_loop up es (nx, xx, True, lt, ch)
       else if opt = ''LT'' then zadd_loop up es (nx, xx, gt, True, ch)
       else if opt = ''CH'' then zadd_loop up es (nx, xx, gt, lt, True)
       else Inr ((nx, xx, gt, lt, ch), e # es))"

text \<open>The options of \<open>ZRANGEBYSCORE\<close>, of the scan commands and of \<open>SORT\<close>.\<close>

fun byscore_loop ::
  "(string \<Rightarrow> string) \<Rightarrow> resp_value list \<Rightarrow> bool \<Rightarrow> (isize \<times> usize) option \<Rightarrow> (bool \<times> (isize \<times> usize) option) parsed" where
  "byscore_loop up [] ws limit = Inr (ws, limit)"
| "byscore_loop up (e # es) ws limit =
     and_then (extract_string e) (\<lambda>s. let opt = up s in
       if opt = ''WITHSCORES'' then byscore_loop up es True limit
       else if opt = ''LIMIT'' then
         (case es of
            a # b # es' \<Rightarrow>
              and_then (extract_integer a) (\<lambda>offset.
              and_then (extract_integer b) (\<lambda>n. byscore_loop up es' ws (Some (offset, as_usize n))))
          | _ \<Rightarrow> Inl (Bad ''LIMIT requires offset and count''))
       else Inl (Bad (''Unknown ZRANGEBYSCORE option: '' @ opt)))"

fun scan_loop ::
  "(string \<Rightarrow> string) \<Rightarrow> string \<Rightarrow> resp_value list \<Rightarrow> string option \<Rightarrow> usize option \<Rightarrow> (string option \<times> usize option) parsed" where
  "scan_loop up cmd [] pat count = Inr (pat, count)"
| "scan_loop up cmd (e # es) pat count =
     and_then (extract_string e) (\<lambda>s. let opt = up s in
       if opt = ''MATCH'' then
         (case es of [] \<Rightarrow> Inl Crash
          | v # es' \<Rightarrow> and_then (extract_string v) (\<lambda>p. scan_loop up cmd es' (Some p) count))
       else if opt = ''COUNT'' then
         (case es of [] \<Rightarrow> Inl Crash
          | v # es' \<Rightarrow> and_then (extract_integer v) (\<lambda>n. scan_loop up cmd es' pat (Some (as_usize n))))
       else Inl (Bad (''Unknown '' @ cmd @ '' option: '' @ opt)))"

fun sort_loop :: "(string \<Rightarrow> string) \<Rightarrow> resp_value list \<Rightarrow> string option \<Rightarrow> string option parsed" where
  "sort_loop up [] store = Inr store"
| "sort_loop up (e # es) store =
     and_then (extract_string e) (\<lambda>s.
       if up s = ''STORE'' then
         (case es of [] \<Rightarrow> Inr store | v # es' \<Rightarrow> and_then (extract_string v) (\<lambda>d. sort_loop up es' (Some d)))
       else sort_loop up es store)"

text \<open>
  The keys and arguments of \<open>EVAL\<close> and \<open>EVALSHA\<close>. The number of keys is cast to \<open>usize\<close> and added
  with wrap-around, so -1, -2 and -3 pass the test of the length and the slice panics.
\<close>

definition script_args :: "string \<Rightarrow> resp_value list \<Rightarrow> isize \<Rightarrow> (string list \<times> bytes list) parsed" where
  "script_args cmd es numkeys =
     (let stop = wadd 3 (as_usize numkeys)
      in if length es < stop then Inl (Bad (cmd @ '' wrong number of keys''))
         else if stop < 3 then Inl Crash
         else and_then (strings (take (stop - 3) (drop 3 es))) (\<lambda>keys.
              and_then (blobs (drop stop es)) (\<lambda>args. Inr (keys, args))))"

definition replace_error :: "string \<Rightarrow> 'a parsed \<Rightarrow> 'a parsed" where
  "replace_error msg r = (case r of Inl (Bad _) \<Rightarrow> Inl (Bad msg) | _ \<Rightarrow> r)"

section \<open>Families of commands\<close>

text \<open>
  The match on the name of a command is a list of families: a family gives \<open>None\<close> for the
  names of the others. \<open>up\<close> and \<open>dn\<close> are \<open>to_uppercase\<close> and \<open>to_lowercase\<close>.
\<close>

type_synonym family = "(string \<Rightarrow> string) \<Rightarrow> (string \<Rightarrow> string) \<Rightarrow> string \<Rightarrow> resp_value list \<Rightarrow> request parsed option"

fun first_family :: "family list \<Rightarrow> (string \<Rightarrow> string) \<Rightarrow> (string \<Rightarrow> string) \<Rightarrow> string \<Rightarrow> resp_value list \<Rightarrow> request parsed" where
  "first_family [] up dn name es = Inr (ServerR (Unknown name))"
| "first_family (f # fs) up dn name es =
     (case f up dn name es of Some r \<Rightarrow> r | None \<Rightarrow> first_family fs up dn name es)"

end
