(* ===== verification/Parser_Resp.thy ===== *)
theory Parser_Resp
  imports Parser_Lib
begin

text \<open>
  \<open>Command::from_resp\<close> (\<open>src/redis/parser.rs\<close>), the parser of \<open>RedisServer\<close>
  (\<open>src/redis/server.rs\<close>). It reads the other RESP value type and has the same families of commands.
\<close>

definition rp_config :: "(string \<Rightarrow> string) \<Rightarrow> (string \<Rightarrow> string) \<Rightarrow> resp_value list \<Rightarrow> request parsed" where
  "rp_config up dn es =
     (if length es < 2 then wrong_args ''config''
      else and_then (extract_string (es ! 1)) (\<lambda>s. let sub = up s in
        if sub = ''GET'' then
          (if length es \<noteq> 3 then wrong_args ''config|get''
           else and_then (extract_string (es ! 2)) (\<lambda>p. Inr (ConfigC (ConfigGet p))))
        else if sub = ''SET'' then
          (if length es \<noteq> 4 then wrong_args ''config|set''
           else and_then (extract_string (es ! 2)) (\<lambda>param.
                and_then (extract_string (es ! 3)) (\<lambda>v. Inr (ConfigC (ConfigSet param v)))))
        else if sub = ''RESETSTAT'' then Inr (ConfigC ConfigResetStat)
        else Inl (Bad (''ERR unknown subcommand or wrong number of arguments for '' @
               quoted (''config|'' @ dn sub) @ '' command''))))"

definition rp_server :: family where
  "rp_server up dn name es =
     (if name = ''PING'' then Some
        (if 1 < length es then and_then (extract_sds (es ! 1)) (\<lambda>m. Inr (ServerR (Ping (Some m))))
         else Inr (ServerR (Ping None)))
      else if name = ''INFO'' then Some (Inr (ServerR Info))
      else if name = ''TIME'' then Some (Inr (ServerR Time))
      else if name = ''DBSIZE'' then Some (Inr (ServerR DbSize))
      else if name = ''CONFIG'' then Some (rp_config up dn es)
      else if name = ''SELECT'' then Some
        (if length es \<noteq> 2 then wrong_args ''select''
         else and_then (extract_u64 (es ! 1)) (\<lambda>db.
           if 15 < db then Inl (Bad ''ERR DB index is out of range'') else Inr (ServerR (Select db))))
      else if name = ''ECHO'' then Some
        (if length es \<noteq> 2 then wrong_args ''echo''
         else and_then (extract_sds (es ! 1)) (\<lambda>m. Inr (ServerR (Echo m))))
      else if name = ''AUTH'' then Some
        (if length es = 2 then and_then (extract_string (es ! 1)) (\<lambda>p. Inr (AclC (Auth None p)))
         else if length es = 3 then
           and_then (extract_string (es ! 1)) (\<lambda>u. and_then (extract_string (es ! 2)) (\<lambda>p. Inr (AclC (Auth (Some u) p))))
         else Inl (Bad ''AUTH requires 1 or 2 arguments''))
      else None)"

definition rp_acl :: "(string \<Rightarrow> string) \<Rightarrow> resp_value list \<Rightarrow> request parsed" where
  "rp_acl up es =
     (if length es < 2 then Inl (Bad ''ACL requires a subcommand'')
      else and_then (extract_string (es ! 1)) (\<lambda>s. let sub = up s in
        if sub = ''WHOAMI'' then Inr (AclC AclWhoami)
        else if sub = ''LIST'' then Inr (AclC AclList)
        else if sub = ''USERS'' then Inr (AclC AclUsers)
        else if sub = ''GETUSER'' then
          (if length es \<noteq> 3 then Inl (Bad ''ACL GETUSER requires 1 argument'')
           else and_then (extract_string (es ! 2)) (\<lambda>u. Inr (AclC (AclGetUser u))))
        else if sub = ''SETUSER'' then
          (if length es < 3 then Inl (Bad ''ACL SETUSER requires at least 1 argument'')
           else and_then (extract_string (es ! 2)) (\<lambda>u.
                and_then (strings (drop 3 es)) (\<lambda>rules. Inr (AclC (AclSetUser u rules)))))
        else if sub = ''DELUSER'' then
          (if length es < 3 then Inl (Bad ''ACL DELUSER requires at least 1 argument'')
           else and_then (strings (drop 2 es)) (\<lambda>us. Inr (AclC (AclDelUser us))))
        else if sub = ''CAT'' then
          (if 2 < length es then and_then (extract_string (es ! 2)) (\<lambda>c. Inr (AclC (AclCat (Some c))))
           else Inr (AclC (AclCat None)))
        else if sub = ''GENPASS'' then
          (if 2 < length es then
             and_then (extract_string (es ! 2)) (\<lambda>b.
               case parse_unsigned (2 ^ 32) b of
                 Inr n \<Rightarrow> Inr (AclC (AclGenPass (Some n))) | Inl _ \<Rightarrow> Inl (Bad ''Invalid bits value''))
           else Inr (AclC (AclGenPass None)))
        else if sub = ''DRYRUN'' then
          (if length es < 4 then wrong_args ''acl|dryrun''
           else and_then (extract_string (es ! 2)) (\<lambda>u.
                and_then (extract_string (es ! 3)) (\<lambda>c.
                and_then (strings (drop 4 es)) (\<lambda>args. Inr (AclC (AclDryrun u (up c) args))))))
        else if sub = ''LOG'' then
          (if length es = 2 then Inr (AclC (AclLog None))
           else if length es = 3 then
             and_then (extract_string (es ! 2)) (\<lambda>s. let arg = up s in
               if arg = ''RESET'' then Inr (AclC AclLogReset)
               else case parse_unsigned (2 ^ 64) arg of
                      Inr n \<Rightarrow> Inr (AclC (AclLog (Some n))) | Inl _ \<Rightarrow> Inl not_an_integer)
           else wrong_args ''acl|log'')
        else Inl (Bad (''Unknown ACL subcommand '' @ quoted sub))))"

definition rp_script :: "(string \<Rightarrow> string) \<Rightarrow> resp_value list \<Rightarrow> request parsed" where
  "rp_script up es =
     (if length es < 2 then Inl (Bad ''SCRIPT requires a subcommand'')
      else and_then (extract_string (es ! 1)) (\<lambda>s. let sub = up s in
        if sub = ''LOAD'' then
          (if length es \<noteq> 3 then Inl (Bad ''SCRIPT LOAD requires 1 argument'')
           else and_then (extract_string (es ! 2)) (\<lambda>t. Inr (ScriptC (ScriptLoad t))))
        else if sub = ''EXISTS'' then
          (if length es < 3 then Inl (Bad ''SCRIPT EXISTS requires at least 1 argument'')
           else and_then (strings (drop 2 es)) (\<lambda>shas. Inr (ScriptC (ScriptExists shas))))
        else if sub = ''FLUSH'' then Inr (ScriptC ScriptFlush)
        else Inl (Bad (''Unknown SCRIPT subcommand '' @ quoted sub))))"

definition rp_control :: family where
  "rp_control up dn name es =
     (if name = ''ACL'' then Some (rp_acl up es)
      else if name = ''FLUSHDB'' then Some (Inr (KeyR FlushDb))
      else if name = ''FLUSHALL'' then Some (Inr (KeyR FlushAll))
      else if name = ''MULTI'' then Some (Inr (Core Multi))
      else if name = ''EXEC'' then Some (Inr (Core Exec))
      else if name = ''DISCARD'' then Some (Inr (Core Discard))
      else if name = ''WATCH'' then Some
        (if length es < 2 then Inl (Bad ''WATCH requires at least 1 argument'')
         else and_then (strings (drop 1 es)) (\<lambda>ks. Inr (Core (Watch ks))))
      else if name = ''UNWATCH'' then Some (Inr (Core (Data Unwatch)))
      else if name = ''EVAL'' then Some
        (if length es < 3 then Inl (Bad ''EVAL requires at least 2 arguments'')
         else and_then (extract_string (es ! 1)) (\<lambda>t.
              and_then (extract_integer (es ! 2)) (\<lambda>n.
              and_then (script_args ''EVAL'' es n) (\<lambda>(keys, args). Inr (ScriptC (Eval t keys args))))))
      else if name = ''EVALSHA'' then Some
        (if length es < 3 then Inl (Bad ''EVALSHA requires at least 2 arguments'')
         else and_then (extract_string (es ! 1)) (\<lambda>sha.
              and_then (extract_integer (es ! 2)) (\<lambda>n.
              and_then (script_args ''EVALSHA'' es n) (\<lambda>(keys, args). Inr (ScriptC (EvalSha sha keys args))))))
      else if name = ''SCRIPT'' then Some (rp_script up es)
      else None)"

definition rp_set :: "(string \<Rightarrow> string) \<Rightarrow> resp_value list \<Rightarrow> request parsed" where
  "rp_set up es =
     (if length es < 3 then Inl (Bad ''SET requires at least 2 arguments'')
      else with_key es (\<lambda>k. and_then (extract_sds (es ! 2)) (\<lambda>v.
        and_then (set_loop up (drop 3 es) no_set_options) (\<lambda>so.
          if so_nx so \<and> so_xx so
          then Inl (Bad ''ERR XX and NX options at the same time are not compatible'')
          else if so_keepttl so \<and> has_deadline so then Inl (Bad ''ERR syntax error'')
          else Inr (StringR (SetCmd k v (so_ex so) (so_px so) (so_exat so) (so_pxat so)
                      (so_nx so) (so_xx so) (so_get so) (so_keepttl so)))))))"

definition rp_strings :: family where
  "rp_strings up dn name es =
     (if name = ''GET'' then Some
        (if length es \<noteq> 2 then wrong_args ''get'' else with_key es (\<lambda>k. Inr (StringR (Get k))))
      else if name = ''SET'' then Some (rp_set up es)
      else if name = ''SETEX'' then Some
        (if length es \<noteq> 4 then Inl (Bad ''SETEX requires 3 arguments'')
         else with_key es (\<lambda>k. and_then (extract_integer (es ! 2)) (\<lambda>n. and_then (extract_sds (es ! 3)) (\<lambda>v.
           Inr (StringR (SetCmd k v (Some n) None None None False False False False))))))
      else if name = ''SETNX'' then Some
        (if length es \<noteq> 3 then Inl (Bad ''SETNX requires 2 arguments'')
         else with_key es (\<lambda>k. and_then (extract_sds (es ! 2)) (\<lambda>v. Inr (StringR (SetNx k v)))))
      else None)"

definition rp_keys :: family where
  "rp_keys up dn name es =
     (if name = ''DEL'' then Some
        (if length es < 2 then Inl (Bad ''DEL requires at least 1 argument'')
         else and_then (strings (drop 1 es)) (\<lambda>ks. Inr (KeyR (Del ks))))
      else if name = ''EXISTS'' then Some
        (if length es < 2 then Inl (Bad ''EXISTS requires at least 1 argument'')
         else and_then (strings (drop 1 es)) (\<lambda>ks. Inr (KeyR (Exists ks))))
      else if name = ''TYPE'' then Some (just_key es ''TYPE requires 1 argument'' (\<lambda>k. KeyR (TypeOf k)))
      else if name = ''KEYS'' then Some (just_key es ''KEYS requires 1 argument'' (\<lambda>k. KeyR (Keys k)))
      else if name = ''EXPIRE'' then Some
        (if length es < 3 then Inl (Bad ''EXPIRE requires at least 2 arguments'')
         else with_key es (\<lambda>k. and_then (extract_integer (es ! 2)) (\<lambda>n.
           and_then (expire_options up (drop 3 es)) (\<lambda>(nx, xx, gt, lt). Inr (KeyR (Expire k n nx xx gt lt))))))
      else if name = ''PEXPIRE'' then Some
        (if length es < 3 then Inl (Bad ''PEXPIRE requires at least 2 arguments'')
         else with_key es (\<lambda>k. and_then (extract_integer (es ! 2)) (\<lambda>n.
           and_then (expire_options up (drop 3 es)) (\<lambda>(nx, xx, gt, lt). Inr (KeyR (PExpire k n nx xx gt lt))))))
      else if name = ''EXPIREAT'' then Some
        (if length es \<noteq> 3 then Inl (Bad ''EXPIREAT requires 2 arguments'')
         else with_key es (\<lambda>k. and_then (extract_integer (es ! 2)) (\<lambda>n. Inr (KeyR (ExpireAt k n)))))
      else if name = ''PEXPIREAT'' then Some
        (if length es \<noteq> 3 then Inl (Bad ''PEXPIREAT requires 2 arguments'')
         else with_key es (\<lambda>k. and_then (extract_integer (es ! 2)) (\<lambda>n. Inr (KeyR (PExpireAt k n)))))
      else if name = ''TTL'' then Some (just_key es ''TTL requires 1 argument'' (\<lambda>k. KeyR (Ttl k)))
      else if name = ''PTTL'' then Some (just_key es ''PTTL requires 1 argument'' (\<lambda>k. KeyR (Pttl k)))
      else if name = ''PERSIST'' then Some (just_key es ''PERSIST requires 1 argument'' (\<lambda>k. KeyR (Persist k)))
      else None)"

definition rp_counters :: family where
  "rp_counters up dn name es =
     (if name = ''INCR'' then Some
        (if length es \<noteq> 2 then wrong_args ''incr'' else with_key es (\<lambda>k. Inr (StringR (Incr k))))
      else if name = ''DECR'' then Some
        (if length es \<noteq> 2 then wrong_args ''decr'' else with_key es (\<lambda>k. Inr (StringR (Decr k))))
      else if name = ''INCRBY'' then Some
        (if length es \<noteq> 3 then wrong_args ''incrby''
         else with_key es (\<lambda>k. and_then (extract_integer (es ! 2)) (\<lambda>n. Inr (StringR (IncrBy k n)))))
      else if name = ''DECRBY'' then Some
        (if length es \<noteq> 3 then wrong_args ''decrby''
         else with_key es (\<lambda>k. and_then (extract_integer (es ! 2)) (\<lambda>n. Inr (StringR (DecrBy k n)))))
      else if name = ''APPEND'' then Some
        (if length es \<noteq> 3 then Inl (Bad ''APPEND requires 2 arguments'')
         else with_key es (\<lambda>k. and_then (extract_sds (es ! 2)) (\<lambda>v. Inr (StringR (Append k v)))))
      else if name = ''GETSET'' then Some
        (if length es \<noteq> 3 then Inl (Bad ''GETSET requires 2 arguments'')
         else with_key es (\<lambda>k. and_then (extract_sds (es ! 2)) (\<lambda>v. Inr (StringR (GetSet k v)))))
      else if name = ''STRLEN'' then Some (just_key es ''STRLEN requires 1 argument'' (\<lambda>k. StringR (StrLen k)))
      else if name = ''MGET'' then Some
        (if length es < 2 then Inl (Bad ''MGET requires at least 1 argument'')
         else and_then (strings (drop 1 es)) (\<lambda>ks. Inr (StringR (MGet ks))))
      else if name = ''MSET'' then Some
        (if length es < 3 \<or> odd (length es - 1) then wrong_args ''mset''
         else and_then (extract_pairs extract_string extract_sds (drop 1 es)) (\<lambda>ps. Inr (StringR (MSet ps))))
      else if name = ''MSETNX'' then Some
        (if length es < 3 \<or> odd (length es - 1) then wrong_args ''msetnx''
         else and_then (extract_pairs extract_string extract_sds (drop 1 es)) (\<lambda>ps. Inr (StringR (MSetNx ps))))
      else None)"

definition rp_lmove :: "(string \<Rightarrow> string) \<Rightarrow> resp_value list \<Rightarrow> request parsed" where
  "rp_lmove up es =
     (if length es \<noteq> 5 then Inl (Bad ''LMOVE requires 4 arguments'')
      else with_key es (\<lambda>source. and_then (extract_string (es ! 2)) (\<lambda>dest.
        and_then (extract_string (es ! 3)) (\<lambda>a. and_then (extract_string (es ! 4)) (\<lambda>b.
          if up a \<noteq> ''LEFT'' \<and> up a \<noteq> ''RIGHT'' then Inl (Bad ''LMOVE wherefrom must be LEFT or RIGHT'')
          else if up b \<noteq> ''LEFT'' \<and> up b \<noteq> ''RIGHT'' then Inl (Bad ''LMOVE whereto must be LEFT or RIGHT'')
          else Inr (ListR (LMove source dest (up a) (up b))))))))"

definition rp_lists :: family where
  "rp_lists up dn name es =
     (if name = ''LPUSH'' then Some
        (if length es < 3 then Inl (Bad ''LPUSH requires at least 2 arguments'')
         else with_key es (\<lambda>k. and_then (blobs (drop 2 es)) (\<lambda>vs. Inr (ListR (LPush k vs)))))
      else if name = ''RPUSH'' then Some
        (if length es < 3 then Inl (Bad ''RPUSH requires at least 2 arguments'')
         else with_key es (\<lambda>k. and_then (blobs (drop 2 es)) (\<lambda>vs. Inr (ListR (RPush k vs)))))
      else if name = ''LPOP'' then Some (just_key es ''LPOP requires 1 argument'' (\<lambda>k. ListR (LPop k)))
      else if name = ''RPOP'' then Some (just_key es ''RPOP requires 1 argument'' (\<lambda>k. ListR (RPop k)))
      else if name = ''LRANGE'' then Some
        (if length es \<noteq> 4 then Inl (Bad ''LRANGE requires 3 arguments'')
         else with_key es (\<lambda>k. and_then (extract_integer (es ! 2)) (\<lambda>a.
              and_then (extract_integer (es ! 3)) (\<lambda>b. Inr (ListR (LRange k a b))))))
      else if name = ''LLEN'' then Some (just_key es ''LLEN requires 1 argument'' (\<lambda>k. ListR (LLen k)))
      else if name = ''LINDEX'' then Some
        (if length es \<noteq> 3 then Inl (Bad ''LINDEX requires 2 arguments'')
         else with_key es (\<lambda>k. and_then (extract_integer (es ! 2)) (\<lambda>i. Inr (ListR (LIndex k i)))))
      else if name = ''LSET'' then Some
        (if length es \<noteq> 4 then Inl (Bad ''LSET requires 3 arguments'')
         else with_key es (\<lambda>k. and_then (extract_integer (es ! 2)) (\<lambda>i.
              and_then (extract_sds (es ! 3)) (\<lambda>v. Inr (ListR (LSet k i v))))))
      else if name = ''LTRIM'' then Some
        (if length es \<noteq> 4 then Inl (Bad ''LTRIM requires 3 arguments'')
         else with_key es (\<lambda>k. and_then (extract_integer (es ! 2)) (\<lambda>a.
              and_then (extract_integer (es ! 3)) (\<lambda>b. Inr (ListR (LTrim k a b))))))
      else if name = ''RPOPLPUSH'' then Some
        (if length es \<noteq> 3 then Inl (Bad ''RPOPLPUSH requires 2 arguments'')
         else with_key es (\<lambda>a. and_then (extract_string (es ! 2)) (\<lambda>b. Inr (ListR (RPopLPush a b)))))
      else if name = ''LMOVE'' then Some (rp_lmove up es)
      else None)"

definition rp_sets :: family where
  "rp_sets up dn name es =
     (if name = ''SADD'' then Some
        (if length es < 3 then Inl (Bad ''SADD requires at least 2 arguments'')
         else with_key es (\<lambda>k. and_then (blobs (drop 2 es)) (\<lambda>ms. Inr (SetR (SAdd k ms)))))
      else if name = ''SMEMBERS'' then Some (just_key es ''SMEMBERS requires 1 argument'' (\<lambda>k. SetR (SMembers k)))
      else if name = ''SISMEMBER'' then Some
        (if length es \<noteq> 3 then Inl (Bad ''SISMEMBER requires 2 arguments'')
         else with_key es (\<lambda>k. and_then (extract_sds (es ! 2)) (\<lambda>m. Inr (SetR (SIsMember k m)))))
      else if name = ''SREM'' then Some
        (if length es < 3 then Inl (Bad ''SREM requires at least 2 arguments'')
         else with_key es (\<lambda>k. and_then (blobs (drop 2 es)) (\<lambda>ms. Inr (SetR (SRem k ms)))))
      else if name = ''SCARD'' then Some (just_key es ''SCARD requires 1 argument'' (\<lambda>k. SetR (SCard k)))
      else if name = ''SPOP'' then Some
        (if length es < 2 \<or> 3 < length es then Inl (Bad ''SPOP requires 1 or 2 arguments'')
         else with_key es (\<lambda>k.
           if length es = 3 then
             and_then (extract_string (es ! 2)) (\<lambda>c.
               case parse_unsigned (2 ^ 64) c of
                 Inr n \<Rightarrow> Inr (SetR (SPop k (Some n))) | Inl _ \<Rightarrow> Inl not_an_integer)
           else Inr (SetR (SPop k None))))
      else None)"

definition rp_hashes :: family where
  "rp_hashes up dn name es =
     (if name = ''HSET'' then Some
        (if length es < 4 \<or> odd (length es - 2) then Inl (Bad ''HSET requires key and field-value pairs'')
         else with_key es (\<lambda>k. and_then (extract_pairs extract_sds extract_sds (drop 2 es)) (\<lambda>ps. Inr (HashR (HSet k ps)))))
      else if name = ''HGET'' then Some
        (if length es \<noteq> 3 then Inl (Bad ''HGET requires 2 arguments'')
         else with_key es (\<lambda>k. and_then (extract_sds (es ! 2)) (\<lambda>f. Inr (HashR (HGet k f)))))
      else if name = ''HGETALL'' then Some (just_key es ''HGETALL requires 1 argument'' (\<lambda>k. HashR (HGetAll k)))
      else if name = ''HINCRBY'' then Some
        (if length es \<noteq> 4 then Inl (Bad ''HINCRBY requires 3 arguments'')
         else with_key es (\<lambda>k. and_then (extract_sds (es ! 2)) (\<lambda>f.
              and_then (extract_i64 (es ! 3)) (\<lambda>n. Inr (HashR (HIncrBy k f n))))))
      else if name = ''HDEL'' then Some
        (if length es < 3 then Inl (Bad ''HDEL requires at least 2 arguments'')
         else with_key es (\<lambda>k. and_then (blobs (drop 2 es)) (\<lambda>fs. Inr (HashR (HDel k fs)))))
      else if name = ''HKEYS'' then Some (just_key es ''HKEYS requires 1 argument'' (\<lambda>k. HashR (HKeys k)))
      else if name = ''HVALS'' then Some (just_key es ''HVALS requires 1 argument'' (\<lambda>k. HashR (HVals k)))
      else if name = ''HLEN'' then Some (just_key es ''HLEN requires 1 argument'' (\<lambda>k. HashR (HLen k)))
      else if name = ''HEXISTS'' then Some
        (if length es \<noteq> 3 then Inl (Bad ''HEXISTS requires 2 arguments'')
         else with_key es (\<lambda>k. and_then (extract_sds (es ! 2)) (\<lambda>f. Inr (HashR (HExists k f)))))
      else None)"

definition rp_zadd :: "(string \<Rightarrow> string) \<Rightarrow> resp_value list \<Rightarrow> request parsed" where
  "rp_zadd up es =
     (if length es < 4 then Inl (Bad ''ZADD requires key and score-member pairs'')
      else with_key es (\<lambda>k.
        and_then (zadd_loop up (drop 2 es) (False, False, False, False, False)) (\<lambda>((nx, xx, gt, lt, ch), rest).
          if odd (length rest) \<or> rest = [] then Inl (Bad ''ZADD requires score-member pairs'')
          else and_then (extract_pairs extract_float extract_sds rest) (\<lambda>ps.
                 Inr (ZsetC (ZAdd k ps nx xx gt lt ch))))))"

text \<open>\<open>ZRANGE\<close> and \<open>ZREVRANGE\<close> have one form.\<close>

definition rp_zrange ::
  "(string \<Rightarrow> string) \<Rightarrow> string \<Rightarrow> (string \<Rightarrow> isize \<Rightarrow> isize \<Rightarrow> bool \<Rightarrow> zset_command) \<Rightarrow> resp_value list \<Rightarrow> request parsed" where
  "rp_zrange up name c es =
     (if length es < 4 \<or> 5 < length es then Inl (Bad (name @ '' requires 3 or 4 arguments''))
      else with_key es (\<lambda>k. and_then (extract_integer (es ! 2)) (\<lambda>a. and_then (extract_integer (es ! 3)) (\<lambda>b.
        if length es = 5 then
          and_then (extract_string (es ! 4)) (\<lambda>s. Inr (ZsetC (c k a b (up s = ''WITHSCORES''))))
        else Inr (ZsetC (c k a b False))))))"

definition rp_zsets :: family where
  "rp_zsets up dn name es =
     (if name = ''ZADD'' then Some (rp_zadd up es)
      else if name = ''ZRANGE'' then Some (rp_zrange up name ZRange es)
      else if name = ''ZREVRANGE'' then Some (rp_zrange up name ZRevRange es)
      else if name = ''ZSCORE'' then Some
        (if length es \<noteq> 3 then Inl (Bad ''ZSCORE requires 2 arguments'')
         else with_key es (\<lambda>k. and_then (extract_sds (es ! 2)) (\<lambda>m. Inr (ZsetC (ZScore k m)))))
      else if name = ''ZREM'' then Some
        (if length es < 3 then Inl (Bad ''ZREM requires at least 2 arguments'')
         else with_key es (\<lambda>k. and_then (blobs (drop 2 es)) (\<lambda>ms. Inr (ZsetC (ZRem k ms)))))
      else if name = ''ZRANK'' then Some
        (if length es \<noteq> 3 then Inl (Bad ''ZRANK requires 2 arguments'')
         else with_key es (\<lambda>k. and_then (extract_sds (es ! 2)) (\<lambda>m. Inr (ZsetC (ZRank k m)))))
      else if name = ''ZCARD'' then Some (just_key es ''ZCARD requires 1 argument'' (\<lambda>k. ZsetC (ZCard k)))
      else if name = ''ZCOUNT'' then Some
        (if length es \<noteq> 4 then Inl (Bad ''ZCOUNT requires 3 arguments'')
         else with_key es (\<lambda>k. and_then (extract_string (es ! 2)) (\<lambda>lo.
              and_then (extract_string (es ! 3)) (\<lambda>hi. Inr (ZsetC (ZCount k lo hi))))))
      else None)"

definition rp_scans :: family where
  "rp_scans up dn name es =
     (if name = ''ZRANGEBYSCORE'' then Some
        (if length es < 4 then Inl (Bad ''ZRANGEBYSCORE requires at least 3 arguments'')
         else with_key es (\<lambda>k. and_then (extract_string (es ! 2)) (\<lambda>lo. and_then (extract_string (es ! 3)) (\<lambda>hi.
           and_then (byscore_loop up (drop 4 es) False None) (\<lambda>(ws, limit).
             Inr (ZsetC (ZRangeByScore k lo hi ws limit)))))))
      else if name = ''SCAN'' then Some
        (if length es < 2 then Inl (Bad ''SCAN requires at least 1 argument'')
         else and_then (extract_u64 (es ! 1)) (\<lambda>cursor.
           and_then (scan_loop up name (drop 2 es) None None) (\<lambda>(pat, count).
             Inr (ScanC (Scan cursor pat count)))))
      else if name = ''HSCAN'' then Some
        (if length es < 3 then Inl (Bad ''HSCAN requires at least 2 arguments'')
         else with_key es (\<lambda>k. and_then (extract_u64 (es ! 2)) (\<lambda>cursor.
           and_then (scan_loop up name (drop 3 es) None None) (\<lambda>(pat, count).
             Inr (ScanC (HScan k cursor pat count))))))
      else if name = ''ZSCAN'' then Some
        (if length es < 3 then Inl (Bad ''ZSCAN requires at least 2 arguments'')
         else with_key es (\<lambda>k. and_then (extract_u64 (es ! 2)) (\<lambda>cursor.
           and_then (scan_loop up name (drop 3 es) None None) (\<lambda>(pat, count).
             Inr (ScanC (ZScan k cursor pat count))))))
      else None)"

definition rp_object :: "(string \<Rightarrow> string) \<Rightarrow> resp_value list \<Rightarrow> request parsed" where
  "rp_object up es =
     (if length es < 2 then wrong_args ''object''
      else and_then (extract_string (es ! 1)) (\<lambda>s. let sub = up s;
          keyed = (\<lambda>cmd c. if length es \<noteq> 3 then wrong_args cmd
                           else and_then (extract_string (es ! 2)) (\<lambda>k. Inr (ServerR (c k)))) in
        if sub = ''HELP'' then Inr (ServerR ObjectHelp)
        else if sub = ''ENCODING'' then keyed ''object|encoding'' ObjectEncoding
        else if sub = ''REFCOUNT'' then keyed ''object|refcount'' ObjectRefCount
        else if sub = ''IDLETIME'' then keyed ''object|idletime'' ObjectIdleTime
        else if sub = ''FREQ'' then keyed ''object|freq'' ObjectFreq
        else Inr (ServerR (Unknown (''OBJECT '' @ sub)))))"

definition rp_debug :: "(string \<Rightarrow> string) \<Rightarrow> resp_value list \<Rightarrow> request parsed" where
  "rp_debug up es =
     (if length es < 2 then wrong_args ''debug''
      else and_then (extract_string (es ! 1)) (\<lambda>s. let sub = up s in
        if sub = ''SLEEP'' then
          (if length es \<noteq> 3 then wrong_args ''debug|sleep''
           else and_then (extract_float (es ! 2)) (\<lambda>x. Inr (DebugSleep x)))
        else if sub = ''OBJECT'' then
          (if length es \<noteq> 3 then wrong_args ''debug|object''
           else and_then (extract_string (es ! 2)) (\<lambda>k. Inr (ServerR (DebugObject k))))
        else if 3 \<le> length es then and_then (extract_string (es ! 2)) (\<lambda>v. Inr (ServerR (DebugSet sub v)))
        else Inr (ServerR (DebugSet sub []))))"

definition rp_stubs :: family where
  "rp_stubs up dn name es =
     (if name = ''FUNCTION'' then Some
        (if length es < 2 then wrong_args ''function''
         else and_then (extract_string (es ! 1)) (\<lambda>s.
           if up s = ''FLUSH'' then Inr (ServerR FunctionFlush)
           else Inr (ServerR (Unknown (''FUNCTION '' @ up s)))))
      else if name = ''COMMAND'' then Some
        (if 2 \<le> length es then
           and_then (extract_string (es ! 1)) (\<lambda>s.
             Inr (ServerR (if up s = ''COUNT'' then CommandCount else CommandCommand)))
         else Inr (ServerR CommandCommand))
      else if name = ''CLIENT'' then Some
        (if length es < 2 then wrong_args ''client''
         else and_then (extract_string (es ! 1)) (\<lambda>s. let sub = up s in
           if sub = ''SETNAME'' then
             (if length es \<noteq> 3 then wrong_args ''client|setname''
              else and_then (extract_string (es ! 2)) (\<lambda>n. Inr (ServerR (ClientSetName n))))
           else if sub = ''GETNAME'' then Inr (ServerR ClientGetName)
           else if sub = ''ID'' then Inr (ServerR ClientId)
           else if sub = ''INFO'' then Inr (ServerR ClientInfo)
           else Inr (ServerR (Unknown (''CLIENT '' @ sub)))))
      else if name = ''OBJECT'' then Some (rp_object up es)
      else if name = ''DEBUG'' then Some (rp_debug up es)
      else None)"

definition rp_getex :: "(string \<Rightarrow> string) \<Rightarrow> resp_value list \<Rightarrow> request parsed" where
  "rp_getex up es =
     (if length es < 2 then wrong_args ''getex''
      else with_key es (\<lambda>k. and_then (getex_loop up (drop 2 es) no_set_options) (\<lambda>so.
        if 1 < length (filter id [so_ex so \<noteq> None, so_px so \<noteq> None, so_exat so \<noteq> None, so_pxat so \<noteq> None, so_persist so])
        then Inl (Bad ''ERR syntax error'')
        else Inr (StringR (GetEx k (so_ex so) (so_px so) (so_exat so) (so_pxat so) (so_persist so))))))"

definition rp_ranges :: family where
  "rp_ranges up dn name es =
     (if name = ''GETRANGE'' \<or> name = ''SUBSTR'' then Some
        (if length es \<noteq> 4 then Inl (Bad ''GETRANGE requires 3 arguments'')
         else with_key es (\<lambda>k. and_then (extract_integer (es ! 2)) (\<lambda>a.
              and_then (extract_integer (es ! 3)) (\<lambda>b. Inr (StringR (GetRange k a b))))))
      else if name = ''SETRANGE'' then Some
        (if length es \<noteq> 4 then Inl (Bad ''SETRANGE requires 3 arguments'')
         else with_key es (\<lambda>k. and_then (extract_integer (es ! 2)) (\<lambda>offset.
           if offset < 0 then Inl (Bad ''ERR offset is out of range'')
           else and_then (extract_sds (es ! 3)) (\<lambda>v. Inr (StringR (SetRange k (as_usize offset) v))))))
      else if name = ''SETBIT'' then Some
        (if length es \<noteq> 4 then wrong_args ''setbit''
         else with_key es (\<lambda>k.
           and_then (replace_error ''ERR bit offset is not an integer or out of range'' (extract_u64 (es ! 2))) (\<lambda>offset.
           and_then (replace_error ''ERR bit is not an integer or out of range'' (extract_integer (es ! 3))) (\<lambda>b.
             if b < 0 \<or> 1 < b then Inl (Bad ''ERR bit is not an integer or out of range'')
             else Inr (StringR (SetBit k offset (nat b)))))))
      else if name = ''GETBIT'' then Some
        (if length es \<noteq> 3 then wrong_args ''getbit''
         else with_key es (\<lambda>k.
           and_then (replace_error ''ERR bit offset is not an integer or out of range'' (extract_u64 (es ! 2))) (\<lambda>offset.
             Inr (StringR (GetBit k offset)))))
      else if name = ''GETEX'' then Some (rp_getex up es)
      else if name = ''GETDEL'' then Some (just_key es ''GETDEL requires 1 argument'' (\<lambda>k. StringR (GetDel k)))
      else if name = ''INCRBYFLOAT'' then Some
        (if length es \<noteq> 3 then wrong_args ''incrbyfloat''
         else with_key es (\<lambda>k. and_then (extract_float (es ! 2)) (\<lambda>x.
           if \<not> f64_is_finite x then Inl (Bad ''ERR increment would produce NaN or Infinity'')
           else Inr (IncrByFloat k x))))
      else None)"

definition rp_others :: family where
  "rp_others up dn name es =
     (if name = ''PSETEX'' then Some
        (if length es \<noteq> 4 then Inl (Bad ''PSETEX requires 3 arguments'')
         else with_key es (\<lambda>k. and_then (extract_integer (es ! 2)) (\<lambda>n. and_then (extract_sds (es ! 3)) (\<lambda>v.
           Inr (StringR (SetCmd k v None (Some n) None None False False False False))))))
      else if name = ''EXPIRETIME'' then Some (just_key es ''EXPIRETIME requires 1 argument'' (\<lambda>k. KeyR (ExpireTime k)))
      else if name = ''PEXPIRETIME'' then Some (just_key es ''PEXPIRETIME requires 1 argument'' (\<lambda>k. KeyR (PExpireTime k)))
      else if name = ''UNLINK'' then Some
        (if length es < 2 then Inl (Bad ''UNLINK requires at least 1 argument'')
         else and_then (strings (drop 1 es)) (\<lambda>ks. Inr (KeyR (Del ks))))
      else if name = ''WAIT'' then Some
        (if length es \<noteq> 3 then Inl (Bad ''WAIT requires 2 arguments'')
         else and_then (extract_i64 (es ! 1)) (\<lambda>n. and_then (extract_i64 (es ! 2)) (\<lambda>t. Inr (ServerR (Wait n t)))))
      else if name = ''SORT'' then Some
        (if length es < 2 then wrong_args ''sort''
         else with_key es (\<lambda>k. and_then (sort_loop up (drop 2 es) None) (\<lambda>store. Inr (KeyR (Sort k store)))))
      else if name = ''RANDOMKEY'' then Some (Inr (KeyR RandomKey))
      else if name = ''RENAME'' then Some
        (if length es \<noteq> 3 then wrong_args ''rename''
         else with_key es (\<lambda>src. and_then (extract_string (es ! 2)) (\<lambda>dst. Inr (KeyR (Rename src dst)))))
      else if name = ''RENAMENX'' then Some
        (if length es \<noteq> 3 then wrong_args ''renamenx''
         else with_key es (\<lambda>src. and_then (extract_string (es ! 2)) (\<lambda>dst. Inr (KeyR (RenameNx src dst)))))
      else None)"

section \<open>The match on the name\<close>

definition rp_families :: "family list" where
  "rp_families = [rp_server, rp_control, rp_strings, rp_keys, rp_counters, rp_lists, rp_sets, rp_hashes,
     rp_zsets, rp_scans, rp_stubs, rp_ranges, rp_others]"

definition from_resp ::
  "(string \<Rightarrow> string) \<Rightarrow> (string \<Rightarrow> string) \<Rightarrow> resp_value \<Rightarrow> request parsed" where
  "from_resp up dn v =
     (case v of
        Array (Some (BulkString (Some d) # es)) \<Rightarrow>
          first_family rp_families up dn (up (utf8_lossy d)) (BulkString (Some d) # es)
      | _ \<Rightarrow> Inl (Bad ''Invalid command format''))"

end
