(* ===== verification/Parser_Laws.thy ===== *)
theory Parser_Laws
  imports Parser_Zero_Copy Parser_Resp Resp_Laws
begin

text \<open>
  What the parsers guarantee: every request they return is well formed, they agree with
  each other, and they panic on a few commands only.
\<close>

section \<open>Well-formed requests\<close>

text \<open>
  The numbers of a request fit the types of its fields, options that exclude each other do not
  meet, and a command with a list of keys or values has at least one.
\<close>

abbreviation opt_i64 :: "int option \<Rightarrow> bool" where
  "opt_i64 \<equiv> pred_option in_i64"

definition in_usize :: "nat \<Rightarrow> bool" where
  "in_usize n \<longleftrightarrow> n < 2 ^ 64"

definition one_at_most :: "bool list \<Rightarrow> bool" where
  "one_at_most bs \<longleftrightarrow> length (filter id bs) \<le> 1"

fun string_ok :: "string_command \<Rightarrow> bool" where
  "string_ok (SetCmd k v ex px exat pxat nx xx get keepttl) \<longleftrightarrow>
     opt_i64 ex \<and> opt_i64 px \<and> opt_i64 exat \<and> opt_i64 pxat \<and> \<not> (nx \<and> xx) \<and>
     (keepttl \<longrightarrow> ex = None \<and> px = None \<and> exat = None \<and> pxat = None)"
| "string_ok (MGet ks) \<longleftrightarrow> ks \<noteq> []"
| "string_ok (MSet ps) \<longleftrightarrow> ps \<noteq> []"
| "string_ok (MSetNx ps) \<longleftrightarrow> ps \<noteq> []"
| "string_ok (BatchSet _) \<longleftrightarrow> False"
| "string_ok (BatchGet _) \<longleftrightarrow> False"
| "string_ok (GetRange _ a b) \<longleftrightarrow> in_i64 a \<and> in_i64 b"
| "string_ok (SetRange _ offset _) \<longleftrightarrow> offset < 2 ^ 63"
| "string_ok (SetBit _ _ b) \<longleftrightarrow> b \<le> 1"
| "string_ok (GetEx _ ex px exat pxat pers) \<longleftrightarrow>
     opt_i64 ex \<and> opt_i64 px \<and> opt_i64 exat \<and> opt_i64 pxat \<and>
     one_at_most [ex \<noteq> None, px \<noteq> None, exat \<noteq> None, pxat \<noteq> None, pers]"
| "string_ok (IncrBy _ n) \<longleftrightarrow> in_i64 n"
| "string_ok (DecrBy _ n) \<longleftrightarrow> in_i64 n"
| "string_ok _ \<longleftrightarrow> True"

definition flags_ok :: "bool \<Rightarrow> bool \<Rightarrow> bool \<Rightarrow> bool \<Rightarrow> bool" where
  "flags_ok nx xx gt lt \<longleftrightarrow> \<not> (nx \<and> (xx \<or> gt \<or> lt)) \<and> \<not> (gt \<and> lt)"

fun key_ok :: "key_command \<Rightarrow> bool" where
  "key_ok (Del ks) \<longleftrightarrow> ks \<noteq> []"
| "key_ok (Exists ks) \<longleftrightarrow> ks \<noteq> []"
| "key_ok (Expire _ n nx xx gt lt) \<longleftrightarrow> in_i64 n \<and> flags_ok nx xx gt lt"
| "key_ok (PExpire _ n nx xx gt lt) \<longleftrightarrow> in_i64 n \<and> flags_ok nx xx gt lt"
| "key_ok (ExpireAt _ n) \<longleftrightarrow> in_i64 n"
| "key_ok (PExpireAt _ n) \<longleftrightarrow> in_i64 n"
| "key_ok _ \<longleftrightarrow> True"

fun list_ok :: "list_command \<Rightarrow> bool" where
  "list_ok (LPush _ vs) \<longleftrightarrow> vs \<noteq> []"
| "list_ok (RPush _ vs) \<longleftrightarrow> vs \<noteq> []"
| "list_ok (LIndex _ i) \<longleftrightarrow> in_i64 i"
| "list_ok (LRange _ a b) \<longleftrightarrow> in_i64 a \<and> in_i64 b"
| "list_ok (LSet _ i _) \<longleftrightarrow> in_i64 i"
| "list_ok (LTrim _ a b) \<longleftrightarrow> in_i64 a \<and> in_i64 b"
| "list_ok (LMove _ _ a b) \<longleftrightarrow> a \<in> {''LEFT'', ''RIGHT''} \<and> b \<in> {''LEFT'', ''RIGHT''}"
| "list_ok _ \<longleftrightarrow> True"

fun set_ok :: "set_command \<Rightarrow> bool" where
  "set_ok (SAdd _ ms) \<longleftrightarrow> ms \<noteq> []"
| "set_ok (SRem _ ms) \<longleftrightarrow> ms \<noteq> []"
| "set_ok (SPop _ n) \<longleftrightarrow> pred_option in_usize n"
| "set_ok _ \<longleftrightarrow> True"

fun hash_ok :: "hash_command \<Rightarrow> bool" where
  "hash_ok (HSet _ ps) \<longleftrightarrow> ps \<noteq> []"
| "hash_ok (HDel _ fs) \<longleftrightarrow> fs \<noteq> []"
| "hash_ok (HIncrBy _ _ n) \<longleftrightarrow> in_i64 n"
| "hash_ok _ \<longleftrightarrow> True"

fun zset_command_ok :: "zset_command \<Rightarrow> bool" where
  "zset_command_ok (ZAdd _ ps _ _ _ _ _) \<longleftrightarrow> ps \<noteq> []"
| "zset_command_ok (ZRem _ ms) \<longleftrightarrow> ms \<noteq> []"
| "zset_command_ok (ZRange _ a b _) \<longleftrightarrow> in_i64 a \<and> in_i64 b"
| "zset_command_ok (ZRevRange _ a b _) \<longleftrightarrow> in_i64 a \<and> in_i64 b"
| "zset_command_ok (ZRangeByScore _ _ _ _ limit) \<longleftrightarrow> pred_option (\<lambda>(a, n). in_i64 a \<and> in_usize n) limit"
| "zset_command_ok _ \<longleftrightarrow> True"

fun server_ok :: "server_command \<Rightarrow> bool" where
  "server_ok (Select db) \<longleftrightarrow> db \<le> 15"
| "server_ok (Wait n t) \<longleftrightarrow> in_i64 n \<and> in_i64 t"
| "server_ok _ \<longleftrightarrow> True"

fun scan_ok :: "scan_command \<Rightarrow> bool" where
  "scan_ok (Scan _ _ n) \<longleftrightarrow> pred_option in_usize n"
| "scan_ok (HScan _ _ _ n) \<longleftrightarrow> pred_option in_usize n"
| "scan_ok (ZScan _ _ _ n) \<longleftrightarrow> pred_option in_usize n"

fun acl_ok :: "acl_command \<Rightarrow> bool" where
  "acl_ok (AclDelUser us) \<longleftrightarrow> us \<noteq> []"
| "acl_ok (AclGenPass n) \<longleftrightarrow> pred_option (\<lambda>n. n < 2 ^ 32) n"
| "acl_ok (AclLog n) \<longleftrightarrow> pred_option in_usize n"
| "acl_ok _ \<longleftrightarrow> True"

fun request_ok :: "request \<Rightarrow> bool" where
  "request_ok (StringR c) \<longleftrightarrow> string_ok c"
| "request_ok (KeyR c) \<longleftrightarrow> key_ok c"
| "request_ok (ListR c) \<longleftrightarrow> list_ok c"
| "request_ok (SetR c) \<longleftrightarrow> set_ok c"
| "request_ok (HashR c) \<longleftrightarrow> hash_ok c"
| "request_ok (ServerR c) \<longleftrightarrow> server_ok c"
| "request_ok (Core (Watch ks)) \<longleftrightarrow> ks \<noteq> []"
| "request_ok (Core _) \<longleftrightarrow> True"
| "request_ok (ZsetC c) \<longleftrightarrow> zset_command_ok c"
| "request_ok (ScanC c) \<longleftrightarrow> scan_ok c"
| "request_ok (ScriptC (ScriptExists shas)) \<longleftrightarrow> shas \<noteq> []"
| "request_ok (ScriptC _) \<longleftrightarrow> True"
| "request_ok (AclC c) \<longleftrightarrow> acl_ok c"
| "request_ok (ConfigC _) \<longleftrightarrow> True"
| "request_ok (IncrByFloat _ x) \<longleftrightarrow> f64_is_finite x"
| "request_ok (DebugSleep _) \<longleftrightarrow> True"

section \<open>Extraction\<close>

text \<open>The integers of a value that came over the wire fit into 64 bits.\<close>

fun int_ok :: "resp_value \<Rightarrow> bool" where
  "int_ok (Integer n) \<longleftrightarrow> in_i64 n"
| "int_ok _ \<longleftrightarrow> True"

abbreviation ints_ok :: "resp_value list \<Rightarrow> bool" where
  "ints_ok \<equiv> list_all int_ok"

lemma parse_i64_range: "parse_i64 s = Some n \<Longrightarrow> in_i64 n"
  by (auto simp: parse_i64_def Let_def split: list.splits if_splits option.splits)

lemma extract_integer_ok: "extract_integer v = Inr n \<Longrightarrow> int_ok v \<Longrightarrow> in_i64 n"
  by (auto simp: extract_integer_def dest: parse_i64_range split: resp_value.splits option.splits)

lemma extract_i64_ok: "extract_i64 v = Inr n \<Longrightarrow> int_ok v \<Longrightarrow> in_i64 n"
  by (auto simp: extract_i64_def dest: parse_i64_range split: resp_value.splits option.splits)

text \<open>What holds of a result if there is one, with rules that follow the steps of a parser.\<close>

definition yields :: "('a \<Rightarrow> bool) \<Rightarrow> 'a parsed \<Rightarrow> bool" where
  "yields P m = (case m of Inl _ \<Rightarrow> True | Inr x \<Rightarrow> P x)"

lemma yields_simps [simp]: "yields P (Inl e)" "yields P (Inr x) = P x" "yields P (wrong_args cmd)"
  by (simp_all add: yields_def wrong_args_def)

lemma yields_and_then: "(\<And>x. yields P (f x)) \<Longrightarrow> yields P (and_then m f)"
  by (cases m) simp_all

lemma yields_bind: "yields Q m \<Longrightarrow> (\<And>x. Q x \<Longrightarrow> yields P (f x)) \<Longrightarrow> yields P (and_then m f)"
  by (cases m) simp_all

lemma yields_plain_string: "(\<And>x. yields P (f x)) \<Longrightarrow> yields P (and_then (extract_string v) f)"
  by (rule yields_and_then)

lemma yields_plain_sds: "(\<And>x. yields P (f x)) \<Longrightarrow> yields P (and_then (extract_sds v) f)"
  by (rule yields_and_then)

lemma yields_plain_u64: "(\<And>x. yields P (f x)) \<Longrightarrow> yields P (and_then (extract_u64 v) f)"
  by (rule yields_and_then)

lemma yields_plain_float: "(\<And>x. yields P (f x)) \<Longrightarrow> yields P (and_then (extract_float v) f)"
  by (rule yields_and_then)

lemma yields_if: "(b \<Longrightarrow> yields P m) \<Longrightarrow> (\<not> b \<Longrightarrow> yields P m') \<Longrightarrow> yields P (if b then m else m')"
  by simp

lemma yields_extract:
  "yields in_i64 (extract_integer v)" "yields in_i64 (extract_i64 v)" if "int_ok v"
  using that extract_integer_ok extract_i64_ok
  by (auto simp: yields_def split: sum.splits)

lemma yields_nth:
  assumes "ints_ok es" "i < length es" "\<And>n. in_i64 n \<Longrightarrow> yields P (f n)"
  shows "yields P (and_then (extract_integer (es ! i)) f)" "yields P (and_then (extract_i64 (es ! i)) f)"
  using assms(1,2) by (auto simp: list_all_length intro: yields_bind [OF yields_extract(1)] yields_bind [OF yields_extract(2)] assms(3))

lemma yields_key: "(\<And>k. yields P (f k)) \<Longrightarrow> yields P (with_key es f)"
  by (simp add: with_key_def yields_and_then)

lemma yields_just_key: "(\<And>k. P (c k)) \<Longrightarrow> yields P (just_key es msg c)"
  by (simp add: just_key_def yields_key)

lemma yields_all: "es \<noteq> [] \<Longrightarrow> (\<And>xs. xs \<noteq> [] \<Longrightarrow> yields P (f xs)) \<Longrightarrow> yields P (and_then (extract_all g es) f)"
  by (rule yields_bind [of "\<lambda>xs. xs \<noteq> []"]) (cases es, auto intro!: yields_and_then)

lemma yields_pairs:
  "2 \<le> length es \<Longrightarrow> (\<And>ps. ps \<noteq> [] \<Longrightarrow> yields P (f ps)) \<Longrightarrow> yields P (and_then (extract_pairs g h es) f)"
  by (rule yields_bind [of "\<lambda>ps. ps \<noteq> []"])
    (cases "(g, h, es)" rule: extract_pairs.cases, auto intro!: yields_and_then)

lemma yields_unsigned:
  assumes "\<And>n. n < limit \<Longrightarrow> yields P (f n)" "0 < limit"
  shows "yields P (case parse_unsigned limit s of Inr n \<Rightarrow> f n | Inl e \<Rightarrow> Inl (g e))"
  using assms parse_unsigned_bound by (auto split: sum.split)

lemma drop_ints_ok: "ints_ok es \<Longrightarrow> ints_ok (drop n es)"
  by (auto simp: list_all_iff dest: in_set_dropD)

lemma as_usize_bound: "in_usize (as_usize n)"
  by (simp add: in_usize_def as_usize_def nat_less_iff)

lemma deadline_option_cases:
  "deadline_option opt = Some upd \<Longrightarrow>
     upd = (\<lambda>n. so_ex_update (\<lambda>_. Some n)) \<or> upd = (\<lambda>n. so_px_update (\<lambda>_. Some n)) \<or>
     upd = (\<lambda>n. so_exat_update (\<lambda>_. Some n)) \<or> upd = (\<lambda>n. so_pxat_update (\<lambda>_. Some n))"
  by (auto simp: deadline_option_def split: if_splits)

definition so_ok :: "set_options \<Rightarrow> bool" where
  "so_ok so \<longleftrightarrow> opt_i64 (so_ex so) \<and> opt_i64 (so_px so) \<and> opt_i64 (so_exat so) \<and> opt_i64 (so_pxat so)"

lemma so_ok_none: "so_ok no_set_options"
  by (simp add: so_ok_def no_set_options_def)

lemma so_ok_update:
  "deadline_option opt = Some upd \<Longrightarrow> so_ok so \<Longrightarrow> in_i64 n \<Longrightarrow> so_ok (upd n so)"
  by (drule deadline_option_cases) (auto simp: so_ok_def)

lemma so_ok_flags [simp]:
  "so_ok (so\<lparr>so_nx := b\<rparr>) = so_ok so" "so_ok (so\<lparr>so_xx := b\<rparr>) = so_ok so"
  "so_ok (so\<lparr>so_get := b\<rparr>) = so_ok so" "so_ok (so\<lparr>so_keepttl := b\<rparr>) = so_ok so"
  "so_ok (so\<lparr>so_persist := b\<rparr>) = so_ok so"
  by (simp_all add: so_ok_def)

lemma set_loop_ok: "ints_ok es \<Longrightarrow> so_ok so \<Longrightarrow> yields so_ok (set_loop up es so)"
proof (induction es arbitrary: so rule: length_induct)
  case (1 es)
  then show ?case
    by (cases es) (auto simp: Let_def so_ok_update
        intro!: yields_plain_string yields_bind [OF yields_extract(2)] split: option.split list.split)
qed

lemma getex_loop_ok: "ints_ok es \<Longrightarrow> so_ok so \<Longrightarrow> yields so_ok (getex_loop up es so)"
proof (induction es arbitrary: so rule: length_induct)
  case (1 es)
  then show ?case
    by (cases es) (auto simp: Let_def so_ok_update
        intro!: yields_plain_string yields_bind [OF yields_extract(2)] split: option.split list.split)
qed

lemma expire_options_ok: "yields (\<lambda>(nx, xx, gt, lt). flags_ok nx xx gt lt) (expire_options up es)"
  by (auto simp: expire_options_def flags_ok_def intro!: yields_and_then)

abbreviation limit_ok :: "(isize \<times> usize) option \<Rightarrow> bool" where
  "limit_ok \<equiv> pred_option (\<lambda>(a, n). in_i64 a \<and> in_usize n)"

lemma byscore_loop_ok: "ints_ok es \<Longrightarrow> limit_ok limit \<Longrightarrow> yields (\<lambda>(_, l). limit_ok l) (byscore_loop up es ws limit)"
proof (induction es arbitrary: ws limit rule: length_induct)
  case (1 es)
  have IH: "yields (\<lambda>(_, l). limit_ok l) (byscore_loop up ys ws' limit')"
    if "length ys < length es" "ints_ok ys" "limit_ok limit'" for ys ws' limit'
    using 1 that by blast
  have "yields (\<lambda>(_, l). limit_ok l) (case ys of
            a # b # es' \<Rightarrow>
              and_then (extract_integer a) (\<lambda>offset.
              and_then (extract_integer b) (\<lambda>n. byscore_loop up es' ws (Some (offset, as_usize n))))
          | _ \<Rightarrow> Inl (Bad ''LIMIT requires offset and count''))" if "es = e # ys" for e ys
    using 1(2) that as_usize_bound
    by (auto intro!: IH yields_bind [OF yields_extract(1)] split: list.split)
  then show ?case
    using 1(2,3) IH by (cases es) (auto simp: Let_def intro!: yields_plain_string)
qed

abbreviation count_ok :: "usize option \<Rightarrow> bool" where
  "count_ok \<equiv> pred_option in_usize"

lemma scan_loop_ok: "count_ok count \<Longrightarrow> yields (\<lambda>(_, n). count_ok n) (scan_loop up cmd es pat count)"
proof (induction es arbitrary: pat count rule: length_induct)
  case (1 es)
  then show ?case
    using as_usize_bound
    by (cases es) (auto simp: Let_def intro!: yields_and_then split: list.split)
qed

section \<open>Each family\<close>

definition family_yields :: "(request \<Rightarrow> bool) \<Rightarrow> request parsed option \<Rightarrow> bool" where
  "family_yields P m = (case m of None \<Rightarrow> True | Some r \<Rightarrow> yields P r)"

lemma family_yields_simps [simp]: "family_yields P None" "family_yields P (Some r) = yields P r"
  by (simp_all add: family_yields_def)

lemma family_yields_if:
  "(b \<Longrightarrow> family_yields P m) \<Longrightarrow> (\<not> b \<Longrightarrow> family_yields P m') \<Longrightarrow> family_yields P (if b then m else m')"
  by simp

lemma family_yields_Some: "yields P r \<Longrightarrow> family_yields P (Some r)"
  by simp

lemmas plain_steps = yields_plain_string yields_plain_sds yields_plain_u64 yields_plain_float

lemmas steps = plain_steps family_yields_if family_yields_Some yields_if yields_key yields_just_key yields_nth yields_unsigned

lemma zc_server_ok: "family_yields request_ok (zc_server up dn name es)"
  unfolding zc_server_def zc_config_def Let_def by (intro steps) (simp_all add: not_less)

lemma zc_acl_ok: "yields request_ok (zc_acl up es)"
  unfolding zc_acl_def Let_def
  by (intro steps yields_all [of "drop 2 _"] yields_and_then [of _ _ "strings _"]) (simp_all add: in_usize_def)

lemma zc_control_ok: "ints_ok es \<Longrightarrow> family_yields request_ok (zc_control up dn name es)"
  unfolding zc_control_def zc_script_def Let_def
  by (intro steps zc_acl_ok yields_all yields_and_then [of _ _ "script_args _ _ _"]) (auto simp: split_def)

lemma zc_set_ok: "ints_ok es \<Longrightarrow> yields request_ok (zc_set up es)"
  unfolding zc_set_def
  by (intro steps yields_bind [OF set_loop_ok]) (auto simp: so_ok_def has_deadline_def drop_ints_ok no_set_options_def)

lemma zc_strings_ok: "ints_ok es \<Longrightarrow> family_yields request_ok (zc_strings up dn name es)"
  unfolding zc_strings_def by (intro steps zc_set_ok) simp_all

lemma zc_keys_ok: "ints_ok es \<Longrightarrow> family_yields request_ok (zc_keys up dn name es)"
  unfolding zc_keys_def by (intro steps yields_all yields_bind [OF expire_options_ok]) auto

lemma zc_counters_ok: "ints_ok es \<Longrightarrow> family_yields request_ok (zc_counters up dn name es)"
  unfolding zc_counters_def by (intro steps yields_all yields_pairs) auto

lemma zc_lists_ok: "ints_ok es \<Longrightarrow> family_yields request_ok (zc_lists up dn name es)"
  unfolding zc_lists_def zc_lmove_def by (intro steps yields_all) auto

lemma zc_sets_ok: "family_yields request_ok (zc_sets up dn name es)"
  unfolding zc_sets_def by (intro steps yields_all) (auto simp: in_usize_def)

lemma zc_hashes_ok: "ints_ok es \<Longrightarrow> family_yields request_ok (zc_hashes up dn name es)"
  unfolding zc_hashes_def by (intro steps yields_all yields_pairs) auto

lemma zc_zrange_ok:
  "ints_ok es \<Longrightarrow> c \<in> {ZRange, ZRevRange} \<Longrightarrow> yields request_ok (zc_zrange up name c es)"
  unfolding zc_zrange_def by (intro steps) auto

lemma zc_zadd_ok: "yields request_ok (zc_zadd up es)"
  unfolding zc_zadd_def
  by (intro steps yields_and_then [of _ _ "zadd_loop _ _ _"])
    (auto simp: split_def neq_Nil_conv intro!: yields_pairs elim!: oddE)

lemma zc_zsets_ok: "ints_ok es \<Longrightarrow> family_yields request_ok (zc_zsets up dn name es)"
  unfolding zc_zsets_def by (intro steps yields_all zc_zadd_ok zc_zrange_ok) auto

lemma zc_scans_ok: "ints_ok es \<Longrightarrow> family_yields request_ok (zc_scans up dn name es)"
  unfolding zc_scans_def
  by (intro steps yields_bind [OF byscore_loop_ok] yields_bind [OF scan_loop_ok]) (auto simp: drop_ints_ok)

lemma zc_stubs_ok: "family_yields request_ok (zc_stubs up dn name es)"
  unfolding zc_stubs_def zc_object_def zc_debug_def Let_def by (intro steps) auto

lemma zc_getex_ok: "ints_ok es \<Longrightarrow> yields request_ok (zc_getex up es)"
  unfolding zc_getex_def
  by (intro steps yields_bind [OF getex_loop_ok])
    (auto simp: so_ok_def drop_ints_ok no_set_options_def one_at_most_def)

lemma zc_ranges_ok: "ints_ok es \<Longrightarrow> family_yields request_ok (zc_ranges up dn name es)"
  unfolding zc_ranges_def
  by (intro steps zc_getex_ok yields_and_then [of _ _ "replace_error _ _"]) (auto simp: as_usize_def in_i64_def)

lemma zc_others_ok: "ints_ok es \<Longrightarrow> family_yields request_ok (zc_others up dn name es)"
  unfolding zc_others_def by (intro steps yields_all yields_and_then [of _ _ "sort_loop _ _ _"]) auto

lemma first_family_yields:
  "list_all (\<lambda>f. family_yields P (f up dn name es)) fs \<Longrightarrow> P (ServerR (Unknown name)) \<Longrightarrow>
   yields P (first_family fs up dn name es)"
  by (induction fs) (auto split: option.splits)

lemma from_resp_invalid:
  assumes "\<nexists>d es. v = Array (Some (BulkString (Some d) # es))"
  shows "from_resp_zero_copy up dn v = Inl (Bad ''Invalid command format'')"
    "from_resp up dn v = Inl (Bad ''Invalid command format'')"
  using assms
  by (auto simp: from_resp_zero_copy_def from_resp_def split: resp_value.split option.split list.split)

lemma from_resp_zero_copy_ok:
  assumes "ints_ok es"
  shows "yields request_ok (from_resp_zero_copy up dn (Array (Some es)))"
proof (cases "\<exists>d es'. es = BulkString (Some d) # es'")
  case True
  have "list_all (\<lambda>f. family_yields request_ok (f up dn name es)) zc_families" for name
    using assms by (simp add: zc_families_def zc_server_ok zc_control_ok zc_strings_ok zc_keys_ok zc_counters_ok
        zc_lists_ok zc_sets_ok zc_hashes_ok zc_zsets_ok zc_scans_ok zc_stubs_ok zc_ranges_ok zc_others_ok)
  then show ?thesis
    using True by (auto simp: from_resp_zero_copy_def first_family_yields)
qed (simp add: from_resp_invalid)

lemma try_parse_int_ok: "try_parse elem_size s = Inr (v, n) \<Longrightarrow> int_ok v"
  by (cases s) (auto simp: try_parse.simps codec_simple_string_def codec_error_def codec_integer_def
      codec_bulk_string_def codec_number_def bulk_body_def Let_def dest: parse_i64_range
      split: if_splits option.splits sum.splits)

lemma try_elements_ints_ok: "try_elements elem_size s k = Inr (vs, n) \<Longrightarrow> ints_ok vs"
proof (induction k arbitrary: s vs n)
  case (Suc k)
  then obtain v used vs' used' where "try_parse elem_size s = Inr (v, used)" "vs = v # vs'"
      "try_elements elem_size (drop used s) k = Inr (vs', used')"
    by (auto simp: try_elements.simps [of _ _ "Suc k"] split: if_splits sum.splits)
  then show ?case
    using try_parse_int_ok Suc.IH by auto
qed (simp add: try_elements.simps)

lemma try_parse_array: "try_parse elem_size s = Inr (Array (Some vs), n) \<Longrightarrow> ints_ok vs"
  by (cases s) (auto simp: try_parse.simps codec_simple_string_def codec_error_def codec_integer_def
      codec_bulk_string_def codec_number_def bulk_body_def Let_def dest: try_elements_ints_ok
      split: if_splits option.splits sum.splits)



section \<open>Panics\<close>

definition safe :: "'a parsed \<Rightarrow> bool" where
  "safe m \<longleftrightarrow> m \<noteq> Inl Crash"

lemma safe_simps [simp]:
  "safe (Inr x)" "safe (Inl (Bad t))" "\<not> safe (Inl Crash)" "safe (wrong_args cmd)"
  by (simp_all add: safe_def wrong_args_def)

lemma safe_extract [simp]:
  "safe (extract_string v)" "safe (extract_sds v)" "safe (extract_integer v)" "safe (extract_i64 v)"
  "safe (extract_u64 v)" "safe (extract_float v)"
  by (auto simp: safe_def extract_string_def extract_sds_def extract_integer_def extract_i64_def
      extract_u64_def extract_float_def split: resp_value.splits option.splits sum.splits)

lemma safe_replace_error [simp]: "safe m \<Longrightarrow> safe (replace_error msg m)"
  by (auto simp: safe_def replace_error_def split: sum.splits request_error.splits)

lemma safe_and_then: "safe m \<Longrightarrow> (\<And>x. safe (f x)) \<Longrightarrow> safe (and_then m f)"
  by (cases m) (simp_all add: safe_def)

lemma safe_if: "(b \<Longrightarrow> safe m) \<Longrightarrow> (\<not> b \<Longrightarrow> safe m') \<Longrightarrow> safe (if b then m else m')"
  by simp

lemma safe_key: "(\<And>k. safe (f k)) \<Longrightarrow> safe (with_key es f)"
  by (simp add: with_key_def safe_and_then)

lemma safe_just_key: "safe (just_key es msg c)"
  by (simp add: just_key_def safe_key)

lemma safe_unsigned: "(\<And>n. safe (f n)) \<Longrightarrow> safe (case parse_unsigned limit s of Inr n \<Rightarrow> f n | Inl e \<Rightarrow> Inl (Bad (g e)))"
  by (simp split: sum.split)

lemma safe_extract_all: "(\<And>v. safe (f v)) \<Longrightarrow> safe (extract_all f es)"
  by (induction es) (auto intro!: safe_and_then)

lemma safe_extract_pairs: "(\<And>v. safe (f v)) \<Longrightarrow> (\<And>v. safe (g v)) \<Longrightarrow> safe (extract_pairs f g es)"
  by (induction es rule: induct_list012) (auto intro!: safe_and_then)

lemma safe_set_loop: "safe (set_loop up es so)"
  by (induction es arbitrary: so rule: length_induct, case_tac xs)
    (auto simp: Let_def intro!: safe_and_then split: option.split list.split)

lemma safe_getex_loop: "safe (getex_loop up es so)"
  by (induction es arbitrary: so rule: length_induct, case_tac xs)
    (auto simp: Let_def intro!: safe_and_then split: option.split list.split)

lemma safe_expire_options: "safe (expire_options up es)"
proof -
  have "safe (expire_loop up es flags)" for flags
    by (induction es arbitrary: flags) (auto simp: Let_def split_paired_all intro!: safe_and_then)
  then show ?thesis
    unfolding expire_options_def by (auto intro!: safe_and_then)
qed

lemma safe_zadd_loop: "safe (zadd_loop up es flags)"
  by (induction es arbitrary: flags) (auto simp: Let_def split_paired_all intro!: safe_and_then)

lemma safe_byscore_loop: "safe (byscore_loop up es ws limit)"
proof (induction es arbitrary: ws limit rule: length_induct)
  case (1 es)
  have IH: "safe (byscore_loop up ys ws' limit')" if "length ys < length es" for ys ws' limit'
    using 1 that by blast
  have "safe (case ys of
            a # b # es' \<Rightarrow>
              and_then (extract_integer a) (\<lambda>offset.
              and_then (extract_integer b) (\<lambda>n. byscore_loop up es' ws (Some (offset, as_usize n))))
          | _ \<Rightarrow> Inl (Bad ''LIMIT requires offset and count''))" if "es = e # ys" for e ys
    using that by (auto intro!: IH safe_and_then split: list.split)
  then show ?case
    using IH by (cases es) (auto simp: Let_def intro!: safe_and_then)
qed

lemma safe_sort_loop: "safe (sort_loop up es store)"
proof (induction es arbitrary: store rule: length_induct)
  case (1 es)
  have IH: "safe (sort_loop up ys store')" if "length ys < length es" for ys store'
    using 1 that by blast
  have "safe (case ys of [] \<Rightarrow> Inr store | v # es' \<Rightarrow> and_then (extract_string v) (\<lambda>d. sort_loop up es' (Some d)))"
    if "es = e # ys" for e ys
    using that by (cases ys) (auto intro!: IH safe_and_then simp del: sort_loop.simps)
  then show ?case
    using IH by (cases es) (auto intro!: safe_and_then)
qed

definition family_safe :: "request parsed option \<Rightarrow> bool" where
  "family_safe m = (case m of None \<Rightarrow> True | Some r \<Rightarrow> safe r)"

lemma family_safe_simps [simp]: "family_safe None" "family_safe (Some r) = safe r"
  by (simp_all add: family_safe_def)

lemma family_safe_if: "(b \<Longrightarrow> family_safe m) \<Longrightarrow> (\<not> b \<Longrightarrow> family_safe m') \<Longrightarrow> family_safe (if b then m else m')"
  by simp

lemma family_safe_Some: "safe r \<Longrightarrow> family_safe (Some r)"
  by simp

lemmas safe_steps = family_safe_if family_safe_Some safe_if safe_key safe_just_key safe_unsigned safe_and_then
  safe_extract_all safe_extract_pairs safe_extract safe_simps(1,2,4) family_safe_simps(1)

lemma zc_server_safe: "family_safe (zc_server up dn name es)"
  unfolding zc_server_def zc_config_def Let_def by (intro safe_steps)

lemma zc_control_safe: "name \<noteq> ''EVAL'' \<Longrightarrow> name \<noteq> ''EVALSHA'' \<Longrightarrow> family_safe (zc_control up dn name es)"
  unfolding zc_control_def zc_acl_def zc_script_def Let_def by (intro safe_steps) simp_all

lemma zc_strings_safe: "family_safe (zc_strings up dn name es)"
  unfolding zc_strings_def zc_set_def by (intro safe_steps safe_set_loop)

lemma zc_keys_safe: "family_safe (zc_keys up dn name es)"
  unfolding zc_keys_def split_def by (intro safe_steps safe_expire_options)

lemma zc_counters_safe: "family_safe (zc_counters up dn name es)"
  unfolding zc_counters_def by (intro safe_steps)

lemma zc_lists_safe: "family_safe (zc_lists up dn name es)"
  unfolding zc_lists_def zc_lmove_def by (intro safe_steps)

lemma zc_sets_safe: "family_safe (zc_sets up dn name es)"
  unfolding zc_sets_def by (intro safe_steps)

lemma zc_hashes_safe: "family_safe (zc_hashes up dn name es)"
  unfolding zc_hashes_def by (intro safe_steps)

lemma zc_zsets_safe: "family_safe (zc_zsets up dn name es)"
  unfolding zc_zsets_def zc_zadd_def zc_zrange_def split_def by (intro safe_steps safe_zadd_loop)

lemma zc_scans_safe: "name \<notin> {''SCAN'', ''HSCAN'', ''ZSCAN''} \<Longrightarrow> family_safe (zc_scans up dn name es)"
  unfolding zc_scans_def split_def by (intro safe_steps safe_byscore_loop) simp_all

lemma zc_stubs_safe: "family_safe (zc_stubs up dn name es)"
  unfolding zc_stubs_def zc_object_def zc_debug_def Let_def by (intro safe_steps)

lemma zc_ranges_safe: "family_safe (zc_ranges up dn name es)"
  unfolding zc_ranges_def zc_getex_def by (intro safe_steps safe_getex_loop safe_replace_error)

lemma zc_others_safe: "family_safe (zc_others up dn name es)"
  unfolding zc_others_def by (intro safe_steps safe_sort_loop)

lemma first_family_safe:
  "list_all (\<lambda>f. family_safe (f up dn name es)) fs \<Longrightarrow> safe (first_family fs up dn name es)"
  by (induction fs) (auto split: option.splits)

lemma from_resp_zero_copy_safe:
  assumes "up (utf8_lossy d) \<notin> {''EVAL'', ''EVALSHA'', ''SCAN'', ''HSCAN'', ''ZSCAN''}"
  shows "safe (from_resp_zero_copy up dn (Array (Some (BulkString (Some d) # es))))"
proof -
  have "list_all (\<lambda>f. family_safe (f up dn (up (utf8_lossy d)) es')) zc_families" for es'
    using assms by (simp add: zc_families_def zc_server_safe zc_control_safe zc_strings_safe
        zc_keys_safe zc_counters_safe zc_lists_safe zc_sets_safe zc_hashes_safe zc_zsets_safe zc_scans_safe
        zc_stubs_safe zc_ranges_safe zc_others_safe)
  then show ?thesis
    by (simp add: from_resp_zero_copy_def first_family_safe)
qed

abbreviation bulks :: "string list \<Rightarrow> resp_value" where
  "bulks ws \<equiv> Array (Some (map (\<lambda>w. BulkString (Some w)) ws))"



section \<open>Two parsers\<close>

text \<open>What differs: the words of some errors, and three subcommands of \<open>ACL\<close> that only one parser knows.\<close>

abbreviation acl_stubs :: "request set" where
  "acl_stubs \<equiv> {ServerR (Unknown ''ACL HELP''), ServerR (Unknown ''ACL LOAD''), ServerR (Unknown ''ACL SAVE'')}"

definition sim :: "request parsed \<Rightarrow> request parsed \<Rightarrow> bool" where
  "sim m m' \<longleftrightarrow> m = m' \<or> (\<exists>b. m' = Inl (Bad b) \<and> ((\<exists>a. m = Inl (Bad a)) \<or> m \<in> Inr ` acl_stubs))"

lemma sim_refl [simp]: "sim m m"
  by (simp add: sim_def)

lemma sim_if: "(b \<Longrightarrow> sim m n) \<Longrightarrow> (\<not> b \<Longrightarrow> sim m' n') \<Longrightarrow> sim (if b then m else m') (if b then n else n')"
  by simp

lemma sim_and_then: "(\<And>x. sim (f x) (g x)) \<Longrightarrow> sim (and_then m f) (and_then m g)"
  by (cases m) simp_all

lemma sim_bad: "sim (Inl (Bad a)) (Inl (Bad b))"
  by (simp add: sim_def)

abbreviation family_sim :: "request parsed option \<Rightarrow> request parsed option \<Rightarrow> bool" where
  "family_sim \<equiv> rel_option sim"

lemma family_sim_if:
  "(b \<Longrightarrow> family_sim m n) \<Longrightarrow> (\<not> b \<Longrightarrow> family_sim m' n') \<Longrightarrow> family_sim (if b then m else m') (if b then n else n')"
  by simp

lemma family_sim_refl: "family_sim m m"
  by (cases m) simp_all

lemma equal_families:
  "zc_server = rp_server" "zc_strings = rp_strings" "zc_keys = rp_keys" "zc_counters = rp_counters"
  "zc_hashes = rp_hashes" "zc_zsets = rp_zsets" "zc_scans = rp_scans" "zc_stubs = rp_stubs"
  "zc_ranges = rp_ranges" "zc_others = rp_others" "zc_script = rp_script"
  unfolding fun_eq_iff zc_server_def rp_server_def zc_config_def rp_config_def zc_strings_def rp_strings_def
    zc_set_def rp_set_def zc_keys_def rp_keys_def zc_counters_def rp_counters_def zc_hashes_def rp_hashes_def
    zc_zsets_def rp_zsets_def zc_zadd_def rp_zadd_def zc_zrange_def rp_zrange_def zc_scans_def rp_scans_def
    zc_stubs_def rp_stubs_def zc_object_def rp_object_def zc_debug_def rp_debug_def zc_ranges_def rp_ranges_def
    zc_getex_def rp_getex_def zc_others_def rp_others_def zc_script_def rp_script_def
  by (intro allI refl)+

lemma acl_sim: "sim (zc_acl up es) (rp_acl up es)"
  unfolding zc_acl_def rp_acl_def Let_def
  by (intro sim_if sim_and_then sim_refl) (auto simp: sim_def)

lemma control_sim: "family_sim (zc_control up dn name es) (rp_control up dn name es)"
  unfolding zc_control_def rp_control_def equal_families
  by (intro family_sim_if family_sim_refl) (simp add: acl_sim)

lemma lists_sim: "family_sim (zc_lists up dn name es) (rp_lists up dn name es)"
  unfolding zc_lists_def rp_lists_def zc_lmove_def rp_lmove_def
  by (intro family_sim_if family_sim_refl) (simp_all add: sim_bad)

lemma sets_sim: "family_sim (zc_sets up dn name es) (rp_sets up dn name es)"
  unfolding zc_sets_def rp_sets_def
  by (intro family_sim_if family_sim_refl) (simp_all add: sim_bad)

lemma first_family_sim:
  "list_all2 (\<lambda>f g. family_sim (f up dn name es) (g up dn name es)) fs gs \<Longrightarrow>
   sim (first_family fs up dn name es) (first_family gs up dn name es)"
  by (induction rule: list_all2_induct) (auto elim: option.rel_cases)

lemma from_resp_sim: "sim (from_resp_zero_copy up dn v) (from_resp up dn v)"
proof (cases "\<exists>d es. v = Array (Some (BulkString (Some d) # es))")
  case True
  have "list_all2 (\<lambda>f g. family_sim (f up dn name es) (g up dn name es)) zc_families rp_families" for name es
    by (simp add: zc_families_def rp_families_def equal_families family_sim_refl control_sim lists_sim sets_sim)
  then show ?thesis
    using True by (auto simp: from_resp_zero_copy_def from_resp_def first_family_sim)
qed (simp add: from_resp_invalid)

text \<open>
  C17. The two parsers of commands agree: every command that \<open>from_resp\<close> reads is read as the same
  command by \<open>from_resp_zero_copy\<close>; conversely, except for \<open>ACL HELP\<close>, \<open>ACL LOAD\<close> and \<open>ACL SAVE\<close>, which
  \<open>from_resp\<close> refuses; and they panic on the same input.
\<close>

theorem parsers_agree:
  "(from_resp up dn v = Inr r \<longrightarrow> from_resp_zero_copy up dn v = Inr r) \<and>
   (from_resp_zero_copy up dn v = Inr r \<and> r \<notin> acl_stubs \<longrightarrow> from_resp up dn v = Inr r) \<and>
   (from_resp_zero_copy up dn v = Inl Crash \<longleftrightarrow> from_resp up dn v = Inl Crash)"
  using from_resp_sim [of up dn v] by (auto simp: sim_def)

theorem parsers_agree_witness:
  "from_resp (map upper_char) (map lower_char) (bulks [''ping'']) = Inr (ServerR (Ping None)) \<and>
   from_resp_zero_copy (map upper_char) (map lower_char) (bulks [''ping'']) = Inr (ServerR (Ping None))"
proof -
  have "map upper_char ''ping'' = ''PING''"
    by code_simp
  then have "from_resp (map upper_char) (map lower_char) (bulks [''ping'']) = Inr (ServerR (Ping None))"
    by (simp add: from_resp_def rp_families_def rp_server_def ascii_def)
  then show ?thesis
    using parsers_agree [of "map upper_char" "map lower_char" "bulks [''ping'']" "ServerR (Ping None)"] by blast
qed

end
