(* ===== verification/Scan_Ops.thy ===== *)
theory Scan_Ops
  imports Request Float64_Text
begin

text \<open>
  The cursor commands (\<open>src/redis/executor/scan_ops.rs\<close>) and the configuration store
  (\<open>src/redis/executor/config_ops.rs\<close>). A cursor is a position in the sorted list of the keys, fields or members
  that match the pattern. The arithmetic on the count and the cursor wraps around.
\<close>

section \<open>Pages\<close>

text \<open>\<open>skip(cursor).take(count + 1)\<close>, and the next cursor.\<close>

definition scan_page :: "u64 \<Rightarrow> usize \<Rightarrow> 'a list \<Rightarrow> u64 \<times> 'a list" where
  "scan_page cursor count xs =
     (let results = take (wadd count 1) (drop (unat cursor) xs)
      in if count < length results then (cursor + of_nat count, take count results) else (0, results))"

definition scan_count :: "usize option \<Rightarrow> usize" where
  "scan_count count = (case count of Some n \<Rightarrow> n | None \<Rightarrow> 10)"

definition pattern_filter :: "string option \<Rightarrow> string \<Rightarrow> bool" where
  "pattern_filter pat k = (case pat of None \<Rightarrow> True | Some p \<Rightarrow> matches_glob_pattern k p)"

definition scan_reply :: "u64 \<Rightarrow> resp_value list \<Rightarrow> resp_value" where
  "scan_reply cursor xs = Array (Some [bulk (show_nat (unat cursor)), Array (Some xs)])"

section \<open>\<open>SCAN\<close>, \<open>HSCAN\<close>, \<open>ZSCAN\<close>\<close>

definition execute_scan :: "order \<Rightarrow> u64 \<Rightarrow> string option \<Rightarrow> usize option \<Rightarrow> executor \<Rightarrow> reply" where
  "execute_scan it cursor pat count s =
     (let keys = sort (filter (\<lambda>k. \<not> is_expired s k \<and> pattern_filter pat k) (it (fmdom (data s))));
          (next_cursor, page) = scan_page cursor (scan_count count) keys
      in (s, scan_reply next_cursor (map bulk page)))"

definition execute_hscan ::
  "order \<Rightarrow> string \<Rightarrow> u64 \<Rightarrow> string option \<Rightarrow> usize option \<Rightarrow> executor \<Rightarrow> reply" where
  "execute_hscan it key cursor pat count s =
     (let (s', v) = get_value key (purge_if_expired key s) in
      case v of
        Some (Hash h) \<Rightarrow>
          (let fields = sort_key fst (filter (\<lambda>(f, _). pattern_filter pat f)
                          (map (\<lambda>(f, v). (f, utf8_lossy v)) (hash_get_all it h)));
               (next_cursor, page) = scan_page cursor (scan_count count) fields
           in (s', scan_reply next_cursor (concat (map (\<lambda>(f, v). [bulk f, bulk v]) page))))
      | Some _ \<Rightarrow> (s', WRONGTYPE)
      | None \<Rightarrow> (s', scan_reply 0 []))"

definition execute_zscan ::
  "string \<Rightarrow> u64 \<Rightarrow> string option \<Rightarrow> usize option \<Rightarrow> executor \<Rightarrow> reply option" where
  "execute_zscan key cursor pat count s =
     (let (s', v) = get_value key (purge_if_expired key s) in
      case v of
        Some (SortedSet z) \<Rightarrow>
          (case zset_iter z of
             None \<Rightarrow> None
           | Some ms \<Rightarrow>
               (let members = sort_key fst (filter (\<lambda>(m, _). pattern_filter pat m) ms);
                    (next_cursor, page) = scan_page cursor (scan_count count) members
                in Some (s', scan_reply next_cursor (concat (map (\<lambda>(m, x). [bulk m, bulk (show_f64 x)]) page)))))
      | Some _ \<Rightarrow> Some (s', WRONGTYPE)
      | None \<Rightarrow> Some (s', scan_reply 0 []))"

fun run_scan :: "order \<Rightarrow> scan_command \<Rightarrow> executor \<Rightarrow> reply option" where
  "run_scan it (Scan cursor pat count) s = Some (execute_scan it cursor pat count s)"
| "run_scan it (HScan key cursor pat count) s = Some (execute_hscan it key cursor pat count s)"
| "run_scan it (ZScan key cursor pat count) s = execute_zscan key cursor pat count s"

section \<open>Iteration\<close>

text \<open>
  What a client does: it starts at cursor 0 and calls until the cursor it gets back is 0.
  The list collects the pages; no result means that the calls given as fuel were not enough.
\<close>

fun scan_pages :: "nat \<Rightarrow> u64 \<Rightarrow> usize \<Rightarrow> 'a list \<Rightarrow> 'a list option" where
  "scan_pages 0 cursor count xs = None"
| "scan_pages (Suc calls) cursor count xs =
     (case scan_page cursor count xs of (next_cursor, page) \<Rightarrow>
        if next_cursor = 0 then Some page
        else map_option ((@) page) (scan_pages calls next_cursor count xs))"

lemma scan_page_eq:
  assumes "count + 1 < 2 ^ 64"
  shows "scan_page cursor count xs =
    (if unat cursor + count < length xs then (cursor + of_nat count, take count (drop (unat cursor) xs))
     else (0, drop (unat cursor) xs))"
  using assms by (auto simp: scan_page_def Let_def wadd_def min_def)

lemma scan_pages_from:
  assumes count: "0 < count" "count + 1 < 2 ^ 64" and len: "length xs < 2 ^ 64" and cursor: "unat cursor \<le> length xs"
    and fuel: "length xs - unat cursor < fuel"
  shows "scan_pages fuel cursor count xs = Some (drop (unat cursor) xs)"
  using cursor fuel
proof (induction fuel arbitrary: cursor)
  case (Suc fuel)
  show ?case
  proof (cases "unat cursor + count < length xs")
    case True
    have next_c: "unat (cursor + of_nat count) = unat cursor + count"
      using True len count by (simp add: unat_word_ariths unat_of_nat)
    moreover have "cursor + of_nat count \<noteq> 0"
      using next_c count(1) by (metis add_gr_0 unat_0 less_numeral_extra(3))
    moreover have "scan_pages fuel (cursor + of_nat count) count xs = Some (drop (unat cursor + count) xs)"
      using Suc.IH [of "cursor + of_nat count"] Suc.prems True next_c count(1) by simp
    moreover have "take count (drop (unat cursor) xs) @ drop (unat cursor + count) xs = drop (unat cursor) xs"
      by (metis append_take_drop_id drop_drop add.commute)
    ultimately show ?thesis
      using True by (simp add: scan_page_eq [OF count(2)])
  qed (simp add: scan_page_eq [OF count(2)])
qed simp

text \<open>The same for the command: the client reads the cursor out of the reply.\<close>

fun scan_session ::
  "order \<Rightarrow> nat \<Rightarrow> u64 \<Rightarrow> string option \<Rightarrow> usize option \<Rightarrow> executor \<Rightarrow> resp_value list option" where
  "scan_session it 0 cursor pat count s = None"
| "scan_session it (Suc calls) cursor pat count s =
     (case execute_scan it cursor pat count s of
        (s', Array (Some [BulkString (Some c), Array (Some ks)])) \<Rightarrow>
          (if c = ''0'' then Some ks
           else case parse_unsigned (2 ^ 64) c of
                  Inr n \<Rightarrow> map_option ((@) ks) (scan_session it calls (of_nat n) pat count s')
                | Inl _ \<Rightarrow> None)
      | _ \<Rightarrow> None)"

lemma show_nat_zero: "show_nat n = ''0'' \<longleftrightarrow> n = 0"
proof
  assume "show_nat n = ''0''"
  then have "show_nat n = show_nat 0"
    by (simp add: show_nat.simps)
  then show "n = 0"
    using parse_show_nat [of n] parse_show_nat [of 0] by simp
qed (simp add: show_nat.simps)

definition scan_list :: "order \<Rightarrow> string option \<Rightarrow> executor \<Rightarrow> string list" where
  "scan_list it pat s = sort (filter (\<lambda>k. \<not> is_expired s k \<and> pattern_filter pat k) (it (fmdom (data s))))"

lemma scan_session_pages:
  "scan_session it calls cursor pat count s =
     map_option (map bulk) (scan_pages calls cursor (scan_count count) (scan_list it pat s))"
proof (induction calls arbitrary: cursor)
  case (Suc calls)
  obtain c page where p: "scan_page cursor (scan_count count) (scan_list it pat s) = (c, page)"
    by fastforce
  have e: "execute_scan it cursor pat count s = (s, scan_reply c (map bulk page))"
    using p by (simp add: execute_scan_def scan_list_def)
  have "parse_unsigned (2 ^ 64) (show_nat (unat c)) = Inr (unat c)"
    using unsigned_less [of c] by (intro parse_unsigned_show) simp
  then show ?case
    using p Suc [of c] by (simp add: e scan_reply_def show_nat_zero unat_eq_zero option.map_comp comp_def)
qed simp

text \<open>
  C18. A full iteration of \<open>SCAN\<close> on an unchanged store ends and visits every live key that matches the
  pattern exactly once, in order: a client that starts at cursor 0 and calls until it gets cursor 0 back is
  done after at most one call more than there are keys, whatever the iteration order of the map.
\<close>

theorem scan_visits_every_key:
  assumes "enumerates it" "0 < count" "count + 1 < 2 ^ 64" "fcard (fmdom (data s)) < 2 ^ 64"
  shows "\<exists>ks. scan_session it (Suc (fcard (fmdom (data s)))) 0 pat (Some count) s = Some (map bulk ks) \<and>
    sorted ks \<and> distinct ks \<and> set ks = {k. live s k \<noteq> None \<and> pattern_filter pat k}"
proof -
  let ?ks = "scan_list it pat s"
  have "length (it (fmdom (data s))) = fcard (fmdom (data s))"
    using assms(1) by (metis distinct_card enumerates_def fcard.rep_eq)
  then have len: "length ?ks \<le> fcard (fmdom (data s))"
    using length_filter_le [of "\<lambda>k. \<not> is_expired s k \<and> pattern_filter pat k" "it (fmdom (data s))"]
    by (simp add: scan_list_def)
  have "scan_pages (Suc (fcard (fmdom (data s)))) 0 count ?ks = Some (drop (unat (0 :: u64)) ?ks)"
    using len assms(2-4) by (intro scan_pages_from) (simp_all add: less_Suc_eq_le)
  then have "scan_session it (Suc (fcard (fmdom (data s)))) 0 pat (Some count) s = Some (map bulk ?ks)"
    by (simp only: scan_session_pages scan_count_def option.simps) simp
  moreover have "set ?ks = {k. live s k \<noteq> None \<and> pattern_filter pat k}"
    using assms(1) by (auto simp: scan_list_def live_def fmlookup_dom_iff)
  ultimately show ?thesis
    using assms(1) by (intro exI [of _ ?ks]) (simp add: scan_list_def)
qed

theorem scan_visits_every_key_witness:
  "\<exists>ks. scan_session sorted_list_of_fset (Suc (fcard (fmdom (data (fst (set_direct ''k'' ''v'' exec_new)))))) 0 None (Some 1)
      (fst (set_direct ''k'' ''v'' exec_new)) = Some (map bulk ks) \<and>
    set ks = {k. live (fst (set_direct ''k'' ''v'' exec_new)) k \<noteq> None \<and> pattern_filter None k}"
proof -
  have "fcard (fmdom (data (fst (set_direct ''k'' ''v'' exec_new)))) < 2 ^ 64"
    by (simp add: set_direct_def exec_new_def remove_expiry_def insert_data_def fcard.rep_eq)
  then show ?thesis
    using scan_visits_every_key [OF enumerates_sorted, of 1 "fst (set_direct ''k'' ''v'' exec_new)" None] by auto
qed

end
