(* ===== verification/Locality.thy ===== *)
theory Locality
  imports Executor_Laws Scan_Ops
begin

text \<open>
  A command depends on the keys it names only: two stores that agree at these keys give the same
  reply and agree there afterwards. The rules follow the statements the commands are made of, as
  the rules for \<open>touches\<close> do.
\<close>

definition same_at :: "string set \<Rightarrow> executor \<Rightarrow> executor \<Rightarrow> bool" where
  "same_at K s t \<longleftrightarrow>
     (\<forall>k\<in>K. fmlookup (data s) k = fmlookup (data t) k \<and>
        fmlookup (expirations s) k = fmlookup (expirations t) k) \<and>
     current_time s = current_time t \<and> simulation_start_epoch s = simulation_start_epoch t \<and>
     simulation_start_epoch_ms s = simulation_start_epoch_ms t"

definition alike :: "string set \<Rightarrow> executor \<times> 'a \<Rightarrow> executor \<times> 'a \<Rightarrow> bool" where
  "alike K r r' \<longleftrightarrow> same_at K (fst r) (fst r') \<and> snd r = snd r'"

named_theorems same "introduction rules for same_at and alike"

lemma alike_pair [same]: "same_at K s t \<Longrightarrow> r = r' \<Longrightarrow> alike K (s, r) (t, r')"
  by (simp add: alike_def)

lemma same_updates [same]:
  assumes "same_at K s t"
  shows "same_at K (insert_data key v s) (insert_data key v t)"
    and "same_at K (insert_expiry key d s) (insert_expiry key d t)"
    and "same_at K (remove_expiry key s) (remove_expiry key t)"
    and "same_at K (remove_key key s) (remove_key key t)"
    and "same_at K (count_command s) (count_command t)"
  using assms
  by (auto simp: same_at_def insert_data_def insert_expiry_def remove_expiry_def remove_key_def
      count_command_def)

lemma same_reads:
  assumes "same_at K s t"
  shows "k \<in> K \<Longrightarrow> fmlookup (data s) k = fmlookup (data t) k"
    and "k \<in> K \<Longrightarrow> fmlookup (expirations s) k = fmlookup (expirations t) k"
    and "k \<in> K \<Longrightarrow> is_expired s k = is_expired t k"
    and "k \<in> K \<Longrightarrow> contains_key s k = contains_key t k"
    and "k \<in> K \<Longrightarrow> key_missing s k = key_missing t k"
    and "k \<in> K \<Longrightarrow> live s k = live t k"
    and "k \<in> K \<Longrightarrow> visible s k = visible t k"
    and "current_time s = current_time t"
    and "after_secs s = after_secs t" "after_millis s = after_millis t" "relative_ms s = relative_ms t"
    and "basetime_ms s = basetime_ms t" "simulation_start_epoch_ms s = simulation_start_epoch_ms t"
    and "simulation_start_epoch s = simulation_start_epoch t"
  using assms
  by (auto simp: same_at_def is_expired_def contains_key_def fmlookup_dom_iff key_missing_def live_def
      visible_def after_secs_def after_millis_def relative_ms_def basetime_ms_def fun_eq_iff
      cong: option.case_cong)

lemma same_purge [same]:
  "same_at K s t \<Longrightarrow> key \<in> K \<Longrightarrow> same_at K (purge_if_expired key s) (purge_if_expired key t)"
  by (simp add: purge_if_expired_def same_reads same_updates)

lemma clock_purge [simp]:
  "after_secs (purge_if_expired key s) = after_secs s"
  "after_millis (purge_if_expired key s) = after_millis s"
  "relative_ms (purge_if_expired key s) = relative_ms s"
  by (simp_all add: after_secs_def after_millis_def relative_ms_def purge_if_expired_def remove_key_def fun_eq_iff)

lemma same_fold_purge [same]:
  "same_at K s t \<Longrightarrow> set ks \<subseteq> K \<Longrightarrow> same_at K (fold purge_if_expired ks s) (fold purge_if_expired ks t)"
  by (induction ks arbitrary: s t) (auto intro: same)

lemma same_insert_pairs [same]:
  "same_at K s t \<Longrightarrow> same_at K (insert_pairs ps s) (insert_pairs ps t)"
  by (induction ps s arbitrary: t rule: insert_pairs.induct) (auto intro: same)

lemma same_set_expiration [same]:
  "same_at K s t \<Longrightarrow> same_at K (set_expiration key ex px exat pxat keepttl s)
     (set_expiration key ex px exat pxat keepttl t)"
  by (auto simp: set_expiration_def expire_relative_def same_reads intro: same split: option.split)

lemma alike_set_checked [same]:
  "same_at K s t \<Longrightarrow> key \<in> K \<Longrightarrow>
     alike K (set_checked key v ex px exat pxat nx xx get keepttl old s)
       (set_checked key v ex px exat pxat nx xx get keepttl old t)"
  by (auto simp: set_checked_def Let_def same_reads intro!: same)

lemma alike_get_strings:
  assumes "same_at K s t" "set ks \<subseteq> K"
  shows "alike K (get_strings ks s) (get_strings ks t)"
proof -
  have "visible s k = visible t k" if "k \<in> set ks" for k
    using that assms by (auto simp: same_reads)
  with assms show ?thesis
    by (auto simp: get_strings_eq alike_def intro: same)
qed

lemma alike_mget [same]:
  assumes "same_at K s t" "set ks \<subseteq> K"
  shows "alike K (execute_mget ks s) (execute_mget ks t)"
    and "alike K (execute_batch_get ks s) (execute_batch_get ks t)"
  using alike_get_strings [OF assms]
  by (simp_all add: execute_mget_def execute_batch_get_def split_beta alike_def)

lemma alike_getex [same]:
  "same_at K s t \<Longrightarrow> key \<in> K \<Longrightarrow>
     alike K (execute_getex key ex px exat pxat pers s) (execute_getex key ex px exat pxat pers t)"
  by (auto simp: execute_getex_def expire_relative_def reads same_reads intro!: same
      split: option.split redis_value.split)

lemma alike_run_string:
  assumes "same_at K s t" "set (string_keys c) \<subseteq> K"
  shows "alike K (run_string c s) (run_string c t)"
proof (cases c)
  case (MSetNx ps)
  then have "list_ex (\<lambda>(k, _). \<not> is_expired s k \<and> contains_key s k) ps =
      list_ex (\<lambda>(k, _). \<not> is_expired t k \<and> contains_key t k) ps"
    using assms by (auto simp: same_reads list_ex_iff intro!: bex_cong)
  with MSetNx assms show ?thesis
    by (auto simp: execute_msetnx_def intro!: same)
qed (use assms in \<open>auto simp: execute_set_def execute_get_def execute_setnx_def execute_append_def execute_getset_def
    execute_strlen_def execute_mset_def execute_batch_set_def
    execute_getrange_def execute_setrange_def execute_setbit_def
    execute_getbit_def execute_getdel_def incr_by_impl_def reads same_reads expire_relative_def
    intro!: same split: option.split redis_value.split\<close>)

text \<open>The commands that read or clear the whole store name no key.\<close>

fun whole_store :: "key_command \<Rightarrow> bool" where
  "whole_store (Keys _) = True"
| "whole_store FlushDb = True"
| "whole_store FlushAll = True"
| "whole_store RandomKey = True"
| "whole_store _ = False"

lemma alike_del_loop [same]:
  "same_at K s t \<Longrightarrow> set ks \<subseteq> K \<Longrightarrow> alike K (del_loop ks s n) (del_loop ks t n)"
  by (induction ks arbitrary: s t n) (simp_all add: same same_reads)

lemma alike_rename [same]:
  "same_at K s t \<Longrightarrow> {src, dst} \<subseteq> K \<Longrightarrow> alike K (execute_rename src dst s) (execute_rename src dst t)"
  "same_at K s t \<Longrightarrow> {src, dst} \<subseteq> K \<Longrightarrow> alike K (execute_renamenx src dst s) (execute_renamenx src dst t)"
  by (auto simp: execute_rename_def execute_renamenx_def rename_to_def Let_def same_reads intro!: same
      split: option.split)

lemma alike_sort_store [same]:
  "same_at K s t \<Longrightarrow> alike K (sort_store xs store s) (sort_store xs store t)"
  by (auto simp: sort_store_def Let_def intro!: same split: option.split)

lemma alike_sort [same]:
  "same_at K s t \<Longrightarrow> k \<in> K \<Longrightarrow> alike K (execute_sort it k store s) (execute_sort it k store t)"
  by (auto simp: execute_sort_def reads same_reads intro!: same split: option.split redis_value.split)

lemma alike_run_key:
  assumes "same_at K s t" "set (key_keys c) \<subseteq> K" "\<not> whole_store c"
  shows "alike K (run_key it c s) (run_key it c t)"
proof (cases c)
  case (Exists ks)
  then have "filter (\<lambda>k. \<not> is_expired s k \<and> contains_key s k) ks =
      filter (\<lambda>k. \<not> is_expired t k \<and> contains_key t k) ks"
    using assms by (auto simp: same_reads intro!: filter_cong)
  with Exists assms show ?thesis
    by (auto simp: execute_exists_def intro!: same)
next
  case (Del ks)
  with assms show ?thesis
    using alike_del_loop [of K s t ks 0] by (simp add: execute_del_def split_beta alike_def)
qed (use assms in \<open>auto simp: execute_typeof_def execute_expire_def execute_pexpire_def execute_expiretime_def
      execute_pexpiretime_def execute_expireat_def execute_pexpireat_def expire_at_relative_def
      execute_ttl_def execute_pttl_def execute_persist_def reads same_reads intro!: same
      cong: option.case_cong\<close>)

lemma same_drop_empty [same]:
  "same_at K s t \<Longrightarrow> key \<in> K \<Longrightarrow> same_at K (drop_empty_list key s) (drop_empty_list key t)"
  by (auto simp: drop_empty_list_def same_reads intro!: same split: option.split redis_value.split)

lemma alike_push_with [same]:
  "same_at K s t \<Longrightarrow> key \<in> K \<Longrightarrow> alike K (push_with f r key s) (push_with f r key t)"
  by (auto simp: push_with_def same_reads intro!: same split: option.split redis_value.split)

lemma alike_pop_with [same]:
  "same_at K s t \<Longrightarrow> key \<in> K \<Longrightarrow> alike K (pop_with f key s) (pop_with f key t)"
  by (auto simp: pop_with_def reads same_reads intro!: same split: option.split redis_value.split)

lemma alike_move_with [same]:
  "same_at K s t \<Longrightarrow> {source, dest} \<subseteq> K \<Longrightarrow>
     alike K (move_with pop push source dest s) (move_with pop push source dest t)"
  by (auto simp: move_with_def Let_def split_beta same_reads intro!: same
      split: option.split redis_value.split)

lemma alike_run_list:
  assumes "same_at K s t" "set (list_keys c) \<subseteq> K"
  shows "alike K (run_list c s) (run_list c t)"
  using assms
  by (cases c) (auto simp: execute_lpush_def execute_rpush_def execute_lpop_def
      execute_rpop_def execute_llen_def execute_lindex_def execute_rpoplpush_def execute_lmove_def
      execute_lrange_def execute_lset_def execute_ltrim_def reads same_reads intro!: same
      split: option.split redis_value.split sum.split)

lemma same_drop_empty_set [same]:
  "same_at K s t \<Longrightarrow> key \<in> K \<Longrightarrow> same_at K (drop_empty_set key s) (drop_empty_set key t)"
  by (auto simp: drop_empty_set_def same_reads intro!: same split: option.split redis_value.split)

lemma alike_run_set:
  assumes "same_at K s t" "set (set_keys c) \<subseteq> K"
  shows "alike K (run_set it c s) (run_set it c t)"
  using assms
  by (cases c) (auto simp: execute_sadd_def execute_srem_def execute_smembers_def execute_sismember_def
      execute_scard_def execute_spop_def reads same_reads intro!: same split: option.split redis_value.split)

lemma same_drop_empty_hash [same]:
  "same_at K s t \<Longrightarrow> key \<in> K \<Longrightarrow> same_at K (drop_empty_hash key s) (drop_empty_hash key t)"
  by (auto simp: drop_empty_hash_def same_reads intro!: same split: option.split redis_value.split)

lemma alike_incr_field [same]:
  "same_at K s t \<Longrightarrow> alike K (incr_field key field n h s) (incr_field key field n h t)"
  by (auto simp: incr_field_def intro!: same split: option.split)

lemma alike_run_hash:
  assumes "same_at K s t" "set (hash_command_keys c) \<subseteq> K"
  shows "alike K (run_hash it c s) (run_hash it c t)"
  using assms
  by (cases c) (auto simp: execute_hset_def execute_hget_def execute_hdel_def execute_hgetall_def
      execute_hkeys_def execute_hvals_def execute_hlen_def execute_hexists_def execute_hincrby_def
      reads same_reads intro!: same split: option.split redis_value.split)

lemma alike_object_reply [same]:
  "same_at K s t \<Longrightarrow> k \<in> K \<Longrightarrow> alike K (object_reply f k s) (object_reply f k t)"
  by (auto simp: object_reply_def reads same_reads intro!: same)

lemma alike_run_server:
  assumes "same_at K s t" "set (server_keys c) \<subseteq> K" "c \<noteq> Info" "c \<noteq> DbSize"
  shows "alike K (run_server c s) (run_server c t)"
proof (cases c)
  case (Ping m)
  with assms show ?thesis by (cases m) (auto intro: same)
qed (use assms in \<open>auto simp: execute_time_def same_reads intro!: same\<close>)

section \<open>Sorted sets and scans\<close>

lemma rel_option_some [same]: "R x y \<Longrightarrow> rel_option R (Some x) (Some y)"
  by simp

lemma rel_option_bind [same]:
  "(\<And>x. rel_option R (f x) (g x)) \<Longrightarrow> rel_option R (Option.bind m f) (Option.bind m g)"
  by (cases m) simp_all

lemma same_drop_empty_zset [same]:
  "same_at K s t \<Longrightarrow> key \<in> K \<Longrightarrow> same_at K (drop_empty_zset key s) (drop_empty_zset key t)"
  by (auto simp: drop_empty_zset_def same_reads intro!: same split: option.split redis_value.split)

lemma alike_zadd [same]:
  assumes "same_at K s t" "key \<in> K"
  shows "rel_option (alike K) (execute_zadd key ps nx xx gt lt ch s) (execute_zadd key ps nx xx gt lt ch t)"
proof -
  let ?v = "case visible t key of Some v \<Rightarrow> v | None \<Rightarrow> SortedSet zset_new"
  have v: "visible s key = visible t key"
    using assms by (simp add: same_reads)
  show ?thesis
    unfolding execute_zadd_def Let_def purge_at v split_beta
    by (cases ?v) (use assms in \<open>auto intro!: same\<close>)
qed

lemma alike_run_zset:
  assumes "same_at K s t" "zset_key c \<in> K"
  shows "rel_option (alike K) (run_zset c s) (run_zset c t)"
  using assms
  by (cases c) (auto simp: execute_zrange_def execute_zrevrange_def
      execute_zscore_def execute_zrank_def execute_zcard_def execute_zcount_def execute_zrangebyscore_def
      execute_zrem_def reads same_reads intro!: same split: option.split redis_value.split)

lemma alike_run_scan:
  assumes "same_at K s t" "set (scan_keys c) \<subseteq> K" "scan_keys c \<noteq> []"
  shows "rel_option (alike K) (run_scan it c s) (run_scan it c t)"
  using assms
  by (cases c) (auto simp: execute_hscan_def execute_zscan_def reads same_reads intro!: same
      split: option.split redis_value.split)

text \<open>The same commands keep to their key and keep every deadline on a key that exists.\<close>

lemma tidy_rules [touch]:
  "tidy K s s"
  "tidy K s s' \<Longrightarrow> tidy K s (purge_if_expired key s')"
  "tidy K s s' \<Longrightarrow> key \<in> K \<Longrightarrow> tidy K s (remove_key key s')"
  "tidy K s s' \<Longrightarrow> key \<in> K \<Longrightarrow> tidy K s (insert_data key v s')"
  by (auto simp: tidy_def live_insert_data deadlines_rules)

lemma tidy_drop_empty_zset [touch]:
  "tidy K s s' \<Longrightarrow> key \<in> K \<Longrightarrow> tidy K s (drop_empty_zset key s')"
  by (auto simp: drop_empty_zset_def intro: touch split: option.split redis_value.split)

definition tidies :: "string set \<Rightarrow> executor \<Rightarrow> (executor \<times> 'a) option \<Rightarrow> bool" where
  "tidies K s r \<longleftrightarrow> pred_option (\<lambda>(s', _). tidy K s s') r"

lemma tidies_rules [touch]:
  "tidies K s None"
  "tidy K s s' \<Longrightarrow> tidies K s (Some (s', r))"
  by (simp_all add: tidies_def)

lemma tidies_pure [touch]: "(\<And>x. tidies K s (f x)) \<Longrightarrow> tidies K s (Option.bind m f)"
  by (cases m) (simp_all add: tidies_def)

lemma tidies_run_zset: "tidies {zset_key c} s (run_zset c s)"
proof (cases c)
  case (ZRem key ms)
  then show ?thesis
    by (auto simp: execute_zrem_def reads intro!: touch split: option.split redis_value.split)
qed (auto simp: execute_zadd_def execute_zrange_def execute_zrevrange_def
      execute_zscore_def execute_zrank_def execute_zcard_def execute_zcount_def execute_zrangebyscore_def
      reads intro!: touch split: option.split redis_value.split)

lemma tidies_run_scan: "tidies {} s (run_scan it c s)"
  by (cases c) (auto simp: execute_scan_def execute_hscan_def execute_zscan_def reads intro!: touch
      split: option.split redis_value.split)

end
