(* ===== verification/Float_Ops.thy ===== *)
theory Float_Ops
  imports Locality Float64_Text
begin

text \<open>
  \<open>INCRBYFLOAT\<close> (\<open>src/redis/executor/string_ops.rs\<close>) with the addition of \<open>f64\<close> values and their formats
  of fixed precision, which are exact: the decimal is rounded once, ties to even.
\<close>

section \<open>Arithmetic and formats\<close>

definition f64_is_negative :: "f64 \<Rightarrow> bool" where
  "f64_is_negative x \<longleftrightarrow> bit x 63"

definition f64_signed :: "bool \<Rightarrow> f64 \<Rightarrow> f64" where
  "f64_signed neg x = (if neg then f64_neg x else x)"

definition f64_add :: "f64 \<Rightarrow> f64 \<Rightarrow> f64" where
  "f64_add a b =
     (if f64_is_nan a \<or> f64_is_nan b then 0x7FF8000000000000
      else if \<not> f64_is_finite a then
        (if \<not> f64_is_finite b \<and> f64_is_negative a \<noteq> f64_is_negative b then 0x7FF8000000000000 else a)
      else if \<not> f64_is_finite b then b
      else let n = f64_num a + f64_num b
           in if n = 0 then f64_signed (f64_is_negative a \<and> f64_is_negative b) 0
              else f64_signed (n < 0) (f64_of_ratio (nat \<bar>n\<bar>) (2 ^ 1074)))"

definition f64_sub :: "f64 \<Rightarrow> f64 \<Rightarrow> f64" where
  "f64_sub a b = f64_add a (f64_neg b)"

definition f64_mul :: "f64 \<Rightarrow> f64 \<Rightarrow> f64" where
  "f64_mul a b =
     (let neg = (f64_is_negative a \<noteq> f64_is_negative b); zero = (\<lambda>x. f64_is_finite x \<and> f64_num x = 0)
      in if f64_is_nan a \<or> f64_is_nan b then 0x7FF8000000000000
         else if \<not> f64_is_finite a \<or> \<not> f64_is_finite b
         then (if zero a \<or> zero b then 0x7FF8000000000000 else f64_signed neg 0x7FF0000000000000)
         else f64_signed neg (f64_of_ratio (f64_magnitude a * f64_magnitude b) (2 ^ 2148)))"

text \<open>\<open>x as i64\<close> truncates and saturates; a NaN is 0.\<close>

definition f64_as_i64 :: "f64 \<Rightarrow> i64" where
  "f64_as_i64 x =
     (if f64_is_nan x then 0
      else if \<not> f64_is_finite x then (if f64_is_negative x then I64_MIN else I64_MAX)
      else let n = int (f64_magnitude x div 2 ^ 1074) in sat_i64 (if f64_is_negative x then - n else n))"

text \<open>\<open>format!("{:.17e}", x)\<close> read back: the decimal of 18 digits next to \<open>x\<close>, rounded to an \<open>f64\<close>.\<close>

definition reparsed :: "f64 \<Rightarrow> f64" where
  "reparsed x =
     (let n = f64_magnitude x; d = 2 ^ 1074; t = floor_log10 n d - 17;
          m = (if 0 \<le> t then round_half_even n (d * 10 ^ nat t) else round_half_even (n * 10 ^ nat (- t)) d)
      in if n = 0 then x else f64_signed (f64_is_negative x) (f64_of_decimal m t))"

text \<open>\<open>format!("{:.17}", x)\<close>: 17 digits after the point.\<close>

definition pad_zeros :: "nat \<Rightarrow> string \<Rightarrow> string" where
  "pad_zeros n ds = replicate (n - length ds) CHR ''0'' @ ds"

definition show_fixed :: "nat \<Rightarrow> f64 \<Rightarrow> string" where
  "show_fixed p x =
     (if f64_is_nan x then ''NaN''
      else (if f64_is_negative x then ''-'' else '''') @
        (if \<not> f64_is_finite x then ''inf''
         else let m = round_half_even (f64_magnitude x * 10 ^ p) (2 ^ 1074)
              in show_nat (m div 10 ^ p) @ ''.'' @ pad_zeros p (show_nat (m mod 10 ^ p))))"

definition trim_end :: "char \<Rightarrow> string \<Rightarrow> string" where
  "trim_end c s = rev (dropWhile ((=) c) (rev s))"

definition format_float :: "f64 \<Rightarrow> string" where
  "format_float x =
     (let x' = (if f64_eq x 0 then 0 else x);
          formatted = show_fixed 17 (reparsed x')
      in if CHR ''.'' \<in> set formatted then trim_end CHR ''.'' (trim_end CHR ''0'' formatted) else formatted)"

section \<open>The command\<close>

definition execute_incrbyfloat :: "string \<Rightarrow> f64 \<Rightarrow> executor \<Rightarrow> reply" where
  "execute_incrbyfloat key increment s =
     (if \<not> f64_is_finite increment then (s, err ''ERR increment would produce NaN or Infinity'')
      else
        let (s', v) = get_value key s;
            store = (\<lambda>new_value.
              if \<not> f64_is_finite new_value then (s', err ''ERR increment would produce NaN or Infinity'')
              else (insert_data key (String (format_float new_value)) s', bulk (format_float new_value)))
        in case v of
             Some (String b) \<Rightarrow>
               (case parse_f64 (utf8_lossy b) of
                  Some current \<Rightarrow> store (f64_add current increment)
                | None \<Rightarrow> (s', err ''ERR value is not a valid float''))
           | Some _ \<Rightarrow> (s', WRONGTYPE)
           | None \<Rightarrow> store increment)"

lemma alike_incrbyfloat [same]:
  "same_at K s t \<Longrightarrow> key \<in> K \<Longrightarrow> alike K (execute_incrbyfloat key x s) (execute_incrbyfloat key x t)"
  by (auto simp: execute_incrbyfloat_def reads same_reads intro!: same split: option.split redis_value.split)

lemma touches_incrbyfloat: "touches {key} s (fst (execute_incrbyfloat key x s))"
  by (auto simp: execute_incrbyfloat_def reads intro!: touch split: option.split redis_value.split)

text \<open>
  The format writes 17 digits after the point, not 17 significant digits: 10.6 is stored and answered
  with 19 digits.
\<close>

lemma format_float_digits: "format_float 0x4025333333333333 = ''10.59999999999999964''"
proof -
  have mag: "f64_magnitude 0x4025333333333333 = 5967269506265907 * 2 ^ 1025"
    by (simp add: f64_magnitude_def)
  have "floor_log10 (5967269506265907 * 2 ^ 1025) (2 ^ 1074) = 1"
    by (simp add: floor_log10_def show_nat.simps)
  moreover have "round_half_even (5967269506265907 * 2 ^ 1025 * 10 ^ 16) (2 ^ 1074) = 105999999999999996"
    by (simp add: round_half_even_def)
  moreover have "f64_of_decimal 105999999999999996 (- 16) = 0x4025333333333333"
    by (simp add: f64_of_decimal_def f64_of_ratio_def floor_log2_def bit_len.simps round_half_even_def)
  ultimately have reparsed: "reparsed 0x4025333333333333 = 0x4025333333333333"
    unfolding reparsed_def mag Let_def by (simp add: f64_signed_def f64_is_negative_def del: power_numeral)
  have "round_half_even (5967269506265907 * 2 ^ 1025 * 10 ^ 17) (2 ^ 1074) = 1059999999999999964"
    by (simp add: round_half_even_def)
  moreover have "show_nat 10 = ''10''" "show_nat 59999999999999964 = ''59999999999999964''"
    by (simp_all add: show_nat.simps digit_chars)
  moreover have "1059999999999999964 div 10 ^ 17 = (10 :: nat)"
      "1059999999999999964 mod 10 ^ 17 = (59999999999999964 :: nat)"
    by simp_all
  ultimately have "show_fixed 17 0x4025333333333333 = ''10.59999999999999964''"
    unfolding show_fixed_def mag Let_def
    by (simp add: f64_is_negative_def f64_is_nan_def f64_is_finite_def pad_zeros_def del: power_numeral)
  then show ?thesis
    by (simp add: format_float_def reparsed f64_eq_def f64_partial_cmp_def f64_num_def mag f64_magnitude_def
        f64_is_nan_def trim_end_def)
qed

end
