(* ===== verification/Config_Ops.thy ===== *)
theory Config_Ops
  imports Request Text_Lib
begin

text \<open>
  \<open>CONFIG GET\<close>, \<open>CONFIG SET\<close> and \<open>CONFIG RESETSTAT\<close> (\<open>src/redis/executor/config_ops.rs\<close>). The store of
  parameters is a field of the executor in the code; here it stands beside it. The file has a glob matcher
  of its own, whose indices only grow; the model passes the rests of text and pattern.
\<close>

type_synonym server_config = "(string, string) fmap"

definition config_new :: server_config where
  "config_new = fmap_of_list
     [(''list-max-listpack-size'', ''-2''),
      (''list-compress-depth'', ''0''),
      (''set-max-listpack-entries'', ''128''),
      (''set-max-intset-entries'', ''512''),
      (''hash-max-listpack-entries'', ''128''),
      (''hash-max-listpack-value'', ''64''),
      (''zset-max-listpack-entries'', ''128''),
      (''zset-max-listpack-value'', ''64''),
      (''maxmemory'', ''0''),
      (''maxmemory-policy'', ''noeviction''),
      (''active-expire-enabled'', ''yes''),
      (''save'', []),
      (''appendonly'', ''no''),
      (''rdbcompression'', ''yes''),
      (''hz'', ''10''),
      (''dynamic-hz'', ''yes''),
      (''timeout'', ''0''),
      (''tcp-keepalive'', ''300''),
      (''maxclients'', ''10000''),
      (''proto-max-bulk-len'', ''512000000''),
      (''client-query-buffer-limit'', ''1073741824''),
      (''lua-time-limit'', ''5000''),
      (''lazyfree-lazy-eviction'', ''no''),
      (''lazyfree-lazy-expire'', ''no''),
      (''lazyfree-lazy-server-del'', ''no''),
      (''min-replicas-to-write'', ''0''),
      (''replica-serve-stale-data'', ''yes''),
      (''replica-read-only'', ''yes''),
      (''bind'', []),
      (''port'', ''6379''),
      (''databases'', ''16''),
      (''loglevel'', ''notice''),
      (''logfile'', []),
      (''dir'', ''.''),
      (''dbfilename'', ''dump.rdb''),
      (''requirepass'', []),
      (''activedefrag'', ''no''),
      (''no-appendfsync-on-rewrite'', ''no''),
      (''slave-lazy-flush'', ''no''),
      (''tracking-table-max-keys'', ''0''),
      (''close-on-oom'', ''no''),
      (''repl-min-slaves-to-write'', ''0''),
      (''latency-tracking'', ''yes''),
      (''close-files-after-invoked-defer'', ''no''),
      (''slowlog-log-slower-than'', ''10000''),
      (''slowlog-max-len'', ''128''),
      (''list-max-ziplist-size'', ''-2''),
      (''lfu-log-factor'', ''10''),
      (''lfu-decay-time'', ''1'')]"

section \<open>The matcher\<close>

fun config_class :: "bytes \<Rightarrow> char \<Rightarrow> bool" where
  "config_class (a # d # b # cs) c =
     (if d = CHR ''-'' then (of_char a :: nat) \<le> of_char c \<and> (of_char c :: nat) \<le> of_char b \<or> config_class cs c
      else a = c \<or> config_class (d # b # cs) c)"
| "config_class (a # cs) c = (a = c \<or> config_class cs c)"
| "config_class [] c = False"

definition config_class_accepts :: "bytes \<Rightarrow> char \<Rightarrow> bool" where
  "config_class_accepts cls c =
     (case cls of
        h # t \<Rightarrow> if h = CHR ''^'' then \<not> config_class t c else config_class cls c
      | [] \<Rightarrow> False)"

function config_glob :: "bytes \<Rightarrow> bytes \<Rightarrow> bool" where
  "config_glob str [] \<longleftrightarrow> str = []"
| "config_glob str (p # ps) \<longleftrightarrow>
     (if p = CHR ''*'' then list_ex (\<lambda>i. config_glob (drop i str) ps) [0..<Suc (length str)]
      else if p = CHR ''?'' then (case str of [] \<Rightarrow> False | _ # ts \<Rightarrow> config_glob ts ps)
      else if p = CHR ''['' then
        (case class_rest ps of
           None \<Rightarrow> False
         | Some rest \<Rightarrow>
             (case str of [] \<Rightarrow> False
              | c # ts \<Rightarrow> if config_class_accepts (class_body ps) c then config_glob ts rest else False))
      else (case str of [] \<Rightarrow> False | c # ts \<Rightarrow> if c \<noteq> p then False else config_glob ts ps))"
  by pat_completeness auto
termination
  by (relation "measure (length \<circ> snd)") (auto dest: class_rest_length)

declare config_glob.simps(2) [simp del]

section \<open>The commands\<close>

definition get_matching :: "order \<Rightarrow> string \<Rightarrow> server_config \<Rightarrow> (string \<times> string) list" where
  "get_matching it pat cfg =
     map (\<lambda>k. (k, the (fmlookup cfg k))) (filter (\<lambda>k. config_glob k pat) (it (fmdom cfg)))"

definition config_set :: "(string \<Rightarrow> string) \<Rightarrow> string \<Rightarrow> string \<Rightarrow> server_config \<Rightarrow> server_config" where
  "config_set dn param v cfg = fmupd (dn param) v cfg"

definition config_invariants :: "server_config \<Rightarrow> bool" where
  "config_invariants cfg \<longleftrightarrow> [] |\<notin>| fmdom cfg"

definition execute_config_get :: "order \<Rightarrow> string \<Rightarrow> server_config \<Rightarrow> resp_value" where
  "execute_config_get it pat cfg =
     Array (Some (concat (map (\<lambda>(k, v). [bulk k, bulk v]) (get_matching it pat cfg))))"

definition execute_config_resetstat :: "executor \<Rightarrow> reply" where
  "execute_config_resetstat s = (s\<lparr>commands_processed := 0\<rparr>, ok)"

fun run_config ::
  "order \<Rightarrow> (string \<Rightarrow> string) \<Rightarrow> config_command \<Rightarrow> executor \<times> server_config \<Rightarrow> (executor \<times> server_config) \<times> resp_value" where
  "run_config it dn (ConfigGet pat) (s, cfg) = ((s, cfg), execute_config_get it pat cfg)"
| "run_config it dn (ConfigSet param v) (s, cfg) = ((s, config_set dn param v cfg), ok)"
| "run_config it dn ConfigResetStat (s, cfg) = (let (s', r) = execute_config_resetstat s in ((s', cfg), r))"

section \<open>Facts\<close>

text \<open>A pattern without special characters matches itself only.\<close>

definition plain_pattern :: "bytes \<Rightarrow> bool" where
  "plain_pattern pat \<longleftrightarrow> set pat \<inter> {CHR ''*'', CHR ''?'', CHR ''[''} = {}"

lemma config_glob_plain: "plain_pattern pat \<Longrightarrow> config_glob str pat \<longleftrightarrow> str = pat"
  by (induction pat arbitrary: str) (auto simp: plain_pattern_def config_glob.simps(2) split: list.split)

text \<open>The matcher of this file and the one of \<open>KEYS\<close> agree as long as no class has an empty range.\<close>

lemma expand_class_config: "c \<in> set (expand_class cs) \<longleftrightarrow> config_class cs c"
proof (induction cs rule: expand_class.induct)
  case (1 a d b cs)
  have "c \<in> set (byte_range a b) \<longleftrightarrow> (of_char a :: nat) \<le> of_char c \<and> (of_char c :: nat) \<le> of_char b"
  proof
    assume "c \<in> set (byte_range a b)"
    then obtain n :: nat where n: "of_char a \<le> n" "n \<le> of_char b" "c = char_of n"
      unfolding byte_range_def by (auto simp: less_Suc_eq_le simp del: upt_Suc)
    have "(of_char b :: nat) < 256"
      by (simp add: of_char_def)
    then have "n < 256"
      using n(2) by linarith
    then have "(of_char c :: nat) = n"
      using n(3) by simp
    then show "(of_char a :: nat) \<le> of_char c \<and> (of_char c :: nat) \<le> of_char b"
      using n by simp
  next
    assume "(of_char a :: nat) \<le> of_char c \<and> (of_char c :: nat) \<le> of_char b"
    then have "char_of (of_char c :: nat) \<in> set (byte_range a b)"
      unfolding byte_range_def set_map by (intro imageI) (simp add: less_Suc_eq_le del: upt_Suc)
    then show "c \<in> set (byte_range a b)"
      by simp
  qed
  then show ?case
    using 1 by auto
qed auto

text \<open>Setting a parameter and asking for it gives the new setting and nothing else.\<close>

lemma filter_eq_single: "distinct xs \<Longrightarrow> x \<in> set xs \<Longrightarrow> filter (\<lambda>y. y = x) xs = [x]"
  by (induction xs) (auto simp: filter_empty_conv)

lemma config_set_get:
  assumes "enumerates it" "plain_pattern (dn param)"
  shows "execute_config_get it (dn param) (config_set dn param v cfg) = Array (Some [bulk (dn param), bulk v])"
proof -
  have "filter (\<lambda>k. k = dn param) (it (fmdom (config_set dn param v cfg))) = [dn param]"
    using assms(1) by (simp add: filter_eq_single config_set_def)
  then show ?thesis
    using assms(2) by (simp add: execute_config_get_def get_matching_def config_glob_plain config_set_def)
qed

end
