(* ===== verification/Sip_Hash.thy ===== *)
theory Sip_Hash
  imports Text_Lib "HOL-Library.Word"
begin

unbundle bit_operations_syntax

text \<open>
  \<open>DefaultHasher\<close> of the Rust standard library, which \<open>src/production/sharded_actor.rs\<close> routes keys
  with: SipHash-1-3 with the two keys 0. A \<open>str\<close> writes its bytes and the byte \<open>0xFF\<close> into the hasher, a
  slice \<open>[u8]\<close> writes its length as a \<open>usize\<close> (eight bytes, little-endian) and its bytes, so that the two
  functions \<open>hash_key\<close> and \<open>hash_key_bytes\<close> place the same key differently.
\<close>

type_synonym sip_state = "64 word \<times> 64 word \<times> 64 word \<times> 64 word"

definition rotate_left :: "nat \<Rightarrow> 64 word \<Rightarrow> 64 word" where
  "rotate_left n w = push_bit n w OR drop_bit (64 - n) w"

definition sip_round :: "sip_state \<Rightarrow> sip_state" where
  "sip_round v =
     (let (v0, v1, v2, v3) = v;
          v0 = v0 + v1; v2 = v2 + v3;
          v1 = rotate_left 13 v1 XOR v0; v3 = rotate_left 16 v3 XOR v2; v0 = rotate_left 32 v0;
          v2 = v2 + v1; v0 = v0 + v3;
          v1 = rotate_left 17 v1 XOR v2; v3 = rotate_left 21 v3 XOR v0; v2 = rotate_left 32 v2
      in (v0, v1, v2, v3))"

definition sip_compress :: "64 word \<Rightarrow> sip_state \<Rightarrow> sip_state" where
  "sip_compress m v =
     (let (v0, v1, v2, v3) = v;
          (v0, v1, v2, v3) = sip_round (v0, v1, v2, v3 XOR m)
      in (v0 XOR m, v1, v2, v3))"

definition sip_init :: sip_state where
  "sip_init = (0x736f6d6570736575, 0x646f72616e646f6d, 0x6c7967656e657261, 0x7465646279746573)"

fun sip_blocks :: "bytes \<Rightarrow> sip_state \<Rightarrow> sip_state" where
  "sip_blocks (a # b # c # d # e # f # g # h # rest) v =
     sip_blocks rest (sip_compress (of_nat (from_le [a, b, c, d, e, f, g, h])) v)"
| "sip_blocks _ v = v"

definition sip_tail :: "bytes \<Rightarrow> 64 word" where
  "sip_tail bs =
     push_bit 56 (of_nat (length bs)) OR
     of_nat (from_le (drop (8 * (length bs div 8)) bs))"

definition sip_finish :: "sip_state \<Rightarrow> 64 word" where
  "sip_finish v =
     (let (v0, v1, v2, v3) = v;
          (v0, v1, v2, v3) = sip_round (sip_round (sip_round (v0, v1, v2 XOR 0xFF, v3)))
      in v0 XOR v1 XOR v2 XOR v3)"

definition sip13 :: "bytes \<Rightarrow> 64 word" where
  "sip13 bs = sip_finish (sip_compress (sip_tail bs) (sip_blocks bs sip_init))"

section \<open>Routing\<close>

definition hash_key :: "string \<Rightarrow> usize \<Rightarrow> usize" where
  "hash_key key num_shards = unat (sip13 (key @ [CHR 0xFF])) mod num_shards"

definition hash_key_bytes :: "bytes \<Rightarrow> usize \<Rightarrow> usize" where
  "hash_key_bytes key num_shards = unat (sip13 (to_le 8 (length key) @ key)) mod num_shards"

lemma hash_key_bound [simp]: "0 < n \<Longrightarrow> hash_key key n < n"
  by (simp add: hash_key_def)

lemma hash_key_bytes_bound [simp]: "0 < n \<Longrightarrow> hash_key_bytes key n < n"
  by (simp add: hash_key_bytes_def)

text \<open>The hash of two strings, computed; the test vectors are those of the reference implementation of SipHash-1-3.\<close>

lemmas sip_eval = sip13_def sip_finish_def sip_compress_def sip_tail_def sip_init_def sip_round_def rotate_left_def

lemma sip13_vectors:
  "sip13 [] = 15130871412783076140"
  "sip13 ''abcdefghij'' = 17616997933159550961"
  by (simp_all add: sip_eval)

lemma to_le_three:
  "to_le 8 3 = [CHR 0x03, CHR 0x00, CHR 0x00, CHR 0x00, CHR 0x00, CHR 0x00, CHR 0x00, CHR 0x00]"
  by code_simp

lemma routes_of_key:
  "hash_key ''key'' 2 = 0" "hash_key_bytes ''key'' 2 = 1"
proof -
  show "hash_key ''key'' 2 = 0"
    by (simp add: hash_key_def sip_eval)
  have "to_le 8 (length ''key'') @ ''key'' =
      [CHR 0x03, CHR 0x00, CHR 0x00, CHR 0x00, CHR 0x00, CHR 0x00, CHR 0x00, CHR 0x00, CHR ''k'', CHR ''e'', CHR ''y'']"
    by (simp flip: numeral_3_eq_3 add: to_le_three)
  then show "hash_key_bytes ''key'' 2 = 1"
    by (simp add: hash_key_bytes_def sip_eval)
qed

lemma route_of_a: "hash_key ''a'' 2 = 1"
  by (simp add: hash_key_def sip_eval)

end
