(* ===== verification/Sharding.thy ===== *)
theory Sharding
  imports Float_Ops Config_Ops Acl_Manager Sip_Hash
begin

text \<open>
  The sharded server (\<open>src/production/sharded_actor.rs\<close>): one executor per shard, each behind a channel,
  and the state that routes commands to them. A shard handles its messages one after the other, and a client waits
  for the answers, so that a command is a function on the shards; messages to different shards commute.

  The dispatch of the executor (\<open>src/redis/executor/mod.rs\<close>) is extended to all commands here. The scripts
  call a Lua interpreter, the parameter \<open>scripts\<close>; \<open>None\<close> is a shard that panics or does not return.
\<close>

section \<open>A shard\<close>

record shard =
  store :: executor
  shard_config :: server_config

record platform =
  orders :: "nat \<Rightarrow> order"
  lowercase :: "string \<Rightarrow> string"
  scripts :: "script_command \<Rightarrow> shard \<Rightarrow> (shard \<times> resp_value) option"

text \<open>What a command reads from its surroundings: the clocks, and the text of \<open>INFO\<close> for a number of keys.\<close>

record moment =
  now_millis :: u64
  unix_secs :: i64
  unix_usecs :: i64
  unix_nanos :: "128 word"
  info_text :: "i64 \<Rightarrow> bytes"

abbreviation at_connection :: "string \<Rightarrow> resp_value" where
  "at_connection name \<equiv> err (''ERR '' @ name @ '' is handled at connection level, not executor'')"

definition execute_acl_cat :: "(string \<Rightarrow> string) \<Rightarrow> string option \<Rightarrow> resp_value" where
  "execute_acl_cat dn category =
     (case category of
        None \<Rightarrow> Array (Some (map bulk [''read'', ''write'', ''admin'', ''dangerous'', ''keyspace'', ''string'',
          ''list'', ''set'', ''hash'', ''sortedset'', ''connection'', ''server'', ''scripting'', ''transaction'']))
      | Some cat \<Rightarrow>
          (case category_from_str dn cat of
             Some c \<Rightarrow> Array (Some (map (\<lambda>name. bulk (dn name)) (category_commands c)))
           | None \<Rightarrow> err (''ERR Unknown ACL category '' @ quoted cat)))"

definition execute_acl_genpass :: "128 word \<Rightarrow> nat option \<Rightarrow> resp_value" where
  "execute_acl_genpass seed bits =
     bulk (genpass_bytes ((min (case bits of Some b \<Rightarrow> b | None \<Rightarrow> 256) 1024 + 7) div 8) seed)"

fun run_acl :: "(string \<Rightarrow> string) \<Rightarrow> 128 word \<Rightarrow> acl_command \<Rightarrow> resp_value" where
  "run_acl dn seed (Auth _ _) = at_connection ''AUTH''"
| "run_acl dn seed AclWhoami = at_connection ''ACL WHOAMI''"
| "run_acl dn seed AclList = at_connection ''ACL LIST''"
| "run_acl dn seed AclUsers = at_connection ''ACL USERS''"
| "run_acl dn seed (AclGetUser _) = at_connection ''ACL GETUSER''"
| "run_acl dn seed (AclSetUser _ _) = at_connection ''ACL SETUSER''"
| "run_acl dn seed (AclDelUser _) = at_connection ''ACL DELUSER''"
| "run_acl dn seed (AclCat category) = execute_acl_cat dn category"
| "run_acl dn seed (AclGenPass bits) = execute_acl_genpass seed bits"
| "run_acl dn seed _ = err ''ERR ACL commands are handled at the connection level''"

text \<open>\<open>CommandExecutor::execute\<close> outside a transaction: connections keep the queues of \<open>MULTI\<close>, not the shards.\<close>

definition with_store :: "shard \<Rightarrow> reply \<Rightarrow> shard \<times> resp_value" where
  "with_store sh r = (sh\<lparr>store := fst r\<rparr>, snd r)"

fun run_request ::
  "platform \<Rightarrow> order \<Rightarrow> 128 word \<Rightarrow> request \<Rightarrow> shard \<Rightarrow> (shard \<times> resp_value) option" where
  "run_request pf it seed (Core c) sh = Some (with_store sh (execute it c (store sh)))"
| "run_request pf it seed (ZsetC c) sh =
     map_option (with_store sh) (run_zset c (count_command (store sh)))"
| "run_request pf it seed (ScanC c) sh =
     map_option (with_store sh) (run_scan it c (count_command (store sh)))"
| "run_request pf it seed (ScriptC c) sh = scripts pf c (sh\<lparr>store := count_command (store sh)\<rparr>)"
| "run_request pf it seed (AclC c) sh =
     Some (with_store sh (count_command (store sh), run_acl (lowercase pf) seed c))"
| "run_request pf it seed (ConfigC c) sh =
     (let ((s, cfg), r) = run_config it (lowercase pf) c (count_command (store sh), shard_config sh)
      in Some (\<lparr>store = s, shard_config = cfg\<rparr>, r))"
| "run_request pf it seed (IncrByFloat key x) sh =
     Some (with_store sh (execute_incrbyfloat key x (count_command (store sh))))"
| "run_request pf it seed (DebugSleep _) sh = Some (with_store sh (count_command (store sh), ok))"

text \<open>The messages of a shard: a command with its time, eviction, and the fast paths.\<close>

definition shard_new :: "i64 \<Rightarrow> u64 \<Rightarrow> shard" where
  "shard_new epoch start_ms =
     \<lparr>store = set_simulation_start_epoch_ms (sint start_ms) (set_simulation_start_epoch epoch exec_new),
      shard_config = config_new\<rparr>"

definition shard_execute ::
  "platform \<Rightarrow> order \<Rightarrow> 128 word \<Rightarrow> virtual_time \<Rightarrow> request \<Rightarrow> shard \<Rightarrow> (shard \<times> resp_value) option" where
  "shard_execute pf it seed t req sh = run_request pf it seed req (sh\<lparr>store := set_time t (store sh)\<rparr>)"

definition shard_evict_expired :: "virtual_time \<Rightarrow> shard \<Rightarrow> shard \<times> usize" where
  "shard_evict_expired t sh =
     (let (s, n) = evict_expired_direct t (store sh) in (sh\<lparr>store := s\<rparr>, n))"

definition shard_fast_get :: "bytes \<Rightarrow> shard \<Rightarrow> shard \<times> resp_value" where
  "shard_fast_get key sh = with_store sh (get_direct key (store sh))"

definition shard_fast_set :: "bytes \<times> bytes \<Rightarrow> shard \<Rightarrow> shard \<times> resp_value" where
  "shard_fast_set kv sh = with_store sh (set_direct (fst kv) (snd kv) (store sh))"

fun in_turn :: "('b \<Rightarrow> 's \<Rightarrow> 's \<times> 'a) \<Rightarrow> 'b list \<Rightarrow> 's \<Rightarrow> 's \<times> 'a list" where
  "in_turn f [] s = (s, [])"
| "in_turn f (x # xs) s = (let (s1, r) = f x s; (s2, rs) = in_turn f xs s1 in (s2, r # rs))"

definition shard_fast_batch_get :: "bytes list \<Rightarrow> shard \<Rightarrow> shard \<times> resp_value list" where
  "shard_fast_batch_get = in_turn shard_fast_get"

definition shard_fast_batch_set :: "(bytes \<times> bytes) list \<Rightarrow> shard \<Rightarrow> shard \<times> resp_value list" where
  "shard_fast_batch_set = in_turn shard_fast_set"

section \<open>The shards together\<close>

record sharded_state =
  shards :: "shard list"
  start_millis :: u64

abbreviation num_shards :: "sharded_state \<Rightarrow> usize" where
  "num_shards st \<equiv> length (shards st)"

definition sharded_new :: "usize \<Rightarrow> u64 \<Rightarrow> sharded_state" where
  "sharded_new n now =
     \<lparr>shards = replicate n (shard_new (sint (now div 1000)) now), start_millis = now\<rparr>"

definition saturating_sub :: "u64 \<Rightarrow> u64 \<Rightarrow> u64" where
  "saturating_sub a b = (if b \<le> a then a - b else 0)"

definition get_current_virtual_time :: "u64 \<Rightarrow> sharded_state \<Rightarrow> virtual_time" where
  "get_current_virtual_time now st = saturating_sub now (start_millis st)"

definition on_shard ::
  "usize \<Rightarrow> (shard \<Rightarrow> (shard \<times> 'a) option) \<Rightarrow> sharded_state \<Rightarrow> (sharded_state \<times> 'a) option" where
  "on_shard i f st =
     (if i < num_shards st
      then map_option (\<lambda>(sh, r). (st\<lparr>shards := (shards st)[i := sh]\<rparr>, r)) (f (shards st ! i))
      else None)"

definition on_shard_fast ::
  "usize \<Rightarrow> (shard \<Rightarrow> shard \<times> 'a) \<Rightarrow> sharded_state \<Rightarrow> sharded_state \<times> 'a" where
  "on_shard_fast i f st = (let (sh, r) = f (shards st ! i) in (st\<lparr>shards := (shards st)[i := sh]\<rparr>, r))"

fun evict_from ::
  "virtual_time \<Rightarrow> shard list \<Rightarrow> usize \<Rightarrow> shard list \<times> usize" where
  "evict_from t [] count = ([], count)"
| "evict_from t (sh # shs) count =
     (let (sh', n) = shard_evict_expired t sh; (shs', m) = evict_from t shs (min (count + n) (2 ^ 64 - 1))
      in (sh' # shs', m))"

definition evict_expired_all_shards :: "moment \<Rightarrow> sharded_state \<Rightarrow> sharded_state \<times> usize" where
  "evict_expired_all_shards m st =
     (let (shs, n) = evict_from (get_current_virtual_time (now_millis m) st) (shards st) 0
      in (st\<lparr>shards := shs\<rparr>, n))"

section \<open>Fast paths\<close>

definition pooled_fast_get :: "bytes \<Rightarrow> sharded_state \<Rightarrow> sharded_state \<times> resp_value" where
  "pooled_fast_get key st = on_shard_fast (hash_key_bytes key (num_shards st)) (shard_fast_get key) st"

definition pooled_fast_set :: "bytes \<times> bytes \<Rightarrow> sharded_state \<Rightarrow> sharded_state \<times> resp_value" where
  "pooled_fast_set kv st =
     on_shard_fast (hash_key_bytes (fst kv) (num_shards st)) (shard_fast_set kv) st"

text \<open>Grouping by shard with the original positions, and putting results back in place.\<close>

definition batch_of :: "('b \<Rightarrow> usize) \<Rightarrow> usize \<Rightarrow> 'b list \<Rightarrow> (nat \<times> 'b) list" where
  "batch_of h i xs = filter (\<lambda>(_, x). h x = i) (enumerate 0 xs)"

definition place :: "nat list \<Rightarrow> 'a list \<Rightarrow> 'a list \<Rightarrow> 'a list" where
  "place idx vs results = fold (\<lambda>(i, v) rs. rs[i := v]) (zip idx vs) results"

definition pipeline_step ::
  "('b list \<Rightarrow> shard \<Rightarrow> shard \<times> 'a list) \<Rightarrow> ('b \<Rightarrow> usize) \<Rightarrow> 'b list \<Rightarrow> usize
    \<Rightarrow> sharded_state \<times> 'a list \<Rightarrow> sharded_state \<times> 'a list" where
  "pipeline_step f h xs i acc =
     (let (st, results) = acc; b = batch_of h i xs
      in if b = [] then acc
         else let (st', rs) = on_shard_fast i (f (map snd b)) st in (st', place (map fst b) rs results))"

definition fast_batch_get_pipeline :: "bytes list \<Rightarrow> sharded_state \<Rightarrow> sharded_state \<times> resp_value list" where
  "fast_batch_get_pipeline keys st =
     (if keys = [] then (st, [])
      else fold (pipeline_step shard_fast_batch_get (\<lambda>k. hash_key_bytes k (num_shards st)) keys)
             [0..<num_shards st] (st, replicate (length keys) (BulkString None)))"

definition fast_batch_set_pipeline ::
  "(bytes \<times> bytes) list \<Rightarrow> sharded_state \<Rightarrow> sharded_state \<times> resp_value list" where
  "fast_batch_set_pipeline pairs st =
     (if pairs = [] then (st, [])
      else fold (pipeline_step shard_fast_batch_set (\<lambda>kv. hash_key_bytes (fst kv) (num_shards st)) pairs)
             [0..<num_shards st] (st, replicate (length pairs) (SimpleString ''OK'')))"

section \<open>Commands\<close>

fun fan_out ::
  "platform \<Rightarrow> moment \<Rightarrow> virtual_time \<Rightarrow> (usize \<times> request) list \<Rightarrow> sharded_state
    \<Rightarrow> (sharded_state \<times> resp_value list) option" where
  "fan_out pf m t [] st = Some (st, [])"
| "fan_out pf m t ((i, req) # rest) st =
     (case on_shard i (shard_execute pf (orders pf i) (unix_nanos m) t req) st of
        None \<Rightarrow> None
      | Some (st1, r) \<Rightarrow> map_option (\<lambda>(st2, rs). (st2, r # rs)) (fan_out pf m t rest st1))"

definition to_all :: "request \<Rightarrow> sharded_state \<Rightarrow> (usize \<times> request) list" where
  "to_all req st = map (\<lambda>i. (i, req)) [0..<num_shards st]"

definition batches :: "('b \<Rightarrow> usize) \<Rightarrow> usize \<Rightarrow> 'b list \<Rightarrow> (usize \<times> (nat \<times> 'b) list) list" where
  "batches h n xs = filter (\<lambda>(_, b). b \<noteq> []) (map (\<lambda>i. (i, batch_of h i xs)) [0..<n])"

fun integer_reply :: "resp_value \<Rightarrow> i64" where
  "integer_reply (Integer n) = n"
| "integer_reply _ = 0"

fun array_reply :: "resp_value \<Rightarrow> resp_value list" where
  "array_reply (Array (Some vs)) = vs"
| "array_reply _ = []"

fun scan_keys_reply :: "resp_value \<Rightarrow> resp_value list" where
  "scan_keys_reply (Array (Some [_, ks])) = array_reply ks"
| "scan_keys_reply _ = []"

definition execute_mget_sharded ::
  "platform \<Rightarrow> moment \<Rightarrow> virtual_time \<Rightarrow> string list \<Rightarrow> sharded_state \<Rightarrow> (sharded_state \<times> resp_value) option" where
  "execute_mget_sharded pf m t keys st =
     (let bs = batches (\<lambda>k. hash_key k (num_shards st)) (num_shards st) keys
      in map_option (\<lambda>(st', rs).
           (st', Array (Some (fold (\<lambda>((_, b), r) results. place (map fst b) (array_reply r) results)
              (zip bs rs) (replicate (length keys) (BulkString None))))))
           (fan_out pf m t (map (\<lambda>(i, b). (i, StringR (BatchGet (map snd b)))) bs) st))"

definition execute_mset_sharded ::
  "platform \<Rightarrow> moment \<Rightarrow> virtual_time \<Rightarrow> (string \<times> bytes) list \<Rightarrow> sharded_state \<Rightarrow> (sharded_state \<times> resp_value) option" where
  "execute_mset_sharded pf m t pairs st =
     map_option (\<lambda>(st', _). (st', SimpleString ''OK''))
       (fan_out pf m t (map (\<lambda>(i, b). (i, StringR (BatchSet (map snd b))))
          (batches (\<lambda>p. hash_key (fst p) (num_shards st)) (num_shards st) pairs)) st)"

definition execute_del_sharded ::
  "platform \<Rightarrow> moment \<Rightarrow> virtual_time \<Rightarrow> string list \<Rightarrow> sharded_state \<Rightarrow> (sharded_state \<times> resp_value) option" where
  "execute_del_sharded pf m t keys st =
     map_option (\<lambda>(st', rs). (st', Integer (sum_list (map integer_reply rs))))
       (fan_out pf m t (map (\<lambda>(i, b). (i, KeyR (Del (map snd b))))
          (batches (\<lambda>k. hash_key k (num_shards st)) (num_shards st) keys)) st)"

definition route_request ::
  "platform \<Rightarrow> moment \<Rightarrow> virtual_time \<Rightarrow> request \<Rightarrow> sharded_state \<Rightarrow> (sharded_state \<times> resp_value) option" where
  "route_request pf m t req st =
     (let i = (case request_primary_key req of Some key \<Rightarrow> hash_key key (num_shards st) | None \<Rightarrow> 0)
      in on_shard i (shard_execute pf (orders pf i) (unix_nanos m) t req) st)"

definition sharded_execute ::
  "platform \<Rightarrow> moment \<Rightarrow> request \<Rightarrow> sharded_state \<Rightarrow> (sharded_state \<times> resp_value) option" where
  "sharded_execute pf m req st =
     (let t = get_current_virtual_time (now_millis m) st;
          all = (\<lambda>r reply. map_option (\<lambda>(st', rs). (st', reply rs)) (fan_out pf m t (to_all r st) st));
          total = (\<lambda>rs. sum_list (map integer_reply rs))
      in case req of
           Core (Data (ServerC (Ping None))) \<Rightarrow> Some (st, SimpleString ''PONG'')
         | Core (Data (ServerC (Ping (Some msg)))) \<Rightarrow> Some (st, bulk msg)
         | Core (Data (ServerC Info)) \<Rightarrow> all (ServerR DbSize) (\<lambda>rs. bulk (info_text m (total rs)))
         | Core (Data (KeyC FlushDb)) \<Rightarrow> all (KeyR FlushDb) (\<lambda>_. SimpleString ''OK'')
         | Core (Data (KeyC FlushAll)) \<Rightarrow> all (KeyR FlushDb) (\<lambda>_. SimpleString ''OK'')
         | Core (Data (KeyC (Keys pat))) \<Rightarrow>
             all (KeyR (Keys pat)) (\<lambda>rs. Array (Some (concat (map array_reply rs))))
         | Core (Data (StringC (MGet keys))) \<Rightarrow> execute_mget_sharded pf m t keys st
         | Core (Data (StringC (MSet pairs))) \<Rightarrow> execute_mset_sharded pf m t pairs st
         | Core (Data (ServerC Time)) \<Rightarrow>
             Some (st, Array (Some [bulk (show_int (unix_secs m)), bulk (show_int (unix_usecs m))]))
         | Core (Data (ServerC DbSize)) \<Rightarrow> all (ServerR DbSize) (\<lambda>rs. Integer (total rs))
         | ScanC (Scan _ pat count) \<Rightarrow>
             all (ScanC (Scan 0 pat count))
               (\<lambda>rs. Array (Some [bulk ''0'', Array (Some (concat (map scan_keys_reply rs)))]))
         | Core (Data (KeyC (Del keys))) \<Rightarrow>
             if length keys > 1 then execute_del_sharded pf m t keys st else route_request pf m t req st
         | Core (Data (KeyC (Exists keys))) \<Rightarrow>
             map_option (\<lambda>(st', rs). (st', Integer (total rs)))
               (fan_out pf m t (map (\<lambda>k. (hash_key k (num_shards st), KeyR (Exists [k]))) keys) st)
         | _ \<Rightarrow> route_request pf m t req st)"

end
