(* ===== verification/Sharding_Laws.thy ===== *)
theory Sharding_Laws
  imports Sharding
begin

text \<open>
  Laws of the sharded server: a pipeline is the sequence of its commands, a command on one shard
  is the command on one store, the commands that are sent to several shards, and the keys that the two ways of routing
  lose.
\<close>

section \<open>Pipelines\<close>

lemma in_turn_snoc:
  "in_turn f (xs @ [x]) s =
     (let (s1, rs) = in_turn f xs s; (s2, r) = f x s1 in (s2, rs @ [r]))"
  by (induction xs arbitrary: s) (simp_all add: split_beta Let_def)

lemma length_in_turn [simp]: "length (snd (in_turn f xs s)) = length xs"
  by (induction xs arbitrary: s) (simp_all add: split_beta Let_def)

lemma batch_of_snoc:
  "batch_of h i (xs @ [x]) = batch_of h i xs @ (if h x = i then [(length xs, x)] else [])"
  by (simp add: batch_of_def enumerate_append_eq)

lemma batch_of_Nil [simp]: "batch_of h i [] = []"
  by (simp add: batch_of_def)

lemma batch_of_bound: "j \<in> set (map fst (batch_of h i xs)) \<Longrightarrow> j < length xs"
  by (auto simp: batch_of_def in_set_enumerate_eq)

lemma place_Nil [simp]: "place [] vs rs = rs"
  by (simp add: place_def)

lemma place_snoc:
  "length idx = length vs \<Longrightarrow> place (idx @ [i]) (vs @ [v]) rs = (place idx vs rs)[i := v]"
  by (simp add: place_def)

lemma length_place [simp]: "length (place idx vs rs) = length rs"
proof -
  have "length (fold (\<lambda>(i, v) rs. rs[i := v]) ps rs) = length rs" for ps
    by (induction ps arbitrary: rs) auto
  then show ?thesis by (simp add: place_def)
qed

lemma place_below:
  assumes "\<forall>j\<in>set idx. j < length rs"
  shows "place idx vs (rs @ [y]) = place idx vs rs @ [y]"
proof -
  have "fold (\<lambda>(i, v) rs. rs[i := v]) ps (rs @ [y]) = fold (\<lambda>(i, v) rs. rs[i := v]) ps rs @ [y]"
    if "\<forall>j\<in>fst ` set ps. j < length rs" for ps
    using that by (induction ps arbitrary: rs) (auto simp: list_update_append)
  moreover have "fst ` set (zip idx vs) \<subseteq> set idx"
    by (auto dest: set_zip_leftD)
  ultimately show ?thesis
    using assms by (auto simp: place_def)
qed

text \<open>What each shard ends with and which results are put in place.\<close>

abbreviation items :: "('b \<Rightarrow> usize) \<Rightarrow> usize \<Rightarrow> 'b list \<Rightarrow> 'b list" where
  "items h i xs \<equiv> map snd (batch_of h i xs)"

definition results_of ::
  "('b \<Rightarrow> shard \<Rightarrow> shard \<times> 'a) \<Rightarrow> ('b \<Rightarrow> usize) \<Rightarrow> 'b list \<Rightarrow> shard list \<Rightarrow> usize \<Rightarrow> 'a list \<Rightarrow> 'a list" where
  "results_of f h xs shs m rs =
     fold (\<lambda>i. place (map fst (batch_of h i xs)) (snd (in_turn f (items h i xs) (shs ! i)))) [0..<m] rs"

lemma results_of_simps [simp]:
  "results_of f h xs shs 0 rs = rs"
  "results_of f h xs shs (Suc m) rs =
     place (map fst (batch_of h m xs)) (snd (in_turn f (items h m xs) (shs ! m))) (results_of f h xs shs m rs)"
  by (simp_all add: results_of_def)

lemma results_of_Nil [simp]: "results_of f h [] shs m rs = rs"
  by (induction m) simp_all

lemma length_results_of [simp]: "length (results_of f h xs shs m rs) = length rs"
  by (induction m) simp_all

lemma results_of_snoc:
  assumes "length rs = length xs"
  shows "results_of f h (xs @ [x]) shs m (rs @ [d]) = results_of f h xs shs m rs @
    [if h x < m then snd (f x (fst (in_turn f (items h (h x) xs) (shs ! h x)))) else d]"
proof (induction m)
  case (Suc m)
  let ?rs = "results_of f h xs shs m rs"
  have below: "\<forall>j\<in>set (map fst (batch_of h m xs)). j < length ?rs"
    using assms batch_of_bound [of _ h m xs] by simp
  have "place (map fst (batch_of h m xs)) vs (?rs @ [y]) = place (map fst (batch_of h m xs)) vs ?rs @ [y]" for vs y
    using place_below [OF below] by simp
  with Suc assms show ?case
    by (cases "h x = m") (simp_all add: batch_of_snoc in_turn_snoc split_beta Let_def place_snoc
        list_update_append less_Suc_eq)
qed simp

lemma pipeline_step_eq:
  "pipeline_step (in_turn f) h xs i (st, rs) =
     (st\<lparr>shards := (shards st)[i := fst (in_turn f (items h i xs) (shards st ! i))]\<rparr>,
      place (map fst (batch_of h i xs)) (snd (in_turn f (items h i xs) (shards st ! i))) rs)"
  by (simp add: pipeline_step_def on_shard_fast_def split_beta Let_def)

lemma pipeline_fold:
  assumes "m \<le> num_shards st"
  shows "fold (pipeline_step (in_turn f) h xs) [0..<m] (st, rs) =
    (st\<lparr>shards := map (\<lambda>i. if i < m then fst (in_turn f (items h i xs) (shards st ! i)) else shards st ! i)
       [0..<num_shards st]\<rparr>, results_of f h xs (shards st) m rs)"
  using assms
proof (induction m)
  case (Suc m)
  have "(map (\<lambda>i. if i < m then fst (in_turn f (items h i xs) (shards st ! i)) else shards st ! i)
          [0..<num_shards st])[m := fst (in_turn f (items h m xs) (shards st ! m))] =
      map (\<lambda>i. if i < Suc m then fst (in_turn f (items h i xs) (shards st ! i)) else shards st ! i)
          [0..<num_shards st]"
    using Suc.prems by (intro nth_equalityI) (auto simp: nth_list_update)
  with Suc show ?case
    by (simp add: pipeline_step_eq)
qed (simp add: map_nth)

lemma in_turn_on_shards:
  assumes "\<And>x. h x < num_shards st"
  shows "in_turn (\<lambda>x. on_shard_fast (h x) (f x)) xs st =
    (st\<lparr>shards := map (\<lambda>i. fst (in_turn f (items h i xs) (shards st ! i))) [0..<num_shards st]\<rparr>,
     results_of f h xs (shards st) (num_shards st) (replicate (length xs) d))"
proof (induction xs rule: rev_induct)
  case (snoc x xs)
  let ?g = "\<lambda>xs i. fst (in_turn f (items h i xs) (shards st ! i))"
  have h: "h x < num_shards st" by (rule assms)
  have "(map (?g xs) [0..<num_shards st])[h x := fst (f x (?g xs (h x)))] = map (?g (xs @ [x])) [0..<num_shards st]"
    using h by (intro nth_equalityI) (auto simp: nth_list_update batch_of_snoc in_turn_snoc split_beta Let_def)
  with snoc h show ?case
    by (simp add: in_turn_snoc on_shard_fast_def split_beta Let_def results_of_snoc replicate_append_same [symmetric])
qed (simp add: map_nth)

lemma in_turn_cong:
  assumes "\<And>x s. P s \<Longrightarrow> f x s = g x s \<and> P (fst (g x s))" "P s"
  shows "in_turn f xs s = in_turn g xs s"
  using assms(2) by (induction xs arbitrary: s) (simp_all add: assms(1) split_beta Let_def)

text \<open>
  C24. Batching is transparent: the batch paths of a pipeline, which group keys by shard and put the
  answers back in order, leave the shards and return the answers that the commands give one after the other.
\<close>

theorem pipelines_sequential:
  assumes "0 < num_shards st"
  shows "fast_batch_get_pipeline keys st = in_turn pooled_fast_get keys st \<and>
    fast_batch_set_pipeline pairs st = in_turn pooled_fast_set pairs st"
proof
  let ?n = "num_shards st"
  let ?P = "\<lambda>st. num_shards st = ?n"
  have "in_turn pooled_fast_get keys st =
      in_turn (\<lambda>k. on_shard_fast (hash_key_bytes k ?n) (shard_fast_get k)) keys st"
    by (rule in_turn_cong [where P = ?P]) (simp_all add: pooled_fast_get_def on_shard_fast_def split_beta)
  then show "fast_batch_get_pipeline keys st = in_turn pooled_fast_get keys st"
    using assms by (simp add: fast_batch_get_pipeline_def shard_fast_batch_get_def pipeline_fold
        in_turn_on_shards [where d = "BulkString None"] map_nth cong: map_cong)
  have "in_turn pooled_fast_set pairs st =
      in_turn (\<lambda>kv. on_shard_fast (hash_key_bytes (fst kv) ?n) (shard_fast_set kv)) pairs st"
    by (rule in_turn_cong [where P = ?P]) (simp_all add: pooled_fast_set_def on_shard_fast_def split_beta)
  then show "fast_batch_set_pipeline pairs st = in_turn pooled_fast_set pairs st"
    using assms by (simp add: fast_batch_set_pipeline_def shard_fast_batch_set_def pipeline_fold
        in_turn_on_shards [where d = "SimpleString ''OK''"] map_nth cong: map_cong)
qed

theorem pipelines_sequential_witness:
  "fast_batch_get_pipeline [''a'', ''b'', ''a''] (sharded_new 2 0) =
     in_turn pooled_fast_get [''a'', ''b'', ''a''] (sharded_new 2 0)"
  using pipelines_sequential [of "sharded_new 2 0" "[''a'', ''b'', ''a'']" "[]"] by (simp add: sharded_new_def)

section \<open>One shard and one store\<close>

text \<open>The live view at a time, whatever time the store was last set to.\<close>

definition view_at :: "virtual_time \<Rightarrow> executor \<Rightarrow> string \<rightharpoonup> entry" where
  "view_at t s = live (s\<lparr>current_time := t\<rparr>)"

lemma set_time_lookup:
  assumes "deadlines_ok s"
  shows "fmlookup (data (set_time t s)) k = map_option fst (view_at t s k)"
    and "fmlookup (expirations (set_time t s)) k = Option.bind (view_at t s k) snd"
proof -
  have "fmlookup (expirations s) k = None" if "fmlookup (data s) k = None"
    using assms that by (auto simp: deadlines_ok_def)
  then show "fmlookup (expirations (set_time t s)) k = Option.bind (view_at t s k) snd"
    by (cases "fmlookup (data s) k") (auto simp: set_time_def lookup_evict view_at_def live_def)
  show "fmlookup (data (set_time t s)) k = map_option fst (view_at t s k)"
    by (cases "fmlookup (data s) k") (auto simp: set_time_def lookup_evict view_at_def live_def)
qed

lemma set_time_sel [simp]:
  "current_time (set_time t s) = t"
  "simulation_start_epoch (set_time t s) = simulation_start_epoch s"
  "simulation_start_epoch_ms (set_time t s) = simulation_start_epoch_ms s"
  "in_transaction (set_time t s) = in_transaction s"
  by (simp_all add: set_time_def evict_expired_keys_def Let_def)

lemma live_at_time: "live (set_time t s) = view_at t s"
  by (simp add: set_time_def view_at_def)

lemma deadlines_set_time: "deadlines_ok s \<Longrightarrow> deadlines_ok (set_time t s)"
  by (auto simp: deadlines_ok_def set_time_def lookup_evict split: if_splits)

lemma view_at_live: "current_time s = t \<Longrightarrow> view_at t s = live s"
  by (cases s) (simp add: view_at_def)

lemma view_at_later:
  "t \<le> t' \<Longrightarrow> view_at t' s k =
     (case view_at t s k of
        Some (v, Some d) \<Rightarrow> if d \<le> t' then None else Some (v, Some d)
      | e \<Rightarrow> e)"
  by (auto simp: view_at_def live_def is_expired_def split: option.split)

text \<open>
  Requests that name the keys they work on and go to one shard. Those that read the whole store, those that are
  sent to several shards, the transaction commands and scripts are left out.
\<close>

fun keyed_request :: "request \<Rightarrow> bool" where
  "keyed_request (Core (Data (KeyC c))) \<longleftrightarrow>
     \<not> whole_store c \<and> (case c of Exists _ \<Rightarrow> False | Del ks \<Rightarrow> length ks \<le> 1 | _ \<Rightarrow> True)"
| "keyed_request (Core (Data (StringC c))) \<longleftrightarrow>
     (case c of MGet _ \<Rightarrow> False | MSet _ \<Rightarrow> False | _ \<Rightarrow> True)"
| "keyed_request (Core (Data (ServerC c))) \<longleftrightarrow> server_keys c \<noteq> []"
| "keyed_request (Core (Data Unwatch)) \<longleftrightarrow> False"
| "keyed_request (Core (Data c)) \<longleftrightarrow> wf_data c"
| "keyed_request (Core _) \<longleftrightarrow> False"
| "keyed_request (ScanC c) \<longleftrightarrow> scan_keys c \<noteq> []"
| "keyed_request (ZsetC _) \<longleftrightarrow> True"
| "keyed_request (IncrByFloat _ _) \<longleftrightarrow> True"
| "keyed_request _ \<longleftrightarrow> False"

lemma keyed_wf: "keyed_request (Core (Data c)) \<Longrightarrow> wf_data c \<and> \<not> flushes c \<and> c \<noteq> Unwatch"
proof (cases c)
  case (KeyC x)
  assume "keyed_request (Core (Data c))"
  with KeyC show ?thesis by (cases x) simp_all
qed auto

lemma alike_run_data:
  assumes "same_at K s t" "set (data_keys c) \<subseteq> K" "keyed_request (Core (Data c))"
  shows "alike K (run_data it c s) (run_data it c t)"
proof (cases c)
  case (ServerC x)
  with assms have "x \<noteq> Info" "x \<noteq> DbSize" by auto
  with ServerC assms show ?thesis by (simp add: alike_run_server)
qed (use assms in \<open>auto intro: alike_run_string alike_run_key alike_run_list alike_run_set alike_run_hash\<close>)

definition same_step :: "string set \<Rightarrow> (shard \<times> resp_value) option \<Rightarrow> (shard \<times> resp_value) option \<Rightarrow> bool" where
  "same_step K = rel_option (\<lambda>(sh, r) (sh', r'). same_at K (store sh) (store sh') \<and> r = r')"

lemma same_step_store:
  "rel_option (alike K) r r' \<Longrightarrow>
     same_step K (map_option (with_store sh) r) (map_option (with_store sh') r')"
  by (cases r; cases r') (auto simp: same_step_def with_store_def alike_def)

lemma same_step_run:
  assumes "same_at K (store sh) (store sh')" "set (request_keys req) \<subseteq> K" "keyed_request req"
    and "\<not> in_transaction (store sh)" "\<not> in_transaction (store sh')"
  shows "same_step K (run_request pf it seed req sh) (run_request pf it seed req sh')"
proof -
  have c: "same_at K (count_command (store sh)) (count_command (store sh'))"
    using assms(1) by (rule same)
  show ?thesis
  proof (cases req)
    case (Core cmd)
    then obtain d where d: "cmd = Data d" using assms(3) by (cases cmd) auto
    have "alike K (run_data it d (count_command (store sh))) (run_data it d (count_command (store sh')))"
      using c assms(2,3) unfolding Core d by (intro alike_run_data) auto
    then show ?thesis
      using same_step_store [of K "Some (execute it cmd (store sh))" "Some (execute it cmd (store sh'))" sh sh']
        assms(4,5) by (simp add: Core d execute_data_def Let_def count_command_def)
  qed (use assms c in \<open>auto intro!: same_step_store alike_run_zset alike_run_scan
      same_step_store [of K "Some _" "Some _", simplified] same\<close>)
qed

lemma tidies_run:
  assumes "keyed_request req" "\<not> in_transaction (store sh)"
  shows "pred_option (\<lambda>(sh', _). tidy (set (request_keys req)) (count_command (store sh)) (store sh'))
    (run_request pf it seed req sh)"
proof (cases req)
  case (Core cmd)
  then obtain d where d: "cmd = Data d" using assms(1) by (cases cmd) auto
  have "touches (set (data_keys d)) (count_command (store sh)) (fst (run_data it d (count_command (store sh))))"
    using keyed_wf [of d] assms(1) Core d by (intro touches_run_data) auto
  then show ?thesis
    using assms(2) by (simp add: Core d execute_data_def Let_def count_command_def with_store_def touches_def)
next
  case (ZsetC c)
  then show ?thesis
    using tidies_run_zset [of c "count_command (store sh)"]
    by (auto simp: tidies_def with_store_def option.pred_map comp_def split_beta elim: option.pred_mono_strong)
next
  case (ScanC c)
  then show ?thesis
    using tidies_run_scan [of "count_command (store sh)" it c]
    by (auto simp: tidies_def with_store_def option.pred_map comp_def split_beta tidy_def elim: option.pred_mono_strong)
next
  case (IncrByFloat k x)
  then show ?thesis
    using touches_incrbyfloat [of k "count_command (store sh)" x] by (simp add: with_store_def touches_def)
qed (use assms(1) in auto)

text \<open>
  \<open>represents t st s\<close>: at time \<open>t\<close>, every key looks in the store \<open>s\<close> as it does in the shard that \<open>hash_key\<close> gives it.
  \<open>coherent st s\<close>: neither the shards nor the store are in a transaction, deadlines belong to keys, and all start at the
  same epoch.
\<close>

definition shard_of :: "string \<Rightarrow> sharded_state \<Rightarrow> executor" where
  "shard_of k st = store (shards st ! hash_key k (num_shards st))"

definition represents :: "virtual_time \<Rightarrow> sharded_state \<Rightarrow> executor \<Rightarrow> bool" where
  "represents t st s \<longleftrightarrow> (\<forall>k. view_at t (shard_of k st) k = view_at t s k)"

definition fellow :: "executor \<Rightarrow> executor \<Rightarrow> bool" where
  "fellow s s' \<longleftrightarrow> \<not> in_transaction s' \<and> deadlines_ok s' \<and>
     simulation_start_epoch s' = simulation_start_epoch s \<and>
     simulation_start_epoch_ms s' = simulation_start_epoch_ms s"

definition coherent :: "sharded_state \<Rightarrow> executor \<Rightarrow> bool" where
  "coherent st s \<longleftrightarrow> shards st \<noteq> [] \<and> fellow s s \<and> (\<forall>sh\<in>set (shards st). fellow s (store sh))"

lemma represents_later: "represents t st s \<Longrightarrow> t \<le> t' \<Longrightarrow> represents t' st s"
  by (simp add: represents_def view_at_later [of t t'])

lemma same_at_set_time:
  assumes "fellow s s" "fellow s s'" "\<forall>k\<in>K. view_at t s' k = view_at t s k"
  shows "same_at K (set_time t s') (set_time t s)"
  using assms by (simp add: same_at_def fellow_def set_time_lookup)

lemma deadlines_count_command [simp]: "deadlines_ok (count_command s) = deadlines_ok s"
  by (simp add: deadlines_ok_def count_command_def)

lemma fellow_tidy:
  "fellow s s' \<Longrightarrow> tidy K (count_command (set_time t s')) s'' \<Longrightarrow> fellow s s'' \<and> current_time s'' = t"
  using deadlines_set_time [of s' t] by (simp add: fellow_def tidy_def env_def) (simp add: count_command_def)

lemma coherent_shard: "coherent st s \<Longrightarrow> fellow s (shard_of k st)"
  by (simp add: coherent_def shard_of_def)

lemma view_tidy:
  assumes "tidy K (count_command (set_time t s)) s'" "current_time s' = t" "k \<notin> K"
  shows "view_at t s' k = view_at t s k"
  using assms by (simp add: view_at_live tidy_def live_at_time)

text \<open>One step of a shard beside one step of the store.\<close>

lemma shard_step:
  assumes coh: "coherent st s" and rep: "represents t st s" and keyed: "keyed_request req"
    and same_shard: "\<forall>k\<in>set (request_keys req). hash_key k (num_shards st) = i" and i: "i < num_shards st"
  shows "rel_option (\<lambda>(st', r) (sh', r'). r = r' \<and> coherent st' (store sh') \<and> represents t st' (store sh') \<and>
       num_shards st' = num_shards st \<and> start_millis st' = start_millis st)
     (on_shard i (shard_execute pf it seed t req) st)
     (shard_execute pf it seed t req \<lparr>store = s, shard_config = cfg\<rparr>)"
proof -
  let ?sh = "shards st ! i" and ?K = "set (request_keys req)"
  let ?run = "\<lambda>sh. run_request pf it seed req (sh\<lparr>store := set_time t (store sh)\<rparr>)"
  let ?one = "\<lparr>store = s, shard_config = cfg\<rparr>"
  have fel: "fellow s s" "fellow s (store ?sh)"
    using coh i by (auto simp: coherent_def)
  have "\<forall>k\<in>?K. view_at t (store ?sh) k = view_at t s k"
    using rep same_shard by (auto simp: represents_def shard_of_def)
  then have same: "same_at ?K (set_time t (store ?sh)) (set_time t s)"
    using fel by (intro same_at_set_time)
  have idle: "\<not> in_transaction (store ?sh)" "\<not> in_transaction s"
    using fel by (auto simp: fellow_def)
  have step: "same_step ?K (?run ?sh) (?run ?one)"
    by (rule same_step_run) (use same idle keyed in simp_all)
  have tidy1: "pred_option (\<lambda>(sh', _). tidy ?K (count_command (set_time t (store ?sh))) (store sh')) (?run ?sh)"
    using tidies_run [OF keyed, of "?sh\<lparr>store := set_time t (store ?sh)\<rparr>" pf it seed] idle by simp
  have tidy2: "pred_option (\<lambda>(sh', _). tidy ?K (count_command (set_time t s)) (store sh')) (?run ?one)"
    using tidies_run [OF keyed, of "?one\<lparr>store := set_time t s\<rparr>" pf it seed] idle by simp
  have after: "coherent st' (store b) \<and> represents t st' (store b)"
    if b: "?run ?sh = Some (a, r)" "?run ?one = Some (b, r')" "st' = st\<lparr>shards := (shards st)[i := a]\<rparr>" for a b r r' st'
  proof
    have t: "tidy ?K (count_command (set_time t (store ?sh))) (store a)" "tidy ?K (count_command (set_time t s)) (store b)"
      using tidy1 tidy2 b by simp_all
    have fa: "fellow s (store a)" "current_time (store a) = t" "fellow s (store b)" "current_time (store b) = t"
      using fellow_tidy [OF fel(2) t(1)] fellow_tidy [OF fel(1) t(2)] by simp_all
    then show "coherent st' (store b)"
      using coh b(3) by (auto simp: coherent_def fellow_def dest!: set_update_subset_insert [THEN subsetD])
    have eq: "same_at ?K (store a) (store b)"
      using step b by (simp add: same_step_def)
    have "view_at t (shard_of k st') k = view_at t (store b) k" for k
    proof (cases "k \<in> ?K")
      case True
      then show ?thesis
        using same_shard i b(3) fa eq by (simp add: shard_of_def view_at_live same_reads)
    next
      case False
      then have "view_at t (store b) k = view_at t (shard_of k st) k"
        using view_tidy [OF t(2)] fa rep by (simp add: represents_def)
      moreover have "view_at t (store a) k = view_at t (store ?sh) k"
        using view_tidy [OF t(1)] fa False by simp
      ultimately show ?thesis
        using b(3) i by (cases "hash_key k (num_shards st) = i") (simp_all add: shard_of_def)
    qed
    then show "represents t st' (store b)" by (simp add: represents_def)
  qed
  show ?thesis
    using step after i unfolding shard_execute_def
    by (cases "?run ?sh"; cases "?run ?one") (auto simp: same_step_def on_shard_def)
qed

text \<open>Runs of the server and of one store, with the answers up to the first panic.\<close>

fun run_sharded :: "platform \<Rightarrow> (moment \<times> request) list \<Rightarrow> sharded_state \<Rightarrow> resp_value list" where
  "run_sharded pf [] st = []"
| "run_sharded pf ((m, req) # rest) st =
     (case sharded_execute pf m req st of
        None \<Rightarrow> []
      | Some (st', r) \<Rightarrow> r # run_sharded pf rest st')"

definition home :: "usize \<Rightarrow> request \<Rightarrow> usize" where
  "home n req = (case request_primary_key req of Some key \<Rightarrow> hash_key key n | None \<Rightarrow> 0)"

fun run_store :: "platform \<Rightarrow> usize \<Rightarrow> u64 \<Rightarrow> (moment \<times> request) list \<Rightarrow> shard \<Rightarrow> resp_value list" where
  "run_store pf n start [] sh = []"
| "run_store pf n start ((m, req) # rest) sh =
     (case shard_execute pf (orders pf (home n req)) (unix_nanos m)
             (saturating_sub (now_millis m) start) req sh of
        None \<Rightarrow> []
      | Some (sh', r) \<Rightarrow> r # run_store pf n start rest sh')"

lemma sharded_execute_keyed:
  "keyed_request req \<Longrightarrow>
     sharded_execute pf m req st = route_request pf m (get_current_virtual_time (now_millis m) st) req st"
  by (cases req rule: keyed_request.cases)
    (auto simp: sharded_execute_def Let_def split: string_command.splits key_command.splits server_command.splits
      scan_command.splits option.splits)

lemma sharded_simulation:
  assumes "coherent st (store sh)" "represents t st (store sh)"
    and "\<forall>(m, req)\<in>set evs. keyed_request req \<and> (\<forall>k\<in>set (request_keys req). hash_key k (num_shards st) = home (num_shards st) req)"
    and "sorted (t # map (\<lambda>(m, _). get_current_virtual_time (now_millis m) st) evs)"
  shows "run_sharded pf evs st = run_store pf (num_shards st) (start_millis st) evs sh"
  using assms
proof (induction evs arbitrary: st sh t)
  case (Cons e evs)
  obtain m req where e: "e = (m, req)" by fastforce
  have sh: "\<lparr>store = store sh, shard_config = shard_config sh\<rparr> = sh" by (cases sh) simp
  let ?n = "num_shards st" and ?t = "get_current_virtual_time (now_millis m) st"
  have keyed: "keyed_request req" "\<forall>k\<in>set (request_keys req). hash_key k ?n = home ?n req"
    using Cons.prems(3) e by auto
  have i: "home ?n req < ?n"
    using Cons.prems(1) by (auto simp: home_def coherent_def split: option.split)
  have rep: "represents ?t st (store sh)"
    using Cons.prems(2,4) e by (auto intro: represents_later)
  have go: "sharded_execute pf m req st =
      on_shard (home ?n req) (shard_execute pf (orders pf (home ?n req)) (unix_nanos m) ?t req) st"
    using keyed(1) by (simp add: sharded_execute_keyed route_request_def home_def Let_def)
  have "rel_option (\<lambda>(st', r) (sh', r'). r = r' \<and> coherent st' (store sh') \<and> represents ?t st' (store sh') \<and>
         num_shards st' = ?n \<and> start_millis st' = start_millis st)
      (sharded_execute pf m req st) (shard_execute pf (orders pf (home ?n req)) (unix_nanos m) ?t req sh)"
    using shard_step [OF Cons.prems(1) rep keyed i, of pf "orders pf (home ?n req)" "unix_nanos m" "shard_config sh"]
    unfolding go sh .
  moreover have "run_sharded pf evs st' = run_store pf ?n (start_millis st) evs sh'"
    if "coherent st' (store sh')" "represents ?t st' (store sh')" "num_shards st' = ?n"
      "start_millis st' = start_millis st" for st' sh'
  proof -
    have "get_current_virtual_time now st' = get_current_virtual_time now st" for now
      using that(4) by (simp add: get_current_virtual_time_def)
    then show ?thesis
      using Cons.IH [OF that(1,2)] Cons.prems(3,4) that(3,4) e by simp
  qed
  moreover have "?t = saturating_sub (now_millis m) (start_millis st)"
    by (simp add: get_current_virtual_time_def)
  ultimately show ?case
    by (cases "sharded_execute pf m req st")
      (auto simp: e option_rel_Some1)
qed simp

lemma coherent_new:
  assumes "0 < n"
  shows "coherent (sharded_new n start) (store (shard_new (sint (start div 1000)) start))"
    and "represents t (sharded_new n start) (store (shard_new (sint (start div 1000)) start))"
  using assms
  by (simp_all add: coherent_def represents_def shard_of_def sharded_new_def fellow_def deadlines_ok_def shard_new_def
      exec_new_def set_simulation_start_epoch_def set_simulation_start_epoch_ms_def Let_def)

text \<open>
  C23. Sharding is transparent: a server with any number of shards answers a sequence of commands, of which each
  works on keys of one shard, as one store does. The commands are all those that name their keys, but \<open>EXISTS\<close>, \<open>MGET\<close>, \<open>MSET\<close>
  and \<open>DEL\<close> of several keys, which are sent to several shards, and scripts; the clock does not go back.
\<close>

theorem sharding_transparent:
  assumes "0 < n"
    and "\<forall>(m, req)\<in>set evs. keyed_request req \<and> (\<forall>k\<in>set (request_keys req). hash_key k n = home n req)"
    and "sorted (map (\<lambda>(m, _). now_millis m) evs)" "\<forall>(m, _)\<in>set evs. start \<le> now_millis m"
  shows "run_sharded pf evs (sharded_new n start) =
    run_store pf n start evs (shard_new (sint (start div 1000)) start)"
proof -
  let ?st = "sharded_new n start"
  have [simp]: "num_shards ?st = n" "start_millis ?st = start"
    by (simp_all add: sharded_new_def)
  have "sorted (map (\<lambda>(m, _). get_current_virtual_time (now_millis m) ?st) evs)"
    using assms(3,4)
    by (induction evs) (auto simp: get_current_virtual_time_def saturating_sub_def word_le_minus_mono_left split: prod.splits)
  then show ?thesis
    using sharded_simulation [OF coherent_new [OF assms(1)], where t = 0 and evs = evs and pf = pf] assms(2)
    by (simp add: comp_def)
qed

theorem sharding_transparent_witness:
  "let m = \<lparr>now_millis = 0, unix_secs = 0, unix_usecs = 0, unix_nanos = 0, info_text = (\<lambda>_. [])\<rparr>;
       pf = \<lparr>orders = (\<lambda>_. sorted_list_of_fset), lowercase = id, scripts = (\<lambda>_ _. None)\<rparr>;
       evs = [(m, ListR (LPush ''key'' [''x''])), (m, ListR (LPop ''key''))]
   in run_sharded pf evs (sharded_new 2 0) = run_store pf 2 0 evs (shard_new 0 0)"
  unfolding Let_def by (subst sharding_transparent) (simp_all add: home_def first_key_def)

section \<open>Keys that are lost\<close>

lemma route_core:
  assumes "request_primary_key (Core c) = Some k" "shards st \<noteq> []"
  shows "\<exists>st' r. route_request pf m t (Core c) st = Some (st', r) \<and> num_shards st' = num_shards st \<and>
    (\<forall>j. j \<noteq> hash_key k (num_shards st) \<longrightarrow> shards st' ! j = shards st ! j)"
  using assms by (simp add: route_request_def on_shard_def shard_execute_def Let_def split_beta)

text \<open>
  \<open>hash_key\<close> hashes a key as a \<open>str\<close> and \<open>hash_key_bytes\<close> as a slice of bytes. Where the two give different shards, a key
  set on the fast path is out of reach of the other commands: \<open>DEL\<close> leaves it, and the fast path still reads it.
\<close>

theorem fast_set_survives_del:
  assumes "hash_key k (num_shards st) \<noteq> hash_key_bytes k (num_shards st)" "shards st \<noteq> []"
  shows "\<exists>st' r. sharded_execute pf m (KeyR (Del [k])) (fst (pooled_fast_set (k, v) st)) = Some (st', r) \<and>
    snd (pooled_fast_get k st') = bulk v"
proof -
  let ?j = "hash_key_bytes k (num_shards st)"
  define st1 where "st1 = fst (pooled_fast_set (k, v) st)"
  have j: "?j < num_shards st" using assms(2) by simp
  have n: "num_shards st1 = num_shards st" and
    sj: "shards st1 ! ?j = fst (shard_fast_set (k, v) (shards st ! ?j))"
    using j by (simp_all add: st1_def pooled_fast_set_def on_shard_fast_def split_beta Let_def)
  obtain st' r where go: "route_request pf m (get_current_virtual_time (now_millis m) st1) (KeyR (Del [k])) st1 = Some (st', r)"
      "num_shards st' = num_shards st" "shards st' ! ?j = shards st1 ! ?j"
    using route_core [of "Data (KeyC (Del [k]))" k st1 pf m "get_current_virtual_time (now_millis m) st1"] assms n
    by (fastforce simp: first_key_def)
  have "sharded_execute pf m (KeyR (Del [k])) st1 = Some (st', r)"
    using go(1) by (simp add: sharded_execute_def Let_def)
  moreover have "snd (pooled_fast_get k st') = bulk v"
    using go(2,3) sj
    by (simp add: pooled_fast_get_def on_shard_fast_def split_beta Let_def shard_fast_get_def shard_fast_set_def
        with_store_def get_direct_def set_direct_def get_value_eq visible_def)
  ultimately show ?thesis
    by (auto simp: st1_def)
qed

theorem fast_set_survives_del_witness:
  "\<exists>st' r. sharded_execute \<lparr>orders = (\<lambda>_. sorted_list_of_fset), lowercase = id, scripts = (\<lambda>_ _. None)\<rparr>
      \<lparr>now_millis = 0, unix_secs = 0, unix_usecs = 0, unix_nanos = 0, info_text = (\<lambda>_. [])\<rparr>
      (KeyR (Del [''key''])) (fst (pooled_fast_set (''key'', ''v'') (sharded_new 2 0))) = Some (st', r) \<and>
    snd (pooled_fast_get ''key'' st') = bulk ''v''"
  by (rule fast_set_survives_del) (simp_all add: sharded_new_def routes_of_key)

lemma get_absent:
  assumes "shards st \<noteq> []" "\<not> in_transaction (shard_of k st)"
    and "view_at (get_current_virtual_time (now_millis m) st) (shard_of k st) k = None"
  shows "\<exists>st'. sharded_execute pf m (StringR (Get k)) st = Some (st', nil) \<and> num_shards st' = num_shards st \<and>
    start_millis st' = start_millis st \<and> (\<forall>j. j \<noteq> hash_key k (num_shards st) \<longrightarrow> shards st' ! j = shards st ! j)"
  using assms
  by (simp add: sharded_execute_def route_request_def on_shard_def shard_execute_def Let_def split_beta first_key_def
      with_store_def execute_data_def execute_get_def reads shard_of_def visible_def live_at_time count_command_def)

lemma live_rename_source:
  "src \<noteq> dst \<Longrightarrow> \<not> key_missing s src \<Longrightarrow> live (rename_to src dst s) src = None"
  by (auto simp: rename_to_def Let_def live_def key_missing_def contains_key_def fmlookup_dom_iff insert_data_def
      remove_key_def insert_expiry_def remove_expiry_def split: option.split)

lemma key_missing_view: "key_missing s k \<longleftrightarrow> live s k = None"
  by (auto simp: key_missing_def contains_key_def live_def fmlookup_dom_iff)

text \<open>
  C25. A command on two keys runs on the shard of the first: \<open>RENAME\<close> to a key of another shard answers \<open>OK\<close>, and then
  neither key is found.
\<close>

theorem rename_across_shards_loses_key:
  assumes "coherent st s" "hash_key src (num_shards st) \<noteq> hash_key dst (num_shards st)"
    and "view_at t (shard_of src st) src \<noteq> None" "view_at t (shard_of dst st) dst = None"
    and "t = get_current_virtual_time (now_millis m) st"
  shows "\<exists>st1 st2 st3. sharded_execute pf m (KeyR (Rename src dst)) st = Some (st1, ok) \<and>
    sharded_execute pf m (StringR (Get src)) st1 = Some (st2, nil) \<and>
    sharded_execute pf m (StringR (Get dst)) st2 = Some (st3, nil)"
proof -
  let ?n = "num_shards st"
  let ?i = "hash_key src ?n" and ?j = "hash_key dst ?n"
  let ?s0 = "count_command (set_time t (shard_of src st))"
  let ?s1 = "rename_to src dst ?s0"
  let ?st1 = "st\<lparr>shards := (shards st)[?i := (shards st ! ?i)\<lparr>store := ?s1\<rparr>]\<rparr>"
  have lt: "?i < ?n" "?j < ?n" and ne: "shards st \<noteq> []" "src \<noteq> dst"
    using assms(1,2) by (auto simp: coherent_def)
  have idle: "\<not> in_transaction (shard_of k st)" for k
    using coherent_shard [OF assms(1)] by (simp add: fellow_def)
  have miss: "\<not> key_missing ?s0 src"
    using assms(3) by (simp add: key_missing_view live_at_time)
  have "sharded_execute pf m (KeyR (Rename src dst)) st = Some (?st1, ok)"
    using miss idle [of src] lt
    by (simp add: sharded_execute_def route_request_def on_shard_def shard_execute_def Let_def first_key_def
        with_store_def execute_data_def execute_rename_def assms(5) shard_of_def count_command_def)
  moreover have env: "env ?s1 = env ?s0"
    using touches_rename_to [of src dst ?s0] by (simp add: touches_def tidy_def)
  then have s1: "current_time ?s1 = t" "\<not> in_transaction ?s1"
    using idle [of src] by (simp_all add: env_def count_command_def)
  then have "view_at t (shard_of src ?st1) src = None" "\<not> in_transaction (shard_of src ?st1)"
    using live_rename_source [OF ne(2) miss] lt by (simp_all add: shard_of_def view_at_live)
  then obtain st2 where st2: "sharded_execute pf m (StringR (Get src)) ?st1 = Some (st2, nil)" "num_shards st2 = ?n"
      "start_millis st2 = start_millis st" "shards st2 ! ?j = shards st ! ?j"
    using get_absent [of ?st1 src m pf] ne assms(2,5) lt by (fastforce simp: get_current_virtual_time_def)
  moreover have "shard_of dst st2 = shard_of dst st" "shards st2 \<noteq> []"
    using st2 ne(1) by (auto simp: shard_of_def)
  then obtain st3 where "sharded_execute pf m (StringR (Get dst)) st2 = Some (st3, nil)"
    using get_absent [of st2 dst m pf] ne st2(2,3) assms(4,5) idle [of dst] by (auto simp: get_current_virtual_time_def)
  ultimately show ?thesis by blast
qed

theorem rename_across_shards_loses_key_witness:
  "let m = \<lparr>now_millis = 0, unix_secs = 0, unix_usecs = 0, unix_nanos = 0, info_text = (\<lambda>_. [])\<rparr>;
       pf = \<lparr>orders = (\<lambda>_. sorted_list_of_fset), lowercase = id, scripts = (\<lambda>_ _. None)\<rparr>;
       st = \<lparr>shards = [(shard_new 0 0)\<lparr>store := insert_data ''key'' (String ''v'') exec_new\<rparr>,
                       (shard_new 0 0)\<lparr>store := exec_new\<rparr>], start_millis = 0\<rparr>
   in \<exists>st1 st2 st3. sharded_execute pf m (KeyR (Rename ''key'' ''a'')) st = Some (st1, ok) \<and>
     sharded_execute pf m (StringR (Get ''key'')) st1 = Some (st2, nil) \<and>
     sharded_execute pf m (StringR (Get ''a'')) st2 = Some (st3, nil)"
proof -
  let ?st = "\<lparr>shards = [(shard_new 0 0)\<lparr>store := insert_data ''key'' (String ''v'') exec_new\<rparr>,
                       (shard_new 0 0)\<lparr>store := exec_new\<rparr>], start_millis = 0\<rparr>"
  have n: "num_shards ?st = 2" by simp
  have "coherent ?st exec_new"
    by (simp add: coherent_def fellow_def deadlines_ok_def exec_new_def insert_data_def)
  moreover have "shard_of ''key'' ?st = insert_data ''key'' (String ''v'') exec_new" "shard_of ''a'' ?st = exec_new"
    unfolding shard_of_def n by (simp_all add: routes_of_key route_of_a)
  moreover have "view_at t (insert_data ''key'' (String ''v'') exec_new) ''key'' \<noteq> None" "view_at t exec_new ''a'' = None" for t
    by (simp_all add: view_at_def live_def insert_data_def exec_new_def is_expired_def)
  ultimately show ?thesis
    unfolding Let_def
    by (intro rename_across_shards_loses_key [where s = exec_new, OF _ _ _ _ refl])
      (simp_all add: n [simplified] routes_of_key route_of_a flip: numeral_2_eq_2)
qed

lemma fan_out_replies:
  assumes "\<And>i sh sh' r. shard_execute pf (orders pf i) (unix_nanos m) t req sh = Some (sh', r) \<Longrightarrow> P r"
    and "\<forall>(i, q)\<in>set xs. q = req" "fan_out pf m t xs st = Some (st', rs)"
  shows "list_all P rs \<and> length rs = length xs"
  using assms(2,3)
proof (induction xs arbitrary: st st' rs)
  case (Cons x xs)
  then show ?case
    using assms(1) by (cases x) (auto simp: on_shard_def split: option.splits if_splits)
qed simp

lemma length_scan_page: "length (snd (scan_page cursor n xs)) \<le> n"
  by (auto simp: scan_page_def Let_def not_less min_def)

lemma scan_reply_bounded:
  "length (scan_keys_reply (snd (execute_scan it cursor pat count s))) \<le> scan_count count"
  by (simp add: execute_scan_def Let_def split_beta scan_reply_def length_scan_page)

text \<open>
  \<open>SCAN\<close> on the sharded server ignores the cursor of the client and answers with the cursor 0 and the first page of
  each shard: a client never gets more keys than \<open>COUNT\<close> for each shard, however many there are.
\<close>

theorem sharded_scan_bounded:
  assumes "sharded_execute pf m (ScanC (Scan cursor pat count)) st = Some (st', r)"
  shows "\<exists>ks. r = Array (Some [bulk ''0'', Array (Some ks)]) \<and> length ks \<le> num_shards st * scan_count count"
proof -
  let ?t = "get_current_virtual_time (now_millis m) st"
  obtain rs where rs: "fan_out pf m ?t (to_all (ScanC (Scan 0 pat count)) st) st = Some (st', rs)"
      "r = Array (Some [bulk ''0'', Array (Some (concat (map scan_keys_reply rs)))])"
    using assms by (auto simp: sharded_execute_def Let_def)
  have "list_all (\<lambda>r. length (scan_keys_reply r) \<le> scan_count count) rs \<and> length rs = length (to_all (ScanC (Scan 0 pat count)) st)"
    by (rule fan_out_replies [OF _ _ rs(1), where req = "ScanC (Scan 0 pat count)"])
      (auto simp: to_all_def shard_execute_def with_store_def scan_reply_bounded)
  then have "sum_list (map (\<lambda>r. length (scan_keys_reply r)) rs) \<le> sum_list (map (\<lambda>_. scan_count count) rs)"
      and len: "length rs = num_shards st"
    by (auto simp: list_all_iff to_all_def intro!: sum_list_mono)
  then have "length (concat (map scan_keys_reply rs)) \<le> num_shards st * scan_count count"
    by (simp add: length_concat comp_def sum_list_triv)
  then show ?thesis
    using rs(2) by auto
qed

theorem sharded_scan_bounded_witness:
  "let m = \<lparr>now_millis = 0, unix_secs = 0, unix_usecs = 0, unix_nanos = 0, info_text = (\<lambda>_. [])\<rparr>;
       pf = \<lparr>orders = (\<lambda>_. sorted_list_of_fset), lowercase = id, scripts = (\<lambda>_ _. None)\<rparr>
   in \<exists>st' r ks. sharded_execute pf m (ScanC (Scan 7 None (Some 1))) (sharded_new 1 0) = Some (st', r) \<and>
     r = Array (Some [bulk ''0'', Array (Some ks)]) \<and> length ks \<le> 1"
proof -
  let ?m = "\<lparr>now_millis = 0, unix_secs = 0, unix_usecs = 0, unix_nanos = 0, info_text = (\<lambda>_. [])\<rparr>"
  let ?pf = "\<lparr>orders = (\<lambda>_. sorted_list_of_fset), lowercase = id, scripts = (\<lambda>_ _. None)\<rparr>"
  let ?go = "sharded_execute ?pf ?m (ScanC (Scan 7 None (Some 1))) (sharded_new 1 0)"
  have "?go \<noteq> None"
    by (simp add: sharded_execute_def sharded_new_def to_all_def on_shard_def shard_execute_def split_beta Let_def)
  then obtain st' r where go: "?go = Some (st', r)" by auto
  then obtain ks where "r = Array (Some [bulk ''0'', Array (Some ks)])" "length ks \<le> 1"
    using sharded_scan_bounded [OF go] by (auto simp: sharded_new_def scan_count_def)
  with go show ?thesis
    unfolding Let_def by blast
qed

end
