(* ===== verification/Connection.thy ===== *)
theory Connection
  imports Sharding Parser_Zero_Copy Resp_Laws
begin

text \<open>
  A client connection (\<open>src/production/connection_optimized.rs\<close>): the buffers, the authenticated user, the queue of a
  transaction, the fast paths for \<open>GET\<close> and \<open>SET\<close>, the batching of pipelines, and the permission check in front of the
  sharded server. The server and the access control manager are shared by all connections; a connection holds its
  lock for one command, so a command is a function on both.

  \<open>None\<close> is a panic, which ends the task of the connection. The commands of one call read the clocks once, as
  a \<open>moment\<close>. Metrics and traces are left out.
\<close>

section \<open>State\<close>

record server =
  sharded :: sharded_state
  acl :: acl_manager

record connection =
  rbuf :: bytes
  wbuf :: bytes
  conn_user :: "acl_user option"
  in_multi :: bool
  multi_queue :: "request list"
  multi_errors :: bool
  watched :: "(string \<times> resp_value) list"
  client_addr :: string

text \<open>
  What the code takes from libraries and its surroundings. \<open>acl_order\<close> and \<open>category_order\<close> are the iteration
  orders of the hash sets of the access control manager, \<open>element_size\<close> is the size of a value in memory, and \<open>epoch_secs\<close> the
  time stamp of the denial log.
\<close>

record site =
  plat :: platform
  uppercase :: "string \<Rightarrow> string"
  sha256 :: "bytes \<Rightarrow> bytes"
  acl_order :: order
  category_order :: "command_category fset \<Rightarrow> command_category list"
  element_size :: usize
  epoch_secs :: "moment \<Rightarrow> f64"

record connection_config =
  max_buffer_size :: usize
  read_buffer_size :: usize
  min_pipeline_buffer :: usize
  batch_threshold :: usize

definition config_default :: connection_config where
  "config_default = \<lparr>max_buffer_size = 512 * 1024 * 1024, read_buffer_size = 8192, min_pipeline_buffer = 60, batch_threshold = 2\<rparr>"

text \<open>A certificate of a client gives its user; otherwise the default user, unless authentication is required.\<close>

definition initial_user :: "acl_manager \<Rightarrow> string option \<Rightarrow> acl_user option" where
  "initial_user m cert =
     (let default = (if \<not> require_auth m then acl_default m else None)
      in case cert of
           Some cn \<Rightarrow>
             (case get_user m cn of
                Some user \<Rightarrow> if user_enabled user then Some user else None
              | None \<Rightarrow> default)
         | None \<Rightarrow> default)"

definition connection_new :: "acl_manager \<Rightarrow> string \<Rightarrow> string option \<Rightarrow> connection" where
  "connection_new m addr cert =
     \<lparr>rbuf = [], wbuf = [], conn_user = initial_user m cert, in_multi = False, multi_queue = [],
      multi_errors = False, watched = [], client_addr = addr\<rparr>"

section \<open>Replies\<close>

text \<open>\<open>encode_resp_into\<close> appends what \<open>encode_into\<close> of the codec does.\<close>

abbreviation respond :: "resp_value \<Rightarrow> connection \<Rightarrow> connection" where
  "respond r c \<equiv> c\<lparr>wbuf := encode_into r (wbuf c)\<rparr>"

definition error_line :: "string \<Rightarrow> bytes" where
  "error_line msg =
     ''-'' @ (if list_ex (\<lambda>p. take (length p) msg = p)
                [''ERR '', ''WRONGTYPE '', ''WRONGPASS '', ''EXECABORT '', ''NOAUTH '', ''NOPERM '']
             then '''' else ''ERR '') @ msg @ CRLF"

definition respond_error :: "string \<Rightarrow> connection \<Rightarrow> connection" where
  "respond_error msg c = c\<lparr>wbuf := wbuf c @ error_line msg\<rparr>"

fun resp_values_equal :: "resp_value \<Rightarrow> resp_value \<Rightarrow> bool" where
  "resp_values_equal (BulkString a) (BulkString b) \<longleftrightarrow> a = b"
| "resp_values_equal (Integer a) (Integer b) \<longleftrightarrow> a = b"
| "resp_values_equal (SimpleString a) (SimpleString b) \<longleftrightarrow> a = b"
| "resp_values_equal (Error a) (Error b) \<longleftrightarrow> a = b"
| "resp_values_equal (Array None) (Array None) \<longleftrightarrow> True"
| "resp_values_equal (Array (Some as)) (Array (Some bs)) \<longleftrightarrow> list_all2 resp_values_equal as bs"
| "resp_values_equal _ _ \<longleftrightarrow> False"

section \<open>Frames of the fast paths\<close>

text \<open>
  The fast paths read \<open>GET\<close> and \<open>SET\<close> from the buffer without the codec. Positions are \<open>usize\<close> and wrap; a
  slice with its end before its start or behind the buffer panics.
\<close>

datatype 'a frame = Frame 'a usize | Partial | Unfit | Broken

definition parse_usize_fast :: "bytes \<Rightarrow> usize option" where
  "parse_usize_fast bs =
     (if utf8_valid bs then (case parse_unsigned (2 ^ 64) bs of Inr n \<Rightarrow> Some n | Inl _ \<Rightarrow> None) else None)"

text \<open>
  The constant of the source. The header it stands for, \<open>*2 CR LF $3 CR LF GET CR LF\<close>, has 13 bytes, and the test
  for it compares just these.
\<close>

abbreviation HEADER_LEN :: usize where
  "HEADER_LEN \<equiv> 14"

definition starts_with :: "string \<Rightarrow> string \<Rightarrow> bool" where
  "starts_with p s \<longleftrightarrow> take (length p) s = p"

definition get_header :: "bytes \<Rightarrow> bool" where
  "get_header buf \<longleftrightarrow>
     starts_with (''*2'' @ CRLF @ ''$3'' @ CRLF @ ''GET'' @ CRLF) buf \<or>
     starts_with (''*2'' @ CRLF @ ''$3'' @ CRLF @ ''get'' @ CRLF) buf"

definition set_header :: "bytes \<Rightarrow> bool" where
  "set_header buf \<longleftrightarrow>
     starts_with (''*3'' @ CRLF @ ''$3'' @ CRLF @ ''SET'' @ CRLF) buf \<or>
     starts_with (''*3'' @ CRLF @ ''$3'' @ CRLF @ ''set'' @ CRLF) buf"

definition length_field :: "bytes \<Rightarrow> (usize \<times> usize) frame" where
  "length_field bs =
     (case memchr CR bs of
        None \<Rightarrow> Partial
      | Some p \<Rightarrow> (case parse_usize_fast (take p bs) of None \<Rightarrow> Unfit | Some n \<Rightarrow> Frame (p, n) 0))"

definition get_frame :: "bytes \<Rightarrow> bytes frame" where
  "get_frame buf =
     (if length buf < HEADER_LEN + 1 then Partial
      else if buf ! HEADER_LEN \<noteq> CHR ''$'' then Unfit
      else case length_field (drop (HEADER_LEN + 1) buf) of
             Frame (crlf_pos, key_len) _ \<Rightarrow>
               (let key_start = HEADER_LEN + 1 + (crlf_pos + 1) + 1;
                    key_end = wadd key_start key_len;
                    total_needed = wadd key_end 2
                in if length buf < total_needed then Partial
                   else if key_end < key_start \<or> length buf < key_end then Broken
                   else Frame (slice buf key_start key_end) (key_end + 2))
           | Partial \<Rightarrow> Partial
           | _ \<Rightarrow> Unfit)"

definition value_frame :: "bytes \<Rightarrow> usize \<Rightarrow> usize \<Rightarrow> usize \<Rightarrow> (bytes \<times> bytes) frame" where
  "value_frame buf key_start key_end val_len_start =
     (if length buf < wadd val_len_start 1 then Partial
      else if length buf \<le> val_len_start then Broken
      else if buf ! val_len_start \<noteq> CHR ''$'' then Unfit
      else case length_field (drop (val_len_start + 1) buf) of
             Frame (val_len_crlf, val_len) _ \<Rightarrow>
               (let val_start = val_len_start + 1 + val_len_crlf + 2;
                    val_end = wadd val_start val_len;
                    total_needed = wadd val_end 2
                in if length buf < total_needed then Partial
                   else if key_end < key_start \<or> length buf < key_end then Broken
                   else if val_end < val_start \<or> length buf < val_end then Broken
                   else Frame (slice buf key_start key_end, slice buf val_start val_end) (val_end + 2))
           | Partial \<Rightarrow> Partial
           | _ \<Rightarrow> Unfit)"

definition set_frame :: "bytes \<Rightarrow> (bytes \<times> bytes) frame" where
  "set_frame buf =
     (if length buf < HEADER_LEN + 1 then Partial
      else if buf ! HEADER_LEN \<noteq> CHR ''$'' then Unfit
      else case length_field (drop (HEADER_LEN + 1) buf) of
             Frame (key_len_crlf, key_len) _ \<Rightarrow>
               (let key_start = HEADER_LEN + 1 + key_len_crlf + 2; key_end = wadd key_start key_len
                in value_frame buf key_start key_end (wadd key_end 2))
           | Partial \<Rightarrow> Partial
           | _ \<Rightarrow> Unfit)"

lemma get_frame_pos: "get_frame buf = Frame k n \<Longrightarrow> 0 < n"
  by (auto simp: get_frame_def Let_def split: if_splits frame.splits)

lemma set_frame_pos: "set_frame buf = Frame kv n \<Longrightarrow> 0 < n"
  by (auto simp: set_frame_def value_frame_def Let_def split: if_splits frame.splits)

section \<open>Batches\<close>

text \<open>The commands at the front of the buffer are taken from it, whatever becomes of them.\<close>

function collect_get_keys :: "bytes \<Rightarrow> (bytes list \<times> bytes) option" where
  "collect_get_keys buf =
     (if length buf < HEADER_LEN + 1 \<or> \<not> get_header buf then Some ([], buf)
      else case get_frame buf of
             Frame key n \<Rightarrow> map_option (\<lambda>(keys, rest). (key # keys, rest)) (collect_get_keys (drop n buf))
           | Broken \<Rightarrow> None
           | _ \<Rightarrow> Some ([], buf))"
  by pat_completeness auto
termination
  by (relation "measure length") (auto dest!: get_frame_pos)

function collect_set_pairs :: "bytes \<Rightarrow> ((bytes \<times> bytes) list \<times> bytes) option" where
  "collect_set_pairs buf =
     (if length buf < HEADER_LEN + 1 \<or> \<not> set_header buf then Some ([], buf)
      else case set_frame buf of
             Frame pair n \<Rightarrow> map_option (\<lambda>(pairs, rest). (pair # pairs, rest)) (collect_set_pairs (drop n buf))
           | Broken \<Rightarrow> None
           | _ \<Rightarrow> Some ([], buf))"
  by pat_completeness auto
termination
  by (relation "measure length") (auto dest!: set_frame_pos)

declare collect_get_keys.simps [simp del] collect_set_pairs.simps [simp del]

definition respond_all :: "resp_value list \<Rightarrow> connection \<Rightarrow> connection" where
  "respond_all rs c = fold respond rs c"

type_synonym session = "connection \<times> server"

definition batch_gets :: "connection_config \<Rightarrow> session \<Rightarrow> session option" where
  "batch_gets cfg cs =
     (case cs of (c, srv) \<Rightarrow>
        map_option (\<lambda>(keys, rest).
          if length keys \<ge> batch_threshold cfg
          then let (st, rs) = fast_batch_get_pipeline keys (sharded srv)
               in (respond_all rs (c\<lparr>rbuf := rest\<rparr>), srv\<lparr>sharded := st\<rparr>)
          else (c\<lparr>rbuf := rest\<rparr>, srv))
        (collect_get_keys (rbuf c)))"

definition batch_sets :: "connection_config \<Rightarrow> session \<Rightarrow> session option" where
  "batch_sets cfg cs =
     (case cs of (c, srv) \<Rightarrow>
        map_option (\<lambda>(pairs, rest).
          if length pairs \<ge> batch_threshold cfg
          then let (st, rs) = fast_batch_set_pipeline pairs (sharded srv)
               in (respond_all rs (c\<lparr>rbuf := rest\<rparr>), srv\<lparr>sharded := st\<rparr>)
          else (c\<lparr>rbuf := rest\<rparr>, srv))
        (collect_set_pairs (rbuf c)))"

definition batch_pipeline :: "connection_config \<Rightarrow> session \<Rightarrow> session option" where
  "batch_pipeline cfg cs =
     (if length (rbuf (fst cs)) \<ge> min_pipeline_buffer cfg \<and> \<not> in_multi (fst cs)
      then Option.bind (batch_gets cfg cs) (\<lambda>cs'.
             if length (rbuf (fst cs')) \<ge> min_pipeline_buffer cfg then batch_sets cfg cs' else Some cs')
      else Some cs)"

section \<open>Fast paths\<close>

datatype fast_result = Handled | NeedMore | NotFastPath

definition try_fast_get :: "session \<Rightarrow> (fast_result \<times> session) option" where
  "try_fast_get cs =
     (case cs of (c, srv) \<Rightarrow>
        case get_frame (rbuf c) of
          Frame key n \<Rightarrow>
            (let (st, r) = pooled_fast_get key (sharded srv)
             in Some (Handled, respond r (c\<lparr>rbuf := drop n (rbuf c)\<rparr>), srv\<lparr>sharded := st\<rparr>))
        | Partial \<Rightarrow> Some (NeedMore, cs)
        | Unfit \<Rightarrow> Some (NotFastPath, cs)
        | Broken \<Rightarrow> None)"

definition try_fast_set :: "session \<Rightarrow> (fast_result \<times> session) option" where
  "try_fast_set cs =
     (case cs of (c, srv) \<Rightarrow>
        case set_frame (rbuf c) of
          Frame pair n \<Rightarrow>
            (let (st, r) = pooled_fast_set pair (sharded srv)
             in Some (Handled, respond r (c\<lparr>rbuf := drop n (rbuf c)\<rparr>), srv\<lparr>sharded := st\<rparr>))
        | Partial \<Rightarrow> Some (NeedMore, cs)
        | Unfit \<Rightarrow> Some (NotFastPath, cs)
        | Broken \<Rightarrow> None)"

definition try_fast_path :: "session \<Rightarrow> (fast_result \<times> session) option" where
  "try_fast_path cs =
     (let buf = rbuf (fst cs)
      in if length buf < 12 then Some (NotFastPath, cs)
         else if get_header buf then try_fast_get cs
         else if set_header buf then try_fast_set cs
         else Some (NotFastPath, cs))"

end
