(* ===== verification/Connection_Step.thy ===== *)
theory Connection_Step
  imports Connection
begin

text \<open>
  The dispatch of a connection (\<open>try_execute_command\<close> in \<open>src/production/connection_optimized.rs\<close>): transactions, \<open>AUTH\<close> and
  the \<open>ACL\<close> commands, stubs, the permission check, and the loop over the buffer.
\<close>

section \<open>Permissions\<close>

abbreviation lower_of :: "site \<Rightarrow> string \<Rightarrow> string" where
  "lower_of S \<equiv> lowercase (plat S)"

definition user_has_unrestricted_keys :: "connection \<Rightarrow> bool" where
  "user_has_unrestricted_keys c =
     (case conn_user c of Some user \<Rightarrow> has_unrestricted_keys user | None \<Rightarrow> False)"

text \<open>The name to check and the form with a subcommand; the name of an unknown command may be blank, and \<open>parts[0]\<close> panics.\<close>

fun command_words_of :: "request \<Rightarrow> (string \<times> string option) option" where
  "command_words_of (ServerR (Unknown name)) =
     (case split_whitespace name of
        [] \<Rightarrow> None
      | [base] \<Rightarrow> Some (base, None)
      | base # sub # _ \<Rightarrow> Some (base, Some (base @ ''|'' @ sub)))"
| "command_words_of (ServerR (DebugObject _)) = Some (''DEBUG'', Some ''DEBUG|OBJECT'')"
| "command_words_of (DebugSleep _) = Some (''DEBUG'', Some ''DEBUG|SLEEP'')"
| "command_words_of (ServerR (DebugSet sub _)) = Some (''DEBUG'', Some (''DEBUG|'' @ sub))"
| "command_words_of (ServerR (ClientSetName _)) = Some (''CLIENT'', Some ''CLIENT|SETNAME'')"
| "command_words_of (ServerR ClientGetName) = Some (''CLIENT'', Some ''CLIENT|GETNAME'')"
| "command_words_of (ServerR ClientId) = Some (''CLIENT'', Some ''CLIENT|ID'')"
| "command_words_of (ServerR ClientInfo) = Some (''CLIENT'', Some ''CLIENT|INFO'')"
| "command_words_of req = Some (request_name req, None)"

definition subcommand_allowed :: "site \<Rightarrow> acl_user option \<Rightarrow> string option \<Rightarrow> bool" where
  "subcommand_allowed S user sub =
     (case (sub, user) of
        (Some w, Some u) \<Rightarrow> uppercase S w |\<in>| cp_allowed (user_commands u)
      | _ \<Rightarrow> False)"

definition check_acl_permission ::
  "site \<Rightarrow> acl_manager \<Rightarrow> acl_user option \<Rightarrow> request \<Rightarrow> (string + unit) option" where
  "check_acl_permission S m cached req =
     (if require_auth m \<and> cached = None then Some (Inl ''NOAUTH Authentication required'')
      else
        let user = Option.bind cached (\<lambda>u. get_user m (user_name u))
        in map_option (\<lambda>(name, sub).
             if subcommand_allowed S user sub
             then if list_all (is_key_permitted (user_keys (the user))) (request_keys req) then Inr ()
                  else Inl ''NOPERM this user has no permissions to access one of the keys used as arguments''
             else case check_command (uppercase S) m user name (request_keys req) of
                    Inr _ \<Rightarrow> Inr () | Inl e \<Rightarrow> Inl (acl_error_text (lower_of S) e))
           (command_words_of req))"

fun contains_text :: "string \<Rightarrow> string \<Rightarrow> bool" where
  "contains_text w [] \<longleftrightarrow> w = []"
| "contains_text w (x # xs) \<longleftrightarrow> starts_with w (x # xs) \<or> contains_text w xs"

definition record_acl_denial ::
  "site \<Rightarrow> moment \<Rightarrow> connection \<Rightarrow> request \<Rightarrow> string \<Rightarrow> acl_manager \<Rightarrow> acl_manager" where
  "record_acl_denial S mo c req e m =
     (let username = (case conn_user c of Some u \<Rightarrow> user_name u | None \<Rightarrow> ''default'');
          (reason, obj) =
            (if starts_with ''NOPERM'' e \<and> contains_text ''access'' e
             then (LogKey, case request_keys req of k # _ \<Rightarrow> k | [] \<Rightarrow> [])
             else (LogCommand, request_name req))
      in m\<lparr>acl_log := record_denial (epoch_secs S mo) username reason obj ''toplevel'' (client_addr c) (acl_log m)\<rparr>)"

section \<open>\<open>AUTH\<close> and \<open>ACL\<close>\<close>

definition conn_auth :: "site \<Rightarrow> string option \<Rightarrow> string \<Rightarrow> session \<Rightarrow> session \<times> resp_value" where
  "conn_auth S username password cs =
     (case cs of (c, srv) \<Rightarrow>
        case authenticate (sha256 S) (acl srv) (case username of Some u \<Rightarrow> u | None \<Rightarrow> ''default'') password of
          Inr user \<Rightarrow> ((c\<lparr>conn_user := Some user\<rparr>, srv), SimpleString ''OK'')
        | Inl e \<Rightarrow> (cs, err (acl_error_text (lower_of S) e)))"

definition bulk_list :: "string list \<Rightarrow> resp_value" where
  "bulk_list xs = Array (Some (map bulk xs))"

definition getuser_reply :: "acl_getuser_info option \<Rightarrow> resp_value" where
  "getuser_reply info =
     (case info of
        None \<Rightarrow> Array None
      | Some i \<Rightarrow> Array (Some [bulk ''flags'', bulk_list (gu_flags i), bulk ''passwords'', bulk_list (gu_passwords i),
          bulk ''commands'', bulk (gu_commands i), bulk ''keys'', bulk (gu_keys i),
          bulk ''channels'', bulk (gu_channels i), bulk ''selectors'', Array (Some [])]))"

definition log_entry_reply :: "f64 \<Rightarrow> acl_log_entry \<Rightarrow> resp_value" where
  "log_entry_reply now e =
     Array (Some [bulk ''count'', Integer (sint (log_count e)), bulk ''reason'', bulk (log_reason_text (log_reason e)),
       bulk ''context'', bulk (log_context e), bulk ''object'', bulk (log_object e),
       bulk ''username'', bulk (log_username e),
       bulk ''age-seconds'', bulk (show_fixed 3 (f64_sub now (timestamp_created e))),
       bulk ''client-info'', bulk (client_info e), bulk ''entry-id'', Integer (sint (entry_id e)),
       bulk ''timestamp-created'', Integer (f64_as_i64 (f64_mul (timestamp_created e) 0x408F400000000000)),
       bulk ''timestamp-last-updated'', Integer (f64_as_i64 (f64_mul (timestamp_last_updated e) 0x408F400000000000))])"

definition error_or_ok :: "string + 'a \<Rightarrow> resp_value" where
  "error_or_ok r = (case r of Inl e \<Rightarrow> err e | Inr _ \<Rightarrow> SimpleString ''OK'')"

definition on_acl :: "acl_manager \<Rightarrow> server \<Rightarrow> server" where
  "on_acl m srv = srv\<lparr>acl := m\<rparr>"

fun conn_acl :: "site \<Rightarrow> moment \<Rightarrow> acl_command \<Rightarrow> session \<Rightarrow> session \<times> resp_value" where
  "conn_acl S mo (Auth username password) cs = conn_auth S username password cs"
| "conn_acl S mo AclWhoami cs = (cs, bulk (handle_whoami (conn_user (fst cs))))"
| "conn_acl S mo AclList cs =
     (cs, bulk_list (handle_list (lower_of S) (acl_order S) (category_order S) (acl (snd cs))))"
| "conn_acl S mo AclUsers cs = (cs, bulk_list (handle_users (acl_order S) (acl (snd cs))))"
| "conn_acl S mo (AclGetUser username) cs =
     (cs, getuser_reply (handle_getuser (lower_of S) (acl_order S) (category_order S) (acl (snd cs)) username))"
| "conn_acl S mo (AclSetUser username rules) cs =
     (case handle_setuser (sha256 S) (uppercase S) (lower_of S) username rules (acl (snd cs)) of
        Inr m \<Rightarrow> ((fst cs, on_acl m (snd cs)), SimpleString ''OK'')
      | Inl e \<Rightarrow> (cs, err (acl_error_text (lower_of S) e)))"
| "conn_acl S mo (AclDelUser usernames) cs =
     (let (m, r) = handle_deluser usernames (acl (snd cs))
      in ((fst cs, on_acl m (snd cs)), case r of Inr n \<Rightarrow> Integer (int n) | Inl e \<Rightarrow> err e))"
| "conn_acl S mo (AclCat category) cs =
     (cs, case handle_cat (lower_of S) category of
            Inr xs \<Rightarrow> bulk_list xs | Inl e \<Rightarrow> err (acl_error_text (lower_of S) e))"
| "conn_acl S mo (AclGenPass bits) cs =
     (cs, case handle_genpass (unix_nanos mo) bits of Inr p \<Rightarrow> bulk p | Inl e \<Rightarrow> err e)"
| "conn_acl S mo (AclDryrun username command args) cs =
     (cs, error_or_ok (handle_dryrun (uppercase S) (lower_of S) (acl (snd cs)) username command args))"
| "conn_acl S mo (AclLog count) cs =
     (cs, Array (Some (map (log_entry_reply (epoch_secs S mo)) (handle_log (acl (snd cs)) count))))"
| "conn_acl S mo AclLogReset cs =
     ((fst cs, on_acl (handle_log_reset (acl (snd cs))) (snd cs)), SimpleString ''OK'')"

section \<open>Stubs\<close>

definition channel_commands :: "string list" where
  "channel_commands = [''PUBLISH'', ''SPUBLISH'', ''SUBSCRIBE'', ''SSUBSCRIBE'', ''PSUBSCRIBE'',
     ''UNSUBSCRIBE'', ''SUNSUBSCRIBE'', ''PUNSUBSCRIBE'']"

definition is_stub_command :: "site \<Rightarrow> string \<Rightarrow> bool" where
  "is_stub_command S name =
     (let upper = uppercase S name
      in upper \<in> set (channel_commands @ [''HELLO'', ''RESET'']) \<or> starts_with ''CLIENT '' upper \<or>
         starts_with ''CONFIG '' upper \<or> starts_with ''ACL '' upper)"

definition hello_reply :: resp_value where
  "hello_reply =
     Array (Some [bulk ''server'', bulk ''redis'', bulk ''version'', bulk ''7.0.0'', bulk ''proto'', Integer 2,
       bulk ''id'', Integer 1, bulk ''mode'', bulk ''standalone'', bulk ''role'', bulk ''master'',
       bulk ''modules'', Array (Some [])])"

definition client_stub :: "site \<Rightarrow> string \<Rightarrow> resp_value" where
  "client_stub S sub =
     (if sub = ''LIST'' then bulk []
      else if sub = ''KILL'' \<or> sub = ''NO-EVICT'' then SimpleString ''OK''
      else err (''ERR unknown subcommand '' @ quoted (lower_of S sub)))"

definition config_stub :: "string \<Rightarrow> resp_value" where
  "config_stub sub =
     (if sub = ''RESETSTAT'' then SimpleString ''OK''
      else if starts_with ''SET'' sub then SimpleString ''OK''
      else if starts_with ''GET'' sub then Array (Some [])
      else SimpleString ''OK'')"

definition acl_stub :: "site \<Rightarrow> string \<Rightarrow> resp_value" where
  "acl_stub S sub =
     (if sub = ''HELP'' then Array (Some [bulk ''ACL <subcommand>''])
      else if sub = ''LOAD'' \<or> sub = ''SAVE'' then SimpleString ''OK''
      else err (''ERR unknown ACL subcommand '' @ quoted (lower_of S sub)))"

definition handle_stub_command :: "site \<Rightarrow> string \<Rightarrow> resp_value" where
  "handle_stub_command S cmd =
     (let name = uppercase S cmd
      in if name \<in> {''PUBLISH'', ''SPUBLISH''} then Integer 0
         else if name \<in> {''SUBSCRIBE'', ''SSUBSCRIBE''} then Array (Some [bulk ''subscribe'', bulk ''channel'', Integer 1])
         else if name = ''PSUBSCRIBE'' then Array (Some [bulk ''psubscribe'', bulk ''*'', Integer 1])
         else if name \<in> {''UNSUBSCRIBE'', ''SUNSUBSCRIBE''} then Array (Some [bulk ''unsubscribe'', BulkString None, Integer 0])
         else if name = ''PUNSUBSCRIBE'' then Array (Some [bulk ''punsubscribe'', BulkString None, Integer 0])
         else if starts_with ''CLIENT '' name then client_stub S (drop 7 name)
         else if starts_with ''CONFIG '' name then config_stub (drop 7 name)
         else if name = ''HELLO'' then hello_reply
         else if name = ''RESET'' then SimpleString ''RESET''
         else if starts_with ''ACL '' name then acl_stub S (drop 4 name)
         else err ''ERR not implemented'')"

section \<open>Transactions\<close>

abbreviation on_sharded :: "sharded_state \<Rightarrow> server \<Rightarrow> server" where
  "on_sharded st srv \<equiv> srv\<lparr>sharded := st\<rparr>"

fun execute_each ::
  "platform \<Rightarrow> moment \<Rightarrow> request list \<Rightarrow> sharded_state \<Rightarrow> (sharded_state \<times> resp_value list) option" where
  "execute_each pf m [] st = Some (st, [])"
| "execute_each pf m (req # reqs) st =
     do {(st1, r) \<leftarrow> sharded_execute pf m req st;
         (st2, rs) \<leftarrow> execute_each pf m reqs st1;
         Some (st2, r # rs)}"

definition snapshot ::
  "platform \<Rightarrow> moment \<Rightarrow> string list \<Rightarrow> sharded_state \<Rightarrow> (sharded_state \<times> (string \<times> resp_value) list) option" where
  "snapshot pf m keys st =
     map_option (\<lambda>(st', rs). (st', zip keys rs)) (execute_each pf m (map (\<lambda>k. StringR (Get k)) keys) st)"

text \<open>The watched keys are read in turn, up to the first that differs.\<close>

fun watch_check ::
  "platform \<Rightarrow> moment \<Rightarrow> (string \<times> resp_value) list \<Rightarrow> sharded_state \<Rightarrow> (sharded_state \<times> bool) option" where
  "watch_check pf m [] st = Some (st, True)"
| "watch_check pf m ((key, old) # rest) st =
     do {(st1, current) \<leftarrow> sharded_execute pf m (StringR (Get key)) st;
         if resp_values_equal current old then watch_check pf m rest st1 else Some (st1, False)}"

definition exec_transaction :: "site \<Rightarrow> moment \<Rightarrow> session \<Rightarrow> (session \<times> resp_value) option" where
  "exec_transaction S m cs =
     (case cs of (c, srv) \<Rightarrow>
        let c0 = c\<lparr>in_multi := False\<rparr>
        in if multi_errors c
           then Some ((c0\<lparr>multi_queue := [], multi_errors := False, watched := []\<rparr>, srv),
                  err ''EXECABORT Transaction discarded because of previous errors.'')
           else do {(st1, unchanged) \<leftarrow> watch_check (plat S) m (watched c) (sharded srv);
                    if \<not> unchanged
                    then Some ((c0\<lparr>multi_queue := [], watched := []\<rparr>, on_sharded st1 srv), Array None)
                    else do {(st2, rs) \<leftarrow> execute_each (plat S) m (multi_queue c) st1;
                             Some ((c0\<lparr>multi_queue := [], watched := []\<rparr>, on_sharded st2 srv), Array (Some rs))}})"

definition enqueue :: "request \<Rightarrow> session \<Rightarrow> (session \<times> resp_value) option" where
  "enqueue req cs = Some (((fst cs)\<lparr>multi_queue := multi_queue (fst cs) @ [req]\<rparr>, snd cs), SimpleString ''QUEUED'')"

definition queue_unknown :: "site \<Rightarrow> string \<Rightarrow> session \<Rightarrow> (session \<times> resp_value) option" where
  "queue_unknown S name cs =
     (let failed = ((fst cs)\<lparr>multi_errors := True\<rparr>, snd cs)
      in if is_stub_command S name
         then if uppercase S name \<in> set channel_commands
              then Some (failed, err ''NOPERM this user has no permissions to access the channel used as argument'')
              else enqueue (ServerR (Unknown name)) cs
         else Some (failed, err (''ERR unknown command '' @ quoted (lower_of S name) @ '', with args beginning with: '')))"

fun step_in_multi :: "site \<Rightarrow> moment \<Rightarrow> request \<Rightarrow> session \<Rightarrow> (session \<times> resp_value) option" where
  "step_in_multi S m (Core Exec) cs = exec_transaction S m cs"
| "step_in_multi S m (Core Discard) cs =
     Some (((fst cs)\<lparr>in_multi := False, multi_queue := [], multi_errors := False, watched := []\<rparr>, snd cs),
       SimpleString ''OK'')"
| "step_in_multi S m (Core Multi) cs = Some (cs, err ''ERR MULTI calls can not be nested'')"
| "step_in_multi S m (Core (Watch _)) cs = Some (cs, err ''ERR WATCH inside MULTI is not allowed'')"
| "step_in_multi S m (ServerR (Unknown name)) cs = queue_unknown S name cs"
| "step_in_multi S m req cs = enqueue req cs"

section \<open>Commands outside a transaction\<close>

definition checked_execute :: "site \<Rightarrow> moment \<Rightarrow> request \<Rightarrow> session \<Rightarrow> (session \<times> resp_value) option" where
  "checked_execute S m req cs =
     (case cs of (c, srv) \<Rightarrow>
        case check_acl_permission S (acl srv) (conn_user c) req of
          None \<Rightarrow> None
        | Some (Inl e) \<Rightarrow> Some ((c, on_acl (record_acl_denial S m c req e (acl srv)) srv), err e)
        | Some (Inr _) \<Rightarrow>
            map_option (\<lambda>(st, r). ((c, on_sharded st srv), r)) (sharded_execute (plat S) m req (sharded srv)))"

fun step_outside :: "site \<Rightarrow> moment \<Rightarrow> request \<Rightarrow> session \<Rightarrow> (session \<times> resp_value) option" where
  "step_outside S m (Core Multi) cs =
     Some (((fst cs)\<lparr>in_multi := True, multi_queue := [], multi_errors := False\<rparr>, snd cs), SimpleString ''OK'')"
| "step_outside S m (Core Exec) cs = Some (cs, err ''ERR EXEC without MULTI'')"
| "step_outside S m (Core Discard) cs = Some (cs, err ''ERR DISCARD without MULTI'')"
| "step_outside S m (Core (Watch keys)) cs =
     map_option (\<lambda>(st, ws). (((fst cs)\<lparr>watched := watched (fst cs) @ ws\<rparr>, on_sharded st (snd cs)), SimpleString ''OK''))
       (snapshot (plat S) m keys (sharded (snd cs)))"
| "step_outside S m (Core (Data Unwatch)) cs =
     Some (((fst cs)\<lparr>watched := []\<rparr>, snd cs), SimpleString ''OK'')"
| "step_outside S m (AclC a) cs = Some (conn_acl S m a cs)"
| "step_outside S m (ServerR (Unknown name)) cs =
     (if is_stub_command S name then Some (cs, handle_stub_command S name)
      else checked_execute S m (ServerR (Unknown name)) cs)"
| "step_outside S m req cs = checked_execute S m req cs"

definition conn_step :: "site \<Rightarrow> moment \<Rightarrow> request \<Rightarrow> session \<Rightarrow> (session \<times> resp_value) option" where
  "conn_step S m req cs = (if in_multi (fst cs) then step_in_multi S m req cs else step_outside S m req cs)"

section \<open>The loop\<close>

datatype command_result = Executed | NeedMoreData | BadProtocol resp_error

definition dispatch :: "site \<Rightarrow> moment \<Rightarrow> resp_value \<Rightarrow> session \<Rightarrow> (command_result \<times> session) option" where
  "dispatch S m v cs =
     (case from_resp_zero_copy (uppercase S) (lower_of S) v of
        Inl Crash \<Rightarrow> None
      | Inl (Bad e) \<Rightarrow>
          (let c = (if in_multi (fst cs) then (fst cs)\<lparr>multi_errors := True\<rparr> else fst cs)
           in Some (Executed, respond_error e c, snd cs))
      | Inr req \<Rightarrow> map_option (\<lambda>((c, srv), r). (Executed, respond r c, srv)) (conn_step S m req cs))"

definition parse_and_dispatch :: "site \<Rightarrow> moment \<Rightarrow> session \<Rightarrow> (command_result \<times> session) option" where
  "parse_and_dispatch S m cs =
     (case codec_parse (element_size S) (rbuf (fst cs)) of
        Inr (Some v, rest) \<Rightarrow> dispatch S m v ((fst cs)\<lparr>rbuf := rest\<rparr>, snd cs)
      | Inr (None, _) \<Rightarrow> Some (NeedMoreData, cs)
      | Inl Panic \<Rightarrow> None
      | Inl e \<Rightarrow> Some (BadProtocol e, cs))"

definition try_execute_command :: "site \<Rightarrow> moment \<Rightarrow> session \<Rightarrow> (command_result \<times> session) option" where
  "try_execute_command S m cs =
     (if user_has_unrestricted_keys (fst cs) \<and> \<not> in_multi (fst cs)
      then case try_fast_path cs of
             None \<Rightarrow> None
           | Some (Handled, cs') \<Rightarrow> Some (Executed, cs')
           | Some (NeedMore, cs') \<Rightarrow> Some (NeedMoreData, cs')
           | Some (NotFastPath, cs') \<Rightarrow> parse_and_dispatch S m cs'
      else parse_and_dispatch S m cs)"

text \<open>
  The loop of \<open>run\<close> over the commands in the buffer; the clocks are read anew for each. \<open>None\<close> is a panic or an endless loop.
\<close>

partial_function (option) command_loop :: "site \<Rightarrow> (nat \<Rightarrow> moment) \<Rightarrow> session \<Rightarrow> session option" where
  "command_loop S clock cs =
     Option.bind (try_execute_command S (clock 0) cs) (\<lambda>(r, cs').
       case r of
         Executed \<Rightarrow> command_loop S (\<lambda>i. clock (Suc i)) cs'
       | NeedMoreData \<Rightarrow> Some cs'
       | BadProtocol e \<Rightarrow> Some (respond_error ''protocol error'' ((fst cs')\<lparr>rbuf := []\<rparr>), snd cs'))"

text \<open>What \<open>run\<close> does with the bytes of one read: what it writes, and whether the connection stays open. Writes succeed.\<close>

definition handle_read ::
  "connection_config \<Rightarrow> site \<Rightarrow> (nat \<Rightarrow> moment) \<Rightarrow> bytes \<Rightarrow> session \<Rightarrow> (bytes \<times> bool \<times> session) option" where
  "handle_read cfg S clock chunk cs =
     (case cs of (c, srv) \<Rightarrow>
        if length (rbuf c) + length chunk > max_buffer_size cfg
        then let c' = respond_error ''buffer overflow'' c in Some (wbuf c', False, c', srv)
        else do {cs1 \<leftarrow> batch_pipeline cfg (c\<lparr>rbuf := rbuf c @ chunk\<rparr>, srv);
                 (c2, srv2) \<leftarrow> command_loop S clock cs1;
                 Some (wbuf c2, True, c2\<lparr>wbuf := []\<rparr>, srv2)})"

text \<open>A read of no bytes is the end of the stream.\<close>

fun run ::
  "connection_config \<Rightarrow> site \<Rightarrow> (bytes \<times> (nat \<Rightarrow> moment)) list \<Rightarrow> session \<Rightarrow> (bytes \<times> session) option" where
  "run cfg S [] cs = Some ([], cs)"
| "run cfg S ((chunk, clock) # reads) cs =
     (if chunk = [] then Some ([], cs)
      else do {(out, open, cs1) \<leftarrow> handle_read cfg S clock chunk cs;
               if open then do {(out', cs2) \<leftarrow> run cfg S reads cs1; Some (out @ out', cs2)}
               else Some (out, cs1)})"

end
