(* ===== verification/Connection_Laws.thy ===== *)
theory Connection_Laws
  imports Connection_Step Acl_Laws
begin

text \<open>
  Properties of a connection: its loop ends, a pipeline is answered command by command, the permission check guards the
  store outside transactions, and the ways around it.
\<close>

section \<open>Commands and the buffers\<close>

text \<open>A command reads no buffer and leaves both alone.\<close>

definition with_rbuf :: "bytes \<Rightarrow> session \<Rightarrow> session" where
  "with_rbuf b cs = ((fst cs)\<lparr>rbuf := b\<rparr>, snd cs)"

lemma with_rbuf_sel [simp]:
  "fst (with_rbuf b cs) = (fst cs)\<lparr>rbuf := b\<rparr>" "snd (with_rbuf b cs) = snd cs"
  "with_rbuf b (with_rbuf b' cs) = with_rbuf b cs"
  "with_rbuf b (c, srv) = (c\<lparr>rbuf := b\<rparr>, srv)"
  by (simp_all add: with_rbuf_def)

definition on_reply :: "bytes \<Rightarrow> session \<times> resp_value \<Rightarrow> session \<times> resp_value" where
  "on_reply b = map_prod (with_rbuf b) id"

lemma on_reply_pair [simp]: "on_reply b (cs, r) = (with_rbuf b cs, r)"
  by (simp add: on_reply_def)

lemma record_acl_denial_rbuf: "record_acl_denial S mo (c\<lparr>rbuf := b\<rparr>) req e m = record_acl_denial S mo c req e m"
  by (simp add: record_acl_denial_def)

lemma conn_acl_rbuf: "conn_acl S m a (with_rbuf b cs) = on_reply b (conn_acl S m a cs)"
  by (cases a) (auto simp: conn_auth_def Let_def with_rbuf_def split: sum.splits prod.splits)

lemma exec_transaction_rbuf:
  "exec_transaction S m (with_rbuf b cs) = map_option (on_reply b) (exec_transaction S m cs)"
  by (cases cs) (auto simp: exec_transaction_def Let_def split: Option.bind_splits)

lemma checked_execute_rbuf:
  "checked_execute S m req (with_rbuf b cs) = map_option (on_reply b) (checked_execute S m req cs)"
  by (cases cs) (auto simp: checked_execute_def record_acl_denial_rbuf option.map_comp comp_def split_def
      intro!: option.map_cong0 split: option.splits sum.splits)

lemma step_in_multi_rbuf:
  "step_in_multi S m req (with_rbuf b cs) = map_option (on_reply b) (step_in_multi S m req cs)"
  by (cases "(S, m, req, cs)" rule: step_in_multi.cases)
    (simp_all add: exec_transaction_rbuf queue_unknown_def enqueue_def Let_def)

lemma step_outside_rbuf:
  "step_outside S m req (with_rbuf b cs) = map_option (on_reply b) (step_outside S m req cs)"
proof (cases "(S, m, req, cs)" rule: step_outside.cases)
  case (4 S' m' keys cs')
  then show ?thesis
    by (cases "snapshot (plat S) m keys (sharded (snd cs))") (simp_all add: split_def)
qed (simp_all add: checked_execute_rbuf conn_acl_rbuf)

lemma conn_step_rbuf: "conn_step S m req (with_rbuf b cs) = map_option (on_reply b) (conn_step S m req cs)"
  by (simp add: conn_step_def step_in_multi_rbuf step_outside_rbuf)

definition on_result :: "bytes \<Rightarrow> command_result \<times> session \<Rightarrow> command_result \<times> session" where
  "on_result b = map_prod id (with_rbuf b)"

lemma on_result_pair [simp]: "on_result b (r, cs) = (r, with_rbuf b cs)"
  by (simp add: on_result_def)

lemma dispatch_rbuf: "dispatch S m v (with_rbuf b cs) = map_option (on_result b) (dispatch S m v cs)"
proof (cases "from_resp_zero_copy (uppercase S) (lower_of S) v")
  case (Inl e)
  then show ?thesis by (cases e) (simp_all add: dispatch_def respond_error_def Let_def)
next
  case (Inr req)
  then show ?thesis
    by (cases "conn_step S m req cs") (auto simp: dispatch_def conn_step_rbuf)
qed

lemma conn_step_keeps_rbuf: "conn_step S m req cs = Some ((c', srv'), r) \<Longrightarrow> rbuf c' = rbuf (fst cs)"
  using arg_cong [OF conn_step_rbuf [of S m req "rbuf (fst cs)" cs], of "map_option (\<lambda>x. rbuf (fst (fst x)))"]
  by (simp add: with_rbuf_def)

lemma dispatch_keeps_rbuf: "dispatch S m v cs = Some (r, cs') \<Longrightarrow> rbuf (fst cs') = rbuf (fst cs)"
  using arg_cong [OF dispatch_rbuf [of S m v "rbuf (fst cs)" cs], of "map_option (\<lambda>x. rbuf (fst (snd x)))"]
  by (simp add: with_rbuf_def)

text \<open>Replies are appended: the output so far does not matter to a command, and each command adds one reply.\<close>

lemma conn_acl_keeps_wbuf: "conn_acl S m a cs = (cs', r) \<Longrightarrow> wbuf (fst cs') = wbuf (fst cs)"
  by (cases a) (auto simp: conn_auth_def Let_def split: sum.splits prod.splits)

lemma checked_execute_keeps:
  "checked_execute S m req cs = Some (cs', r) \<Longrightarrow> fst cs' = fst cs"
  by (cases cs) (auto simp: checked_execute_def split: option.splits sum.splits)

lemma exec_transaction_keeps_wbuf: "exec_transaction S m cs = Some (cs', r) \<Longrightarrow> wbuf (fst cs') = wbuf (fst cs)"
  by (cases cs) (auto simp: exec_transaction_def Let_def split: if_splits Option.bind_splits)

lemma conn_step_keeps_wbuf: "conn_step S m req cs = Some (cs', r) \<Longrightarrow> wbuf (fst cs') = wbuf (fst cs)"
  unfolding conn_step_def
  by (cases "(S, m, req, cs)" rule: step_outside.cases; cases "(S, m, req, cs)" rule: step_in_multi.cases)
    (auto simp: queue_unknown_def enqueue_def Let_def
      dest: conn_acl_keeps_wbuf checked_execute_keeps exec_transaction_keeps_wbuf split: if_splits)

definition error_value :: "string \<Rightarrow> resp_value" where
  "error_value msg = Error (butlast (butlast (tl (error_line msg))))"

lemma error_line_encode: "error_line msg = encode (error_value msg)"
  by (simp add: error_line_def error_value_def butlast_append)

lemma dispatch_one_reply:
  "dispatch S m v cs = Some (r, cs') \<Longrightarrow>
     r = Executed \<and> (\<exists>reply. wbuf (fst cs') = wbuf (fst cs) @ encode reply)"
  by (auto simp: dispatch_def Let_def respond_error_def error_line_encode encode_into_append
      split: sum.splits request_error.splits if_splits dest!: conn_step_keeps_wbuf)

lemma dispatch_rest: "dispatch S m v (c\<lparr>rbuf := b\<rparr>, srv) = Some (r, cs') \<Longrightarrow> r = Executed \<and> rbuf (fst cs') = b"
  by (auto dest: dispatch_one_reply dispatch_keeps_rbuf)

section \<open>The loop ends\<close>

lemma codec_parse_consumed:
  "codec_parse n s = Inr (Some v, rest) \<Longrightarrow> fits s \<Longrightarrow> length rest < length s \<and> fits rest"
  using codec.consumed [of s n v]
  by (auto simp: codec_parse_def fits_def split: if_splits sum.splits)

lemma fast_path_consumed:
  "try_fast_path cs = Some (r, cs') \<Longrightarrow> fits (rbuf (fst cs)) \<Longrightarrow>
     if r = Handled then length (rbuf (fst cs')) < length (rbuf (fst cs)) \<and> fits (rbuf (fst cs')) else cs' = cs"
  by (cases cs) (auto simp: try_fast_path_def try_fast_get_def try_fast_set_def Let_def fits_def split_def
      dest: get_frame_pos set_frame_pos split: if_splits frame.splits)

lemma parse_and_dispatch_consumed:
  "parse_and_dispatch S m cs = Some (r, cs') \<Longrightarrow> fits (rbuf (fst cs)) \<Longrightarrow>
     if r = Executed then length (rbuf (fst cs')) < length (rbuf (fst cs)) \<and> fits (rbuf (fst cs')) else cs' = cs"
  by (auto simp: parse_and_dispatch_def dest!: codec_parse_consumed dispatch_rest
      split: sum.splits option.splits prod.splits resp_error.splits)

lemma try_execute_consumed:
  assumes "try_execute_command S m cs = Some (r, cs')" "fits (rbuf (fst cs))"
  shows "if r = Executed then length (rbuf (fst cs')) < length (rbuf (fst cs)) \<and> fits (rbuf (fst cs')) else cs' = cs"
proof (cases "user_has_unrestricted_keys (fst cs) \<and> \<not> in_multi (fst cs)")
  case True
  then obtain f cs1 where f: "try_fast_path cs = Some (f, cs1)"
    using assms(1) by (auto simp: try_execute_command_def split: option.splits)
  show ?thesis
    using assms(1) True fast_path_consumed [OF f assms(2)] parse_and_dispatch_consumed [OF _ assms(2)] f
    by (cases f) (auto simp: try_execute_command_def split: if_splits)
next
  case False
  then have "try_execute_command S m cs = parse_and_dispatch S m cs" unfolding try_execute_command_def by (rule if_not_P)
  then show ?thesis using assms parse_and_dispatch_consumed [of S m cs r cs'] by simp
qed

text \<open>The session after \<open>n\<close> commands of one read.\<close>

fun after_commands :: "site \<Rightarrow> (nat \<Rightarrow> moment) \<Rightarrow> nat \<Rightarrow> session \<Rightarrow> session option" where
  "after_commands S clock 0 cs = Some cs"
| "after_commands S clock (Suc n) cs =
     (case try_execute_command S (clock 0) cs of
        Some (Executed, cs') \<Rightarrow> after_commands S (\<lambda>i. clock (Suc i)) n cs'
      | _ \<Rightarrow> None)"

definition loop_end :: "(command_result \<times> session) option \<Rightarrow> session option \<Rightarrow> bool" where
  "loop_end final res \<longleftrightarrow>
     (case final of
        None \<Rightarrow> res = None
      | Some (NeedMoreData, cs) \<Rightarrow> res = Some cs
      | Some (BadProtocol e, cs) \<Rightarrow> res = Some (respond_error ''protocol error'' ((fst cs)\<lparr>rbuf := []\<rparr>), snd cs)
      | Some (Executed, _) \<Rightarrow> False)"

text \<open>
  C20. The loop over the buffer ends after at most as many commands as the buffer has bytes, whatever the bytes are. It then
  has a buffer without a complete command, which it keeps, or a protocol error, for which it drops the buffer and answers;
  it returns nothing only when one of these commands panics.
\<close>

theorem command_loop_ends:
  assumes "fits (rbuf (fst cs))"
  shows "\<exists>n \<le> length (rbuf (fst cs)). \<exists>cs'. after_commands S clock n cs = Some cs' \<and>
    loop_end (try_execute_command S (clock n) cs') (command_loop S clock cs)"
  using assms
proof (induction "length (rbuf (fst cs))" arbitrary: cs clock rule: less_induct)
  case less
  note loop = command_loop.simps [of S clock cs]
  show ?case
  proof (cases "try_execute_command S (clock 0) cs")
    case None
    then show ?thesis using loop by (intro exI [of _ 0] conjI exI [of _ cs]) (simp_all add: loop_end_def)
  next
    case (Some x)
    then obtain r cs1 where step: "try_execute_command S (clock 0) cs = Some (r, cs1)" by (cases x) auto
    note used = try_execute_consumed [OF step less.prems]
    show ?thesis
    proof (cases r)
      case Executed
      then have "length (rbuf (fst cs1)) < length (rbuf (fst cs))" "fits (rbuf (fst cs1))" using used by auto
      from less.hyps [OF this, of "\<lambda>i. clock (Suc i)"] obtain n cs' where
        "n \<le> length (rbuf (fst cs1))" "after_commands S (\<lambda>i. clock (Suc i)) n cs1 = Some cs'"
        "loop_end (try_execute_command S (clock (Suc n)) cs') (command_loop S (\<lambda>i. clock (Suc i)) cs1)" by auto
      then show ?thesis using step Executed loop used
        by (intro exI [of _ "Suc n"] conjI exI [of _ cs']) auto
    qed (use step loop in \<open>auto intro!: exI [of _ 0] exI [of _ cs] simp: loop_end_def simp del: split_paired_Ex\<close>)
  qed
qed

definition site_example :: site where
  "site_example =
     \<lparr>plat = \<lparr>orders = (\<lambda>_. sorted_list_of_fset), lowercase = id, scripts = (\<lambda>_ _. None)\<rparr>, uppercase = id,
      sha256 = id, acl_order = sorted_list_of_fset, category_order = (\<lambda>_. []), element_size = 40, epoch_secs = (\<lambda>_. 0)\<rparr>"

definition moment_example :: moment where
  "moment_example = \<lparr>now_millis = 0, unix_secs = 0, unix_usecs = 0, unix_nanos = 0, info_text = (\<lambda>_. [])\<rparr>"

definition session_example :: "acl_manager \<Rightarrow> session" where
  "session_example m = (connection_new m ''client'' None, \<lparr>sharded = sharded_new 2 0, acl = m\<rparr>)"

theorem command_loop_ends_witness:
  "\<exists>n \<le> 14. \<exists>cs'.
     after_commands site_example (\<lambda>_. moment_example) n
       (with_rbuf (''*1'' @ CRLF @ ''$4'' @ CRLF @ ''PING'' @ CRLF) (session_example acl_manager_new)) = Some cs' \<and>
     loop_end (try_execute_command site_example moment_example cs')
       (command_loop site_example (\<lambda>_. moment_example)
         (with_rbuf (''*1'' @ CRLF @ ''$4'' @ CRLF @ ''PING'' @ CRLF) (session_example acl_manager_new)))"
proof -
  define b where "b = ''*1'' @ CRLF @ ''$4'' @ CRLF @ ''PING'' @ CRLF"
  have "length b = 14" "fits b" by (simp_all add: b_def fits_def)
  then show ?thesis
    unfolding b_def [symmetric]
    using command_loop_ends [of "with_rbuf b (session_example acl_manager_new)" site_example "\<lambda>_. moment_example"] by simp
qed

section \<open>Pipelines\<close>

text \<open>Clients send their commands as arrays of bulk strings.\<close>

fun is_bulk :: "resp_value \<Rightarrow> bool" where
  "is_bulk (BulkString (Some _)) = True"
| "is_bulk _ = False"

fun client_command :: "resp_value \<Rightarrow> bool" where
  "client_command (Array (Some xs)) = list_all is_bulk xs"
| "client_command _ = False"

lemma cr_split:
  "CR \<notin> set a \<Longrightarrow> CR \<notin> set b \<Longrightarrow> a @ CR # x = b @ CR # y \<longleftrightarrow> a = b \<and> x = y"
proof (induction a arbitrary: b)
  case Nil
  then show ?case by (cases b) auto
next
  case (Cons c a)
  then show ?case by (cases b) auto
qed

lemma show_nat_inj: "show_nat m = show_nat n \<longleftrightarrow> m = n"
  by (metis parse_show_nat option.inject)

lemma show_nat_line: "show_nat n @ CRLF @ x = show_nat k @ CRLF @ y \<longleftrightarrow> n = k \<and> x = y"
  using cr_split [OF CR_notin_show_nat CR_notin_show_nat, of n "LF # x" k "LF # y"] by (simp add: show_nat_inj)

definition bulk_bytes :: "string \<Rightarrow> bytes" where
  "bulk_bytes w = ''$'' @ show_nat (length w) @ CRLF @ w @ CRLF"

definition command_bytes :: "nat \<Rightarrow> string \<Rightarrow> bytes" where
  "command_bytes n w = ''*'' @ show_nat n @ CRLF @ bulk_bytes w"

lemma show_nat_minus_line: "show_nat n @ x \<noteq> CHR ''-'' # y"
  using show_nat_hd [of n] digit_char_not_sign by fastforce

lemma bulk_starts_with:
  assumes "encode v @ rest = bulk_bytes w @ t"
  shows "v = BulkString (Some w)"
proof (cases v)
  case (BulkString d)
  then obtain a where v: "v = BulkString (Some a)"
    using assms show_nat_minus_line [of "length w", THEN not_sym] by (cases d) (auto simp: bulk_bytes_def)
  then have "length a = length w \<and> a @ CRLF @ rest = w @ CRLF @ t"
    using assms show_nat_line [of "length a" "a @ CRLF @ rest" "length w" "w @ CRLF @ t"] by (simp add: bulk_bytes_def)
  then show ?thesis using v by (auto simp: append_eq_append_conv)
next
  case (Array xs)
  then show ?thesis using assms by (cases xs) (auto simp: bulk_bytes_def)
qed (use assms in \<open>auto simp: bulk_bytes_def\<close>)

lemma encode_starts_with:
  assumes "encode v @ rest = command_bytes (Suc n) w @ t"
  shows "\<exists>xs. v = Array (Some (BulkString (Some w) # xs)) \<and> length xs = n"
proof (cases v)
  case (Array xs)
  then obtain ys where v: "v = Array (Some ys)"
    using assms show_nat_minus_line [of "Suc n", THEN not_sym] by (cases xs) (auto simp: command_bytes_def)
  then have ys: "length ys = Suc n" "concat (map encode ys) @ rest = bulk_bytes w @ t"
    using assms show_nat_line [of "length ys" "concat (map encode ys) @ rest" "Suc n" "bulk_bytes w @ t"]
    by (simp_all add: command_bytes_def)
  then obtain y zs where "ys = y # zs" "length zs = n" by (cases ys) auto
  then show ?thesis using ys(2) bulk_starts_with [of y] v by fastforce
next
  case (BulkString d)
  then show ?thesis using assms by (cases d) (auto simp: command_bytes_def)
qed (use assms in \<open>auto simp: command_bytes_def\<close>)

lemma starts_with_iff: "starts_with p s \<longleftrightarrow> (\<exists>t. s = p @ t)"
  unfolding starts_with_def by (metis append_take_drop_id append_eq_conv_conj)

lemma headers:
  "command_bytes 2 ''GET'' = ''*2'' @ CRLF @ ''$3'' @ CRLF @ ''GET'' @ CRLF"
  "command_bytes 2 ''get'' = ''*2'' @ CRLF @ ''$3'' @ CRLF @ ''get'' @ CRLF"
  "command_bytes 3 ''SET'' = ''*3'' @ CRLF @ ''$3'' @ CRLF @ ''SET'' @ CRLF"
  "command_bytes 3 ''set'' = ''*3'' @ CRLF @ ''$3'' @ CRLF @ ''set'' @ CRLF"
proof -
  have "show_nat 2 = ''2''" "show_nat 3 = ''3''" by (simp_all add: show_nat.simps)
  moreover have "length ''GET'' = 3" "length ''get'' = 3" "length ''SET'' = 3" "length ''set'' = 3" by simp_all
  ultimately show "command_bytes 2 ''GET'' = ''*2'' @ CRLF @ ''$3'' @ CRLF @ ''GET'' @ CRLF"
    "command_bytes 2 ''get'' = ''*2'' @ CRLF @ ''$3'' @ CRLF @ ''get'' @ CRLF"
    "command_bytes 3 ''SET'' = ''*3'' @ CRLF @ ''$3'' @ CRLF @ ''SET'' @ CRLF"
    "command_bytes 3 ''set'' = ''*3'' @ CRLF @ ''$3'' @ CRLF @ ''set'' @ CRLF"
    by (simp_all only: command_bytes_def bulk_bytes_def) simp_all
qed

lemma header_command:
  assumes "get_header buf \<or> set_header buf"
  obtains n w t where "n = 2 \<or> n = 3" "buf = command_bytes n w @ t" "length (command_bytes n w) = 13"
proof -
  have "length (command_bytes 2 ''GET'') = 13" "length (command_bytes 2 ''get'') = 13"
    "length (command_bytes 3 ''SET'') = 13" "length (command_bytes 3 ''set'') = 13"
    by (simp_all add: headers)
  then show thesis
    using assms that unfolding get_header_def set_header_def starts_with_iff headers [symmetric] by blast
qed

lemma digit_not_dollar: "d < 10 \<Longrightarrow> digit_char d \<noteq> CHR ''$''"
proof
  assume "d < 10" "digit_char d = CHR ''$''"
  then have "48 + d = (of_char CHR ''$'' :: nat)" using digit_char_code by metis
  then show False by simp
qed

text \<open>
  Behind the thirteen bytes of the header a client's command goes on with a dollar sign and a digit. So byte 14, where the
  fast paths look for the dollar sign, has a digit.
\<close>

lemma client_after_header:
  assumes "client_command v" "encode v @ rest = command_bytes n w @ u" "n = 2 \<or> n = 3"
  obtains k t where "u = bulk_bytes k @ t"
proof -
  have "encode v @ rest = command_bytes (Suc (n - 1)) w @ u" using assms(2,3) by (metis Suc_pred' zero_less_numeral)
  then obtain xs where v: "v = Array (Some (BulkString (Some w) # xs))" "length xs = n - 1"
    using encode_starts_with by blast
  then obtain k ys where xs: "xs = BulkString (Some k) # ys"
    using assms(1,3) by (cases xs) (auto elim: is_bulk.elims)
  then have "u = bulk_bytes k @ concat (map encode ys) @ rest"
    using assms(2,3) v by (auto simp: command_bytes_def bulk_bytes_def)
  then show thesis by (rule that)
qed

lemma client_byte_14:
  assumes "client_command v" "buf @ t = encode v @ rest" "get_header buf \<or> set_header buf" "14 < length buf"
  shows "buf ! 14 \<noteq> CHR ''$''"
proof -
  obtain n w u where n: "n = 2 \<or> n = 3" and buf: "buf = command_bytes n w @ u" and len: "length (command_bytes n w) = 13"
    by (rule header_command [OF assms(3)])
  then have "encode v @ rest = command_bytes n w @ u @ t" using assms(2) by simp
  then obtain k r where "u @ t = bulk_bytes k @ r" using client_after_header [OF assms(1)] n by blast
  moreover obtain d cs where "d < 10" "show_nat (length k) = digit_char d # cs" using show_nat_hd by blast
  ultimately have "(u @ t) ! 1 \<noteq> CHR ''$''" by (simp add: bulk_bytes_def digit_not_dollar)
  then show ?thesis using assms(4) buf len by (simp add: nth_append)
qed

lemma client_frames:
  assumes "client_command v" "buf @ t = encode v @ rest"
  shows "get_header buf \<Longrightarrow> get_frame buf = (if length buf < 15 then Partial else Unfit)"
    and "set_header buf \<Longrightarrow> set_frame buf = (if length buf < 15 then Partial else Unfit)"
  using client_byte_14 [OF assms] by (simp_all add: get_frame_def set_frame_def)

lemma header_long:
  assumes "client_command v" "get_header (encode v @ rest) \<or> set_header (encode v @ rest)"
  shows "15 \<le> length (encode v @ rest)"
proof -
  obtain n w u where n: "n = 2 \<or> n = 3" and buf: "encode v @ rest = command_bytes n w @ u"
    and len: "length (command_bytes n w) = 13"
    by (rule header_command [OF assms(2)])
  then obtain k r where "u = bulk_bytes k @ r" using client_after_header [OF assms(1)] by blast
  then show ?thesis unfolding buf using len by (simp add: bulk_bytes_def)
qed

fun dispatch_all :: "site \<Rightarrow> (nat \<Rightarrow> moment) \<Rightarrow> resp_value list \<Rightarrow> session \<Rightarrow> session option" where
  "dispatch_all S clock [] cs = Some cs"
| "dispatch_all S clock (v # vs) cs =
     Option.bind (dispatch S (clock 0) v cs) (\<lambda>(_, cs'). dispatch_all S (\<lambda>i. clock (Suc i)) vs cs')"

lemma dispatch_all_rbuf:
  "dispatch_all S clock vs (with_rbuf b cs) = map_option (with_rbuf b) (dispatch_all S clock vs cs)"
proof (induction vs arbitrary: cs clock)
  case (Cons v vs)
  then show ?case by (cases "dispatch S (clock 0) v cs") (auto simp: dispatch_rbuf)
qed simp

lemma dispatch_all_replies:
  "dispatch_all S clock vs cs = Some cs' \<Longrightarrow>
     \<exists>replies. length replies = length vs \<and> wbuf (fst cs') = wbuf (fst cs) @ concat (map encode replies)"
proof (induction vs arbitrary: cs clock)
  case (Cons v vs)
  then obtain r cs1 where step: "dispatch S (clock 0) v cs = Some (r, cs1)"
    and rest: "dispatch_all S (\<lambda>i. clock (Suc i)) vs cs1 = Some cs'" by (auto split: Option.bind_splits)
  from dispatch_one_reply [OF step] obtain reply where "wbuf (fst cs1) = wbuf (fst cs) @ encode reply" by blast
  moreover from Cons.IH [OF rest] obtain replies where
    "length replies = length vs" "wbuf (fst cs') = wbuf (fst cs1) @ concat (map encode replies)" by blast
  ultimately show ?case by (intro exI [of _ "reply # replies"]) simp
qed simp

lemma client_fast_path:
  assumes "client_command v"
  shows "try_fast_path (with_rbuf (encode v @ rest) cs) = Some (NotFastPath, with_rbuf (encode v @ rest) cs)"
  using client_frames [OF assms, of "encode v @ rest" "[]" rest] header_long [OF assms, of rest]
  by (auto simp: try_fast_path_def try_fast_get_def try_fast_set_def Let_def with_rbuf_def split_def)

lemma client_fast_path_part:
  assumes "client_command v" "encode v = part @ missing"
  shows "\<exists>r \<in> {NeedMore, NotFastPath}. try_fast_path (with_rbuf part cs) = Some (r, with_rbuf part cs)"
  using client_frames [OF assms(1), of part missing "[]"] assms(2)
  by (auto simp: try_fast_path_def try_fast_get_def try_fast_set_def Let_def with_rbuf_def split_def)

lemma client_step:
  assumes "codec_wf (element_size S) v" "client_command v" "fits (encode v @ rest)"
  shows "try_execute_command S m (with_rbuf (encode v @ rest) cs) = dispatch S m v (with_rbuf rest cs)"
proof -
  have parse: "try_parse (element_size S) (encode v @ rest) = Inr (v, length (encode v))"
    using assms by (intro codec.recovers)
  then have "encode v @ rest \<noteq> []" using codec.consumed [OF assms(3)] by fastforce
  then have "parse_and_dispatch S m (with_rbuf (encode v @ rest) cs) = dispatch S m v (with_rbuf rest cs)"
    using parse by (simp add: parse_and_dispatch_def codec_parse_def with_rbuf_def)
  then show ?thesis unfolding try_execute_command_def client_fast_path [OF assms(2)] by simp
qed

lemma command_loop_waits:
  assumes "codec_wf (element_size S) v" "client_command v" "fits (encode v)" "encode v = part @ missing" "missing \<noteq> []"
  shows "command_loop S clock (with_rbuf part cs) = Some (with_rbuf part cs)"
proof -
  have "codec_parse (element_size S) part = Inr (None, part)"
    using codec.prefix_incomplete [OF assms(1,3-5)] by (auto simp: codec_parse_def)
  then have "parse_and_dispatch S (clock 0) (with_rbuf part cs) = Some (NeedMoreData, with_rbuf part cs)"
    by (simp add: parse_and_dispatch_def)
  then have "try_execute_command S (clock 0) (with_rbuf part cs) = Some (NeedMoreData, with_rbuf part cs)"
    using client_fast_path_part [OF assms(2,4), of cs] by (auto simp: try_execute_command_def)
  then show ?thesis by (subst command_loop.simps) simp
qed

lemma client_loop:
  assumes "list_all (\<lambda>v. codec_wf (element_size S) v \<and> client_command v) (vs @ [next])"
    and "encode next = part @ missing" "missing \<noteq> []" "fits (concat (map encode (vs @ [next])))"
  shows "command_loop S clock (with_rbuf (concat (map encode vs) @ part) cs) =
    dispatch_all S clock vs (with_rbuf part cs)"
  using assms(1,4)
proof (induction vs arbitrary: cs clock)
  case Nil
  then show ?case using command_loop_waits [OF _ _ _ assms(2,3), of S clock cs] by simp
next
  case (Cons v vs)
  let ?rest = "concat (map encode vs) @ part"
  have fits: "fits (encode v @ ?rest)" "fits (concat (map encode (vs @ [next])))"
    using Cons.prems(2) assms(2) by (auto simp: fits_def)
  then have step: "try_execute_command S (clock 0) (with_rbuf (encode v @ ?rest) cs) =
      map_option (on_result ?rest) (dispatch S (clock 0) v cs)"
    using Cons.prems client_step [of S v ?rest] by (simp add: dispatch_rbuf)
  have IH: "command_loop S clock (with_rbuf ?rest cs) = dispatch_all S clock vs (with_rbuf part cs)" for cs clock
    using Cons fits(2) by simp
  show ?case
  proof (cases "dispatch S (clock 0) v cs")
    case None
    then show ?thesis using step by (subst command_loop.simps) (simp add: dispatch_rbuf)
  next
    case (Some x)
    then obtain cs1 where "dispatch S (clock 0) v cs = Some (Executed, cs1)" by (cases x) (auto dest: dispatch_one_reply)
    then show ?thesis using step IH by (subst command_loop.simps) (simp add: dispatch_rbuf)
  qed
qed

lemma client_collects:
  assumes "client_command v" "buf @ t = encode v @ rest"
  shows "collect_get_keys buf = Some ([], buf)" "collect_set_pairs buf = Some ([], buf)"
  using client_frames [OF assms] by (simp_all add: collect_get_keys.simps collect_set_pairs.simps)

lemma client_batches:
  assumes "client_command v" "buf @ t = encode v @ rest" "0 < batch_threshold cfg"
  shows "batch_pipeline cfg (with_rbuf buf cs) = Some (with_rbuf buf cs)"
  using client_collects [OF assms(1,2)] assms(3)
  by (auto simp: batch_pipeline_def batch_gets_def batch_sets_def with_rbuf_def)

text \<open>
  C19. What a client sends is answered in full. Let the bytes left over from earlier reads and those of this read be any
  commands, arrays of bulk strings, and then a part of a next one, cut anywhere. Then the read does the commands in order,
  as if each had come alone, writes exactly one reply for each, in the same order, and keeps the part for the next read.
\<close>

theorem reads_answered:
  assumes "list_all (\<lambda>v. codec_wf (element_size S) v \<and> client_command v) (vs @ [next])"
    and "encode next = part @ missing" "missing \<noteq> []" "fits (concat (map encode (vs @ [next])))"
    and "rbuf c @ chunk = concat (map encode vs) @ part"
    and "length (rbuf c) + length chunk \<le> max_buffer_size cfg" "0 < batch_threshold cfg"
  shows "handle_read cfg S clock chunk (c, srv) =
      map_option (\<lambda>(c', srv'). (wbuf c', True, c'\<lparr>wbuf := []\<rparr>, srv')) (dispatch_all S clock vs (c\<lparr>rbuf := part\<rparr>, srv)) \<and>
    (\<forall>c' srv'. dispatch_all S clock vs (c\<lparr>rbuf := part\<rparr>, srv) = Some (c', srv') \<longrightarrow> rbuf c' = part \<and>
      (\<exists>replies. length replies = length vs \<and> wbuf c' = wbuf c @ concat (map encode replies)))"
proof
  let ?buf = "concat (map encode vs) @ part"
  obtain v t rest where "client_command v" "?buf @ t = encode v @ rest"
  proof (cases vs)
    case Nil
    then show ?thesis using that [of "next" missing "[]"] assms(1,2) by simp
  next
    case (Cons v vs')
    then show ?thesis using that [of v "[]" "concat (map encode vs') @ part"] assms(1) by simp
  qed
  then have "batch_pipeline cfg (with_rbuf ?buf (c, srv)) = Some (with_rbuf ?buf (c, srv))"
    using assms(7) by (rule client_batches)
  then show "handle_read cfg S clock chunk (c, srv) =
      map_option (\<lambda>(c', srv'). (wbuf c', True, c'\<lparr>wbuf := []\<rparr>, srv')) (dispatch_all S clock vs (c\<lparr>rbuf := part\<rparr>, srv))"
    using client_loop [OF assms(1-4), of clock "(c, srv)"] assms(5,6)
    by (cases "dispatch_all S clock vs (c\<lparr>rbuf := part\<rparr>, srv)") (auto simp: handle_read_def)
  show "\<forall>c' srv'. dispatch_all S clock vs (c\<lparr>rbuf := part\<rparr>, srv) = Some (c', srv') \<longrightarrow> rbuf c' = part \<and>
      (\<exists>replies. length replies = length vs \<and> wbuf c' = wbuf c @ concat (map encode replies))"
    using dispatch_all_rbuf [of S clock vs part "(c, srv)"]
      dispatch_all_replies [of S clock vs "(c\<lparr>rbuf := part\<rparr>, srv)"] by (auto simp: with_rbuf_def)
qed

theorem reads_answered_witness:
  "let ping = Array (Some [bulk ''PING'']); c = connection_new acl_manager_new ''client'' None;
       srv = \<lparr>sharded = sharded_new 2 0, acl = acl_manager_new\<rparr>; clock = (\<lambda>_. moment_example)
   in handle_read config_default site_example clock (encode ping @ encode ping @ ''*1'') (c, srv) =
      map_option (\<lambda>(c', srv'). (wbuf c', True, c'\<lparr>wbuf := []\<rparr>, srv'))
        (dispatch_all site_example clock [ping, ping] (c\<lparr>rbuf := ''*1''\<rparr>, srv))"
proof -
  let ?ping = "Array (Some [bulk ''PING''])"
  have e: "encode ?ping = ''*1'' @ (CRLF @ ''$4'' @ CRLF @ ''PING'' @ CRLF)" by code_simp
  show ?thesis unfolding Let_def
    using reads_answered [of site_example "[?ping, ?ping]" ?ping, OF _ e,
        of "connection_new acl_manager_new ''client'' None" "encode ?ping @ encode ?ping @ ''*1''" config_default]
    by (simp add: e site_example_def connection_new_def config_default_def fits_def del: encode.simps)
qed

text \<open>
  C26. The fast paths are never taken: whatever command a client sends, the fast path for \<open>GET\<close> and \<open>SET\<close> declines it, and
  the batching of pipelines collects nothing. The constant for the length of the header is one too large.
\<close>

theorem fast_paths_never_taken:
  assumes "client_command v"
  shows "try_fast_path (c\<lparr>rbuf := encode v @ rest\<rparr>, srv) = Some (NotFastPath, c\<lparr>rbuf := encode v @ rest\<rparr>, srv) \<and>
    collect_get_keys (encode v @ rest) = Some ([], encode v @ rest) \<and>
    collect_set_pairs (encode v @ rest) = Some ([], encode v @ rest)"
  using client_fast_path [OF assms, of rest "(c, srv)"] client_collects [OF assms, of "encode v @ rest" "[]" rest] by simp

theorem fast_paths_never_taken_witness:
  "let c = connection_new acl_manager_new ''client'' None; srv = \<lparr>sharded = sharded_new 2 0, acl = acl_manager_new\<rparr>;
       b = encode (Array (Some [bulk ''GET'', bulk ''key'']))
   in try_fast_path (c\<lparr>rbuf := b\<rparr>, srv) = Some (NotFastPath, c\<lparr>rbuf := b\<rparr>, srv)"
  using fast_paths_never_taken [of "Array (Some [bulk ''GET'', bulk ''key''])" "[]" "connection_new acl_manager_new ''client'' None"
      "\<lparr>sharded = sharded_new 2 0, acl = acl_manager_new\<rparr>"]
  by (simp add: Let_def)

section \<open>Bytes that get past the permission check\<close>

text \<open>One byte too many behind the header of a \<open>GET\<close> is what the batching expects.\<close>

definition crafted_get :: "char \<Rightarrow> string \<Rightarrow> bytes" where
  "crafted_get x key = command_bytes 2 ''GET'' @ [x] @ bulk_bytes key"

lemma parse_usize_fast_show: "n < 2 ^ 64 \<Longrightarrow> parse_usize_fast (show_nat n) = Some n"
  by (simp add: parse_usize_fast_def parse_unsigned_show)

lemma length_field_line:
  "n < 2 ^ 64 \<Longrightarrow> length_field (show_nat n @ CRLF @ t) = Frame (length (show_nat n), n) 0"
  using memchr_header [OF CR_notin_show_nat, of n "LF # t"] by (simp add: length_field_def parse_usize_fast_show)

lemma slice_prefix: "i = length p \<Longrightarrow> slice (p @ key @ rest) i (i + length key) = key"
  by (simp add: slice_def)

lemma crafted_frame:
  assumes "fits (crafted_get x key @ rest)"
  shows "get_frame (crafted_get x key @ rest) = Frame key (length (crafted_get x key))"
proof -
  let ?n = "show_nat (length key)"
  have small: "length key < 2 ^ 64" "17 + length ?n + length key + 2 < 2 ^ 64" "17 + length ?n + length key < 2 ^ 64"
    using assms by (simp_all add: fits_def crafted_get_def headers bulk_bytes_def)
  have buf: "crafted_get x key @ rest =
      (command_bytes 2 ''GET'' @ [x, CHR ''$'']) @ ?n @ CRLF @ key @ CRLF @ rest"
    by (simp add: crafted_get_def bulk_bytes_def)
  have len: "length (command_bytes 2 ''GET'' @ [x, CHR ''$'']) = 15" by (simp add: headers)
  then have "drop 15 (crafted_get x key @ rest) = ?n @ CRLF @ key @ CRLF @ rest" unfolding buf by simp
  moreover have "(crafted_get x key @ rest) ! 14 = CHR ''$''" unfolding buf by (simp add: headers nth_append)
  moreover have "slice (crafted_get x key @ rest) (17 + length ?n) (17 + length ?n + length key) = key"
    using slice_prefix [of "17 + length ?n" "command_bytes 2 ''GET'' @ [x, CHR ''$''] @ ?n @ CRLF" key "CRLF @ rest"] len
    unfolding buf by simp
  moreover have "length (crafted_get x key @ rest) = 17 + length ?n + length key + 2 + length rest"
    "length (crafted_get x key) = 17 + length ?n + length key + 2"
    unfolding buf using len by (simp_all add: crafted_get_def bulk_bytes_def headers)
  ultimately show ?thesis
    using small length_field_line [of "length key" "key @ CRLF @ rest"]
    by (simp add: get_frame_def Let_def wadd_def add.commute add.left_commute)
qed

lemma crafted_header: "get_header (crafted_get x key @ rest)"
  by (simp add: get_header_def starts_with_def crafted_get_def headers)

lemma crafted_collected:
  "fits (concat (map (crafted_get x) keys)) \<Longrightarrow> collect_get_keys (concat (map (crafted_get x) keys)) = Some (keys, [])"
proof (induction keys)
  case (Cons key keys)
  let ?rest = "concat (map (crafted_get x) keys)"
  have "fits ?rest" "get_frame (crafted_get x key @ ?rest) = Frame key (length (crafted_get x key))"
    using Cons.prems crafted_frame [of x key ?rest] by (simp_all add: fits_def)
  moreover have "15 \<le> length (crafted_get x key)" by (simp add: crafted_get_def headers bulk_bytes_def)
  ultimately show ?case
    using Cons.IH crafted_header [of x key ?rest] by (simp add: collect_get_keys.simps [of "crafted_get x key @ ?rest"])
qed (simp add: collect_get_keys.simps)

lemma respond_all_eq: "respond_all rs c = c\<lparr>wbuf := wbuf c @ concat (map encode rs)\<rparr>"
  by (induction rs arbitrary: c) (simp_all add: respond_all_def encode_into_append)

lemma command_loop_empty: "rbuf (fst cs) = [] \<Longrightarrow> command_loop S clock cs = Some cs"
  by (subst command_loop.simps) (simp add: try_execute_command_def try_fast_path_def parse_and_dispatch_def codec_parse_def Let_def)

text \<open>
  C27. The batching of pipelines comes before any check of permissions. Two or more \<open>GET\<close> commands with one
  byte too many behind the header, in a read of at least \<open>min_pipeline_buffer\<close> bytes, are answered with the contents of
  the keys, whoever the user is and whatever the access control manager says: also when authentication is required
  and the client has not authenticated.
\<close>

theorem crafted_gets_unchecked:
  assumes "input = concat (map (crafted_get x) keys)" "fits input" "min_pipeline_buffer cfg \<le> length input"
    and "length input \<le> max_buffer_size cfg" "0 < batch_threshold cfg" "batch_threshold cfg \<le> length keys"
    and "rbuf c = []" "\<not> in_multi c" "fast_batch_get_pipeline keys (sharded srv) = (st, rs)"
  shows "handle_read cfg S clock input (c, srv) =
    Some (wbuf c @ concat (map encode rs), True, c\<lparr>wbuf := []\<rparr>, srv\<lparr>sharded := st\<rparr>)"
proof -
  let ?c = "c\<lparr>wbuf := wbuf c @ concat (map encode rs)\<rparr>"
  have "batch_gets cfg (c\<lparr>rbuf := input\<rparr>, srv) = Some (?c, srv\<lparr>sharded := st\<rparr>)"
    using crafted_collected [of x keys] assms by (simp add: batch_gets_def respond_all_eq)
  moreover have "batch_sets cfg (?c, srv\<lparr>sharded := st\<rparr>) = Some (?c, srv\<lparr>sharded := st\<rparr>)"
    using assms by (simp add: batch_sets_def collect_set_pairs.simps)
  ultimately have "batch_pipeline cfg (c\<lparr>rbuf := input\<rparr>, srv) = Some (?c, srv\<lparr>sharded := st\<rparr>)"
    using assms by (simp add: batch_pipeline_def)
  then show ?thesis using assms command_loop_empty [of "(?c, srv\<lparr>sharded := st\<rparr>)" S clock]
    by (simp add: handle_read_def)
qed

theorem crafted_gets_unchecked_witness:
  "let m = acl_manager_new_with_auth; c = connection_new m ''client'' None; keys = [''key'', ''a'', ''key''];
       srv = \<lparr>sharded = sharded_new 2 0, acl = m\<rparr>; got = fast_batch_get_pipeline keys (sharded_new 2 0)
   in require_auth m \<and> conn_user c = None \<and>
     handle_read config_default site_example (\<lambda>_. moment_example) (concat (map (crafted_get CHR ''x'') keys)) (c, srv) =
       Some (concat (map encode (snd got)), True, c, srv\<lparr>sharded := fst got\<rparr>)"
proof -
  let ?m = acl_manager_new_with_auth and ?keys = "[''key'', ''a'', ''key'']"
  have len: "length (concat (map (crafted_get CHR ''x'') ?keys)) = 67"
    by (simp add: crafted_get_def headers bulk_bytes_def show_nat.simps)
  have "require_auth ?m" "conn_user (connection_new ?m ''client'' None) = None"
    by (simp_all add: acl_manager_new_with_auth_def connection_new_def initial_user_def)
  then show ?thesis
    using crafted_gets_unchecked [of "concat (map (crafted_get CHR ''x'') ?keys)" "CHR ''x''" ?keys config_default
        "connection_new ?m ''client'' None" "\<lparr>sharded = sharded_new 2 0, acl = ?m\<rparr>"
        "fst (fast_batch_get_pipeline ?keys (sharded_new 2 0))" "snd (fast_batch_get_pipeline ?keys (sharded_new 2 0))"
        site_example "\<lambda>_. moment_example"] len
    by (simp add: Let_def fits_def config_default_def connection_new_def del: concat.simps list.map)
qed

section \<open>Permissions\<close>

lemma check_acl_permission_granted:
  assumes "check_acl_permission S m cached req = Some (Inr x)" "require_auth m"
  shows "\<exists>cu u name sub. cached = Some cu \<and> get_user m (user_name cu) = Some u \<and>
    command_words_of req = Some (name, sub) \<and>
    (subcommand_allowed S (Some u) sub \<or>
     user_enabled u \<and> is_command_permitted (uppercase S) (user_commands u) (uppercase S name)) \<and>
    list_all (is_key_permitted (user_keys u)) (request_keys req)"
proof -
  obtain cu where cu: "cached = Some cu" using assms by (cases cached) (auto simp: check_acl_permission_def)
  then obtain name sub where words: "command_words_of req = Some (name, sub)"
    using assms by (auto simp: check_acl_permission_def Let_def)
  obtain u where u: "get_user m (user_name cu) = Some u"
    using assms cu words
    by (cases "get_user m (user_name cu)")
      (auto simp: check_acl_permission_def check_command_def subcommand_allowed_def split: option.splits)
  show ?thesis
    using assms cu words u check_keys_iff [of u "request_keys req"]
    by (auto simp: check_acl_permission_def check_command_def Let_def list_all_iff split: if_splits sum.splits)
qed

lemma conn_acl_keeps_shards: "conn_acl S m a cs = (cs', r) \<Longrightarrow> sharded (snd cs') = sharded (snd cs)"
  by (cases a) (auto simp: conn_auth_def Let_def on_acl_def split: sum.splits prod.splits)

lemma step_outside_changes:
  assumes "step_outside S m req cs = Some (cs', r)" "sharded (snd cs') \<noteq> sharded (snd cs)" "\<And>keys. req \<noteq> Core (Watch keys)"
  shows "checked_execute S m req cs = Some (cs', r)"
  using assms by (cases "(S, m, req, cs)" rule: step_outside.cases) (auto dest: conn_acl_keeps_shards split: if_splits)

text \<open>
  C21. Outside a transaction the permission check guards the store: when authentication is required and a command other than
  \<open>WATCH\<close> changes a shard, then the client has authenticated, its user exists now, every key of the command is permitted to the user
  as the manager has it now, and so is the command: by name, with the user enabled, or by its subcommand.
\<close>

theorem changes_need_permission:
  assumes "conn_step S m req (c, srv) = Some ((c', srv'), r)" "sharded srv' \<noteq> sharded srv"
    and "\<not> in_multi c" "require_auth (acl srv)" "\<forall>keys. req \<noteq> Core (Watch keys)"
  shows "\<exists>cu u name sub. conn_user c = Some cu \<and> get_user (acl srv) (user_name cu) = Some u \<and>
    command_words_of req = Some (name, sub) \<and>
    (subcommand_allowed S (Some u) sub \<or>
     user_enabled u \<and> is_command_permitted (uppercase S) (user_commands u) (uppercase S name)) \<and>
    list_all (is_key_permitted (user_keys u)) (request_keys req)"
proof -
  have "checked_execute S m req (c, srv) = Some ((c', srv'), r)"
    using step_outside_changes [of S m req "(c, srv)" "(c', srv')" r] assms by (simp add: conn_step_def)
  then obtain x where "check_acl_permission S (acl srv) (conn_user c) req = Some (Inr x)"
    using assms(2) by (auto simp: checked_execute_def on_acl_def split: option.splits sum.splits)
  then show ?thesis using assms(4) by (rule check_acl_permission_granted)
qed

lemma get_counted:
  "\<exists>st r. sharded_execute (plat site_example) moment_example (StringR (Get ''key'')) (sharded_new 1 0) = Some (st, r) \<and>
     st \<noteq> sharded_new 1 0"
proof -
  let ?run = "sharded_execute (plat site_example) moment_example (StringR (Get ''key'')) (sharded_new 1 0)"
  have "map_option (\<lambda>(st, r). commands_processed (store (hd (shards st)))) ?run = Some 1"
    by (simp add: sharded_execute_def route_request_def on_shard_def shard_execute_def Let_def split_beta first_key_def
        with_store_def execute_data_def execute_get_def reads count_command_def sharded_new_def shard_new_def exec_new_def
        hash_key_def set_time_def set_simulation_start_epoch_def set_simulation_start_epoch_ms_def evict_expired_keys_def
        purge_if_expired_def is_expired_def)
  moreover have "commands_processed (store (hd (shards (sharded_new 1 0)))) = 0"
    by (simp add: sharded_new_def shard_new_def exec_new_def set_simulation_start_epoch_def set_simulation_start_epoch_ms_def)
  ultimately show ?thesis by (cases ?run) auto
qed

theorem changes_need_permission_witness:
  "let m = acl_manager_new_with_auth; c = (connection_new m ''client'' None)\<lparr>conn_user := Some acl_default_user\<rparr>;
       srv = \<lparr>sharded = sharded_new 1 0, acl = m\<rparr>; req = StringR (Get ''key'')
   in \<exists>c' srv' r. conn_step site_example moment_example req (c, srv) = Some ((c', srv'), r) \<and>
     sharded srv' \<noteq> sharded srv \<and>
     (\<exists>cu u name sub. conn_user c = Some cu \<and> get_user m (user_name cu) = Some u \<and>
       command_words_of req = Some (name, sub) \<and> list_all (is_key_permitted (user_keys u)) (request_keys req))"
proof -
  let ?m = acl_manager_new_with_auth and ?req = "StringR (Get ''key'')"
  let ?c = "(connection_new ?m ''client'' None)\<lparr>conn_user := Some acl_default_user\<rparr>"
  let ?srv = "\<lparr>sharded = sharded_new 1 0, acl = ?m\<rparr>"
  have auth: "require_auth ?m" by (simp add: acl_manager_new_with_auth_def)
  have "check_acl_permission site_example ?m (Some acl_default_user) ?req = Some (Inr ())"
    by (simp add: check_acl_permission_def get_user_def acl_manager_new_with_auth_def acl_manager_new_def
        acl_default_user_def subcommand_allowed_def check_command_def is_command_permitted_def permissions_allow_all_def
        is_key_permitted_def key_patterns_allow_all_def Let_def)
  then have "\<exists>c' srv' r. conn_step site_example moment_example ?req (?c, ?srv) = Some ((c', srv'), r) \<and>
      sharded srv' \<noteq> sharded ?srv"
    using get_counted by (auto simp: conn_step_def connection_new_def checked_execute_def)
  then obtain c' srv' r where step: "conn_step site_example moment_example ?req (?c, ?srv) = Some ((c', srv'), r)"
    "sharded srv' \<noteq> sharded ?srv" by blast
  have "\<not> in_multi ?c" by (simp add: connection_new_def)
  from changes_need_permission [OF step this] auth step show ?thesis unfolding Let_def by fastforce
qed

section \<open>Transactions of a connection\<close>

fun conn_steps :: "site \<Rightarrow> (moment \<times> request) list \<Rightarrow> session \<Rightarrow> (session \<times> resp_value list) option" where
  "conn_steps S [] cs = Some (cs, [])"
| "conn_steps S ((m, req) # reqs) cs =
     do {(cs1, r) \<leftarrow> conn_step S m req cs;
         (cs2, rs) \<leftarrow> conn_steps S reqs cs1;
         Some (cs2, r # rs)}"

fun queueable :: "request \<Rightarrow> bool" where
  "queueable (Core Exec) = False"
| "queueable (Core Discard) = False"
| "queueable (Core Multi) = False"
| "queueable (Core (Watch _)) = False"
| "queueable (ServerR (Unknown _)) = False"
| "queueable _ = True"

lemma step_queueable: "queueable req \<Longrightarrow> step_in_multi S m req cs = enqueue req cs"
  by (cases "(S, m, req, cs)" rule: step_in_multi.cases) simp_all

lemma queued_steps:
  assumes "in_multi c" "list_all (\<lambda>(m, req). queueable req) reqs"
  shows "conn_steps S (reqs @ ys) (c, srv) =
    map_option (\<lambda>(cs, rs). (cs, replicate (length reqs) (SimpleString ''QUEUED'') @ rs))
      (conn_steps S ys (c\<lparr>multi_queue := multi_queue c @ map snd reqs\<rparr>, srv))"
  using assms
proof (induction reqs arbitrary: c)
  case (Cons x reqs)
  obtain m req where x: "x = (m, req)" by (cases x)
  let ?c = "c\<lparr>multi_queue := multi_queue c @ [req]\<rparr>"
  have "conn_step S m req (c, srv) = Some ((?c, srv), SimpleString ''QUEUED'')"
    using Cons.prems by (simp add: x conn_step_def step_queueable enqueue_def)
  moreover have "conn_steps S (reqs @ ys) (?c, srv) =
    map_option (\<lambda>(cs, rs). (cs, replicate (length reqs) (SimpleString ''QUEUED'') @ rs))
      (conn_steps S ys (c\<lparr>multi_queue := multi_queue c @ req # map snd reqs\<rparr>, srv))"
    using Cons.IH [of ?c] Cons.prems by simp
  ultimately show ?case
    by (cases "conn_steps S ys (c\<lparr>multi_queue := multi_queue c @ req # map snd reqs\<rparr>, srv)") (auto simp: x)
qed (simp add: option.map_id case_prod_eta [symmetric] flip: id_def)

text \<open>
  C22. \<open>MULTI\<close>, any commands that can be queued, and \<open>EXEC\<close>: each command is answered with \<open>QUEUED\<close>, and \<open>EXEC\<close> does them in
  order on the shards and answers with their replies. No permission is checked, neither when a command is queued nor when it
  is done: a client that has not authenticated, or whose user may do nothing, gets the same.
\<close>

theorem transactions_unchecked:
  assumes "\<not> in_multi c" "watched c = []" "list_all (\<lambda>(m, req). queueable req) reqs"
  shows "conn_steps S ((m0, Core Multi) # reqs @ [(m1, Core Exec)]) (c, srv) =
    map_option (\<lambda>(st, rs).
        ((c\<lparr>multi_queue := [], multi_errors := False\<rparr>, srv\<lparr>sharded := st\<rparr>),
         SimpleString ''OK'' # replicate (length reqs) (SimpleString ''QUEUED'') @ [Array (Some rs)]))
      (execute_each (plat S) m1 (map snd reqs) (sharded srv))"
proof -
  let ?c = "c\<lparr>in_multi := True, multi_queue := [], multi_errors := False\<rparr>"
  have "conn_step S m0 (Core Multi) (c, srv) = Some ((?c, srv), SimpleString ''OK'')"
    using assms(1) by (simp add: conn_step_def)
  moreover have "conn_step S m1 (Core Exec) (?c\<lparr>multi_queue := map snd reqs\<rparr>, srv) =
      map_option (\<lambda>(st, rs). ((c\<lparr>multi_queue := [], multi_errors := False\<rparr>, srv\<lparr>sharded := st\<rparr>), Array (Some rs)))
        (execute_each (plat S) m1 (map snd reqs) (sharded srv))"
    using assms(1,2)
    by (cases "execute_each (plat S) m1 (map snd reqs) (sharded srv)") (auto simp: conn_step_def exec_transaction_def)
  ultimately show ?thesis
    using queued_steps [of ?c reqs S "[(m1, Core Exec)]" srv] assms(3)
    by (cases "execute_each (plat S) m1 (map snd reqs) (sharded srv)") auto
qed

theorem transactions_unchecked_witness:
  "let m = acl_manager_new_with_auth; c = connection_new m ''client'' None;
       srv = \<lparr>sharded = sharded_new 2 0, acl = m\<rparr>; req = StringR (GetSet ''key'' ''v'')
   in require_auth m \<and> conn_user c = None \<and>
     conn_steps site_example [(moment_example, Core Multi), (moment_example, req), (moment_example, Core Exec)] (c, srv) =
     map_option (\<lambda>(st, rs). ((c, srv\<lparr>sharded := st\<rparr>), [SimpleString ''OK'', SimpleString ''QUEUED'', Array (Some rs)]))
       (execute_each (plat site_example) moment_example [req] (sharded_new 2 0))"
  using transactions_unchecked [of "connection_new acl_manager_new_with_auth ''client'' None"
      "[(moment_example, StringR (GetSet ''key'' ''v''))]" site_example moment_example moment_example
      "\<lparr>sharded = sharded_new 2 0, acl = acl_manager_new_with_auth\<rparr>"]
  by (simp add: Let_def connection_new_def initial_user_def acl_manager_new_with_auth_def)

section \<open>Users that are gone\<close>

lemma del_user_gone:
  "del_user name m = Inr (m', hit) \<Longrightarrow> get_user m' name = None \<and> require_auth m' = require_auth m"
  by (auto simp: del_user_def get_user_def split: if_splits)

text \<open>
  C28. Deleting a user frees its connections from every restriction: when authentication is not required and
  \<open>ACL DELUSER\<close> has deleted a user, every command of a connection that had authenticated as this user passes the permission
  check, whatever the user was permitted before.
\<close>

theorem deleted_user_unrestricted:
  assumes "handle_deluser [user_name u] m = (m', Inr n)" "\<not> require_auth m"
    and "command_words_of req = Some words"
  shows "check_acl_permission S m' (Some u) req = Some (Inr ())"
proof -
  obtain hit where "del_user (user_name u) m = Inr (m', hit)"
    using assms(1) by (auto simp: handle_deluser_def split: sum.splits)
  then have "get_user m' (user_name u) = None" "\<not> require_auth m'" using del_user_gone assms(2) by blast+
  then show ?thesis using assms(3)
    by (cases words) (simp add: check_acl_permission_def subcommand_allowed_def check_command_def split: option.splits)
qed

theorem deleted_user_unrestricted_witness:
  "let u = acl_user_new ''bob''; m = set_user u acl_manager_new; req = StringR (Get ''key'')
   in check_acl_permission site_example m (Some u) req \<noteq> Some (Inr ()) \<and>
      check_acl_permission site_example (fst (handle_deluser [''bob''] m)) (Some u) req = Some (Inr ())"
proof -
  let ?u = "acl_user_new ''bob''" and ?req = "StringR (Get ''key'')"
  let ?m = "set_user ?u acl_manager_new"
  have "handle_deluser [user_name ?u] ?m = (fst (handle_deluser [''bob''] ?m), Inr 1)"
    by (simp add: handle_deluser_def del_user_def set_user_def acl_user_new_def acl_manager_new_def)
  moreover have "\<not> require_auth ?m" by (simp add: set_user_def acl_manager_new_def)
  moreover have "check_acl_permission site_example ?m (Some ?u) ?req \<noteq> Some (Inr ())"
    by (simp add: check_acl_permission_def get_user_def set_user_def acl_user_new_def acl_manager_new_def
        subcommand_allowed_def check_command_def)
  ultimately show ?thesis
    using deleted_user_unrestricted [of ?u ?m _ 1 ?req _ site_example] unfolding Let_def by auto
qed

section \<open>A command without a name\<close>

definition blank_command :: resp_value where
  "blank_command = Array (Some [bulk []])"

lemma blank_unknown:
  assumes "ascii_case up dn"
  shows "from_resp_zero_copy up dn blank_command = Inr (ServerR (Unknown []))"
proof -
  have "up [] = []" using ascii_caseD(1) [OF assms, of "[]"] by (simp add: ascii_def)
  then show ?thesis
    by (simp add: blank_command_def from_resp_zero_copy_def zc_families_def zc_server_def zc_control_def zc_strings_def
        zc_keys_def zc_counters_def zc_lists_def zc_sets_def zc_hashes_def zc_zsets_def zc_scans_def zc_stubs_def
        zc_ranges_def zc_others_def utf8_lossy_valid)
qed

text \<open>
  C29. Ten bytes end the task of a connection: the command with an empty name, in a read of its own, panics, for every
  client whose commands reach the permission check. The check takes the first word of the name, and there is none.
\<close>

theorem blank_command_panics:
  assumes "ascii_case (uppercase S) (lower_of S)" "element_size S < 2 ^ 63"
    and "rbuf c = []" "\<not> in_multi c" "\<not> (require_auth (acl srv) \<and> conn_user c = None)"
    and "10 \<le> max_buffer_size cfg" "0 < batch_threshold cfg"
  shows "handle_read cfg S clock (encode blank_command) (c, srv) = None"
proof -
  have client: "client_command blank_command" "codec_wf (element_size S) blank_command"
    and bytes: "encode blank_command = ''*1'' @ CRLF @ ''$0'' @ CRLF @ CRLF"
    using assms(2) by (simp_all add: blank_command_def show_nat.simps)
  then have fits: "fits (concat (map encode ([blank_command] @ [blank_command])))" by (simp add: fits_def)
  have "uppercase S [] = []" using ascii_caseD(1) [OF assms(1), of "[]"] by (simp add: ascii_def)
  then have stub: "\<not> is_stub_command S []"
    by (simp add: is_stub_command_def channel_commands_def starts_with_def)
  have "check_acl_permission S (acl srv) (conn_user c) (ServerR (Unknown [])) = None"
    using assms(5) by (auto simp: check_acl_permission_def split_whitespace_def words_from.simps Let_def)
  then have "conn_step S (clock 0) (ServerR (Unknown [])) (c, srv) = None"
    using assms(4) stub by (simp add: conn_step_def checked_execute_def)
  then have "dispatch S (clock 0) blank_command (c, srv) = None"
    using blank_unknown [OF assms(1)] by (simp add: dispatch_def)
  then have "command_loop S clock (with_rbuf (encode blank_command) (c, srv)) = None"
    using client_loop [of S "[blank_command]" blank_command "[]" "encode blank_command" clock "(c, srv)"]
      client bytes fits dispatch_rbuf [of S "clock 0" blank_command "[]" "(c, srv)"] by simp
  moreover have "batch_pipeline cfg (with_rbuf (encode blank_command) (c, srv)) = Some (with_rbuf (encode blank_command) (c, srv))"
    using client_batches [OF client(1) _ assms(7), of "encode blank_command" "[]" "[]" "(c, srv)"] by simp
  ultimately show ?thesis using assms(3,6) bytes by (simp add: handle_read_def)
qed

theorem blank_command_panics_witness:
  "handle_read config_default (site_example\<lparr>uppercase := map upper_char,
       plat := (plat site_example)\<lparr>lowercase := map lower_char\<rparr>\<rparr>) (\<lambda>_. moment_example)
     (''*1'' @ CRLF @ ''$0'' @ CRLF @ CRLF) (session_example acl_manager_new) = None"
proof -
  let ?S = "site_example\<lparr>uppercase := map upper_char, plat := (plat site_example)\<lparr>lowercase := map lower_char\<rparr>\<rparr>"
  have "encode blank_command = ''*1'' @ CRLF @ ''$0'' @ CRLF @ CRLF"
    by (simp add: blank_command_def show_nat.simps)
  moreover have "handle_read config_default ?S (\<lambda>_. moment_example) (encode blank_command) (session_example acl_manager_new) = None"
    unfolding session_example_def
    by (rule blank_command_panics)
      (simp_all add: ascii_case_def site_example_def connection_new_def acl_manager_new_def config_default_def)
  ultimately show ?thesis by simp
qed

end
