(* ===== verification/Hash_Ring.thy ===== *)
theory Hash_Ring
  imports Crdt_Lattice Sip_Hash
begin

text \<open>
  The consistent hash ring (\<open>src/replication/hash_ring.rs\<close>): every node has several places on the ring, and a key belongs
  to the first nodes found from its own place onwards.

  \<open>binary_search_by_key\<close> of the standard library may return any of several equal positions; it is an argument, with
  what its documentation promises as the predicate \<open>binary_search_ok\<close>.
\<close>

record virtual_node =
  physical_node :: replica_id
  virtual_index :: "32 word"

record hash_ring =
  ring :: "(u64 \<times> virtual_node) list"
  virtual_nodes_per_physical :: "32 word"
  ring_replication_factor :: usize
  physical_nodes :: "replica_id list"
  ring_version :: u64

section \<open>Positions\<close>

definition key_position :: "string \<Rightarrow> u64" where
  "key_position key = sip13 (key @ [CHR 0xFF])"

definition hash_virtual_node :: "replica_id \<Rightarrow> 32 word \<Rightarrow> u64" where
  "hash_virtual_node node i = sip13 (to_le 8 (unat node) @ to_le 4 (unat i))"

section \<open>Membership\<close>

definition virtual_nodes :: "replica_id \<Rightarrow> 32 word \<Rightarrow> (u64 \<times> virtual_node) list" where
  "virtual_nodes node n =
     map (\<lambda>i. (hash_virtual_node node (of_nat i), \<lparr>physical_node = node, virtual_index = of_nat i\<rparr>)) [0..<unat n]"

definition add_node :: "replica_id \<Rightarrow> hash_ring \<Rightarrow> hash_ring" where
  "add_node node r =
     (if node \<in> set (physical_nodes r) then r
      else r\<lparr>physical_nodes := physical_nodes r @ [node],
             ring := sort_key fst (ring r @ virtual_nodes node (virtual_nodes_per_physical r)),
             ring_version := ring_version r + 1\<rparr>)"

definition remove_node :: "replica_id \<Rightarrow> hash_ring \<Rightarrow> hash_ring" where
  "remove_node node r =
     r\<lparr>physical_nodes := filter (\<lambda>n. n \<noteq> node) (physical_nodes r),
       ring := filter (\<lambda>(_, v). physical_node v \<noteq> node) (ring r),
       ring_version := ring_version r + 1\<rparr>"

definition hash_ring_new :: "replica_id list \<Rightarrow> 32 word \<Rightarrow> usize \<Rightarrow> hash_ring" where
  "hash_ring_new nodes n rf =
     fold add_node nodes
       \<lparr>ring = [], virtual_nodes_per_physical = n, ring_replication_factor = rf, physical_nodes = [], ring_version = 0\<rparr>"

section \<open>Placement\<close>

type_synonym ring_search = "u64 list \<Rightarrow> u64 \<Rightarrow> usize + usize"

text \<open>On a sorted list: \<open>Ok\<close> (here \<open>Inr\<close>) with a position of the element, or \<open>Err\<close> with the place where it belongs.\<close>

definition binary_search_ok :: "ring_search \<Rightarrow> bool" where
  "binary_search_ok search \<longleftrightarrow>
     (\<forall>xs x. sorted xs \<longrightarrow>
        (case search xs x of
           Inr i \<Rightarrow> i < length xs \<and> xs ! i = x
         | Inl i \<Rightarrow> i \<le> length xs \<and> (\<forall>j < i. xs ! j < x) \<and> (\<forall>j. i \<le> j \<longrightarrow> j < length xs \<longrightarrow> x < xs ! j)))"

text \<open>The loop: \<open>steps\<close> is \<open>idx - start_idx\<close>; the set \<open>seen\<close> has the elements of \<open>replicas\<close>.\<close>

function ring_walk :: "(u64 \<times> virtual_node) list \<Rightarrow> usize \<Rightarrow> usize \<Rightarrow> usize \<Rightarrow> usize \<Rightarrow> replica_id list \<Rightarrow> replica_id list" where
  "ring_walk vs n nodes start steps replicas =
     (if length replicas < n \<and> card (set replicas) < nodes
      then let node = physical_node (snd (vs ! ((start + steps) mod length vs)));
               replicas' = (if node \<in> set replicas then replicas else replicas @ [node])
           in if length vs \<le> Suc steps then replicas' else ring_walk vs n nodes start (Suc steps) replicas'
      else replicas)"
  by pat_completeness auto
termination
  by (relation "measure (\<lambda>(vs, n, nodes, start, steps, replicas). length vs - steps)") auto

declare ring_walk.simps [simp del]

definition start_index :: "ring_search \<Rightarrow> (u64 \<times> virtual_node) list \<Rightarrow> u64 \<Rightarrow> usize" where
  "start_index search vs pos = (case search (map fst vs) pos of Inr i \<Rightarrow> i | Inl i \<Rightarrow> i mod length vs)"

definition get_replicas_with_rf :: "ring_search \<Rightarrow> hash_ring \<Rightarrow> string \<Rightarrow> usize \<Rightarrow> replica_id list" where
  "get_replicas_with_rf search r key rf =
     (if ring r = [] then []
      else ring_walk (ring r) (min rf (length (physical_nodes r))) (length (physical_nodes r))
             (start_index search (ring r) (key_position key)) 0 [])"

definition get_replicas :: "ring_search \<Rightarrow> hash_ring \<Rightarrow> string \<Rightarrow> replica_id list" where
  "get_replicas search r key = get_replicas_with_rf search r key (ring_replication_factor r)"

definition is_responsible_with_rf :: "ring_search \<Rightarrow> hash_ring \<Rightarrow> string \<Rightarrow> replica_id \<Rightarrow> usize \<Rightarrow> bool" where
  "is_responsible_with_rf search r key node rf \<longleftrightarrow> node \<in> set (get_replicas_with_rf search r key rf)"

definition is_responsible :: "ring_search \<Rightarrow> hash_ring \<Rightarrow> string \<Rightarrow> replica_id \<Rightarrow> bool" where
  "is_responsible search r key node \<longleftrightarrow> node \<in> set (get_replicas search r key)"

definition get_primary :: "ring_search \<Rightarrow> hash_ring \<Rightarrow> string \<Rightarrow> replica_id option" where
  "get_primary search r key = (case get_replicas search r key of [] \<Rightarrow> None | n # _ \<Rightarrow> Some n)"

definition get_gossip_targets :: "ring_search \<Rightarrow> hash_ring \<Rightarrow> string \<Rightarrow> replica_id \<Rightarrow> replica_id list" where
  "get_gossip_targets search r key sender = filter (\<lambda>n. n \<noteq> sender) (get_replicas search r key)"

section \<open>The walk\<close>

text \<open>The nodes in the order of the ring from a place onwards, each where it is met first.\<close>

fun firsts :: "'a list \<Rightarrow> 'a list" where
  "firsts [] = []"
| "firsts (x # xs) = x # filter (\<lambda>y. y \<noteq> x) (firsts xs)"

lemma firsts_filter: "firsts (filter P xs) = filter P (firsts xs)"
proof (induction xs)
  case (Cons x xs)
  have "P x \<or> filter P (filter (\<lambda>y. y \<noteq> x) (firsts xs)) = filter P (firsts xs)"
    by (auto simp: filter_filter intro: filter_cong)
  with Cons show ?case by (auto simp: filter_filter conj_commute)
qed simp

lemma set_firsts [simp]: "set (firsts xs) = set xs"
  by (induction xs) auto

lemma distinct_firsts [simp]: "distinct (firsts xs)"
  by (induction xs) auto

lemma length_firsts: "length (firsts xs) = card (set xs)"
  using distinct_card [OF distinct_firsts, of xs] by simp

lemma take_firsts_step:
  assumes "length acc < n" "distinct acc"
  shows "take n (acc @ filter (\<lambda>y. y \<notin> set acc) (firsts (x # xs))) =
    take n ((if x \<in> set acc then acc else acc @ [x]) @
      filter (\<lambda>y. y \<notin> set (if x \<in> set acc then acc else acc @ [x])) (firsts xs))"
proof (cases "x \<in> set acc")
  case True
  then have "filter (\<lambda>y. y \<notin> set acc) (filter (\<lambda>y. y \<noteq> x) (firsts xs)) = filter (\<lambda>y. y \<notin> set acc) (firsts xs)"
    by (auto simp: filter_filter intro!: filter_cong)
  with True show ?thesis by simp
next
  case False
  have "filter (\<lambda>y. y \<notin> set acc) (filter (\<lambda>y. y \<noteq> x) (firsts xs)) =
      filter (\<lambda>y. y \<noteq> x \<and> y \<notin> set acc) (firsts xs)"
    by (simp add: filter_filter conj_commute)
  with False show ?thesis by simp
qed

lemma ring_walk_firsts:
  assumes "distinct acc" "length acc \<le> n" "n \<le> nodes" "steps < length vs"
  shows "ring_walk vs n nodes start steps acc =
    take n (acc @ filter (\<lambda>y. y \<notin> set acc) (firsts (map (\<lambda>v. physical_node (snd v)) (drop steps (rotate start vs)))))"
  using assms
proof (induction "length vs - steps" arbitrary: steps acc rule: less_induct)
  case less
  let ?ns = "\<lambda>k. map (\<lambda>v. physical_node (snd v)) (drop k (rotate start vs))"
  let ?node = "physical_node (snd (vs ! ((start + steps) mod length vs)))"
  let ?acc = "if ?node \<in> set acc then acc else acc @ [?node]"
  have card: "card (set acc) = length acc" using less.prems(1) by (rule distinct_card)
  show ?case
  proof (cases "length acc < n")
    case True
    have ns: "?ns steps = ?node # ?ns (Suc steps)"
      using less.prems(4) by (simp add: Cons_nth_drop_Suc [symmetric] nth_rotate)
    have step: "take n (acc @ filter (\<lambda>y. y \<notin> set acc) (firsts (?ns steps))) =
        take n (?acc @ filter (\<lambda>y. y \<notin> set ?acc) (firsts (?ns (Suc steps))))"
      unfolding ns by (rule take_firsts_step [OF True less.prems(1)])
    have acc: "distinct ?acc" "length ?acc \<le> n" using less.prems(1) True by auto
    show ?thesis
    proof (cases "length vs \<le> Suc steps")
      case last: True
      then show ?thesis
        unfolding step using True card less.prems acc(2) by (simp add: ring_walk.simps [of vs n nodes start steps acc] Let_def)
    next
      case False
      then have "ring_walk vs n nodes start (Suc steps) ?acc =
          take n (?acc @ filter (\<lambda>y. y \<notin> set ?acc) (firsts (?ns (Suc steps))))"
        using less.hyps [of "Suc steps" ?acc] acc less.prems by simp
      then show ?thesis
        unfolding step using False True card less.prems by (simp add: ring_walk.simps [of vs n nodes start steps acc] Let_def)
    qed
  qed (use less.prems card in \<open>simp add: ring_walk.simps [of vs n nodes start steps acc]\<close>)
qed

definition walk_order :: "ring_search \<Rightarrow> hash_ring \<Rightarrow> string \<Rightarrow> replica_id list" where
  "walk_order search r key =
     firsts (map (\<lambda>v. physical_node (snd v)) (rotate (start_index search (ring r) (key_position key)) (ring r)))"

lemma get_replicas_walk:
  "get_replicas_with_rf search r key rf = take (min rf (length (physical_nodes r))) (walk_order search r key)"
  using ring_walk_firsts [of "[]" _ _ 0 "ring r"] by (simp add: get_replicas_with_rf_def walk_order_def)

section \<open>Rings\<close>

definition ring_ok :: "hash_ring \<Rightarrow> bool" where
  "ring_ok r \<longleftrightarrow> distinct (physical_nodes r) \<and> sorted (map fst (ring r)) \<and>
     (\<lambda>v. physical_node (snd v)) ` set (ring r) = (if virtual_nodes_per_physical r = 0 then {} else set (physical_nodes r))"

lemma virtual_nodes_physical:
  "(\<lambda>v. physical_node (snd v)) ` set (virtual_nodes node n) = (if n = 0 then {} else {node})"
proof -
  have "{0..<unat n} = {} \<longleftrightarrow> n = 0" by (simp add: unat_eq_zero)
  then show ?thesis by (auto simp: virtual_nodes_def image_image image_constant_conv)
qed

lemma virtual_nodes_0 [simp]: "virtual_nodes node 0 = []"
  by (simp add: virtual_nodes_def)

lemma add_node_ok: "ring_ok r \<Longrightarrow> ring_ok (add_node node r)"
  by (auto simp: ring_ok_def add_node_def image_Un virtual_nodes_physical)

lemma remove_node_ok: "ring_ok r \<Longrightarrow> ring_ok (remove_node node r)"
  by (auto simp: ring_ok_def remove_node_def split_def sorted_filter split: if_splits)

lemma hash_ring_new_ok: "ring_ok (hash_ring_new nodes n rf)"
proof -
  have "ring_ok r \<Longrightarrow> ring_ok (fold add_node nodes r)" for r
    by (induction nodes arbitrary: r) (auto intro: add_node_ok)
  then show ?thesis by (simp add: hash_ring_new_def ring_ok_def)
qed

lemma length_walk_order:
  "ring_ok r \<Longrightarrow> virtual_nodes_per_physical r \<noteq> 0 \<Longrightarrow> length (walk_order search r key) = length (physical_nodes r)"
  by (simp add: walk_order_def length_firsts ring_ok_def image_image distinct_card)

datatype membership = Join replica_id | Leave replica_id

fun change :: "membership \<Rightarrow> hash_ring \<Rightarrow> hash_ring" where
  "change (Join n) r = add_node n r"
| "change (Leave n) r = remove_node n r"

lemma change_ok: "ring_ok r \<Longrightarrow> ring_ok (change m r)"
  by (cases m) (auto intro: add_node_ok remove_node_ok)

lemma change_config [simp]:
  "virtual_nodes_per_physical (change m r) = virtual_nodes_per_physical r"
  "ring_replication_factor (change m r) = ring_replication_factor r"
  by (cases m; simp add: add_node_def remove_node_def)+

lemma changes_ok:
  "ring_ok r \<Longrightarrow> ring_ok (fold change ms r) \<and>
     virtual_nodes_per_physical (fold change ms r) = virtual_nodes_per_physical r \<and>
     ring_replication_factor (fold change ms r) = ring_replication_factor r"
  by (induction ms arbitrary: r) (simp_all add: change_ok)

lemma new_config [simp]:
  "virtual_nodes_per_physical (hash_ring_new nodes n rf) = n" "ring_replication_factor (hash_ring_new nodes n rf) = rf"
proof -
  have "virtual_nodes_per_physical (fold add_node nodes r) = virtual_nodes_per_physical r \<and>
      ring_replication_factor (fold add_node nodes r) = ring_replication_factor r" for r
    by (induction nodes arbitrary: r) (simp_all add: add_node_def)
  then show "virtual_nodes_per_physical (hash_ring_new nodes n rf) = n"
    "ring_replication_factor (hash_ring_new nodes n rf) = rf" by (simp_all add: hash_ring_new_def)
qed

text \<open>
  Placement: whatever nodes have joined and left, a key has as many replicas as the replication factor asks for, or as many as there are
  nodes, and they are different members of the ring.
\<close>

theorem replicas_of_key:
  assumes "r = fold change ms (hash_ring_new nodes n rf)" "n \<noteq> 0"
  shows "length (get_replicas search r key) = min rf (length (physical_nodes r)) \<and>
    distinct (get_replicas search r key) \<and> set (get_replicas search r key) \<subseteq> set (physical_nodes r)"
proof -
  have r: "ring_ok r" "virtual_nodes_per_physical r \<noteq> 0" "ring_replication_factor r = rf"
    using changes_ok [OF hash_ring_new_ok, of ms nodes n rf] assms by simp_all
  have "set (walk_order search r key) = set (physical_nodes r)"
    using r by (simp add: walk_order_def ring_ok_def image_image)
  then show ?thesis
    using length_walk_order [OF r(1,2), of search key] r(3) set_take_subset [of "min rf (length (physical_nodes r))" "walk_order search r key"]
    by (simp add: get_replicas_def get_replicas_walk) (simp add: walk_order_def)
qed

theorem replicas_of_key_witness:
  "let r = fold change [Leave 2, Join 4] (hash_ring_new [1, 2, 3] 2 2)
   in length (get_replicas (\<lambda>_ _. Inl 0) r ''key'') = 2 \<and> distinct (get_replicas (\<lambda>_ _. Inl 0) r ''key'')"
  using replicas_of_key [of _ "[Leave 2, Join 4]" "[1, 2, 3]" 2 2 "\<lambda>_ _. Inl 0" "''key''", OF refl]
  by (simp add: hash_ring_new_def add_node_def remove_node_def)

section \<open>Minimal disruption\<close>

lemma split_at_position:
  fixes pos :: "'a :: linorder"
  assumes "\<forall>j < i. fst (vs ! j) < pos" "\<forall>j. i \<le> j \<longrightarrow> j < length vs \<longrightarrow> pos \<le> fst (vs ! j)" "i \<le> length vs"
  shows "take i vs = filter (\<lambda>v. fst v < pos) vs" "drop i vs = filter (\<lambda>v. pos \<le> fst v) vs"
proof -
  have lo: "fst v < pos" if "v \<in> set (take i vs)" for v
    using that assms(1,3) unfolding in_set_conv_nth by (metis length_take min.absorb2 nth_take)
  have hi: "pos \<le> fst v" if "v \<in> set (drop i vs)" for v
    using that assms(2,3) unfolding in_set_conv_nth by (metis add.commute add_less_cancel_left le_add2 le_add_diff_inverse length_drop nth_drop)
  have "filter P vs = filter P (take i vs) @ filter P (drop i vs)" for P
    using filter_append [of P "take i vs" "drop i vs"] by simp
  moreover have "filter (\<lambda>v. fst v < pos) (take i vs) = take i vs" "filter (\<lambda>v. pos \<le> fst v) (drop i vs) = drop i vs"
    using lo hi by (simp_all only: filter_id_conv) blast+
  moreover have "filter (\<lambda>v. pos \<le> fst v) (take i vs) = []" "filter (\<lambda>v. fst v < pos) (drop i vs) = []"
    using lo hi by (simp_all only: filter_empty_conv not_le not_less) blast+
  ultimately show "take i vs = filter (\<lambda>v. fst v < pos) vs" "drop i vs = filter (\<lambda>v. pos \<le> fst v) vs" by simp_all
qed

lemma rotate_start:
  assumes "binary_search_ok search" "sorted (map fst vs)" "distinct (map fst vs)"
  shows "rotate (start_index search vs pos) vs = filter (\<lambda>v. pos \<le> fst v) vs @ filter (\<lambda>v. fst v < pos) vs"
proof -
  have inc: "fst (vs ! i) < fst (vs ! j)" if "i < j" "j < length vs" for i j
    using that assms(2,3) sorted_wrt_nth_less [of "(<)" "map fst vs" i j] by (simp add: strict_sorted_iff)
  obtain i where i: "i \<le> length vs" "start_index search vs pos mod length vs = i mod length vs"
    "\<forall>j < i. fst (vs ! j) < pos" "\<forall>j. i \<le> j \<longrightarrow> j < length vs \<longrightarrow> pos \<le> fst (vs ! j)"
  proof (cases "search (map fst vs) pos")
    case (Inl i)
    then show ?thesis
      using assms(1,2) that [of i] unfolding binary_search_ok_def start_index_def by (fastforce dest!: spec [of _ "map fst vs"] spec [of _ pos])
  next
    case (Inr i)
    then have "i < length vs" "fst (vs ! i) = pos"
      using assms(1,2) unfolding binary_search_ok_def by (fastforce dest!: spec [of _ "map fst vs"] spec [of _ pos])+
    then show ?thesis using Inr that [of i] inc by (auto simp: start_index_def le_less)
  qed
  have "rotate (start_index search vs pos) vs = drop i vs @ take i vs"
    using i(1,2) by (cases "i = length vs") (simp_all add: rotate_drop_take)
  then show ?thesis using split_at_position [OF i(3,4,1)] by simp
qed

lemma walk_order_remove:
  assumes "ring_ok r" "distinct (map fst (ring r))" "binary_search_ok search"
  shows "walk_order search (remove_node node r) key = filter (\<lambda>n. n \<noteq> node) (walk_order search r key)"
proof -
  let ?P = "\<lambda>v. physical_node (snd v) \<noteq> node"
  have ring: "ring (remove_node node r) = filter ?P (ring r)" by (simp add: remove_node_def split_def)
  have "sorted (map fst (filter ?P (ring r)))" "distinct (map fst (filter ?P (ring r)))"
    using assms(1,2) by (simp_all add: ring_ok_def sorted_filter distinct_map_filter)
  then have "rotate (start_index search (ring (remove_node node r)) (key_position key)) (ring (remove_node node r)) =
      filter ?P (rotate (start_index search (ring r) (key_position key)) (ring r))"
    unfolding ring using assms by (simp add: rotate_start ring_ok_def filter_filter conj_commute)
  then show ?thesis
    unfolding walk_order_def by (simp add: firsts_filter [symmetric] filter_map comp_def)
qed

lemma take_filter_one:
  assumes "distinct xs"
  shows "take k (filter (\<lambda>y. y \<noteq> x) (take (Suc k) xs)) = take k (filter (\<lambda>y. y \<noteq> x) xs)"
  using assms
proof (induction xs arbitrary: k)
  case (Cons y ys)
  show ?case
  proof (cases "y = x")
    case True
    then have "\<forall>z \<in> set ys. z \<noteq> x" using Cons.prems by auto
    then have "filter (\<lambda>y. y \<noteq> x) ys = ys" "filter (\<lambda>y. y \<noteq> x) (take k ys) = take k ys"
      by (auto simp: filter_id_conv dest: in_set_takeD)
    then show ?thesis using True by simp
  next
    case False
    then show ?thesis using Cons by (cases k) simp_all
  qed
qed simp

text \<open>
  C5. Consistent hashing: when a node leaves, the replicas of a key stay as they are and in their order, but that a node
  that was one of them is replaced by the next one of the ring, at the end. So a key without a replica on the node keeps all its
  replicas, and no key gets more than one new one. Positions on the ring are assumed to be different, and the binary
  search of the library to do what it documents.
\<close>

theorem leaving_moves_few:
  assumes "r = fold change ms (hash_ring_new nodes n rf)" "n \<noteq> 0" "distinct (map fst (ring r))" "binary_search_ok search"
  shows "get_replicas search (remove_node node r) key =
    take rf (filter (\<lambda>m. m \<noteq> node) (get_replicas_with_rf search r key (Suc rf)))"
proof -
  let ?W = "walk_order search r key" and ?r = "remove_node node r"
  have r: "ring_ok r" "virtual_nodes_per_physical r \<noteq> 0" "ring_replication_factor ?r = rf" "virtual_nodes_per_physical ?r \<noteq> 0"
    using changes_ok [OF hash_ring_new_ok, of ms nodes n rf] assms(1,2) by (simp_all add: remove_node_def)
  have W: "walk_order search ?r key = filter (\<lambda>m. m \<noteq> node) ?W"
    using walk_order_remove [OF r(1) assms(3,4)] .
  have "length (walk_order search ?r key) = length (physical_nodes ?r)" "length ?W = length (physical_nodes r)"
    using length_walk_order r(1,2,4) remove_node_ok by simp_all
  then have "get_replicas search ?r key = take rf (filter (\<lambda>m. m \<noteq> node) ?W)"
    "get_replicas_with_rf search r key (Suc rf) = take (Suc rf) ?W"
    unfolding get_replicas_def get_replicas_walk W r(3) by (simp_all add: min_def)
  then show ?thesis using take_filter_one [of ?W rf node] by (simp add: walk_order_def)
qed

text \<open>A search as documented: the number of smaller elements.\<close>

definition linear_search :: ring_search where
  "linear_search xs x =
     (let i = length (takeWhile (\<lambda>y. y < x) xs) in if i < length xs \<and> xs ! i = x then Inr i else Inl i)"

lemma linear_search_ok: "binary_search_ok linear_search"
  unfolding binary_search_ok_def
proof (intro allI impI)
  fix xs :: "u64 list" and x
  assume xs: "sorted xs"
  let ?i = "length (takeWhile (\<lambda>y. y < x) xs)"
  have lo: "xs ! j < x" if "j < ?i" for j
    using that set_takeWhileD [of "xs ! j" "\<lambda>y. y < x" xs] takeWhile_nth [OF that] nth_mem [OF that] by metis
  have hi: "x \<le> xs ! j" if "?i \<le> j" "j < length xs" for j
    using that nth_length_takeWhile [of "\<lambda>y. y < x" xs] sorted_nth_mono [OF xs that] by force
  have "?i \<le> length xs" by (rule length_takeWhile_le)
  moreover have "x < xs ! j" if "\<not> (?i < length xs \<and> xs ! ?i = x)" "?i \<le> j" "j < length xs" for j
    using hi [of ?i] sorted_nth_mono [OF xs that(2,3)] that by fastforce
  ultimately show "case linear_search xs x of Inl i \<Rightarrow> i \<le> length xs \<and> (\<forall>j<i. xs ! j < x) \<and>
      (\<forall>j. i \<le> j \<longrightarrow> j < length xs \<longrightarrow> x < xs ! j) | Inr i \<Rightarrow> i < length xs \<and> xs ! i = x"
    using lo by (simp add: linear_search_def Let_def)
qed

lemma two_hashes:
  "sip13 ([CHR 0x01, CHR 0x00, CHR 0x00, CHR 0x00, CHR 0x00, CHR 0x00, CHR 0x00, CHR 0x00] @
     [CHR 0x00, CHR 0x00, CHR 0x00, CHR 0x00]) = 9307533986124549581"
  "sip13 ([CHR 0x02, CHR 0x00, CHR 0x00, CHR 0x00, CHR 0x00, CHR 0x00, CHR 0x00, CHR 0x00] @
     [CHR 0x00, CHR 0x00, CHR 0x00, CHR 0x00]) = 13159505960806080403"
  by (simp_all add: sip_eval)

lemma two_places: "hash_virtual_node 1 0 \<noteq> hash_virtual_node 2 0"
proof -
  have bytes: "to_le 8 1 = [CHR 0x01, CHR 0x00, CHR 0x00, CHR 0x00, CHR 0x00, CHR 0x00, CHR 0x00, CHR 0x00]"
    "to_le 8 2 = [CHR 0x02, CHR 0x00, CHR 0x00, CHR 0x00, CHR 0x00, CHR 0x00, CHR 0x00, CHR 0x00]"
    "to_le 4 0 = [CHR 0x00, CHR 0x00, CHR 0x00, CHR 0x00]"
    by code_simp+
  have "hash_virtual_node 1 0 = sip13 (to_le 8 1 @ to_le 4 0)" "hash_virtual_node 2 0 = sip13 (to_le 8 2 @ to_le 4 0)"
    by (simp_all add: hash_virtual_node_def)
  then show ?thesis unfolding bytes two_hashes by simp
qed

theorem leaving_moves_few_witness:
  "let r = hash_ring_new [1, 2] 1 1
   in get_replicas linear_search (remove_node 1 r) ''key'' =
     take 1 (filter (\<lambda>m. m \<noteq> 1) (get_replicas_with_rf linear_search r ''key'' 2))"
proof -
  have "ring (hash_ring_new [1, 2] 1 1) = sort_key fst (virtual_nodes 1 1 @ virtual_nodes 2 1)"
    by (simp add: hash_ring_new_def add_node_def virtual_nodes_def)
  then have "distinct (map fst (ring (hash_ring_new [1, 2] 1 1)))"
    using two_places by (simp add: virtual_nodes_def)
  then show ?thesis
    using leaving_moves_few [of "hash_ring_new [1, 2] 1 1" "[]" "[1, 2]" 1 1 linear_search 1 "''key''"] linear_search_ok
    by (simp add: numeral_2_eq_2)
qed

end
