(* ===== verification/Gossip.thy ===== *)
theory Gossip
  imports Hash_Ring Replication_State
begin

text \<open>
  Gossip: which deltas a node sends to which other nodes (\<open>src/replication/gossip_router.rs\<close>) and the queue of messages
  to send (\<open>src/replication/gossip.rs\<close>). The ring is shared behind a lock; a routing call reads it once.
  The iteration order of the table of routes, a hash map, is an argument. Statistics and the JSON of messages are left out.
\<close>

section \<open>The configuration\<close>

record replication_config =
  rc_enabled :: bool
  rc_replica_id :: u64
  rc_consistency_level :: consistency_level
  gossip_interval_ms :: u64
  peers :: "string list"
  rc_replication_factor :: usize
  partitioned_mode :: bool
  selective_gossip :: bool
  rc_virtual_nodes :: "32 word"

definition replication_config_default :: replication_config where
  "replication_config_default =
     \<lparr>rc_enabled = False, rc_replica_id = 1, rc_consistency_level = Eventual, gossip_interval_ms = 1000, peers = [],
      rc_replication_factor = 3, partitioned_mode = False, selective_gossip = False, rc_virtual_nodes = 150\<rparr>"

definition uses_selective_gossip :: "replication_config \<Rightarrow> bool" where
  "uses_selective_gossip c \<longleftrightarrow> selective_gossip c \<and> partitioned_mode c \<and> rc_enabled c"

section \<open>The router\<close>

record gossip_router =
  router_ring :: hash_ring
  my_replica :: replica_id
  peer_addresses :: "(replica_id, string) fmap"
  selective_mode :: bool

definition router_new :: "hash_ring \<Rightarrow> replica_id \<Rightarrow> (replica_id, string) fmap \<Rightarrow> bool \<Rightarrow> gossip_router" where
  "router_new r me addrs selective =
     \<lparr>router_ring = r, my_replica = me, peer_addresses = addrs, selective_mode = selective\<rparr>"

text \<open>The number that \<open>from_config\<close> gives to the peer at place \<open>i\<close> of the list.\<close>

definition peer_id :: "u64 \<Rightarrow> nat \<Rightarrow> replica_id" where
  "peer_id me i = (if (of_nat i :: u64) \<ge> me then of_nat i + 2 else of_nat i + 1)"

definition router_from_config :: "replication_config \<Rightarrow> hash_ring \<Rightarrow> gossip_router" where
  "router_from_config c r =
     \<lparr>router_ring = r, my_replica = rc_replica_id c,
      peer_addresses = fold (\<lambda>(i, addr). fmupd (peer_id (rc_replica_id c) i) addr) (enumerate 0 (peers c)) fmempty,
      selective_mode = uses_selective_gossip c\<rparr>"

type_synonym routing_table = "(replica_id, replication_delta list) fmap"

definition push_route :: "replication_delta \<Rightarrow> replica_id \<Rightarrow> routing_table \<Rightarrow> routing_table" where
  "push_route d target t =
     fmupd target ((case fmlookup t target of Some ds \<Rightarrow> ds | None \<Rightarrow> []) @ [d]) t"

definition route_delta :: "ring_search \<Rightarrow> gossip_router \<Rightarrow> replication_delta \<Rightarrow> routing_table \<Rightarrow> routing_table" where
  "route_delta search g d t =
     fold (\<lambda>target t. if target |\<in>| fmdom (peer_addresses g) then push_route d target t else t)
       (get_gossip_targets search (router_ring g) (delta_key d) (my_replica g)) t"

definition route_selective :: "ring_search \<Rightarrow> gossip_router \<Rightarrow> replication_delta list \<Rightarrow> routing_table" where
  "route_selective search g ds = fold (route_delta search g) ds fmempty"

definition route_broadcast :: "gossip_router \<Rightarrow> replication_delta list \<Rightarrow> routing_table" where
  "route_broadcast g ds = fmmap (\<lambda>_. ds) (fmdrop (my_replica g) (peer_addresses g))"

definition route_deltas :: "ring_search \<Rightarrow> gossip_router \<Rightarrow> replication_delta list \<Rightarrow> routing_table" where
  "route_deltas search g ds = (if selective_mode g then route_selective search g ds else route_broadcast g ds)"

definition update_peer :: "replica_id \<Rightarrow> string \<Rightarrow> gossip_router \<Rightarrow> gossip_router" where
  "update_peer n addr g = g\<lparr>peer_addresses := fmupd n addr (peer_addresses g)\<rparr>"

definition remove_peer :: "replica_id \<Rightarrow> gossip_router \<Rightarrow> gossip_router" where
  "remove_peer n g = g\<lparr>peer_addresses := fmdrop n (peer_addresses g)\<rparr>"

section \<open>Messages and their queue\<close>

datatype gossip_message =
    DeltaBatch replica_id "replication_delta list" u64
  | TargetedDelta replica_id replica_id "replication_delta list" u64
  | SyncRequestMsg replica_id "(string, u64) fmap"
  | SyncResponseMsg replica_id "replication_delta list"
  | Heartbeat replica_id u64

fun source_replica_of :: "gossip_message \<Rightarrow> replica_id" where
  "source_replica_of (DeltaBatch s _ _) = s"
| "source_replica_of (TargetedDelta s _ _ _) = s"
| "source_replica_of (SyncRequestMsg s _) = s"
| "source_replica_of (SyncResponseMsg s _) = s"
| "source_replica_of (Heartbeat s _) = s"

fun into_deltas :: "gossip_message \<Rightarrow> replication_delta list option" where
  "into_deltas (DeltaBatch _ ds _) = Some ds"
| "into_deltas (TargetedDelta _ _ ds _) = Some ds"
| "into_deltas (SyncResponseMsg _ ds) = Some ds"
| "into_deltas _ = None"

fun is_delta_message :: "gossip_message \<Rightarrow> bool" where
  "is_delta_message (DeltaBatch _ _ _) = True"
| "is_delta_message (TargetedDelta _ _ _ _) = True"
| "is_delta_message _ = False"

record routed_message =
  target :: "replica_id option"
  message :: gossip_message

record gossip_state =
  gossip_replica :: replica_id
  epoch :: u64
  gossip_config :: replication_config
  outbound_queue :: "routed_message list"
  gossip_routes :: "gossip_router option"

definition MAX_OUTBOUND_QUEUE :: usize where
  "MAX_OUTBOUND_QUEUE = 10000"

definition gossip_new :: "replication_config \<Rightarrow> gossip_state" where
  "gossip_new c = \<lparr>gossip_replica = rc_replica_id c, epoch = 0, gossip_config = c, outbound_queue = [], gossip_routes = None\<rparr>"

definition set_router :: "gossip_router \<Rightarrow> gossip_state \<Rightarrow> gossip_state" where
  "set_router g s = s\<lparr>gossip_routes := Some g\<rparr>"

definition with_router :: "replication_config \<Rightarrow> gossip_router \<Rightarrow> gossip_state" where
  "with_router c g = set_router g (gossip_new c)"

definition gossip_invariants :: "gossip_state \<Rightarrow> bool" where
  "gossip_invariants s \<longleftrightarrow> gossip_replica s = rc_replica_id (gossip_config s) \<and>
     list_all (\<lambda>m. target m \<noteq> Some (gossip_replica s)) (outbound_queue s) \<and>
     list_all (\<lambda>m. source_replica_of (message m) = gossip_replica s) (outbound_queue s)"

definition advance_epoch :: "gossip_state \<Rightarrow> gossip_state" where
  "advance_epoch s = s\<lparr>epoch := (if epoch s = - 1 then - 1 else epoch s + 1)\<rparr>"

definition enforce_outbound_capacity :: "gossip_state \<Rightarrow> gossip_state" where
  "enforce_outbound_capacity s =
     (let len = length (outbound_queue s)
      in if len > MAX_OUTBOUND_QUEUE then s\<lparr>outbound_queue := drop (len - MAX_OUTBOUND_QUEUE) (outbound_queue s)\<rparr> else s)"

definition push_messages :: "routed_message list \<Rightarrow> gossip_state \<Rightarrow> gossip_state" where
  "push_messages ms s = enforce_outbound_capacity (s\<lparr>outbound_queue := outbound_queue s @ ms\<rparr>)"

definition targeted_messages ::
  "(replica_id fset \<Rightarrow> replica_id list) \<Rightarrow> replica_id \<Rightarrow> u64 \<Rightarrow> routing_table \<Rightarrow> routed_message list" where
  "targeted_messages it me e t =
     [\<lparr>target = Some n, message = TargetedDelta me n (the (fmlookup t n)) e\<rparr>. n \<leftarrow> it (fmdom t), the (fmlookup t n) \<noteq> []]"

definition broadcast_messages :: "replication_delta list \<Rightarrow> gossip_state \<Rightarrow> routed_message list" where
  "broadcast_messages ds s = [\<lparr>target = None, message = DeltaBatch (gossip_replica s) ds (epoch s)\<rparr>]"

definition queue_deltas ::
  "ring_search \<Rightarrow> (replica_id fset \<Rightarrow> replica_id list) \<Rightarrow> replication_delta list \<Rightarrow> gossip_state \<Rightarrow> gossip_state" where
  "queue_deltas search it ds s =
     (if ds = [] then s
      else case gossip_routes s of
             Some g \<Rightarrow>
               if selective_mode g
               then push_messages (targeted_messages it (gossip_replica s) (epoch s) (route_deltas search g ds)) s
               else push_messages (broadcast_messages ds s) s
           | None \<Rightarrow> push_messages (broadcast_messages ds s) s)"

definition queue_deltas_broadcast :: "replication_delta list \<Rightarrow> gossip_state \<Rightarrow> gossip_state" where
  "queue_deltas_broadcast ds s = (if ds = [] then s else push_messages (broadcast_messages ds s) s)"

definition queue_heartbeat :: "gossip_state \<Rightarrow> gossip_state" where
  "queue_heartbeat s = push_messages [\<lparr>target = None, message = Heartbeat (gossip_replica s) (epoch s)\<rparr>] s"

definition drain_outbound :: "gossip_state \<Rightarrow> gossip_state \<times> routed_message list" where
  "drain_outbound s = (s\<lparr>outbound_queue := []\<rparr>, outbound_queue s)"

end
