(* ===== verification/Gossip_Laws.thy ===== *)
theory Gossip_Laws
  imports Gossip
begin

text \<open>
  What gossip delivers: selective routing sends each delta to the nodes that hold its key, the queue stays
  bounded, and the numbering of the peers that leaves one of them out.
\<close>

section \<open>Selective routing\<close>

lemma distinct_targets: "distinct (get_gossip_targets search r key me)"
  by (simp add: get_gossip_targets_def get_replicas_def get_replicas_walk walk_order_def)

lemma push_all_lookup:
  assumes "distinct xs"
  shows "fmlookup (fold (\<lambda>x t. if P x then push_route d x t else t) xs t) n =
    (if n \<in> set xs \<and> P n then Some ((case fmlookup t n of Some ds \<Rightarrow> ds | None \<Rightarrow> []) @ [d]) else fmlookup t n)"
  using assms by (induction xs arbitrary: t) (auto simp: push_route_def)

definition hits :: "ring_search \<Rightarrow> gossip_router \<Rightarrow> replica_id \<Rightarrow> replication_delta list \<Rightarrow> replication_delta list" where
  "hits search g n ds =
     filter (\<lambda>d. n |\<in>| fmdom (peer_addresses g) \<and>
       n \<in> set (get_gossip_targets search (router_ring g) (delta_key d) (my_replica g))) ds"

definition nonempty :: "'a list \<Rightarrow> 'a list option" where
  "nonempty xs = (if xs = [] then None else Some xs)"

lemma route_selective_lookup: "fmlookup (route_selective search g ds) n = nonempty (hits search g n ds)"
proof -
  have "fmlookup (fold (route_delta search g) ds t) n =
      nonempty ((case fmlookup t n of Some xs \<Rightarrow> xs | None \<Rightarrow> []) @ hits search g n ds)"
    if "fmlookup t n \<noteq> Some []" for t
    using that
  proof (induction ds arbitrary: t)
    case Nil
    then show ?case by (cases "fmlookup t n") (auto simp: nonempty_def hits_def)
  next
    case (Cons d ds)
    have "fmlookup (route_delta search g d t) n = (if hits search g n [d] = [] then fmlookup t n
        else Some ((case fmlookup t n of Some xs \<Rightarrow> xs | None \<Rightarrow> []) @ [d]))"
      unfolding route_delta_def push_all_lookup [OF distinct_targets] by (simp add: hits_def)
    then show ?case using Cons.IH [of "route_delta search g d t"] Cons.prems by (auto simp: hits_def)
  qed
  from this [of fmempty] show ?thesis by (simp add: route_selective_def)
qed

lemma route_selective_dom: "fmdom (route_selective search g ds) |\<subseteq>| fmdom (peer_addresses g)"
proof (rule fsubsetI, rule ccontr)
  fix x assume x: "x |\<in>| fmdom (route_selective search g ds)" "x |\<notin>| fmdom (peer_addresses g)"
  then have "hits search g x ds = []" by (simp add: hits_def fmlookup_dom_iff)
  with x(1) show False by (simp add: fmlookup_dom_iff route_selective_lookup nonempty_def)
qed

definition visits_all :: "('a fset \<Rightarrow> 'a list) \<Rightarrow> bool" where
  "visits_all it \<longleftrightarrow> (\<forall>A. set (it A) = fset A \<and> distinct (it A))"

lemma sorted_visits_all: "visits_all sorted_list_of_fset"
  by (simp add: visits_all_def sorted_list_of_fset.rep_eq)

text \<open>The deltas of the messages for a node, in the order of the queue.\<close>

definition sent_to :: "replica_id \<Rightarrow> routed_message list \<Rightarrow> replication_delta list" where
  "sent_to n ms =
     concat (map (\<lambda>m. if target m = Some n then the (into_deltas (message m)) else []) ms)"

lemma sent_to_append [simp]: "sent_to n (ms @ ms') = sent_to n ms @ sent_to n ms'"
  by (simp add: sent_to_def)

definition targeted :: "replica_id \<Rightarrow> u64 \<Rightarrow> (replica_id \<Rightarrow> replication_delta list) \<Rightarrow> replica_id \<Rightarrow> routed_message list" where
  "targeted me e v x = (if v x \<noteq> [] then [\<lparr>target = Some x, message = TargetedDelta me x (v x) e\<rparr>] else [])"

lemma targeted_messages_eq:
  "targeted_messages it me e t = concat (map (targeted me e (\<lambda>n. the (fmlookup t n))) (it (fmdom t)))"
  by (simp add: targeted_messages_def targeted_def [abs_def])

lemma sent_to_one: "sent_to n (targeted me e v x) = (if x = n then v n else [])"
  by (simp add: targeted_def sent_to_def)

lemma sent_to_targeted:
  assumes "distinct xs"
  shows "sent_to n (concat (map (targeted me e v) xs)) = (if n \<in> set xs then v n else [])"
  using assms
proof (induction xs)
  case Nil
  show ?case by (simp add: sent_to_def)
next
  case (Cons x xs)
  then show ?case by (auto simp: sent_to_one)
qed

lemma targeted_messages_length: "visits_all it \<Longrightarrow> length (targeted_messages it me e t) \<le> fcard (fmdom t)"
proof -
  assume "visits_all it"
  then have len: "length (it (fmdom t)) = fcard (fmdom t)"
    by (metis visits_all_def distinct_card fcard.rep_eq)
  have "length (concat (map (targeted me e v) xs)) \<le> length xs" for v xs
    by (induction xs) (auto simp: targeted_def)
  then show ?thesis unfolding targeted_messages_eq len [symmetric] .
qed

lemma push_messages_small:
  "length (outbound_queue s) + length ms \<le> MAX_OUTBOUND_QUEUE \<Longrightarrow>
     push_messages ms s = s\<lparr>outbound_queue := outbound_queue s @ ms\<rparr>"
  by (simp add: push_messages_def enforce_outbound_capacity_def Let_def)

text \<open>
  C6. Selective gossip sends every delta where it belongs and nowhere else: after \<open>queue_deltas\<close> on an empty queue, the deltas in the messages
  for a node are those whose key the ring places on the node, in their order, provided that the node has an address and is
  not the sender itself.
\<close>

theorem selective_gossip_delivers:
  assumes "gossip_routes s = Some g" "selective_mode g" "outbound_queue s = []"
    and "fcard (fmdom (peer_addresses g)) \<le> MAX_OUTBOUND_QUEUE" "visits_all it"
  shows "sent_to n (outbound_queue (queue_deltas search it ds s)) =
    filter (\<lambda>d. n |\<in>| fmdom (peer_addresses g) \<and> n \<noteq> my_replica g \<and>
      is_responsible search (router_ring g) (delta_key d) n) ds"
proof -
  let ?t = "route_selective search g ds"
  have spec: "hits search g n ds = filter (\<lambda>d. n |\<in>| fmdom (peer_addresses g) \<and> n \<noteq> my_replica g \<and>
      is_responsible search (router_ring g) (delta_key d) n) ds"
    by (auto simp: hits_def get_gossip_targets_def is_responsible_def intro: filter_cong)
  have "fcard (fmdom ?t) \<le> fcard (fmdom (peer_addresses g))"
    by (rule fcard_mono [OF route_selective_dom])
  then have "length (targeted_messages it (gossip_replica s) (epoch s) ?t) \<le> MAX_OUTBOUND_QUEUE"
    using targeted_messages_length [OF assms(5)] assms(4) le_trans by blast
  then have queue: "outbound_queue (queue_deltas search it ds s) =
      (if ds = [] then [] else targeted_messages it (gossip_replica s) (epoch s) ?t)"
    using assms(1-3) by (simp add: queue_deltas_def route_deltas_def push_messages_small)
  have it: "distinct (it (fmdom ?t))" "set (it (fmdom ?t)) = fset (fmdom ?t)" using assms(5) by (auto simp: visits_all_def)
  then have "sent_to n (targeted_messages it (gossip_replica s) (epoch s) ?t) = hits search g n ds"
    unfolding targeted_messages_eq
    by (subst sent_to_targeted) (auto simp: fmlookup_dom_iff route_selective_lookup nonempty_def split: if_splits)
  then show ?thesis unfolding queue spec [symmetric] by (simp add: sent_to_def hits_def)
qed

definition example_deltas :: "replication_delta list" where
  "example_deltas = [\<lparr>delta_key = ''key'', delta_value = rv_new 1, source_replica = 1\<rparr>]"

theorem selective_gossip_delivers_witness:
  "let r = hash_ring_new [1, 2] 1 2; g = router_new r 1 (fmupd 2 ''host:1'' fmempty) True;
       s = with_router replication_config_default g
   in sent_to 2 (outbound_queue (queue_deltas linear_search sorted_list_of_fset example_deltas s)) =
     filter (\<lambda>d. is_responsible linear_search r (delta_key d) 2) example_deltas"
proof -
  let ?r = "hash_ring_new [1, 2] 1 2"
  let ?g = "router_new ?r 1 (fmupd 2 ''host:1'' fmempty) True"
  show ?thesis
    unfolding Let_def
    by (subst selective_gossip_delivers [of _ ?g])
      (simp_all add: sorted_visits_all with_router_def set_router_def gossip_new_def router_new_def MAX_OUTBOUND_QUEUE_def fcard_finsert_if fcard_fempty)
qed

section \<open>The queue\<close>

datatype gossip_op = QueueDeltas "replication_delta list" | QueueBroadcast "replication_delta list" | QueueHeartbeat
  | AdvanceEpoch | Drain

fun gossip_step :: "ring_search \<Rightarrow> (replica_id fset \<Rightarrow> replica_id list) \<Rightarrow> gossip_op \<Rightarrow> gossip_state \<Rightarrow> gossip_state" where
  "gossip_step search it (QueueDeltas ds) s = queue_deltas search it ds s"
| "gossip_step search it (QueueBroadcast ds) s = queue_deltas_broadcast ds s"
| "gossip_step search it QueueHeartbeat s = queue_heartbeat s"
| "gossip_step search it AdvanceEpoch s = advance_epoch s"
| "gossip_step search it Drain s = fst (drain_outbound s)"

definition gossip_wf :: "gossip_state \<Rightarrow> bool" where
  "gossip_wf s \<longleftrightarrow> gossip_invariants s \<and> length (outbound_queue s) \<le> MAX_OUTBOUND_QUEUE \<and>
     (\<forall>g. gossip_routes s = Some g \<longrightarrow> my_replica g = gossip_replica s)"

definition outgoing :: "gossip_state \<Rightarrow> routed_message list \<Rightarrow> bool" where
  "outgoing s ms \<longleftrightarrow>
     list_all (\<lambda>m. target m \<noteq> Some (gossip_replica s) \<and> source_replica_of (message m) = gossip_replica s) ms"

lemma list_all_drop: "list_all P xs \<Longrightarrow> list_all P (drop n xs)"
  by (auto simp: list_all_iff dest: in_set_dropD)

lemma push_messages_wf: "gossip_wf s \<Longrightarrow> outgoing s ms \<Longrightarrow> gossip_wf (push_messages ms s)"
  by (auto simp: gossip_wf_def gossip_invariants_def outgoing_def push_messages_def enforce_outbound_capacity_def Let_def
      list_all_drop) (auto simp: list_all_iff dest: in_set_dropD)

lemma targeted_outgoing:
  assumes "visits_all it" "gossip_wf s" "gossip_routes s = Some g" "selective_mode g"
  shows "outgoing s (targeted_messages it (gossip_replica s) (epoch s) (route_deltas search g ds))"
proof -
  have "gossip_replica s |\<notin>| fmdom (route_selective search g ds)"
    using assms(2,3) by (auto simp: fmlookup_dom_iff route_selective_lookup nonempty_def hits_def gossip_wf_def
        get_gossip_targets_def split: if_splits)
  then have "gossip_replica s \<notin> set (it (fmdom (route_selective search g ds)))"
    using assms(1) by (simp add: visits_all_def)
  then show ?thesis
    using assms(4) by (auto simp: outgoing_def list_all_iff targeted_messages_eq targeted_def route_deltas_def split: if_splits)
qed

lemma gossip_step_wf:
  assumes "gossip_wf s" "visits_all it"
  shows "gossip_wf (gossip_step search it op s)"
proof (cases op)
  case (QueueDeltas ds)
  then show ?thesis
    using assms targeted_outgoing [OF assms(2,1)]
    by (auto simp: queue_deltas_def broadcast_messages_def outgoing_def intro!: push_messages_wf split: option.splits)
next
  case (QueueBroadcast ds)
  then show ?thesis using assms
    by (auto simp: queue_deltas_broadcast_def broadcast_messages_def outgoing_def intro!: push_messages_wf)
next
  case QueueHeartbeat
  then show ?thesis using assms by (auto simp: queue_heartbeat_def outgoing_def intro!: push_messages_wf)
qed (use assms in \<open>auto simp: gossip_wf_def gossip_invariants_def advance_epoch_def drain_outbound_def\<close>)

text \<open>
  C35. The queue of messages stays within its bound and in order, whatever is queued and drained: it has at most
  \<open>MAX_OUTBOUND_QUEUE\<close> messages, none of them for the node itself, all of them with the node as their source.
\<close>

theorem outbound_bounded:
  assumes "my_replica g = rc_replica_id c" "visits_all it"
    and "s = fold (gossip_step search it) ops (with_router c g)"
  shows "length (outbound_queue s) \<le> MAX_OUTBOUND_QUEUE \<and> gossip_invariants s"
proof -
  have "gossip_wf s' \<Longrightarrow> gossip_wf (fold (gossip_step search it) ops s')" for s'
    by (induction ops arbitrary: s') (auto intro: gossip_step_wf [OF _ assms(2)])
  moreover have "gossip_wf (with_router c g)"
    using assms(1) by (simp add: gossip_wf_def gossip_invariants_def with_router_def set_router_def gossip_new_def)
  ultimately have "gossip_wf s" unfolding assms(3) by blast
  then show ?thesis by (simp add: gossip_wf_def)
qed

theorem outbound_bounded_witness:
  "let g = router_new (hash_ring_new [1, 2] 1 2) 1 (fmupd 2 ''host:1'' fmempty) True;
       s = fold (gossip_step linear_search sorted_list_of_fset) [QueueDeltas example_deltas, QueueHeartbeat]
             (with_router replication_config_default g)
   in length (outbound_queue s) \<le> MAX_OUTBOUND_QUEUE \<and> gossip_invariants s"
  unfolding Let_def
  by (rule outbound_bounded [OF _ _ refl])
    (simp_all add: router_new_def replication_config_default_def sorted_visits_all)

section \<open>The numbers of the peers\<close>

lemma enumerated_lookup:
  assumes "inj_on f {..<length xs}"
  shows "fmlookup (fold (\<lambda>(i, a). fmupd (f i) a) (enumerate 0 xs) fmempty) n =
    (if n \<in> f ` {..<length xs} then Some (xs ! (the_inv_into {..<length xs} f n)) else None)"
  using assms
proof (induction xs rule: rev_induct)
  case (snoc x xs)
  have inj: "inj_on f {..<length xs}" using snoc.prems by (auto intro: inj_on_subset)
  have eq: "the_inv_into {..<length (xs @ [x])} f (f j) = j" if "j \<le> length xs" for j
    using that snoc.prems by (intro the_inv_into_f_f) auto
  have eq': "the_inv_into {..<length xs} f (f j) = j" if "j < length xs" for j
    using that inj by (intro the_inv_into_f_f) auto
  have last: "f (length xs) \<notin> f ` {..<length xs}"
    using snoc.prems by (fastforce simp: inj_on_def)
  show ?case
    using snoc.IH [OF inj] eq eq' last
    by (auto simp: enumerate_append_eq nth_append lessThan_Suc)
qed simp

lemma peer_id_nat:
  assumes "k < 2 ^ 63" "i < 2 ^ 63"
  shows "peer_id (of_nat k) i = of_nat (if k \<le> i then i + 2 else i + 1)"
proof -
  have "(of_nat k :: u64) \<le> of_nat i \<longleftrightarrow> k \<le> i"
    using assms by (simp add: word_le_nat_alt unat_of_nat take_bit_nat_eq_self)
  then show ?thesis by (simp add: peer_id_def)
qed

lemma of_nat_u64_inject: "a < 2 ^ 64 \<Longrightarrow> b < 2 ^ 64 \<Longrightarrow> (of_nat a :: u64) = of_nat b \<longleftrightarrow> a = b"
  by (simp add: word_unat_eq_iff unat_of_nat take_bit_nat_eq_self)

text \<open>
  C36. \<open>from_config\<close> numbers the peers wrongly: on node \<open>k\<close> of a cluster, with the other nodes as its peers in order, it gives its own number
  to the peer at place \<open>k - 1\<close> and the number \<open>k + 1\<close> to none. So selective gossip of node \<open>k\<close> never sends anything to
  node \<open>k + 1\<close>.
\<close>

theorem misnumbered_peers:
  assumes "rc_replica_id c = of_nat k" "1 \<le> k" "k \<le> length (peers c)" "length (peers c) < 2 ^ 63 - 2"
  shows "fmlookup (peer_addresses (router_from_config c r)) (of_nat k) = Some (peers c ! (k - 1)) \<and>
    fmlookup (peer_addresses (router_from_config c r)) (of_nat (k + 1)) = None \<and>
    fmlookup (route_selective search (router_from_config c r) ds) (of_nat (k + 1)) = None"
proof -
  let ?f = "peer_id (of_nat k)" and ?n = "length (peers c)"
  have f: "?f i = of_nat (if k \<le> i then i + 2 else i + 1)" if "i < ?n" for i
    using that assms(3,4) by (intro peer_id_nat) simp_all
  have same: "?f i = of_nat j \<longleftrightarrow> (if k \<le> i then i + 2 else i + 1) = j" if "i < ?n" "j \<le> ?n + 1" for i j
    unfolding f [OF that(1)] using that assms(3,4) by (intro of_nat_u64_inject) auto
  have "?f i = ?f j \<longleftrightarrow> i = j" if "i < ?n" "j < ?n" for i j
    using same [OF that(1), of "if k \<le> j then j + 2 else j + 1"] f [OF that(2)] that by auto
  then have inj: "inj_on ?f {..<?n}" by (auto simp: inj_on_def)
  note look = enumerated_lookup [OF inj]
  have own: "?f (k - 1) = of_nat k" using same [of "k - 1" k] assms(2,3) by (cases k) simp_all
  have "the_inv_into {..<?n} ?f (of_nat k) = k - 1"
    using the_inv_into_f_f [OF inj, of "k - 1"] own assms(2,3) by simp
  moreover have "of_nat k \<in> ?f ` {..<?n}"
    by (rule image_eqI [where x = "k - 1"]) (use own assms(2,3) in simp_all)
  moreover have "of_nat (k + 1) \<notin> ?f ` {..<?n}"
  proof
    assume "of_nat (k + 1) \<in> ?f ` {..<?n}"
    then obtain i where "i < ?n" "?f i = of_nat (k + 1)" by (metis imageE lessThan_iff)
    then show False using same [of i "k + 1"] assms(3) by (auto split: if_splits)
  qed
  ultimately have "fmlookup (peer_addresses (router_from_config c r)) (of_nat k) = Some (peers c ! (k - 1))"
    "fmlookup (peer_addresses (router_from_config c r)) (of_nat (k + 1)) = None"
    using look assms(1) by (simp_all add: router_from_config_def)
  then show ?thesis by (simp add: route_selective_lookup hits_def fmlookup_dom_iff nonempty_def)
qed

theorem misnumbered_peers_witness:
  "let c = replication_config_default\<lparr>peers := [''node2'', ''node3'']\<rparr>; g = router_from_config c (hash_ring_new [1, 2, 3] 1 3)
   in rc_replica_id c = 1 \<and> fmlookup (peer_addresses g) 1 = Some ''node2'' \<and> fmlookup (peer_addresses g) 2 = None"
  using misnumbered_peers [of "replication_config_default\<lparr>peers := [''node2'', ''node3'']\<rparr>" 1 "hash_ring_new [1, 2, 3] 1 3"]
  by (simp add: Let_def replication_config_default_def)

end
