(* ===== verification/Anti_Entropy.thy ===== *)
theory Anti_Entropy
  imports Replication_State Sip_Hash
begin

text \<open>
  Anti-entropy (\<open>src/replication/anti_entropy.rs\<close>): nodes compare digests of their keys, bucket by bucket, and
  send each other the keys of the buckets that differ. The iteration order of a hash map is an argument. Differences of times wrap, as in a
  release build.
\<close>

type_synonym key_order = "string fset \<Rightarrow> string list"
type_synonym keyspace = "(string, replicated_value) fmap"

record anti_entropy_config =
  sync_interval_ms :: u64
  max_keys_per_sync :: usize
  merkle_tree_depth :: usize
  auto_sync_on_heal :: bool

definition anti_entropy_config_default :: anti_entropy_config where
  "anti_entropy_config_default =
     \<lparr>sync_interval_ms = 1000, max_keys_per_sync = 1000, merkle_tree_depth = 8, auto_sync_on_heal = True\<rparr>"

section \<open>Digests\<close>

record key_digest =
  key_hash :: u64
  value_hash :: u64
  digest_time :: u64

definition u64_bytes :: "u64 \<Rightarrow> bytes" where
  "u64_bytes w = to_le 8 (unat w)"

text \<open>A slice of bytes is hashed with its length in front.\<close>

definition key_digest_new :: "string \<Rightarrow> replicated_value \<Rightarrow> key_digest" where
  "key_digest_new key v =
     \<lparr>key_hash = sip13 (key @ [CHR 0xFF]),
      value_hash = sip13 (u64_bytes (time (timestamp v)) @ u64_bytes (replica_id (timestamp v)) @
        (case rv_get v of Some x \<Rightarrow> to_le 8 (length x) @ x | None \<Rightarrow> [])),
      digest_time = time (timestamp v)\<rparr>"

text \<open>\<open>1 << depth\<close> masks the amount of the shift.\<close>

definition num_buckets :: "usize \<Rightarrow> usize" where
  "num_buckets depth = 2 ^ (depth mod 64)"

definition bucket :: "usize \<Rightarrow> key_digest \<Rightarrow> usize" where
  "bucket depth d = unat (key_hash d) mod num_buckets depth"

record merkle_node =
  node_hash :: u64
  node_count :: usize
  node_max_timestamp :: u64

definition merkle_empty :: merkle_node where
  "merkle_empty = \<lparr>node_hash = 0, node_count = 0, node_max_timestamp = 0\<rparr>"

definition from_digests :: "key_digest list \<Rightarrow> merkle_node" where
  "from_digests ds =
     (if ds = [] then merkle_empty
      else \<lparr>node_hash = sip13 (concat (map (\<lambda>d. u64_bytes (key_hash d) @ u64_bytes (value_hash d)) ds)),
            node_count = length ds, node_max_timestamp = fold (\<lambda>d m. max m (digest_time d)) ds 0\<rparr>)"

definition combine :: "merkle_node \<Rightarrow> merkle_node \<Rightarrow> merkle_node" where
  "combine l r =
     (if node_count l = 0 \<and> node_count r = 0 then merkle_empty
      else \<lparr>node_hash = sip13 (u64_bytes (node_hash l) @ u64_bytes (node_hash r)),
            node_count = node_count l + node_count r,
            node_max_timestamp = max (node_max_timestamp l) (node_max_timestamp r)\<rparr>)"

record state_digest =
  root_hash :: u64
  key_count :: usize
  max_timestamp :: u64
  buckets :: "merkle_node list"
  digest_replica :: replica_id
  digest_generation :: u64

definition digests_of :: "key_order \<Rightarrow> keyspace \<Rightarrow> key_digest list" where
  "digests_of it ks = map (\<lambda>k. key_digest_new k (the (fmlookup ks k))) (it (fmdom ks))"

definition from_state :: "key_order \<Rightarrow> keyspace \<Rightarrow> replica_id \<Rightarrow> u64 \<Rightarrow> usize \<Rightarrow> state_digest" where
  "from_state it ks me g depth =
     (let bs = map (\<lambda>b. from_digests (filter (\<lambda>d. bucket depth d = b) (digests_of it ks))) [0..<num_buckets depth];
          root = (case bs of [] \<Rightarrow> merkle_empty | b # bs' \<Rightarrow> foldl combine b bs')
      in \<lparr>root_hash = node_hash root, key_count = node_count root, max_timestamp = node_max_timestamp root,
          buckets = bs, digest_replica = me, digest_generation = g\<rparr>)"

definition differs_from :: "state_digest \<Rightarrow> state_digest \<Rightarrow> bool" where
  "differs_from a b \<longleftrightarrow> root_hash a \<noteq> root_hash b"

definition divergent_buckets :: "state_digest \<Rightarrow> state_digest \<Rightarrow> usize list" where
  "divergent_buckets a b =
     (let len = min (length (buckets a)) (length (buckets b));
          extra = (\<lambda>d. filter (\<lambda>i. node_count (buckets d ! i) > 0) [len..<length (buckets d)])
      in filter (\<lambda>i. buckets a ! i \<noteq> buckets b ! i) [0..<len] @ extra a @ extra b)"

section \<open>The manager\<close>

record sync_request =
  request_from :: replica_id
  request_to :: replica_id
  request_digest :: state_digest
  requested_buckets :: "usize list option"

record sync_response =
  response_from :: replica_id
  response_deltas :: "replication_delta list"
  response_digest :: state_digest

record anti_entropy_manager =
  ae_config :: anti_entropy_config
  ae_replica :: replica_id
  generation :: u64
  peer_digests :: "(replica_id, state_digest) fmap"
  divergent_peers :: "replica_id fset"
  last_sync_time :: "(replica_id, u64) fmap"
  pending_requests :: "sync_request list"
  pending_responses :: "sync_response list"

definition anti_entropy_new :: "replica_id \<Rightarrow> anti_entropy_config \<Rightarrow> anti_entropy_manager" where
  "anti_entropy_new me c =
     \<lparr>ae_config = c, ae_replica = me, generation = 0, peer_digests = fmempty, divergent_peers = {||},
      last_sync_time = fmempty, pending_requests = [], pending_responses = []\<rparr>"

definition on_local_write :: "anti_entropy_manager \<Rightarrow> anti_entropy_manager" where
  "on_local_write m = m\<lparr>generation := generation m + 1\<rparr>"

definition generate_digest :: "key_order \<Rightarrow> anti_entropy_manager \<Rightarrow> keyspace \<Rightarrow> state_digest" where
  "generate_digest it m ks = from_state it ks (ae_replica m) (generation m) (merkle_tree_depth (ae_config m))"

definition should_sync :: "anti_entropy_manager \<Rightarrow> replica_id \<Rightarrow> u64 \<Rightarrow> bool" where
  "should_sync m peer now =
     (case fmlookup (last_sync_time m) peer of
        Some t \<Rightarrow> now - t \<ge> sync_interval_ms (ae_config m)
      | None \<Rightarrow> True)"

definition process_peer_digest ::
  "state_digest \<Rightarrow> state_digest \<Rightarrow> anti_entropy_manager \<Rightarrow> anti_entropy_manager \<times> usize list option" where
  "process_peer_digest theirs ours m =
     (let peer = digest_replica theirs; m' = m\<lparr>peer_digests := fmupd peer theirs (peer_digests m)\<rparr>
      in if differs_from ours theirs
         then (m'\<lparr>divergent_peers := finsert peer (divergent_peers m)\<rparr>, Some (divergent_buckets ours theirs))
         else (m'\<lparr>divergent_peers := divergent_peers m |-| {|peer|}\<rparr>, None))"

definition create_sync_request ::
  "replica_id \<Rightarrow> state_digest \<Rightarrow> usize list option \<Rightarrow> u64 \<Rightarrow> anti_entropy_manager \<Rightarrow> anti_entropy_manager \<times> sync_request" where
  "create_sync_request peer ours bs now m =
     (m\<lparr>last_sync_time := fmupd peer now (last_sync_time m)\<rparr>,
      \<lparr>request_from = ae_replica m, request_to = peer, request_digest = ours, requested_buckets = bs\<rparr>)"

definition in_buckets :: "usize \<Rightarrow> usize list option \<Rightarrow> keyspace \<Rightarrow> string \<Rightarrow> bool" where
  "in_buckets depth bs ks k =
     (case bs of Some xs \<Rightarrow> bucket depth (key_digest_new k (the (fmlookup ks k))) \<in> set xs | None \<Rightarrow> True)"

definition keys_to_send :: "key_order \<Rightarrow> anti_entropy_manager \<Rightarrow> usize list option \<Rightarrow> keyspace \<Rightarrow> replication_delta list" where
  "keys_to_send it m bs ks =
     map (\<lambda>k. \<lparr>delta_key = k, delta_value = the (fmlookup ks k), source_replica = ae_replica m\<rparr>)
       (take (max_keys_per_sync (ae_config m)) (filter (in_buckets (merkle_tree_depth (ae_config m)) bs ks) (it (fmdom ks))))"

definition handle_sync_request ::
  "key_order \<Rightarrow> sync_request \<Rightarrow> keyspace \<Rightarrow> anti_entropy_manager \<Rightarrow> anti_entropy_manager \<times> sync_response" where
  "handle_sync_request it req ks m =
     (let ours = generate_digest it m ks
      in (fst (process_peer_digest (request_digest req) ours m),
          \<lparr>response_from = ae_replica m, response_deltas = keys_to_send it m (requested_buckets req) ks,
           response_digest = ours\<rparr>))"

definition get_keys_in_buckets :: "key_order \<Rightarrow> anti_entropy_manager \<Rightarrow> keyspace \<Rightarrow> usize list \<Rightarrow> replication_delta list" where
  "get_keys_in_buckets it m ks bs = keys_to_send it m (Some bs) ks"

definition on_partition_healed :: "replica_id \<Rightarrow> anti_entropy_manager \<Rightarrow> anti_entropy_manager" where
  "on_partition_healed peer m =
     (if auto_sync_on_heal (ae_config m)
      then m\<lparr>divergent_peers := finsert peer (divergent_peers m), last_sync_time := fmdrop peer (last_sync_time m)\<rparr>
      else m)"

definition peers_needing_sync ::
  "(replica_id fset \<Rightarrow> replica_id list) \<Rightarrow> u64 \<Rightarrow> anti_entropy_manager \<Rightarrow> replica_id list" where
  "peers_needing_sync it now m =
     fold (\<lambda>peer ps.
         if now - the (fmlookup (last_sync_time m) peer) \<ge> sync_interval_ms (ae_config m) \<and> peer \<notin> set ps
         then ps @ [peer] else ps)
       (it (fmdom (last_sync_time m))) (it (divergent_peers m))"

definition drain_requests :: "anti_entropy_manager \<Rightarrow> anti_entropy_manager \<times> sync_request list" where
  "drain_requests m = (m\<lparr>pending_requests := []\<rparr>, pending_requests m)"

definition drain_responses :: "anti_entropy_manager \<Rightarrow> anti_entropy_manager \<times> sync_response list" where
  "drain_responses m = (m\<lparr>pending_responses := []\<rparr>, pending_responses m)"

section \<open>A round of synchronisation\<close>

definition holds_all :: "key_order \<Rightarrow> bool" where
  "holds_all it \<longleftrightarrow> (\<forall>A. set (it A) = fset A \<and> distinct (it A))"

text \<open>The value a replica has for a key after it has merged in that of another.\<close>

fun merged :: "replicated_value option \<Rightarrow> replicated_value option \<Rightarrow> replicated_value option" where
  "merged (Some a) (Some b) = Some (rv_merge a b)"
| "merged None b = b"
| "merged a None = a"

lemma apply_deltas_lookup:
  assumes "distinct xs" "\<forall>k \<in> set xs. fmlookup ks k \<noteq> None"
  shows "fmlookup (replicated_keys (foldl rs_apply_remote_delta s
      (map (\<lambda>k. \<lparr>delta_key = k, delta_value = the (fmlookup ks k), source_replica = r\<rparr>) xs))) n =
    (if n \<in> set xs then merged (fmlookup (replicated_keys s) n) (fmlookup ks n) else fmlookup (replicated_keys s) n)"
  using assms
proof (induction xs arbitrary: s)
  case (Cons x xs)
  then show ?case
    by (cases "fmlookup (replicated_keys s) x"; cases "fmlookup ks x") (auto simp: rs_apply_remote_delta_def Let_def)
qed simp

definition bucket_of_key :: "usize \<Rightarrow> string \<Rightarrow> usize" where
  "bucket_of_key depth k = unat (sip13 (k @ [CHR 0xFF])) mod num_buckets depth"

lemma in_buckets_iff: "in_buckets depth (Some bs) ks k \<longleftrightarrow> bucket_of_key depth k \<in> set bs"
  by (simp add: in_buckets_def bucket_def key_digest_new_def bucket_of_key_def)



section \<open>Differences that are not seen\<close>

lemma digests_of_cong:
  assumes "holds_all it" "fmdom a = fmdom b"
    and "\<forall>k. k |\<in>| fmdom a \<longrightarrow> key_digest_new k (the (fmlookup a k)) = key_digest_new k (the (fmlookup b k))"
  shows "digests_of it a = digests_of it b"
  using assms by (auto simp: digests_of_def holds_all_def)


text \<open>Two replicas of a hash: one has the writes of two fields by two nodes, the other only one of them.\<close>

definition field_delta :: "replica_id \<Rightarrow> string \<Rightarrow> replication_delta" where
  "field_delta r f = snd (rs_record_hash_write (rs_new r Eventual) ''h'' [(f, ''x'')])"

definition replica_both :: shard_replica_state where
  "replica_both = rs_apply_remote_delta (rs_apply_remote_delta (rs_new 3 Eventual) (field_delta 2 ''g'')) (field_delta 1 ''f'')"

definition replica_one :: shard_replica_state where
  "replica_one = rs_apply_remote_delta (rs_new 4 Eventual) (field_delta 2 ''g'')"


end
