(* ===== verification/Spec2Isabelle.thy ===== *)
theory Spec2Isabelle
  imports Crdt_Cluster Replication_Cluster Sds Resp_Laws Transactions Key_Laws Collection_Laws Zset_Ops Acl_File_Laws Wal_Commit Parser_Laws Sharding_Laws Connection_Laws Gossip_Laws Anti_Entropy
begin

text \<open>
  Verification of redis-rust, a Redis-compatible server with replication by conflict-free data types. Paths are those of
  the sources under \<open>src/\<close>.

  \<^bold>\<open>The program.\<close> A client sends RESP arrays over a connection (\<open>production/connection_optimized.rs\<close>), which parses
  them into commands (\<open>redis/resp_optimized.rs\<close>, \<open>redis/commands.rs\<close>), keeps the transaction and the authenticated user,
  checks permissions (\<open>security/acl/\<close>) and passes the command to a number of shards (\<open>production/sharded_actor.rs\<close>). Each
  shard is one executor (\<open>redis/executor/\<close>) over a store of values (\<open>redis/data/\<close>) with deadlines. Replicas keep their
  keys as CRDTs (\<open>replication/lattice.rs\<close>, \<open>replication/state/\<close>), place them on a hash ring, send each other deltas by
  gossip and repair differences by anti-entropy (\<open>replication/\<close>). A write-ahead log makes deltas durable (\<open>streaming/wal*.rs\<close>).

  \<^bold>\<open>Conventions.\<close> The build modelled is a release build with access control: arithmetic wraps. A \<open>u64\<close> is a
  \<open>64 word\<close>, a \<open>usize\<close> a \<open>nat\<close> (with \<open>wadd\<close> where the sum may wrap), an \<open>i64\<close> an \<open>int\<close>; bytes are characters, strings
  their UTF-8 bytes; an \<open>f64\<close> is its bit pattern. A hash map is an \<open>fmap\<close>, a hash set an \<open>fset\<close>, and the order of
  iteration an argument. An error is a value of a sum, a panic is \<open>None\<close> or a constructor of its own. What comes from
  libraries is an argument with what is relied on as a named hypothesis: Unicode case mappings
  (\<open>ascii_case\<close>), SHA-256, CRC-32, bincode, binary search (\<open>binary_search_ok\<close>), scripts. SipHash-1-3, which places keys, is defined.

  \<^bold>\<open>Library.\<close> \<open>Prelude\<close> (integers, decimal text, UTF-8), \<open>Text_Lib\<close> (parsing of numbers, case, little-endian
  bytes), \<open>Float64\<close>, \<open>Float64_Text\<close> and \<open>Float_Ops\<close> (IEEE arithmetic and text, \<open>INCRBYFLOAT\<close>), \<open>Sip_Hash\<close>.

  \<^bold>\<open>Wire protocol and commands.\<close> \<open>Resp\<close> and \<open>Resp_Laws\<close>: both RESP parsers and the encoder; the locale
  \<open>framed_parser\<close> is what a connection relies on, and both parsers are instances. Values survive the wire, parts of a value make the parser wait.
  \<open>Command\<close>, \<open>Request\<close>: the commands, their keys and names. \<open>Parser_Lib\<close>, \<open>Parser_Zero_Copy\<close>, \<open>Parser_Resp\<close>,
  \<open>Parser_Laws\<close>: both command parsers; requests are well typed, the parsers agree, and the inputs on which they panic.

  \<^bold>\<open>Store and executor.\<close> \<open>Sds\<close> (strings with inline storage refine byte strings, locale \<open>byte_string\<close>), \<open>Collections\<close> (lists,
  sets, hashes), \<open>Skip_List\<close>, \<open>Skip_List_Laws\<close>, \<open>Skip_List_Links\<close>, \<open>Skip_List_Update\<close>, \<open>Skip_List_Refine\<close> and \<open>Sorted_Set\<close> (the skip list
  with its arena and spans refines a sorted list of pairs). \<open>Executor_Core\<close> has the state, expiry and the relation
  \<open>touches\<close>; \<open>String_Ops\<close>, \<open>Key_Ops\<close>, \<open>List_Ops\<close>, \<open>Set_Ops\<close>, \<open>Hash_Ops\<close>, \<open>Zset_Ops\<close>, \<open>Scan_Ops\<close>, \<open>Config_Ops\<close> and \<open>Glob\<close> the
  commands of one file each, \<open>Executor\<close> their dispatch. \<open>Executor_Laws\<close>, \<open>String_Laws\<close>, \<open>Key_Laws\<close>,
  \<open>Collection_Laws\<close>, \<open>Transactions\<close>: invariants over all runs, frame and errors of every command, what the commands do to
  the live view, and transactions. \<open>Locality\<close>: a command depends on the keys it names only.

  \<^bold>\<open>Access control.\<close> \<open>Acl_Patterns\<close>, \<open>Acl_User\<close>, \<open>Acl_Manager\<close> model \<open>security/acl/\<close>; \<open>Acl_Laws\<close> shows what \<open>ACL SETUSER\<close> grants and
  that the log of denials is a bounded queue, \<open>Acl_File_Laws\<close> that users survive a file.

  \<^bold>\<open>Shards and connections.\<close> \<open>Sharding\<close> and \<open>Sharding_Laws\<close>: the shards answer commands on keys of one shard as
  one store does, and pipelines are sequential; keys of several shards are lost. \<open>Connection\<close> and \<open>Connection_Step\<close> model \<open>connection_optimized.rs\<close> from the bytes
  of a read to the bytes written; \<open>Connection_Laws\<close> shows that the loop ends, that what clients send is answered command by command, that
  outside transactions changes need permission, and the ways around this check.

  \<^bold>\<open>Replication.\<close> \<open>Crdt_Lattice\<close> (the data types; the locale \<open>state_crdt\<close> states what a merge must satisfy, and
  every type is an instance), \<open>Crdt_Cluster\<close> (replicas that exchange states converge), \<open>Replication_State\<close> and
  \<open>Replication_Cluster\<close> (shards that record and apply deltas refine registers, under any delivery). \<open>Hash_Ring\<close>,
  \<open>Gossip\<close>, \<open>Gossip_Laws\<close>: placement, routing and the queue of messages. \<open>Anti_Entropy\<close>: digests and
  synchronisation, and the differences that digests do not show.

  \<^bold>\<open>Write-ahead log.\<close> \<open>Wal\<close>, \<open>Wal_Laws\<close>, \<open>Wal_Commit\<close>: the log refines a list of entries, what is synced
  survives a crash, and when group commit keeps or loses what it has acknowledged.

  \<^bold>\<open>Loops and bounds.\<close> Recursive functions are total, with a measure; the loop of a connection, which could run
  forever on a buffer longer than the address space, is a \<open>partial_function\<close>, and \<open>command_loop_ends\<close> shows that it ends. There is no fuel.
  Buffers are shorter than \<open>2 ^ 63\<close> bytes (\<open>fits\<close>), as every Rust slice is.

  \<^bold>\<open>Simplifications.\<close> A command reads each clock once. Actors handle one message at a time, so a message is one step of the state, and
  the messages of different connections interleave between steps. Writes to a socket succeed.

  \<^bold>\<open>Not modelled.\<close> Lua scripts run in an interpreter of a third party, an argument of the shards. TLS, sockets, timers, metrics, buffer pools
  and the start of the server are I/O or without effect on results. The actors that gossip over the network and the replicated shards join modelled parts by
  channels. The streaming persistence to object stores (segments, manifests, compaction, checkpoints, recovery) is serialisation by libraries over
  remote storage. The simulator, fault injection, randomised tests, models for a model checker and benchmarks are tools of the project, not part of the server.
\<close>

end
